(* ===== verification/Nachos_Prelude.thy ===== *)
theory Nachos_Prelude
  imports Main "HOL-Library.Word"
begin

unbundle bit_operations_syntax

text \<open>
  What every component of the development shares: the result type of C++ code that can
  stop (a failed \<^verbatim>\<open>ASSERT\<close>, a null dereference, an access outside an array, a trapping
  division, a loop that does not end), the two combinators that sequence such code, array
  access as the C++ code does it, the division macros of \<^verbatim>\<open>lib/utility.h\<close>, and the
  little-endian byte encodings of 32-bit words that the simulated memory and the simulated
  disk store. The lemmas that the component proofs use on all of them are collected in
  \<open>nachos_res\<close> (results and arrays) and \<open>nachos_bytes\<close> (encodings).
\<close>

named_theorems nachos_res \<open>rules for results, assertions and array accesses\<close>
named_theorems nachos_bytes \<open>rules for byte encodings\<close>

section \<open>Results of code that may stop\<close>

text \<open>
  \<open>AssertFailed\<close> is the \<^verbatim>\<open>Abort()\<close> of the \<^verbatim>\<open>ASSERT\<close> macro of \<^verbatim>\<open>lib/debug.h\<close>; \<open>SwitchDefault\<close> is the
  \<^verbatim>\<open>ASSERT(FALSE)\<close> in the default of the switch over the operation codes, kept apart from the other assertions. The other
  errors are C++ operations with no defined result, made explicit; \<open>IntOverflow\<close> is a sum that is not an \<^verbatim>\<open>int\<close>.
\<close>

datatype error =
    AssertFailed
  | NullDeref
  | OutOfBounds
  | ArithTrap
  | IntOverflow
  | SwitchDefault
  | Diverges
  | Blocks

type_synonym 'a result = "error + 'a"
type_synonym byte = "8 word"
type_synonym u32 = "32 word"

definition INT_MAX :: int where "INT_MAX = 2147483647"

definition rassert :: "bool \<Rightarrow> 'a result \<Rightarrow> 'a result" where
  "rassert b m = (if b then m else Inl AssertFailed)"

definition rbind :: "'a result \<Rightarrow> ('a \<Rightarrow> 'b result) \<Rightarrow> 'b result" where
  "rbind m f = (case m of Inl e \<Rightarrow> Inl e | Inr x \<Rightarrow> f x)"

lemma rbind_simps [simp]:
  "rbind (Inr x) f = f x"
  "rbind (Inl e) f = Inl e"
  by (simp_all add: rbind_def)

lemma rassert_simps [simp]:
  "rassert True m = m"
  "rassert False m = Inl AssertFailed"
  by (simp_all add: rassert_def)

lemma rbind_Inr_iff [nachos_res]:
  "rbind m f = Inr y \<longleftrightarrow> (\<exists>x. m = Inr x \<and> f x = Inr y)"
  by (cases m) auto

lemma rassert_Inr_iff [nachos_res]:
  "rassert b m = Inr y \<longleftrightarrow> b \<and> m = Inr y"
  by (simp add: rassert_def)

lemma rassertI [nachos_res]: "b \<Longrightarrow> rassert b m = m"
  by simp

lemma rbind_assoc: "rbind (rbind m f) g = rbind m (\<lambda>x. rbind (f x) g)"
  by (cases m) auto

lemma rbind_cong [fundef_cong]:
  "m = n \<Longrightarrow> (\<And>x. n = Inr x \<Longrightarrow> f x = g x) \<Longrightarrow> rbind m f = rbind n g"
  by (cases n) auto

lemma rassert_cong [fundef_cong]:
  "b = c \<Longrightarrow> (c \<Longrightarrow> m = n) \<Longrightarrow> rassert b m = rassert c n"
  by (cases c) auto

section \<open>Arrays\<close>

text \<open>
  A C array is a list; an index outside it has no defined result in the source, which the
  model makes the error \<open>OutOfBounds\<close>. Indices are C \<open>int\<close>s, so they may be negative.
\<close>

definition aread :: "'a list \<Rightarrow> int \<Rightarrow> 'a result" where
  "aread xs i = (if 0 \<le> i \<and> i < int (length xs) then Inr (xs ! nat i) else Inl OutOfBounds)"

definition awrite :: "'a list \<Rightarrow> int \<Rightarrow> 'a \<Rightarrow> 'a list result" where
  "awrite xs i v =
     (if 0 \<le> i \<and> i < int (length xs) then Inr (xs[nat i := v]) else Inl OutOfBounds)"

lemma aread_ok [nachos_res]:
  "0 \<le> i \<Longrightarrow> i < int (length xs) \<Longrightarrow> aread xs i = Inr (xs ! nat i)"
  by (simp add: aread_def)

lemma awrite_ok [nachos_res]:
  "0 \<le> i \<Longrightarrow> i < int (length xs) \<Longrightarrow> awrite xs i v = Inr (xs[nat i := v])"
  by (simp add: awrite_def)

lemma aread_of_nat [simp]: "n < length xs \<Longrightarrow> aread xs (int n) = Inr (xs ! n)"
  by (simp add: aread_def)

lemma awrite_of_nat [simp]: "n < length xs \<Longrightarrow> awrite xs (int n) v = Inr (xs[n := v])"
  by (simp add: awrite_def)

lemma aread_Inr_iff [nachos_res]:
  "aread xs i = Inr v \<longleftrightarrow> 0 \<le> i \<and> i < int (length xs) \<and> v = xs ! nat i"
  by (auto simp: aread_def)

lemma awrite_Inr_iff [nachos_res]:
  "awrite xs i v = Inr ys \<longleftrightarrow> 0 \<le> i \<and> i < int (length xs) \<and> ys = xs[nat i := v]"
  by (auto simp: awrite_def)

section \<open>C division\<close>

text \<open>
  \<open>/\<close> and \<open>%\<close> of C truncate towards zero. \<open>divRoundUp\<close> and \<open>divRoundDown\<close> are the
  macros of \<^verbatim>\<open>lib/utility.h\<close>.
\<close>

definition cdiv :: "int \<Rightarrow> int \<Rightarrow> int" where
  "cdiv a b = sgn a * sgn b * (\<bar>a\<bar> div \<bar>b\<bar>)"

definition cmod :: "int \<Rightarrow> int \<Rightarrow> int" where
  "cmod a b = a - b * cdiv a b"

definition divRoundDown :: "int \<Rightarrow> int \<Rightarrow> int" where
  "divRoundDown n s = cdiv n s"

definition divRoundUp :: "int \<Rightarrow> int \<Rightarrow> int" where
  "divRoundUp n s = cdiv n s + (if cmod n s > 0 then 1 else 0)"

lemma cdiv_nonneg [simp]: "0 \<le> a \<Longrightarrow> 0 < b \<Longrightarrow> cdiv a b = a div b"
  by (cases "a = 0") (simp_all add: cdiv_def)

lemma cmod_nonneg [simp]: "0 \<le> a \<Longrightarrow> 0 < b \<Longrightarrow> cmod a b = a mod b"
  by (simp add: cmod_def minus_mult_div_eq_mod)

lemma cdiv_neg: "a < 0 \<Longrightarrow> 0 < b \<Longrightarrow> cdiv a b = - ((- a) div b)"
  by (simp add: cdiv_def)

lemma cmod_neg_le: "a \<le> 0 \<Longrightarrow> 0 < b \<Longrightarrow> cmod a b \<le> 0"
proof -
  assume a: "a \<le> 0" and b: "0 < b"
  define q where "q = (- a) div b"
  have "b * q \<le> - a"
    using b mult_div_mod_eq [of b "- a"] pos_mod_sign [OF b, of "- a"] by (simp only: q_def)
  moreover have "cdiv a b = - q"
    using a b by (cases "a = 0") (simp_all add: cdiv_neg q_def)
  ultimately show ?thesis by (simp add: cmod_def)
qed

lemma divRoundUp_bounds:
  assumes "0 \<le> n" and "0 < s"
  shows "0 \<le> divRoundUp n s" and "n \<le> s * divRoundUp n s"
    and "s * divRoundUp n s < n + s"
proof -
  define q r where "q = n div s" and "r = n mod s"
  have n: "n = s * q + r" by (simp add: q_def r_def)
  have m: "0 \<le> r" "r < s" "0 \<le> q"
    using assms by (simp_all add: q_def r_def pos_imp_zdiv_nonneg_iff)
  have e: "divRoundUp n s = q + (if r > 0 then 1 else 0)"
    using assms by (simp add: divRoundUp_def q_def r_def)
  show "0 \<le> divRoundUp n s" using m e by simp
  have d: "s * divRoundUp n s = s * q + (if r > 0 then s else 0)"
    by (simp add: e distrib_left)
  show "n \<le> s * divRoundUp n s" and "s * divRoundUp n s < n + s"
    using m d n by (auto split: if_splits)
qed

lemma divRoundUp_nonpos: "n \<le> 0 \<Longrightarrow> 0 < s \<Longrightarrow> divRoundUp n s \<le> 0"
  by (cases "n = 0")
     (auto simp: divRoundUp_def cdiv_neg cdiv_def cmod_neg_le leD pos_imp_zdiv_nonneg_iff
       dest: cmod_neg_le [of n s])

section \<open>Bytes of 32-bit integers\<close>

text \<open>
  The host is little endian (\<^verbatim>\<open>-Dx86\<close>): the four bytes of an \<^verbatim>\<open>int\<close> written through a
  \<^verbatim>\<open>char *\<close>, as the disk's magic number, a file header or a directory entry is, are
  \<open>int_bytes\<close>, and \<open>bytes_int\<close> reads them back. \<open>is_int32\<close> is the range of C's \<^verbatim>\<open>int\<close>.
\<close>

definition le32 :: "u32 \<Rightarrow> byte list" where
  "le32 w = [ucast w, ucast (drop_bit 8 w), ucast (drop_bit 16 w), ucast (drop_bit 24 w)]"

fun un_le32 :: "byte list \<Rightarrow> u32" where
  "un_le32 [a, b, c, d] =
     ucast a OR push_bit 8 (ucast b) OR push_bit 16 (ucast c) OR push_bit 24 (ucast d)"
| "un_le32 bs = 0"

lemma length_le32 [simp, nachos_bytes]: "length (le32 w) = 4"
  by (simp add: le32_def)

lemma un_le32_le32 [simp, nachos_bytes]: "un_le32 (le32 w) = w"
proof (rule bit_word_eqI)
  fix n :: nat
  assume n: "n < LENGTH(32)"
  consider "n < 8" | "8 \<le> n" "n < 16" | "16 \<le> n" "n < 24" | "24 \<le> n" by linarith
  then show "bit (un_le32 (le32 w)) n = bit w n"
    by cases (use n in \<open>auto simp: le32_def bit_simps\<close>)
qed

lemma le32_un_le32 [nachos_bytes]: "length bs = 4 \<Longrightarrow> le32 (un_le32 bs) = bs"
proof -
  assume "length bs = 4"
  then obtain a b c d where bs: "bs = [a, b, c, d]"
    by (auto simp: numeral_eq_Suc length_Suc_conv)
  show ?thesis
    unfolding bs le32_def un_le32.simps list.inject
    by (intro conjI refl; rule bit_word_eqI) (auto simp: bit_simps dest: bit_imp_le_length)
qed

definition int_bytes :: "int \<Rightarrow> byte list" where
  "int_bytes i = le32 (word_of_int i)"

definition bytes_int :: "byte list \<Rightarrow> int" where
  "bytes_int bs = sint (un_le32 bs)"

definition is_int32 :: "int \<Rightarrow> bool" where
  "is_int32 i \<longleftrightarrow> - (2 ^ 31) \<le> i \<and> i < 2 ^ 31"

lemma sint_is_int32 [simp]: "is_int32 (sint (w :: u32))"
  using sint_ge [of w] sint_lt [of w] by (simp add: is_int32_def)

lemma sint_word_of_int32: "is_int32 i \<Longrightarrow> sint (word_of_int i :: u32) = i"
  by (simp add: is_int32_def sint_sbintrunc' signed_take_bit_int_eq_self_iff)

lemma bytes_int_bytes [simp, nachos_bytes]: "is_int32 i \<Longrightarrow> bytes_int (int_bytes i) = i"
  by (simp add: bytes_int_def int_bytes_def sint_word_of_int32)

lemma length_int_bytes [simp, nachos_bytes]: "length (int_bytes i) = 4"
  by (simp add: int_bytes_def)

lemma int_bytes_int [nachos_bytes]: "length bs = 4 \<Longrightarrow> int_bytes (bytes_int bs) = bs"
  by (simp add: bytes_int_def int_bytes_def le32_un_le32)

end
