(* ===== verification/Machine_Stats.thy ===== *)
theory Machine_Stats
  imports Nachos_Prelude
begin

text \<open>
  The statistics record of \<^verbatim>\<open>machine/stats.h\<close> and the time constants in ticks that the device
  simulations use. The constructor leaves \<^verbatim>\<open>numAddressTranslation\<close> alone, so its first value
  is an argument here.
\<close>

record statistics =
  totalTicks :: int
  idleTicks :: int
  systemTicks :: int
  userTicks :: int
  numDiskReads :: int
  numDiskWrites :: int
  numConsoleCharsRead :: int
  numConsoleCharsWritten :: int
  numAddressTranslation :: int
  numPageFaults :: int
  numTLBMiss :: int
  numPacketsSent :: int
  numPacketsRecvd :: int

definition Statistics :: "int \<Rightarrow> statistics" where
  "Statistics junk = \<lparr>totalTicks = 0, idleTicks = 0, systemTicks = 0, userTicks = 0,
     numDiskReads = 0, numDiskWrites = 0, numConsoleCharsRead = 0, numConsoleCharsWritten = 0,
     numAddressTranslation = junk, numPageFaults = 0, numTLBMiss = 0,
     numPacketsSent = 0, numPacketsRecvd = 0\<rparr>"

definition UserTick :: int where "UserTick = 1"
definition SystemTick :: int where "SystemTick = 10"
definition RotationTime :: int where "RotationTime = 500"
definition SeekTime :: int where "SeekTime = 500"
definition ConsoleTime :: int where "ConsoleTime = 100"
definition NetworkTime :: int where "NetworkTime = 100"
definition TimerTicks :: int where "TimerTicks = 100"

end
