(* ===== verification/Disk_Device.thy ===== *)
theory Disk_Device
  imports Machine_Stats
begin

text \<open>
  The simulated disk of \<^verbatim>\<open>machine/disk.h\<close> and \<^verbatim>\<open>machine/disk.cc\<close>, the UNIX file behind it
  (\<^verbatim>\<open>Lseek\<close>, \<^verbatim>\<open>Read\<close>, \<^verbatim>\<open>WriteFile\<close> of \<^verbatim>\<open>lib/sysdep.cc\<close>), and the synchronous interface
  \<^verbatim>\<open>SynchDisk\<close> of \<^verbatim>\<open>filesys/synchdisk.cc\<close>. The timing code is translated with C division and
  shown to compute the rotational latency it describes. \<^verbatim>\<open>SynchDisk\<close> is modelled for one
  thread: waiting in \<^verbatim>\<open>P\<close> lets the clock run to the disk interrupt, whose handler then runs.
  The interface \<open>sector_store\<close> states what the file system relies on, an array of
  \<^verbatim>\<open>NumSectors\<close> sectors, and is interpreted on the translated \<^verbatim>\<open>ReadSector\<close> and
  \<^verbatim>\<open>WriteSector\<close>.
\<close>

section \<open>The UNIX file\<close>

record ufile =
  uf_data :: "byte list"
  uf_pos :: int

definition uf_Lseek :: "ufile \<Rightarrow> int \<Rightarrow> ufile result" where
  "uf_Lseek f offset = rassert (offset \<ge> 0) (Inr (f\<lparr>uf_pos := offset\<rparr>))"

definition uf_Read :: "ufile \<Rightarrow> nat \<Rightarrow> (byte list \<times> ufile) result" where
  "uf_Read f nBytes =
     (let buffer = take nBytes (drop (nat (uf_pos f)) (uf_data f));
          retVal = length buffer in
      rassert (retVal = nBytes) (Inr (buffer, f\<lparr>uf_pos := uf_pos f + int nBytes\<rparr>)))"

text \<open>A write past the end of the file leaves a hole of zero bytes; a write of no bytes leaves the file as it is.\<close>

definition uf_WriteFile :: "ufile \<Rightarrow> byte list \<Rightarrow> ufile result" where
  "uf_WriteFile f buffer =
     (let p = nat (uf_pos f); d = uf_data f in
      Inr (f\<lparr>uf_data := (if buffer = [] then d else take p d @ replicate (p - length d) 0 @ buffer @ drop (p + length buffer) d),
             uf_pos := uf_pos f + int (length buffer)\<rparr>))"

section \<open>The disk\<close>

definition SectorSize :: int where "SectorSize = 128"
definition SectorsPerTrack :: int where "SectorsPerTrack = 32"
definition NumTracks :: int where "NumTracks = 32"
definition NumSectors :: int where "NumSectors = SectorsPerTrack * NumTracks"
definition MagicNumber :: int where "MagicNumber = 0x456789ab"
definition MagicSize :: int where "MagicSize = 4"
definition DiskSize :: int where "DiskSize = MagicSize + NumSectors * SectorSize"

lemmas disk_consts = SectorSize_def SectorsPerTrack_def NumTracks_def NumSectors_def
  MagicSize_def DiskSize_def RotationTime_def SeekTime_def

text \<open>
  \<open>d_irq\<close> is the time of the disk interrupt the disk has scheduled and that has not occurred
  yet: the disk's entry in the pending queue of \<^verbatim>\<open>Interrupt\<close>.
\<close>

record disk =
  d_file :: ufile
  d_active :: bool
  d_lastSector :: int
  d_bufferInit :: int
  d_irq :: "int option"

text \<open>The constructor, given the contents of the file \<^verbatim>\<open>DISK_n\<close> if it exists.\<close>

definition Disk :: "byte list option \<Rightarrow> disk result" where
  "Disk existing =
     rbind (case existing of
              Some data \<Rightarrow>
                rbind (uf_Read \<lparr>uf_data = data, uf_pos = 0\<rparr> (nat MagicSize)) (\<lambda>(magicNum, f).
                  rassert (bytes_int magicNum = MagicNumber) (Inr f))
            | None \<Rightarrow>
                rbind (uf_WriteFile \<lparr>uf_data = [], uf_pos = 0\<rparr> (int_bytes MagicNumber)) (\<lambda>f.
                rbind (uf_Lseek f (DiskSize - 4)) (\<lambda>f.
                uf_WriteFile f (int_bytes 0))))
     (\<lambda>f. Inr \<lparr>d_file = f, d_active = False, d_lastSector = 0, d_bufferInit = 0, d_irq = None\<rparr>)"

text \<open>\<^verbatim>\<open>TimeToSeek\<close> returns the seek time and, through its pointer argument, the rotation.\<close>

definition TimeToSeek :: "disk \<Rightarrow> statistics \<Rightarrow> int \<Rightarrow> int \<times> int" where
  "TimeToSeek d st newSector =
     (let newTrack = cdiv newSector SectorsPerTrack;
          oldTrack = cdiv (d_lastSector d) SectorsPerTrack;
          seek = \<bar>newTrack - oldTrack\<bar> * SeekTime;
          over = cmod (totalTicks st + seek) RotationTime;
          rotation = (if over > 0 then RotationTime - over else 0)
      in (seek, rotation))"

definition ModuloDiff :: "int \<Rightarrow> int \<Rightarrow> int" where
  "ModuloDiff to from =
     (let toOffset = cmod to SectorsPerTrack;
          fromOffset = cmod from SectorsPerTrack
      in cmod ((toOffset - fromOffset) + SectorsPerTrack) SectorsPerTrack)"

definition track_buffer_hit :: "disk \<Rightarrow> statistics \<Rightarrow> int \<Rightarrow> bool" where
  "track_buffer_hit d st newSector =
     (let (seek, rotation) = TimeToSeek d st newSector;
          timeAfter = totalTicks st + seek + rotation in
      seek = 0 \<and> cdiv (timeAfter - d_bufferInit d) RotationTime
                   > ModuloDiff newSector (cdiv (d_bufferInit d) RotationTime))"

definition ComputeLatency :: "disk \<Rightarrow> statistics \<Rightarrow> int \<Rightarrow> bool \<Rightarrow> int" where
  "ComputeLatency d st newSector writing =
     (let (seek, rotation) = TimeToSeek d st newSector;
          timeAfter = totalTicks st + seek + rotation in
      if \<not> writing \<and> track_buffer_hit d st newSector then RotationTime
      else seek + (rotation + ModuloDiff newSector (cdiv timeAfter RotationTime) * RotationTime)
             + RotationTime)"

definition UpdateLast :: "disk \<Rightarrow> statistics \<Rightarrow> int \<Rightarrow> disk" where
  "UpdateLast d st newSector =
     (let (seek, rotate) = TimeToSeek d st newSector;
          d = (if seek \<noteq> 0 then d\<lparr>d_bufferInit := totalTicks st + seek + rotate\<rparr> else d)
      in d\<lparr>d_lastSector := newSector\<rparr>)"

text \<open>\<^verbatim>\<open>kernel->interrupt->Schedule(this, ticks, DiskInt)\<close>, which asserts a delay in the future.\<close>

definition disk_schedule :: "disk \<Rightarrow> statistics \<Rightarrow> int \<Rightarrow> disk result" where
  "disk_schedule d st ticks = rassert (ticks > 0) (Inr (d\<lparr>d_irq := Some (totalTicks st + ticks)\<rparr>))"

definition ReadRequest :: "disk \<Rightarrow> statistics \<Rightarrow> int \<Rightarrow> (byte list \<times> disk \<times> statistics) result" where
  "ReadRequest d st sectorNumber =
     (let ticks = ComputeLatency d st sectorNumber False in
      rassert (\<not> d_active d)
     (rassert (sectorNumber \<ge> 0 \<and> sectorNumber < NumSectors)
     (rbind (uf_Lseek (d_file d) (SectorSize * sectorNumber + MagicSize)) (\<lambda>f.
      rbind (uf_Read f (nat SectorSize)) (\<lambda>(data, f).
      let d = UpdateLast (d\<lparr>d_file := f, d_active := True\<rparr>) st sectorNumber;
          st = st\<lparr>numDiskReads := numDiskReads st + 1\<rparr> in
      rbind (disk_schedule d st ticks) (\<lambda>d. Inr (data, d, st)))))))"

definition WriteRequest :: "disk \<Rightarrow> statistics \<Rightarrow> int \<Rightarrow> byte list \<Rightarrow> (disk \<times> statistics) result" where
  "WriteRequest d st sectorNumber data =
     (let ticks = ComputeLatency d st sectorNumber True in
      rassert (\<not> d_active d)
     (rassert (sectorNumber \<ge> 0 \<and> sectorNumber < NumSectors)
     (rbind (uf_Lseek (d_file d) (SectorSize * sectorNumber + MagicSize)) (\<lambda>f.
      rbind (if int (length data) < SectorSize then Inl OutOfBounds
             else uf_WriteFile f (take (nat SectorSize) data)) (\<lambda>f.
      let d = UpdateLast (d\<lparr>d_file := f, d_active := True\<rparr>) st sectorNumber;
          st = st\<lparr>numDiskWrites := numDiskWrites st + 1\<rparr> in
      rbind (disk_schedule d st ticks) (\<lambda>d. Inr (d, st)))))))"

section \<open>The synchronous disk\<close>

record synchdisk =
  sd_semaphore :: int
  sd_lock :: bool
  sd_disk :: disk
  sd_stats :: statistics

definition SynchDisk :: "byte list option \<Rightarrow> statistics \<Rightarrow> synchdisk result" where
  "SynchDisk existing st =
     rbind (Disk existing) (\<lambda>d.
       Inr \<lparr>sd_semaphore = 0, sd_lock = False, sd_disk = d, sd_stats = st\<rparr>)"

definition sd_CallBack :: "synchdisk \<Rightarrow> synchdisk" where
  "sd_CallBack s = s\<lparr>sd_semaphore := sd_semaphore s + 1\<rparr>"

definition disk_CallBack :: "synchdisk \<Rightarrow> synchdisk" where
  "disk_CallBack s = sd_CallBack (s\<lparr>sd_disk := (sd_disk s)\<lparr>d_active := False\<rparr>\<rparr>)"

text \<open>
  The disk interrupt: the idle machine advances the clock to its time, takes it from the
  queue and calls the handler. Without a pending one the thread would wait forever.
\<close>

definition sd_interrupt :: "synchdisk \<Rightarrow> synchdisk result" where
  "sd_interrupt s =
     (case d_irq (sd_disk s) of None \<Rightarrow> Inl Blocks
      | Some due \<Rightarrow>
          let st = sd_stats s; delay = max 0 (due - totalTicks st);
              st = st\<lparr>idleTicks := idleTicks st + delay, totalTicks := totalTicks st + delay\<rparr>
          in Inr (disk_CallBack (s\<lparr>sd_stats := st, sd_disk := (sd_disk s)\<lparr>d_irq := None\<rparr>\<rparr>)))"

definition sd_P :: "synchdisk \<Rightarrow> synchdisk result" where
  "sd_P s =
     rbind (if sd_semaphore s = 0 then sd_interrupt s else Inr s)
       (\<lambda>s. Inr (s\<lparr>sd_semaphore := sd_semaphore s - 1\<rparr>))"

definition sd_Acquire :: "synchdisk \<Rightarrow> synchdisk result" where
  "sd_Acquire s = (if sd_lock s then Inl Blocks else Inr (s\<lparr>sd_lock := True\<rparr>))"

definition sd_Release :: "synchdisk \<Rightarrow> synchdisk result" where
  "sd_Release s = rassert (sd_lock s) (Inr (s\<lparr>sd_lock := False\<rparr>))"

definition ReadSector :: "synchdisk \<Rightarrow> int \<Rightarrow> (byte list \<times> synchdisk) result" where
  "ReadSector s sectorNumber =
     rbind (sd_Acquire s) (\<lambda>s.
     rbind (ReadRequest (sd_disk s) (sd_stats s) sectorNumber) (\<lambda>(data, d, st).
     rbind (sd_P (s\<lparr>sd_disk := d, sd_stats := st\<rparr>)) (\<lambda>s.
     rbind (sd_Release s) (\<lambda>s. Inr (data, s)))))"

definition WriteSector :: "synchdisk \<Rightarrow> int \<Rightarrow> byte list \<Rightarrow> synchdisk result" where
  "WriteSector s sectorNumber data =
     rbind (sd_Acquire s) (\<lambda>s.
     rbind (WriteRequest (sd_disk s) (sd_stats s) sectorNumber data) (\<lambda>(d, st).
     rbind (sd_P (s\<lparr>sd_disk := d, sd_stats := st\<rparr>)) (\<lambda>s.
     sd_Release s)))"

section \<open>Latency\<close>

lemma ModuloDiff_eq: "0 \<le> a \<Longrightarrow> 0 \<le> b \<Longrightarrow> ModuloDiff a b = (a - b) mod 32"
proof -
  assume "0 \<le> a" "0 \<le> b"
  moreover have "0 \<le> a mod 32 - b mod 32 + 32" for a b :: int
    using pos_mod_bound [of 32 b] pos_mod_sign [of 32 a] by linarith
  ultimately show ?thesis by (simp add: ModuloDiff_def SectorsPerTrack_def mod_diff_eq)
qed

lemma TimeToSeek_props:
  assumes "TimeToSeek d st n = (seek, rot)" and "0 \<le> totalTicks st"
  shows "0 \<le> seek" and "0 \<le> rot" and "rot < 500" and "(totalTicks st + seek + rot) mod 500 = 0"
proof -
  show seek: "0 \<le> seek" using assms(1) by (auto simp: TimeToSeek_def Let_def disk_consts)
  define over where "over = (totalTicks st + seek) mod 500"
  have o: "0 \<le> over" "over < 500" by (simp_all add: over_def)
  have "cmod (totalTicks st + seek) RotationTime = over"
    using seek assms(2) by (simp add: over_def RotationTime_def)
  then have rot: "rot = (if over > 0 then 500 - over else 0)"
    using assms(1) by (auto simp: TimeToSeek_def Let_def RotationTime_def)
  show "0 \<le> rot" "rot < 500" using rot o by auto
  define q where "q = (totalTicks st + seek) div 500"
  have "totalTicks st + seek = 500 * q + over" by (simp add: q_def over_def)
  then have "totalTicks st + seek + rot = 500 * (q + (if over > 0 then 1 else 0))"
    using rot o by (auto simp: distrib_left)
  then show "(totalTicks st + seek + rot) mod 500 = 0" by simp
qed


text \<open>The range of the disk's own state.\<close>

definition disk_ok :: "disk \<Rightarrow> statistics \<Rightarrow> bool" where
  "disk_ok d st \<longleftrightarrow> 0 \<le> totalTicks st \<and> 0 \<le> d_bufferInit d \<and> 0 \<le> d_lastSector d \<and> d_lastSector d < NumSectors
     \<and> length (uf_data (d_file d)) = nat DiskSize"

lemma seek_bound:
  assumes "TimeToSeek d st n = (seek, rot)" and "disk_ok d st" and "0 \<le> n" "n < NumSectors"
  shows "seek \<le> 31 * SeekTime"
proof -
  have "0 \<le> n div 32" "n div 32 \<le> 31" "0 \<le> d_lastSector d div 32" "d_lastSector d div 32 \<le> 31"
    using assms by (auto simp: disk_ok_def disk_consts)
  then have "\<bar>n div 32 - d_lastSector d div 32\<bar> \<le> 31" by linarith
  then show ?thesis using assms by (auto simp: TimeToSeek_def Let_def disk_ok_def disk_consts)
qed

lemma ComputeLatency_eq:
  assumes "TimeToSeek d st n = (seek, rot)" and "0 \<le> totalTicks st" and "0 \<le> n"
  shows "ComputeLatency d st n w =
    (if \<not> w \<and> track_buffer_hit d st n then 500
     else seek + rot + (n - (totalTicks st + seek + rot) div 500) mod 32 * 500 + 500)"
  using assms TimeToSeek_props [OF assms(1,2)]
  by (simp add: ComputeLatency_def RotationTime_def ModuloDiff_eq pos_imp_zdiv_nonneg_iff)

lemma ComputeLatency_pos:
  assumes "0 \<le> totalTicks st" and "0 \<le> n"
  shows "500 \<le> ComputeLatency d st n w"
proof -
  obtain seek rot where s: "TimeToSeek d st n = (seek, rot)" by force
  show ?thesis using ComputeLatency_eq [OF s assms] TimeToSeek_props [OF s assms(1)] by auto
qed

text \<open>
  The arithmetic behind the rotational delay: the first time after \<open>t\<close>, a sector boundary,
  at which the head has just passed sector \<open>n\<close>.
\<close>

definition passed_at :: "int \<Rightarrow> int \<Rightarrow> bool" where
  "passed_at n t \<longleftrightarrow> t mod RotationTime = 0
     \<and> (t div RotationTime - 1) mod SectorsPerTrack = n mod SectorsPerTrack"

lemma rotation_done:
  fixes t n :: int
  assumes t: "t mod 500 = 0" and T: "T = t + (n - t div 500) mod 32 * 500 + 500"
  shows "passed_at n T" and "t + 500 \<le> T' \<Longrightarrow> passed_at n T' \<Longrightarrow> T \<le> T'"
proof -
  define q where "q = t div 500"
  have tq: "t = 500 * q" using t mult_div_mod_eq [of 500 t] by (simp only: q_def add_0_right)
  then have Tq: "T = 500 * (q + (n - q) mod 32 + 1)" using T by simp
  have "(q + (n - q) mod 32) mod 32 = n mod 32" by (simp add: mod_add_right_eq)
  then show "passed_at n T"
    unfolding passed_at_def RotationTime_def SectorsPerTrack_def Tq by simp
  assume ge: "t + 500 \<le> T'" and p: "passed_at n T'"
  define r where "r = T' div 500"
  have Tr: "T' = 500 * r" and m: "(r - 1) mod 32 = n mod 32"
    using p by (auto simp: passed_at_def RotationTime_def SectorsPerTrack_def r_def)
  have "0 \<le> r - 1 - q" using ge tq Tr by simp
  moreover have "(r - 1 - q) mod 32 = (n - q) mod 32" using m by (rule mod_diff_cong) simp
  ultimately have "(n - q) mod 32 \<le> r - 1 - q" by (metis zmod_le_nonneg_dividend)
  then show "T \<le> T'" using Tq Tr by simp
qed


text \<open>A multiple of 500 that is at least \<open>x\<close> is at least the next multiple of 500 after \<open>x\<close>.\<close>

lemma next_boundary:
  fixes x r T :: int
  assumes "x + 500 \<le> T" and "r < 500" and "(x + r) mod 500 = 0" and "T mod 500 = 0"
  shows "x + r + 500 \<le> T"
proof -
  obtain a b where a: "x + r = 500 * a" and b: "T = 500 * b"
    using assms(3,4) by (metis mod_0_imp_dvd dvd_def)
  then have "500 * a < 500 * b" using assms(1,2) by linarith
  then show ?thesis using a b by simp
qed

text \<open>
  The track buffer: since the buffer began to fill, at a sector boundary, the head has passed the sector. \<open>q\<close> and \<open>p\<close> count the sectors up to the
  beginning and up to the end of the time considered.
\<close>

lemma passed_between:
  fixes p q n :: int
  shows "(\<exists>T. 500 * q + 500 \<le> T \<and> T \<le> 500 * p \<and> passed_at n T) \<longleftrightarrow> (n - q) mod 32 < p - q"
proof
  assume "\<exists>T. 500 * q + 500 \<le> T \<and> T \<le> 500 * p \<and> passed_at n T"
  then obtain T where T: "500 * q + 500 \<le> T" "T \<le> 500 * p" "passed_at n T" by blast
  define r where "r = T div 500"
  have "T = 500 * r" using T(3) mult_div_mod_eq [of 500 T] by (simp add: r_def passed_at_def RotationTime_def)
  then have r: "q + 1 \<le> r" "r \<le> p" "(r - 1) mod 32 = n mod 32"
    using T by (simp_all add: passed_at_def RotationTime_def SectorsPerTrack_def)
  have "(n - q) mod 32 = (r - 1 - q) mod 32" using r(3) by (metis mod_diff_left_eq)
  also have "\<dots> \<le> r - 1 - q" using r(1) by (intro zmod_le_nonneg_dividend) simp
  finally show "(n - q) mod 32 < p - q" using r(2) by linarith
next
  assume a: "(n - q) mod 32 < p - q"
  have "(q + (n - q) mod 32) mod 32 = n mod 32" by (simp add: mod_add_right_eq)
  then have "passed_at n (500 * (q + (n - q) mod 32 + 1))" by (simp add: passed_at_def RotationTime_def SectorsPerTrack_def)
  moreover have "0 \<le> (n - q) mod 32" by simp
  ultimately show "\<exists>T. 500 * q + 500 \<le> T \<and> T \<le> 500 * p \<and> passed_at n T"
    using a by (intro exI [of _ "500 * (q + (n - q) mod 32 + 1)"]) (simp add: algebra_simps)
qed

lemma seek_zero:
  assumes "TimeToSeek d st n = (seek, rot)" and "0 \<le> n" "0 \<le> d_lastSector d"
  shows "seek = 0 \<longleftrightarrow> n div SectorsPerTrack = d_lastSector d div SectorsPerTrack"
  using assms by (auto simp: TimeToSeek_def Let_def disk_consts)

lemma cdiv_500: "cdiv (500 * k) 500 = k"
proof (cases "0 \<le> k")
  case False
  have "(- (500 * k)) div 500 = - k" using nonzero_mult_div_cancel_left [of 500 "- k"] by simp
  then show ?thesis using False by (subst cdiv_neg) simp_all
qed simp

lemma track_buffer_hit_iff:
  assumes "TimeToSeek d st n = (seek, rot)" and "disk_ok d st" and "0 \<le> n" and "d_bufferInit d mod RotationTime = 0"
  shows "track_buffer_hit d st n \<longleftrightarrow> n div SectorsPerTrack = d_lastSector d div SectorsPerTrack
    \<and> (\<exists>T. d_bufferInit d + RotationTime \<le> T \<and> T \<le> totalTicks st + rot \<and> passed_at n T)"
proof -
  have ok: "0 \<le> totalTicks st" "0 \<le> d_bufferInit d" "0 \<le> d_lastSector d" using assms(2) by (auto simp: disk_ok_def)
  obtain q where q: "d_bufferInit d = 500 * q" using assms(4) by (auto simp: RotationTime_def dest!: mod_0_imp_dvd elim!: dvdE)
  obtain p where p: "totalTicks st + seek + rot = 500 * p"
    using TimeToSeek_props(4) [OF assms(1) ok(1)] by (auto dest!: mod_0_imp_dvd elim!: dvdE)
  have "cdiv (totalTicks st + seek + rot - d_bufferInit d) 500 = p - q" using p q cdiv_500 [of "p - q"] by (simp add: right_diff_distrib)
  moreover have "ModuloDiff n q = (n - q) mod 32" using q ok(2) assms(3) by (simp add: ModuloDiff_eq)
  ultimately have "track_buffer_hit d st n \<longleftrightarrow> seek = 0 \<and> (n - q) mod 32 < p - q"
    by (simp add: track_buffer_hit_def assms(1) Let_def RotationTime_def) (simp add: q cdiv_500)
  moreover have "seek = 0 \<Longrightarrow> totalTicks st + rot = 500 * p" using p by simp
  ultimately show ?thesis
    using passed_between [of q p n] seek_zero [OF assms(1,3) ok(3)] by (auto simp: RotationTime_def q)
qed

lemma UpdateLast_boundary:
  assumes "disk_ok d st" and "d_bufferInit d mod RotationTime = 0"
  shows "d_bufferInit (UpdateLast d st n) mod RotationTime = 0"
proof -
  obtain seek rot where t: "TimeToSeek d st n = (seek, rot)" by force
  have "0 \<le> totalTicks st" using assms(1) by (simp add: disk_ok_def)
  then show ?thesis using TimeToSeek_props(4) [OF t] assms(2) by (simp add: UpdateLast_def t Let_def RotationTime_def)
qed

section \<open>The disk as an array of sectors\<close>

definition sector_of :: "synchdisk \<Rightarrow> int \<Rightarrow> byte list" where
  "sector_of s i = take 128 (drop (nat (SectorSize * i + MagicSize)) (uf_data (d_file (sd_disk s))))"

definition sd_ready :: "synchdisk \<Rightarrow> bool" where
  "sd_ready s \<longleftrightarrow> sd_semaphore s = 0 \<and> \<not> sd_lock s \<and> \<not> d_active (sd_disk s) \<and> d_irq (sd_disk s) = None
     \<and> disk_ok (sd_disk s) (sd_stats s)
     \<and> take 4 (uf_data (d_file (sd_disk s))) = int_bytes MagicNumber"

definition valid_sector :: "int \<Rightarrow> bool" where
  "valid_sector i \<longleftrightarrow> 0 \<le> i \<and> i < NumSectors"

locale sector_store =
  fixes ready :: "'s \<Rightarrow> bool"
    and sector :: "'s \<Rightarrow> int \<Rightarrow> byte list"
    and rd :: "'s \<Rightarrow> int \<Rightarrow> (byte list \<times> 's) result"
    and wr :: "'s \<Rightarrow> int \<Rightarrow> byte list \<Rightarrow> 's result"
  assumes sector_length: "ready s \<Longrightarrow> valid_sector i \<Longrightarrow> length (sector s i) = 128"
    and rd_law: "ready s \<Longrightarrow> valid_sector i \<Longrightarrow>
      \<exists>s'. rd s i = Inr (sector s i, s') \<and> ready s' \<and> sector s' = sector s"
    and wr_law: "ready s \<Longrightarrow> valid_sector i \<Longrightarrow> length bs = 128 \<Longrightarrow>
      \<exists>s'. wr s i bs = Inr s' \<and> ready s' \<and> (\<forall>j. valid_sector j \<longrightarrow> sector s' j = (if j = i then bs else sector s j))"
    and rd_bad: "ready s \<Longrightarrow> \<not> valid_sector i \<Longrightarrow> rd s i = Inl AssertFailed"
    and wr_bad: "ready s \<Longrightarrow> \<not> valid_sector i \<Longrightarrow> wr s i bs = Inl AssertFailed"

text \<open>Runs of sectors, as the file system's loops read and write them.\<close>

fun read_sectors :: "('s \<Rightarrow> int \<Rightarrow> (byte list \<times> 's) result) \<Rightarrow> 's \<Rightarrow> int list \<Rightarrow> (byte list \<times> 's) result" where
  "read_sectors rd s [] = Inr ([], s)"
| "read_sectors rd s (i # is) =
     rbind (rd s i) (\<lambda>(b, s). rbind (read_sectors rd s is) (\<lambda>(bs, s). Inr (b @ bs, s)))"

fun write_sectors :: "('s \<Rightarrow> int \<Rightarrow> byte list \<Rightarrow> 's result) \<Rightarrow> 's \<Rightarrow> int list \<Rightarrow> byte list \<Rightarrow> 's result" where
  "write_sectors wr s [] bs = Inr s"
| "write_sectors wr s (i # is) bs =
     rbind (wr s i (take 128 bs)) (\<lambda>s. write_sectors wr s is (drop 128 bs))"

context sector_store
begin

lemma read_sectors_ok:
  "ready s \<Longrightarrow> \<forall>i \<in> set is. valid_sector i \<Longrightarrow>
     \<exists>s'. read_sectors rd s is = Inr (concat (map (sector s) is), s') \<and> ready s' \<and> sector s' = sector s"
proof (induction "is" arbitrary: s)
  case (Cons i "is")
  obtain s1 where s1: "rd s i = Inr (sector s i, s1)" "ready s1" "sector s1 = sector s"
    using rd_law [of s i] Cons.prems by auto
  then show ?case using Cons.IH [of s1] Cons.prems by auto
qed auto

lemma write_sectors_ok:
  assumes "ready s" and "\<forall>i \<in> set is. valid_sector i" and "distinct is" and "length bs = 128 * length is"
  shows "\<exists>s'. write_sectors wr s is bs = Inr s' \<and> ready s' \<and> concat (map (sector s') is) = bs
    \<and> (\<forall>j. valid_sector j \<longrightarrow> j \<notin> set is \<longrightarrow> sector s' j = sector s j)"
  using assms
proof (induction "is" arbitrary: s bs)
  case (Cons i "is")
  obtain s1 where s1: "wr s i (take 128 bs) = Inr s1" "ready s1"
    "\<forall>j. valid_sector j \<longrightarrow> sector s1 j = (if j = i then take 128 bs else sector s j)"
    using wr_law [of s i "take 128 bs"] Cons.prems by auto
  obtain s2 where s2: "write_sectors wr s1 is (drop 128 bs) = Inr s2" "ready s2"
    "concat (map (sector s2) is) = drop 128 bs"
    "\<forall>j. valid_sector j \<longrightarrow> j \<notin> set is \<longrightarrow> sector s2 j = sector s1 j"
    using Cons.IH [OF s1(2), of "drop 128 bs"] Cons.prems by auto
  have "sector s2 i = take 128 bs" using s2(4) s1(3) Cons.prems by auto
  then have "concat (map (sector s2) (i # is)) = bs" using s2(3) by simp
  then show ?case using s1 s2 by auto
qed auto

text \<open>Reading back a run of sectors returns what was written to it.\<close>

lemma write_read_sectors:
  assumes "ready s" and "\<forall>i \<in> set is. valid_sector i" and "distinct is" and "length bs = 128 * length is"
  shows "\<exists>s' s''. write_sectors wr s is bs = Inr s' \<and> read_sectors rd s' is = Inr (bs, s'') \<and> ready s''"
proof -
  obtain s' where s': "write_sectors wr s is bs = Inr s'" "ready s'" "concat (map (sector s') is) = bs"
    using write_sectors_ok [OF assms] by auto
  then show ?thesis using read_sectors_ok [OF s'(2) assms(2)] by auto
qed

end

lemma sector_in_file:
  "valid_sector i \<Longrightarrow> SectorSize * i + MagicSize \<ge> 0 \<and> nat (SectorSize * i + MagicSize) + 128 \<le> nat DiskSize"
  by (auto simp: valid_sector_def disk_consts nat_add_distrib)

lemma UpdateLast_fields [simp]:
  "d_file (UpdateLast d st n) = d_file d" "d_active (UpdateLast d st n) = d_active d"
  "d_irq (UpdateLast d st n) = d_irq d" "d_lastSector (UpdateLast d st n) = n"
  by (simp_all add: UpdateLast_def Let_def split: prod.split)

lemma UpdateLast_buffer:
  assumes "0 \<le> totalTicks st" and "0 \<le> d_bufferInit d"
  shows "0 \<le> d_bufferInit (UpdateLast d st n)"
proof -
  obtain seek rot where s: "TimeToSeek d st n = (seek, rot)" by force
  show ?thesis using assms TimeToSeek_props [OF s assms(1)] by (simp add: UpdateLast_def s)
qed

lemma ComputeLatency_sched: "disk_ok d st \<Longrightarrow> valid_sector i \<Longrightarrow> 0 < ComputeLatency d st i w"
  using ComputeLatency_pos [of st i d w] by (simp add: disk_ok_def valid_sector_def)

lemma ReadSector_ok:
  assumes r: "sd_ready s" and i: "valid_sector i"
  shows "\<exists>s'. ReadSector s i = Inr (sector_of s i, s') \<and> sd_ready s' \<and> sector_of s' = sector_of s"
proof -
  let ?d = "sd_disk s" and ?st = "sd_stats s"
  let ?off = "SectorSize * i + MagicSize"
  let ?f = "(d_file ?d)\<lparr>uf_pos := ?off + 128\<rparr>"
  let ?d' = "UpdateLast (?d\<lparr>d_file := ?f, d_active := True\<rparr>) ?st i"
  let ?ticks = "ComputeLatency ?d ?st i False"
  have ok: "disk_ok ?d ?st" "\<not> sd_lock s" "\<not> d_active ?d" "sd_semaphore s = 0"
    using r by (simp_all add: sd_ready_def)
  have pos: "0 < ?ticks" by (rule ComputeLatency_sched [OF ok(1) i])
  have off: "?off \<ge> 0" "nat ?off + 128 \<le> length (uf_data (d_file ?d))"
    using sector_in_file [OF i] ok(1) by (simp_all add: disk_ok_def)
  have "ReadRequest ?d ?st i = Inr (sector_of s i, ?d'\<lparr>d_irq := Some (totalTicks ?st + ?ticks)\<rparr>,
      ?st\<lparr>numDiskReads := numDiskReads ?st + 1\<rparr>)"
    using ok i pos off
    by (simp add: ReadRequest_def uf_Lseek_def uf_Read_def disk_schedule_def valid_sector_def
        sector_of_def SectorSize_def)
  then have rs: "ReadSector s i = Inr (sector_of s i, s\<lparr>sd_disk := ?d'\<lparr>d_irq := None, d_active := False\<rparr>,
      sd_stats := ?st\<lparr>numDiskReads := numDiskReads ?st + 1, idleTicks := idleTicks ?st + ?ticks,
        totalTicks := totalTicks ?st + ?ticks\<rparr>\<rparr>)"
    using ok pos
    by (cases s) (simp add: ReadSector_def sd_Acquire_def sd_P_def sd_interrupt_def disk_CallBack_def
        sd_CallBack_def sd_Release_def Let_def)
  show ?thesis
    unfolding rs
    using r pos i UpdateLast_buffer [of ?st "?d\<lparr>d_file := ?f, d_active := True\<rparr>" i]
    by (auto simp: sd_ready_def disk_ok_def valid_sector_def sector_of_def)
qed


text \<open>Overwriting 128 bytes of the file: only the sector they make up changes.\<close>

lemma sector_splice:
  assumes "length d = nat DiskSize" and i: "valid_sector i" and j: "valid_sector j" and "length bs = 128"
  defines "q \<equiv> nat (SectorSize * i + MagicSize)" and "p \<equiv> nat (SectorSize * j + MagicSize)"
  shows "take 128 (drop p (take q d @ bs @ drop (q + 128) d)) = (if j = i then bs else take 128 (drop p d))"
proof -
  have ob: "q + 128 \<le> length d" "p + 128 \<le> length d"
    using sector_in_file [OF i] sector_in_file [OF j] assms by simp_all
  consider "j = i" | "p + 128 \<le> q" | "q + 128 \<le> p"
    using i j by (fastforce simp: q_def p_def valid_sector_def disk_consts)
  then show ?thesis
  proof cases
    case 1
    then show ?thesis using ob assms by simp
  next
    case 2
    then have "j \<noteq> i" by (auto simp: q_def p_def)
    then show ?thesis using 2 ob by (auto simp: drop_take min_def)
  next
    case 3
    then have "j \<noteq> i" by (auto simp: q_def p_def)
    then show ?thesis using 3 ob assms(4) by (simp add: min_def)
  qed
qed

lemma WriteSector_ok:
  assumes r: "sd_ready s" and i: "valid_sector i" and len: "length bs = 128"
  shows "\<exists>s'. WriteSector s i bs = Inr s' \<and> sd_ready s'
    \<and> (\<forall>j. valid_sector j \<longrightarrow> sector_of s' j = (if j = i then bs else sector_of s j))"
proof -
  let ?d = "sd_disk s" and ?st = "sd_stats s"
  let ?off = "SectorSize * i + MagicSize" and ?b = "uf_data (d_file (sd_disk s))"
  let ?b' = "take (nat ?off) ?b @ bs @ drop (nat ?off + 128) ?b"
  let ?f = "(d_file ?d)\<lparr>uf_data := ?b', uf_pos := ?off + 128\<rparr>"
  let ?d' = "UpdateLast (?d\<lparr>d_file := ?f, d_active := True\<rparr>) ?st i"
  let ?ticks = "ComputeLatency ?d ?st i True"
  have ok: "disk_ok ?d ?st" "\<not> sd_lock s" "\<not> d_active ?d" "sd_semaphore s = 0"
    using r by (simp_all add: sd_ready_def)
  have pos: "0 < ?ticks" by (rule ComputeLatency_sched [OF ok(1) i])
  have off: "?off \<ge> 0" "nat ?off + 128 \<le> length ?b" "length ?b = nat DiskSize"
    using sector_in_file [OF i] ok(1) by (simp_all add: disk_ok_def)
  have ne: "bs \<noteq> []" using len by auto
  have "WriteRequest ?d ?st i bs = Inr (?d'\<lparr>d_irq := Some (totalTicks ?st + ?ticks)\<rparr>,
      ?st\<lparr>numDiskWrites := numDiskWrites ?st + 1\<rparr>)"
    using ok i pos off len ne
    by (simp add: WriteRequest_def uf_Lseek_def uf_WriteFile_def disk_schedule_def valid_sector_def
        sector_of_def SectorSize_def Let_def)
  then have rs: "WriteSector s i bs = Inr (s\<lparr>sd_disk := ?d'\<lparr>d_irq := None, d_active := False\<rparr>,
      sd_stats := ?st\<lparr>numDiskWrites := numDiskWrites ?st + 1, idleTicks := idleTicks ?st + ?ticks,
        totalTicks := totalTicks ?st + ?ticks\<rparr>\<rparr>)"
    using ok pos
    by (cases s) (simp add: WriteSector_def sd_Acquire_def sd_P_def sd_interrupt_def disk_CallBack_def
        sd_CallBack_def sd_Release_def Let_def)
  have "4 \<le> nat ?off" using i by (auto simp: valid_sector_def disk_consts)
  then have "take 4 ?b' = take 4 ?b" using off by (simp add: min_def)
  moreover have "length ?b' = nat DiskSize" using off len by simp
  ultimately show ?thesis
    unfolding rs
    using r pos i sector_splice [OF off(3) i _ len]
      UpdateLast_buffer [of ?st "?d\<lparr>d_file := ?f, d_active := True\<rparr>" i]
    by (auto simp: sd_ready_def disk_ok_def valid_sector_def sector_of_def)
qed

interpretation sd: sector_store sd_ready sector_of ReadSector WriteSector
proof unfold_locales
  fix s :: synchdisk and i :: int and bs :: "byte list"
  assume r: "sd_ready s"
  show "valid_sector i \<Longrightarrow> length (sector_of s i) = 128"
    using sector_in_file [of i] r by (auto simp: sector_of_def sd_ready_def disk_ok_def min_def)
  show "valid_sector i \<Longrightarrow> \<exists>s'. ReadSector s i = Inr (sector_of s i, s') \<and> sd_ready s' \<and> sector_of s' = sector_of s"
    by (rule ReadSector_ok [OF r])
  show "valid_sector i \<Longrightarrow> length bs = 128 \<Longrightarrow> \<exists>s'. WriteSector s i bs = Inr s' \<and> sd_ready s' \<and>
      (\<forall>j. valid_sector j \<longrightarrow> sector_of s' j = (if j = i then bs else sector_of s j))"
    by (rule WriteSector_ok [OF r])
  show "\<not> valid_sector i \<Longrightarrow> ReadSector s i = Inl AssertFailed"
    "\<not> valid_sector i \<Longrightarrow> WriteSector s i bs = Inl AssertFailed"
    using r by (auto simp: ReadSector_def WriteSector_def sd_Acquire_def ReadRequest_def WriteRequest_def
        valid_sector_def sd_ready_def Let_def rassert_def)
qed

lemma magic_int32: "is_int32 MagicNumber"
  by (simp add: MagicNumber_def is_int32_def)

lemma disk_ready_exists: "\<exists>s. sd_ready s"
proof -
  let ?b = "int_bytes MagicNumber @ replicate 131072 (0 :: byte)"
  let ?s = "\<lparr>sd_semaphore = 0, sd_lock = False, sd_disk = \<lparr>d_file = \<lparr>uf_data = ?b, uf_pos = 0\<rparr>,
    d_active = False, d_lastSector = 0, d_bufferInit = 0, d_irq = None\<rparr>, sd_stats = Statistics 0\<rparr>"
  have "sd_ready ?s"
    by (simp add: sd_ready_def disk_ok_def disk_consts Statistics_def)
  then show ?thesis by blast
qed

section \<open>The promises of the disk\<close>

text \<open>
  C30: the latency the simulation charges is the time of the physical disk it describes.
  A sector is in the track buffer exactly when it is on the track of the last request and, between the time at which the buffer began to fill,
  a sector boundary, and the next sector boundary from now, the head has passed it; reading it then takes one sector time. In all other
  cases, also for every write, the request to sector \<open>n\<close> completes at the first
  sector boundary, after the seek and one sector time, at which the head has just passed
  \<open>n\<close>. A request takes at least one sector time, and at most a full seek and turn; it leaves the beginning of the buffer at a sector boundary.
\<close>

theorem disk_latency:
  assumes "disk_ok d st" and "0 \<le> n" and "n < NumSectors" and "TimeToSeek d st n = (seek, rot)" and "d_bufferInit d mod RotationTime = 0"
  shows "RotationTime \<le> ComputeLatency d st n w
    \<and> ComputeLatency d st n w \<le> 31 * SeekTime + (SectorsPerTrack + 1) * RotationTime
    \<and> (if \<not> w \<and> n div SectorsPerTrack = d_lastSector d div SectorsPerTrack
          \<and> (\<exists>T. d_bufferInit d + RotationTime \<le> T \<and> T \<le> totalTicks st + rot \<and> passed_at n T)
        then ComputeLatency d st n w = RotationTime
        else passed_at n (totalTicks st + ComputeLatency d st n w)
          \<and> (\<forall>T'. totalTicks st + seek + RotationTime \<le> T' \<longrightarrow> passed_at n T' \<longrightarrow>
                totalTicks st + ComputeLatency d st n w \<le> T'))
    \<and> d_bufferInit (UpdateLast d st n) mod RotationTime = 0"
proof -
  have t0: "0 \<le> totalTicks st" using assms(1) by (simp add: disk_ok_def)
  note e = ComputeLatency_eq [OF assms(4) t0 assms(2), of w] and p = TimeToSeek_props [OF assms(4) t0]
  let ?t = "totalTicks st + seek + rot" and ?T = "totalTicks st + ComputeLatency d st n w"
  let ?m = "(n - ?t div 500) mod 32"
  have m: "0 \<le> ?m" "?m \<le> 31" using pos_mod_bound [of 32 "n - ?t div 500"] by simp_all
  have up: "ComputeLatency d st n w \<le> 31 * SeekTime + (SectorsPerTrack + 1) * RotationTime"
    using e p(1-3) m seek_bound [OF assms(4,1,2,3)] by (simp add: disk_consts)
  have rest: "passed_at n ?T \<and> (\<forall>T'. totalTicks st + seek + RotationTime \<le> T' \<longrightarrow> passed_at n T' \<longrightarrow> ?T \<le> T')"
    if "w \<or> \<not> track_buffer_hit d st n"
  proof -
    have T: "?T = ?t + ?m * 500 + 500" using e that by auto
    note rd = rotation_done [OF p(4) T]
    have "?T \<le> T'" if T': "totalTicks st + seek + 500 \<le> T'" "passed_at n T'" for T'
    proof (rule rd(2) [OF _ T'(2)])
      have m0: "T' mod 500 = 0" using T'(2) by (simp add: passed_at_def RotationTime_def)
      show "?t + 500 \<le> T'"
        by (rule next_boundary [OF _ p(3,4) m0]) (use T'(1) in simp)
    qed
    then show ?thesis using rd(1) by (simp add: RotationTime_def)
  qed
  have "ComputeLatency d st n w = RotationTime" if "\<not> (w \<or> \<not> track_buffer_hit d st n)"
    using e that by (simp add: RotationTime_def)
  moreover have "RotationTime \<le> ComputeLatency d st n w" using ComputeLatency_pos [OF t0 assms(2)] by (simp add: RotationTime_def)
  ultimately show ?thesis
    using up rest UpdateLast_boundary [OF assms(1,5), of n] unfolding track_buffer_hit_iff [OF assms(4,1,2,5)] by argo
qed

text \<open>
  A disk whose file does not exist yet is created blank, a file that starts with the
  magic number and has the full size is accepted as it is, and one with another magic
  number stops the simulation.
\<close>

theorem disk_creation:
  assumes "0 \<le> totalTicks st"
  shows "(\<exists>s. SynchDisk None st = Inr s \<and> sd_ready s
      \<and> (\<forall>i. valid_sector i \<longrightarrow> sector_of s i = replicate 128 0))
    \<and> (length data = nat DiskSize \<longrightarrow>
        (if take 4 data = int_bytes MagicNumber
         then \<exists>s. SynchDisk (Some data) st = Inr s \<and> sd_ready s \<and> uf_data (d_file (sd_disk s)) = data
         else SynchDisk (Some data) st = Inl AssertFailed))"
proof
  have z: "int_bytes 0 = replicate 4 0" by (simp add: int_bytes_def le32_def numeral_eq_Suc)
  let ?b = "int_bytes MagicNumber @ replicate 131072 (0 :: byte)"
  let ?s = "\<lparr>sd_semaphore = 0, sd_lock = False, sd_disk = \<lparr>d_file = \<lparr>uf_data = ?b, uf_pos = DiskSize\<rparr>,
    d_active = False, d_lastSector = 0, d_bufferInit = 0, d_irq = None\<rparr>, sd_stats = st\<rparr>"
  have "int_bytes MagicNumber \<noteq> []" by (simp add: int_bytes_def le32_def)
  then have "SynchDisk None st = Inr ?s"
    by (simp add: SynchDisk_def Disk_def uf_WriteFile_def uf_Lseek_def Let_def disk_consts z
        replicate_add [symmetric])
  moreover have "sd_ready ?s"
    using assms by (simp add: sd_ready_def disk_ok_def disk_consts)
  moreover have "sector_of ?s i = replicate 128 0" if "valid_sector i" for i
  proof -
    have "nat (SectorSize * i + MagicSize) = 4 + nat (128 * i)" "nat (128 * i) + 128 \<le> 131072"
      using that by (auto simp: valid_sector_def disk_consts nat_add_distrib)
    then show ?thesis by (simp add: sector_of_def min_def)
  qed
  ultimately show "\<exists>s. SynchDisk None st = Inr s \<and> sd_ready s
      \<and> (\<forall>i. valid_sector i \<longrightarrow> sector_of s i = replicate 128 0)" by blast
  show "length data = nat DiskSize \<longrightarrow>
        (if take 4 data = int_bytes MagicNumber
         then \<exists>s. SynchDisk (Some data) st = Inr s \<and> sd_ready s \<and> uf_data (d_file (sd_disk s)) = data
         else SynchDisk (Some data) st = Inl AssertFailed)"
  proof
    assume len: "length data = nat DiskSize"
    have "bytes_int (take 4 data) = MagicNumber \<longleftrightarrow> take 4 data = int_bytes MagicNumber"
      using int_bytes_int [of "take 4 data"] len
      by (auto simp: disk_consts magic_int32)
    then show "if take 4 data = int_bytes MagicNumber
         then \<exists>s. SynchDisk (Some data) st = Inr s \<and> sd_ready s \<and> uf_data (d_file (sd_disk s)) = data
         else SynchDisk (Some data) st = Inl AssertFailed"
      using assms len bytes_int_bytes [of MagicNumber] magic_int32 by (simp add: SynchDisk_def Disk_def uf_Read_def Let_def disk_consts
          sd_ready_def disk_ok_def)
  qed
qed

lemma disk_creation_witness:
  "\<exists>s. SynchDisk None (Statistics 0) = Inr s \<and> sd_ready s
      \<and> (\<forall>i. valid_sector i \<longrightarrow> sector_of s i = replicate 128 0)"
  using disk_creation [of "Statistics 0"] by (simp add: Statistics_def)

lemma disk_latency_witness:
  "\<exists>d st. disk_ok d st \<and> RotationTime \<le> ComputeLatency d st 1023 True
    \<and> passed_at 1023 (totalTicks st + ComputeLatency d st 1023 True)"
proof -
  let ?d = "\<lparr>d_file = \<lparr>uf_data = replicate (nat DiskSize) 0, uf_pos = 0\<rparr>, d_active = False,
    d_lastSector = 5, d_bufferInit = 0, d_irq = None\<rparr>" and ?st = "Statistics 0"
  have "disk_ok ?d ?st" by (simp add: disk_ok_def Statistics_def disk_consts)
  moreover obtain seek rot where "TimeToSeek ?d ?st 1023 = (seek, rot)" by force
  ultimately show ?thesis using disk_latency [of ?d ?st 1023 seek rot True]
    by (intro exI [of _ ?d] exI [of _ ?st]) (simp add: disk_consts)
qed

text \<open>
  C28: through \<^verbatim>\<open>SynchDisk\<close> the disk is an array of 1024 sectors of 128 bytes. Reading a run of
  sectors returns their contents and changes none; writing a run of distinct sectors stores
  the bytes there and leaves every other sector as it was, and reading it back returns them;
  each call returns with the lock free and the request done, so that the next one can start,
  and a sector number outside the disk fails an assertion.
\<close>

theorem synch_disk_store:
  assumes "sd_ready s" and "\<forall>i \<in> set is. valid_sector i" and "distinct is"
    and "length bs = 128 * length is"
  shows "\<exists>s1 s2 s3. read_sectors ReadSector s is = Inr (concat (map (sector_of s) is), s1)
    \<and> sd_ready s1 \<and> sector_of s1 = sector_of s
    \<and> write_sectors WriteSector s is bs = Inr s2 \<and> sd_ready s2
    \<and> (\<forall>j. valid_sector j \<longrightarrow> j \<notin> set is \<longrightarrow> sector_of s2 j = sector_of s j)
    \<and> read_sectors ReadSector s2 is = Inr (bs, s3) \<and> sd_ready s3
    \<and> (\<forall>j. \<not> valid_sector j \<longrightarrow>
          ReadSector s j = Inl AssertFailed \<and> WriteSector s j bs = Inl AssertFailed)"
proof -
  obtain s2 where s2: "write_sectors WriteSector s is bs = Inr s2" "sd_ready s2"
    "concat (map (sector_of s2) is) = bs" "\<forall>j. valid_sector j \<longrightarrow> j \<notin> set is \<longrightarrow> sector_of s2 j = sector_of s j"
    using sd.write_sectors_ok [OF assms] by blast
  show ?thesis
    using sd.read_sectors_ok [OF assms(1,2)] s2 sd.read_sectors_ok [OF s2(2) assms(2)]
      sd.rd_bad [OF assms(1)] sd.wr_bad [OF assms(1)] by auto
qed

lemma synch_disk_store_witness:
  "\<exists>s s1 s2. sd_ready s \<and> write_sectors WriteSector s [7, 3] (replicate 256 1) = Inr s1
    \<and> read_sectors ReadSector s1 [7, 3] = Inr (replicate 256 1, s2)"
proof -
  obtain s where s: "sd_ready s" using disk_ready_exists by blast
  show ?thesis
    using s synch_disk_store [OF s, of "[7, 3]" "replicate 256 1"]
    by (fastforce simp: valid_sector_def disk_consts simp del: read_sectors.simps write_sectors.simps)
qed

end
