(* ===== verification/Bitmap_Lib.thy ===== *)
theory Bitmap_Lib
  imports Nachos_Prelude
begin

text \<open>
  The bitmap of \<^verbatim>\<open>lib/bitmap.h\<close> and \<^verbatim>\<open>lib/bitmap.cc\<close>: an array of 32-bit words in which
  bit \<open>i\<close> is bit \<open>i mod 32\<close> of word \<open>i div 32\<close>. The operations are translated with their
  assertions; the interface \<open>alloc_map\<close> states what its clients (the disk's free map and
  the machine's page-frame map) rely on, in terms of the set of marked bits, and is
  interpreted on the translated operations.
\<close>

section \<open>The bitmap and its operations\<close>

definition BitsInByte :: int where
  "BitsInByte = 8"

definition BitsInWord :: int where
  "BitsInWord = 4 * BitsInByte"

record bitmap =
  numBits :: int
  numWords :: int
  bmap :: "u32 list"

text \<open>\<^verbatim>\<open>1 << (which % BitsInWord)\<close>\<close>

definition bit_mask :: "int \<Rightarrow> u32" where
  "bit_mask which = push_bit (nat (cmod which BitsInWord)) 1"

definition bm_Test :: "bitmap \<Rightarrow> int \<Rightarrow> bool result" where
  "bm_Test m which =
     rassert (which \<ge> 0 \<and> which < numBits m)
       (rbind (aread (bmap m) (cdiv which BitsInWord)) (\<lambda>w.
          Inr (w AND bit_mask which \<noteq> 0)))"

definition bm_Mark :: "bitmap \<Rightarrow> int \<Rightarrow> bitmap result" where
  "bm_Mark m which =
     rassert (which \<ge> 0 \<and> which < numBits m)
       (rbind (aread (bmap m) (cdiv which BitsInWord)) (\<lambda>w.
        rbind (awrite (bmap m) (cdiv which BitsInWord) (w OR bit_mask which)) (\<lambda>ws.
        let m' = m\<lparr>bmap := ws\<rparr> in
        rbind (bm_Test m' which) (\<lambda>t. rassert t (Inr m')))))"

definition bm_Clear :: "bitmap \<Rightarrow> int \<Rightarrow> bitmap result" where
  "bm_Clear m which =
     rassert (which \<ge> 0 \<and> which < numBits m)
       (rbind (aread (bmap m) (cdiv which BitsInWord)) (\<lambda>w.
        rbind (awrite (bmap m) (cdiv which BitsInWord) (w AND NOT (bit_mask which))) (\<lambda>ws.
        let m' = m\<lparr>bmap := ws\<rparr> in
        rbind (bm_Test m' which) (\<lambda>t. rassert (\<not> t) (Inr m')))))"

text \<open>The loop \<^verbatim>\<open>for (i = 0; i < numBits; i++) Clear(i)\<close> of the constructor.\<close>

function bm_clear_loop :: "bitmap \<Rightarrow> int \<Rightarrow> bitmap result" where
  "bm_clear_loop m i =
     (if i < numBits m
      then rbind (bm_Clear m i) (\<lambda>m'. bm_clear_loop m' (i + 1))
      else Inr m)"
  by pat_completeness auto
termination
  by (relation "measure (\<lambda>(m, i). nat (numBits m - i))")
     (auto simp: bm_Clear_def Let_def nachos_res)

definition Bitmap :: "int \<Rightarrow> bitmap result" where
  "Bitmap numItems =
     rassert (numItems > 0)
       (let nw = divRoundUp numItems BitsInWord in
        bm_clear_loop \<lparr>numBits = numItems, numWords = nw, bmap = replicate (nat nw) 0\<rparr> 0)"

function bm_find_loop :: "bitmap \<Rightarrow> int \<Rightarrow> (int \<times> bitmap) result" where
  "bm_find_loop m i =
     (if i < numBits m
      then rbind (bm_Test m i) (\<lambda>t.
             if \<not> t then rbind (bm_Mark m i) (\<lambda>m'. Inr (i, m')) else bm_find_loop m (i + 1))
      else Inr (- 1, m))"
  by pat_completeness auto
termination
  by (relation "measure (\<lambda>(m, i). nat (numBits m - i))") auto

definition bm_FindAndSet :: "bitmap \<Rightarrow> (int \<times> bitmap) result" where
  "bm_FindAndSet m = bm_find_loop m 0"

function bm_count_loop :: "bitmap \<Rightarrow> int \<Rightarrow> int \<Rightarrow> int result" where
  "bm_count_loop m i count =
     (if i < numBits m
      then rbind (bm_Test m i) (\<lambda>t. bm_count_loop m (i + 1) (if \<not> t then count + 1 else count))
      else Inr count)"
  by pat_completeness auto
termination
  by (relation "measure (\<lambda>(m, i, c). nat (numBits m - i))") auto

definition bm_NumClear :: "bitmap \<Rightarrow> int result" where
  "bm_NumClear m = bm_count_loop m 0 0"

text \<open>\<^verbatim>\<open>Bitmap::SelfTest\<close>, with its loop \<^verbatim>\<open>for (i = 0; i < numBits; i++) Mark(i)\<close>.\<close>

function bm_mark_loop :: "bitmap \<Rightarrow> int \<Rightarrow> bitmap result" where
  "bm_mark_loop m i =
     (if i < numBits m then rbind (bm_Mark m i) (\<lambda>m'. bm_mark_loop m' (i + 1)) else Inr m)"
  by pat_completeness auto
termination
  by (relation "measure (\<lambda>(m, i). nat (numBits m - i))")
     (auto simp: bm_Mark_def Let_def nachos_res)

definition bm_SelfTest :: "bitmap \<Rightarrow> bitmap result" where
  "bm_SelfTest m =
     rassert (numBits m \<ge> BitsInWord)
     (rbind (bm_NumClear m) (\<lambda>c. rassert (c = numBits m)
     (rbind (bm_FindAndSet m) (\<lambda>(k, m1). rassert (k = 0)
     (rbind (bm_Mark m1 31) (\<lambda>m2.
      rbind (bm_Test m2 0) (\<lambda>t0. rbind (bm_Test m2 31) (\<lambda>t31. rassert (t0 \<and> t31)
     (rbind (bm_FindAndSet m2) (\<lambda>(k', m3). rassert (k' = 1)
     (rbind (bm_Clear m3 0) (\<lambda>m4. rbind (bm_Clear m4 1) (\<lambda>m5. rbind (bm_Clear m5 31) (\<lambda>m6.
      rbind (bm_mark_loop m6 0) (\<lambda>m7.
      rbind (bm_FindAndSet m7) (\<lambda>(k'', m8). rassert (k'' = - 1)
     (bm_clear_loop m8 0)))))))))))))))))"

declare bm_mark_loop.simps [simp del] bm_clear_loop.simps [simp del] bm_find_loop.simps [simp del] bm_count_loop.simps [simp del]

section \<open>The bits of a bitmap\<close>

definition bm_wf :: "bitmap \<Rightarrow> bool" where
  "bm_wf m \<longleftrightarrow> 0 < numBits m \<and> numWords m = divRoundUp (numBits m) BitsInWord
     \<and> length (bmap m) = nat (numWords m)"

definition bm_bit :: "bitmap \<Rightarrow> int \<Rightarrow> bool" where
  "bm_bit m i = bit (bmap m ! nat (i div 32)) (nat (i mod 32))"

definition bm_set :: "bitmap \<Rightarrow> int set" where
  "bm_set m = {i. 0 \<le> i \<and> i < numBits m \<and> bm_bit m i}"

lemma BitsInWord_32 [simp]: "BitsInWord = 32"
  by (simp add: BitsInWord_def BitsInByte_def)

lemma word_index_less:
  "bm_wf m \<Longrightarrow> 0 \<le> i \<Longrightarrow> i < numBits m \<Longrightarrow> nat (i div 32) < length (bmap m)"
  using divRoundUp_bounds(2) [of "numBits m" 32] by (simp add: bm_wf_def)

lemma word_index_int:
  "bm_wf m \<Longrightarrow> 0 \<le> i \<Longrightarrow> i < numBits m \<Longrightarrow> i div 32 < int (length (bmap m))"
  using word_index_less [of m i] by simp

lemma and_mask_bit: "0 \<le> i \<Longrightarrow> (w AND bit_mask i \<noteq> 0) = bit w (nat (i mod 32))"
  by (simp add: bit_mask_def bit_iff_and_push_bit_not_eq_0)

lemma bit_or_mask:
  "0 \<le> i \<Longrightarrow> k < 32 \<Longrightarrow> bit (w OR bit_mask i) k = (k = nat (i mod 32) \<or> bit w k)"
  by (auto simp: bit_mask_def bit_or_iff bit_exp_iff)

lemma bit_and_not_mask:
  "0 \<le> i \<Longrightarrow> k < 32 \<Longrightarrow> bit (w AND NOT (bit_mask i)) k = (k \<noteq> nat (i mod 32) \<and> bit w k)"
  by (auto simp: bit_mask_def bit_and_iff bit_not_iff bit_exp_iff)

lemma div_mod_32_eq_iff:
  "0 \<le> i \<Longrightarrow> 0 \<le> (j::int) \<Longrightarrow>
   nat (i div 32) = nat (j div 32) \<and> nat (j mod 32) = nat (i mod 32) \<longleftrightarrow> i = j"
  by (auto simp: nat_eq_iff pos_imp_zdiv_nonneg_iff) (metis div_mult_mod_eq)

lemma bm_Test_ok [simp]:
  "bm_wf m \<Longrightarrow> 0 \<le> i \<Longrightarrow> i < numBits m \<Longrightarrow> bm_Test m i = Inr (i \<in> bm_set m)"
  by (simp add: bm_Test_def aread_ok word_index_int and_mask_bit bm_set_def bm_bit_def
      pos_imp_zdiv_nonneg_iff)

lemma bm_Test_fail: "\<not> (0 \<le> i \<and> i < numBits m) \<Longrightarrow> bm_Test m i = Inl AssertFailed"
  by (auto simp: bm_Test_def rassert_def)

text \<open>The bitmap after \<open>Mark\<close> and after \<open>Clear\<close>.\<close>

definition bm_marked :: "bitmap \<Rightarrow> int \<Rightarrow> bitmap" where
  "bm_marked m i = m\<lparr>bmap := (bmap m)[nat (i div 32) := bmap m ! nat (i div 32) OR bit_mask i]\<rparr>"

definition bm_cleared :: "bitmap \<Rightarrow> int \<Rightarrow> bitmap" where
  "bm_cleared m i =
     m\<lparr>bmap := (bmap m)[nat (i div 32) := bmap m ! nat (i div 32) AND NOT (bit_mask i)]\<rparr>"

lemma bm_marked_simps [simp]:
  "numBits (bm_marked m i) = numBits m" "numWords (bm_marked m i) = numWords m"
  "bm_wf (bm_marked m i) = bm_wf m"
  by (simp_all add: bm_marked_def bm_wf_def)

lemma bm_cleared_simps [simp]:
  "numBits (bm_cleared m i) = numBits m" "numWords (bm_cleared m i) = numWords m"
  "bm_wf (bm_cleared m i) = bm_wf m"
  by (simp_all add: bm_cleared_def bm_wf_def)

lemma bm_bit_marked:
  assumes "bm_wf m" "0 \<le> i" "i < numBits m" "0 \<le> j" "j < numBits m"
  shows "bm_bit (bm_marked m i) j = (i = j \<or> bm_bit m j)"
  using assms word_index_less [of m i] div_mod_32_eq_iff [of i j]
  by (auto simp: bm_bit_def bm_marked_def nth_list_update bit_or_mask nat_less_iff)

lemma bm_bit_cleared:
  assumes "bm_wf m" "0 \<le> i" "i < numBits m" "0 \<le> j" "j < numBits m"
  shows "bm_bit (bm_cleared m i) j = (i \<noteq> j \<and> bm_bit m j)"
  using assms word_index_less [of m i] div_mod_32_eq_iff [of i j]
  by (auto simp: bm_bit_def bm_cleared_def nth_list_update bit_and_not_mask nat_less_iff)

lemma bm_set_marked [simp]:
  "bm_wf m \<Longrightarrow> 0 \<le> i \<Longrightarrow> i < numBits m \<Longrightarrow> bm_set (bm_marked m i) = insert i (bm_set m)"
  by (auto simp: bm_set_def bm_bit_marked)

lemma bm_set_cleared [simp]:
  "bm_wf m \<Longrightarrow> 0 \<le> i \<Longrightarrow> i < numBits m \<Longrightarrow> bm_set (bm_cleared m i) = bm_set m - {i}"
  by (auto simp: bm_set_def bm_bit_cleared)

lemma bm_Mark_ok:
  assumes "bm_wf m" "0 \<le> i" "i < numBits m"
  shows "bm_Mark m i = Inr (bm_marked m i)"
proof -
  have "bm_Test (bm_marked m i) i = Inr True" using assms by simp
  then show ?thesis
    using assms word_index_int [of m i]
    by (simp add: bm_Mark_def aread_ok awrite_ok pos_imp_zdiv_nonneg_iff bm_marked_def)
qed

lemma bm_Clear_ok:
  assumes "bm_wf m" "0 \<le> i" "i < numBits m"
  shows "bm_Clear m i = Inr (bm_cleared m i)"
proof -
  have "bm_Test (bm_cleared m i) i = Inr False" using assms by simp
  then show ?thesis
    using assms word_index_int [of m i]
    by (simp add: bm_Clear_def aread_ok awrite_ok pos_imp_zdiv_nonneg_iff bm_cleared_def)
qed

lemma bm_set_bounds: "bm_set m \<subseteq> {0..<numBits m}"
  by (auto simp: bm_set_def)

lemma finite_bm_set [simp]: "finite (bm_set m)"
  by (rule finite_subset [OF bm_set_bounds]) simp

section \<open>What the loops compute\<close>

lemma bm_find_loop_full:
  assumes "bm_wf m" and "0 \<le> i" and "{i..<numBits m} \<subseteq> bm_set m"
  shows "bm_find_loop m i = Inr (- 1, m)"
  using assms
proof (induction m i rule: bm_find_loop.induct)
  case (1 m i)
  show ?case
  proof (cases "i < numBits m")
    case True
    then have "bm_Test m i = Inr True" using "1.prems" by auto
    moreover have "bm_find_loop m (i + 1) = Inr (- 1, m)"
      using "1.IH" [OF True \<open>bm_Test m i = Inr True\<close>] "1.prems"
      by (simp add: subset_eq)
    ultimately show ?thesis using True by (simp add: bm_find_loop.simps [of m i])
  qed (simp add: bm_find_loop.simps [of m i])
qed

lemma bm_find_loop_least:
  assumes "bm_wf m" and "0 \<le> i" and "i \<le> k" and "k < numBits m" and "k \<notin> bm_set m"
    and "\<And>j. i \<le> j \<Longrightarrow> j < k \<Longrightarrow> j \<in> bm_set m"
  shows "bm_find_loop m i = Inr (k, bm_marked m k)"
  using assms
proof (induction m i rule: bm_find_loop.induct)
  case (1 m i)
  have lt: "i < numBits m" using "1.prems" by simp
  show ?case
  proof (cases "i = k")
    case True
    then show ?thesis
      using "1.prems" lt by (subst bm_find_loop.simps) (simp add: bm_Mark_ok)
  next
    case False
    then have t: "bm_Test m i = Inr True" using "1.prems" lt by auto
    have "bm_find_loop m (i + 1) = Inr (k, bm_marked m k)"
      using "1.IH" [OF lt t] False "1.prems" by auto
    then show ?thesis using t lt by (simp add: bm_find_loop.simps [of m i])
  qed
qed

lemma bm_count_loop_eq:
  assumes "bm_wf m" and "0 \<le> i" and "i \<le> numBits m"
  shows "bm_count_loop m i c = Inr (c + int (card ({i..<numBits m} - bm_set m)))"
  using assms
proof (induction m i c rule: bm_count_loop.induct)
  case (1 m i c)
  show ?case
  proof (cases "i < numBits m")
    case True
    let ?A = "{i + 1..<numBits m} - bm_set m"
    have t: "bm_Test m i = Inr (i \<in> bm_set m)" using True "1.prems" by simp
    have "{i..<numBits m} = insert i {i + 1..<numBits m}" using True by auto
    then have s: "{i..<numBits m} - bm_set m = (if i \<in> bm_set m then ?A else insert i ?A)"
      by auto
    show ?thesis
      using "1.IH" [OF True t] "1.prems" True t s
      by (simp add: bm_count_loop.simps [of m i c])
  next
    case False
    with "1.prems" show ?thesis by (subst bm_count_loop.simps) simp
  qed
qed

lemma bm_clear_loop_eq:
  assumes "bm_wf m" and "0 \<le> i" and "i \<le> numBits m"
  shows "\<exists>m'. bm_clear_loop m i = Inr m' \<and> bm_wf m' \<and> numBits m' = numBits m
     \<and> bm_set m' = bm_set m \<inter> {0..<i}"
  using assms
proof (induction m i rule: bm_clear_loop.induct)
  case (1 m i)
  show ?case
  proof (cases "i < numBits m")
    case True
    note c = bm_Clear_ok [OF "1.prems"(1,2) True]
    have "(bm_set m - {i}) \<inter> {0..<i + 1} = bm_set m \<inter> {0..<i}" by auto
    then show ?thesis
      using "1.IH" [OF True c] "1.prems" True
      by (simp add: bm_clear_loop.simps [of m i] c)
  next
    case False
    then show ?thesis
      using "1.prems" bm_set_bounds [of m] by (subst bm_clear_loop.simps) auto
  qed
qed

section \<open>The allocator interface\<close>

text \<open>
  Two client loops, over any allocator: take \<open>n\<close> cells, asserting that each is found, and
  give cells back, asserting that each was in use. They are the shape of the loops of
  \<^verbatim>\<open>FileHeader::Allocate\<close> and \<^verbatim>\<open>FileHeader::Deallocate\<close>.
\<close>

fun alloc_n :: "('m \<Rightarrow> (int \<times> 'm) result) \<Rightarrow> nat \<Rightarrow> 'm \<Rightarrow> (int list \<times> 'm) result" where
  "alloc_n fnd 0 m = Inr ([], m)"
| "alloc_n fnd (Suc n) m =
     rbind (fnd m) (\<lambda>(i, m'). rassert (i \<ge> 0)
       (rbind (alloc_n fnd n m') (\<lambda>(is, m''). Inr (i # is, m''))))"

fun free_all :: "('m \<Rightarrow> int \<Rightarrow> bool result) \<Rightarrow> ('m \<Rightarrow> int \<Rightarrow> 'm result)
    \<Rightarrow> int list \<Rightarrow> 'm \<Rightarrow> 'm result" where
  "free_all tst clr [] m = Inr m"
| "free_all tst clr (i # is) m =
     rbind (tst m i) (\<lambda>t. rassert t (rbind (clr m i) (\<lambda>m'. free_all tst clr is m')))"

locale alloc_map =
  fixes cap :: "'m \<Rightarrow> int"
    and inv :: "'m \<Rightarrow> bool"
    and used :: "'m \<Rightarrow> int set"
    and test :: "'m \<Rightarrow> int \<Rightarrow> bool result"
    and mark :: "'m \<Rightarrow> int \<Rightarrow> 'm result"
    and clear :: "'m \<Rightarrow> int \<Rightarrow> 'm result"
    and find_set :: "'m \<Rightarrow> (int \<times> 'm) result"
    and num_clear :: "'m \<Rightarrow> int result"
  assumes used_bounds: "inv m \<Longrightarrow> used m \<subseteq> {0..<cap m}"
    and test_law: "inv m \<Longrightarrow> 0 \<le> i \<Longrightarrow> i < cap m \<Longrightarrow> test m i = Inr (i \<in> used m)"
    and mark_law: "inv m \<Longrightarrow> 0 \<le> i \<Longrightarrow> i < cap m \<Longrightarrow>
      \<exists>m'. mark m i = Inr m' \<and> inv m' \<and> cap m' = cap m \<and> used m' = insert i (used m)"
    and clear_law: "inv m \<Longrightarrow> 0 \<le> i \<Longrightarrow> i < cap m \<Longrightarrow>
      \<exists>m'. clear m i = Inr m' \<and> inv m' \<and> cap m' = cap m \<and> used m' = used m - {i}"
    and find_full: "inv m \<Longrightarrow> used m = {0..<cap m} \<Longrightarrow> find_set m = Inr (- 1, m)"
    and find_free: "inv m \<Longrightarrow> used m \<noteq> {0..<cap m} \<Longrightarrow>
      \<exists>i m'. find_set m = Inr (i, m') \<and> inv m' \<and> cap m' = cap m \<and> 0 \<le> i \<and> i < cap m
        \<and> i \<notin> used m \<and> {0..<i} \<subseteq> used m \<and> used m' = insert i (used m)"
    and num_clear_law: "inv m \<Longrightarrow> num_clear m = Inr (cap m - int (card (used m)))"
begin

lemma finite_used: "inv m \<Longrightarrow> finite (used m)"
  using used_bounds finite_subset by blast

lemma card_used_le: "inv m \<Longrightarrow> int (card (used m)) \<le> cap m \<or> used m = {}"
  using used_bounds [of m] card_mono [of "{0..<cap m}" "used m"] by fastforce

lemma not_full: "inv m \<Longrightarrow> int (card (used m)) < cap m \<Longrightarrow> used m \<noteq> {0..<cap m}"
  by (auto split: if_splits)

lemma alloc_n_enough:
  assumes "inv m" and "int (card (used m)) + int n \<le> cap m"
  shows "\<exists>is m'. alloc_n find_set n m = Inr (is, m') \<and> length is = n \<and> distinct is
     \<and> set is \<inter> used m = {} \<and> set is \<subseteq> {0..<cap m}
     \<and> inv m' \<and> cap m' = cap m \<and> used m' = used m \<union> set is"
  using assms
proof (induction n arbitrary: m)
  case (Suc n)
  have "used m \<noteq> {0..<cap m}" using Suc.prems by (intro not_full) simp_all
  from find_free [OF Suc.prems(1) this] obtain i m1 where i: "find_set m = Inr (i, m1)"
    "inv m1" "cap m1 = cap m" "0 \<le> i" "i < cap m" "i \<notin> used m" "used m1 = insert i (used m)"
    by blast
  have "int (card (used m1)) + int n \<le> cap m1"
    using Suc.prems i finite_used [OF Suc.prems(1)] by simp
  from Suc.IH [OF i(2) this] obtain js m2 where "alloc_n find_set n m1 = Inr (js, m2)"
    "length js = n" "distinct js" "set js \<inter> used m1 = {}" "set js \<subseteq> {0..<cap m1}"
    "inv m2" "cap m2 = cap m1" "used m2 = used m1 \<union> set js"
    by blast
  then show ?case using i by auto
qed simp

lemma free_all_used:
  assumes "inv m" and "distinct is" and "set is \<subseteq> used m"
  shows "\<exists>m'. free_all test clear is m = Inr m' \<and> inv m' \<and> cap m' = cap m
     \<and> used m' = used m - set is"
  using assms
proof (induction "is" arbitrary: m)
  case (Cons i js)
  have b: "0 \<le> i" "i < cap m" using Cons.prems used_bounds [of m] by auto
  obtain m1 where m1: "clear m i = Inr m1" "inv m1" "cap m1 = cap m" "used m1 = used m - {i}"
    using clear_law [OF Cons.prems(1) b] by blast
  have "set js \<subseteq> used m1" using Cons.prems m1 by auto
  from Cons.IH [OF m1(2) _ this] Cons.prems obtain m2 where
    "free_all test clear js m1 = Inr m2" "inv m2" "cap m2 = cap m1" "used m2 = used m1 - set js"
    by auto
  then show ?case using Cons.prems b m1 test_law [OF Cons.prems(1) b] by auto
qed simp

lemma alloc_free_roundtrip:
  assumes "inv m" and "alloc_n find_set n m = Inr (is, m1)"
    and "int (card (used m)) + int n \<le> cap m"
  shows "\<exists>m2. free_all test clear is m1 = Inr m2 \<and> used m2 = used m"
proof -
  obtain js m' where a: "alloc_n find_set n m = Inr (js, m')" "distinct js"
    "set js \<inter> used m = {}" "inv m'" "used m' = used m \<union> set js"
    using alloc_n_enough [OF assms(1,3)] by blast
  have "set js \<subseteq> used m'" using a by simp
  from free_all_used [OF a(4,2) this] a assms show ?thesis by auto
qed

end

lemma bm_least_clear:
  assumes "bm_set m \<noteq> {0..<numBits m}"
  obtains k where "0 \<le> k" "k < numBits m" "k \<notin> bm_set m" "{0..<k} \<subseteq> bm_set m"
proof -
  let ?C = "{0..<numBits m} - bm_set m"
  have C: "finite ?C" "?C \<noteq> {}" using assms bm_set_bounds [of m] by auto
  have "Min ?C \<in> ?C" using C by (rule Min_in)
  moreover have "j \<in> bm_set m" if "0 \<le> j" "j < Min ?C" for j
  proof (rule ccontr)
    assume "j \<notin> bm_set m"
    then have "j \<in> ?C" using that \<open>Min ?C \<in> ?C\<close> by auto
    then have "Min ?C \<le> j" using C(1) Min_le by blast
    with that show False by simp
  qed
  ultimately show ?thesis by (intro that [of "Min ?C"]) auto
qed

interpretation bm: alloc_map numBits bm_wf bm_set bm_Test bm_Mark bm_Clear bm_FindAndSet bm_NumClear
proof unfold_locales
  fix m :: bitmap and i :: int
  assume wf: "bm_wf m"
  show "bm_set m \<subseteq> {0..<numBits m}" by (rule bm_set_bounds)
  show "bm_NumClear m = Inr (numBits m - int (card (bm_set m)))"
    using wf card_mono [OF _ bm_set_bounds, of m] bm_set_bounds [of m]
    by (simp add: bm_NumClear_def bm_count_loop_eq card_Diff_subset bm_wf_def)
  show "bm_FindAndSet m = Inr (- 1, m)" if "bm_set m = {0..<numBits m}"
    using wf that by (simp add: bm_FindAndSet_def bm_find_loop_full)
  show "\<exists>i m'. bm_FindAndSet m = Inr (i, m') \<and> bm_wf m' \<and> numBits m' = numBits m \<and> 0 \<le> i
      \<and> i < numBits m \<and> i \<notin> bm_set m \<and> {0..<i} \<subseteq> bm_set m \<and> bm_set m' = insert i (bm_set m)"
    if "bm_set m \<noteq> {0..<numBits m}"
  proof -
    from bm_least_clear [OF \<open>bm_set m \<noteq> {0..<numBits m}\<close>] obtain k where
      k: "0 \<le> k" "k < numBits m" "k \<notin> bm_set m" "{0..<k} \<subseteq> bm_set m" .
    have "bm_FindAndSet m = Inr (k, bm_marked m k)"
      unfolding bm_FindAndSet_def by (rule bm_find_loop_least) (use wf k in auto)
    then show ?thesis using wf k by simp
  qed
qed (simp_all add: bm_Mark_ok bm_Clear_ok)

section \<open>The bitmap meets its contract\<close>

lemma bm_mark_loop_eq:
  assumes "bm_wf m" and "0 \<le> i" and "i \<le> numBits m"
  shows "\<exists>m'. bm_mark_loop m i = Inr m' \<and> bm_wf m' \<and> numBits m' = numBits m
     \<and> bm_set m' = bm_set m \<union> {i..<numBits m}"
  using assms
proof (induction m i rule: bm_mark_loop.induct)
  case (1 m i)
  show ?case
  proof (cases "i < numBits m")
    case True
    note c = bm_Mark_ok [OF "1.prems"(1,2) True]
    have "{i..<numBits m} = insert i {i + 1..<numBits m}" using True by auto
    then show ?thesis
      using "1.IH" [OF True c] "1.prems" True
      by (simp add: bm_mark_loop.simps [of m i] c)
  next
    case False
    then show ?thesis using "1.prems" by (subst bm_mark_loop.simps) auto
  qed
qed

lemma bm_FindAndSet_least:
  "bm_wf m \<Longrightarrow> 0 \<le> k \<Longrightarrow> k < numBits m \<Longrightarrow> k \<notin> bm_set m \<Longrightarrow> {0..<k} \<subseteq> bm_set m \<Longrightarrow>
   bm_FindAndSet m = Inr (k, bm_marked m k)"
  unfolding bm_FindAndSet_def by (rule bm_find_loop_least) auto

text \<open>
  C29: \<^verbatim>\<open>Bitmap::FindAndSet\<close> on a well-formed bitmap returns the smallest clear bit and marks
  exactly that bit; on a full bitmap it returns -1 and changes nothing. It never asserts.
\<close>

theorem bitmap_find_and_set:
  assumes "bm_wf m"
  shows "if bm_set m = {0..<numBits m} then bm_FindAndSet m = Inr (- 1, m)
    else \<exists>i m'. bm_FindAndSet m = Inr (i, m') \<and> i = Min ({0..<numBits m} - bm_set m)
      \<and> bm_wf m' \<and> numBits m' = numBits m \<and> bm_set m' = insert i (bm_set m)"
proof (cases "bm_set m = {0..<numBits m}")
  case False
  from bm.find_free [OF assms False] obtain i m' where
    i: "bm_FindAndSet m = Inr (i, m')" "0 \<le> i" "i < numBits m" "i \<notin> bm_set m"
      "{0..<i} \<subseteq> bm_set m" "bm_wf m'" "numBits m' = numBits m" "bm_set m' = insert i (bm_set m)"
    by blast
  have "Min ({0..<numBits m} - bm_set m) = i"
    by (rule Min_eqI) (use i in \<open>auto simp: not_less [symmetric]\<close>)
  then show ?thesis using False i by auto
qed (simp add: assms bm.find_full)

theorem bitmap_find_and_set_witness:
  "bm_FindAndSet \<lparr>numBits = 40, numWords = 2, bmap = [5, 0]\<rparr>
     = Inr (1, \<lparr>numBits = 40, numWords = 2, bmap = [7, 0]\<rparr>)
   \<and> bm_wf \<lparr>numBits = 40, numWords = 2, bmap = [5, 0]\<rparr>"
proof -
  let ?m = "\<lparr>numBits = 40, numWords = 2, bmap = [5, 0]\<rparr>"
  have wf: "bm_wf ?m" by (simp add: bm_wf_def divRoundUp_def)
  have "1 \<notin> bm_set ?m" by (simp add: bm_set_def bm_bit_def bit_iff_and_push_bit_not_eq_0)
  then have "bm_set ?m \<noteq> {0..<numBits ?m}" by auto
  then have "\<exists>i m'. bm_FindAndSet ?m = Inr (i, m')"
    using bitmap_find_and_set [OF wf] by auto
  moreover have "bm_FindAndSet ?m = Inr (1, \<lparr>numBits = 40, numWords = 2, bmap = [7, 0]\<rparr>)"
    by code_simp
  ultimately show ?thesis using wf by simp
qed

lemma Bitmap_ok:
  assumes "numItems > 0"
  shows "\<exists>m. Bitmap numItems = Inr m \<and> bm_wf m \<and> numBits m = numItems \<and> bm_set m = {}"
proof -
  let ?m = "\<lparr>numBits = numItems, numWords = divRoundUp numItems 32,
    bmap = replicate (nat (divRoundUp numItems 32)) 0\<rparr>"
  have "bm_wf ?m" using assms by (simp add: bm_wf_def)
  from bm_clear_loop_eq [OF this, of 0] assms show ?thesis
    by (auto simp: Bitmap_def Let_def)
qed

lemma bm_SelfTest_ok:
  assumes wf: "bm_wf m" and n: "32 \<le> numBits m" and e: "bm_set m = {}"
  shows "\<exists>m'. bm_SelfTest m = Inr m' \<and> bm_wf m' \<and> numBits m' = numBits m \<and> bm_set m' = {}"
proof -
  define m2 where "m2 = bm_marked (bm_marked m 0) 31"
  define m6 where "m6 = bm_cleared (bm_cleared (bm_cleared (bm_marked m2 1) 0) 1) 31"
  have m2: "bm_wf m2" "numBits m2 = numBits m" "bm_set m2 = {0, 31}"
    using wf n e by (auto simp: m2_def)
  have f1: "bm_FindAndSet m = Inr (0, bm_marked m 0)"
    by (rule bm_FindAndSet_least) (use wf n e in auto)
  have "{0..<1} = {0::int}" by auto
  then have f2: "bm_FindAndSet m2 = Inr (1, bm_marked m2 1)"
    by (intro bm_FindAndSet_least) (use m2 n in simp_all)
  have m6: "bm_wf m6" "numBits m6 = numBits m" using m2 by (simp_all add: m6_def)
  obtain m7 where m7: "bm_mark_loop m6 0 = Inr m7" "bm_wf m7" "numBits m7 = numBits m6"
    "bm_set m7 = {0..<numBits m7}"
    using bm_mark_loop_eq [OF m6(1), of 0] m6 n bm_set_bounds [of m6] by auto
  obtain m8 where m8: "bm_clear_loop m7 0 = Inr m8" "bm_wf m8" "numBits m8 = numBits m7"
    "bm_set m8 = {}"
    using bm_clear_loop_eq [OF m7(2), of 0] m7 m6 n by auto
  have t: "bm_Mark (bm_marked m 0) 31 = Inr m2" "bm_Test m2 0 = Inr True"
    "bm_Test m2 31 = Inr True"
    using wf n m2 by (simp_all add: bm_Mark_ok m2_def)
  have c: "bm_Clear (bm_marked m2 1) 0 = Inr (bm_cleared (bm_marked m2 1) 0)"
    "bm_Clear (bm_cleared (bm_marked m2 1) 0) 1 = Inr (bm_cleared (bm_cleared (bm_marked m2 1) 0) 1)"
    "bm_Clear (bm_cleared (bm_cleared (bm_marked m2 1) 0) 1) 31 = Inr m6"
    using m2 n by (simp_all add: bm_Clear_ok m6_def)
  have "bm_NumClear m = Inr (numBits m)" using bm.num_clear_law [OF wf] e by simp
  then have "bm_SelfTest m = Inr m8"
    using n f1 f2 t c m7(1) m8(1) bm.find_full [OF m7(2,4)] by (simp add: bm_SelfTest_def)
  then show ?thesis using m8 m7 m6 by auto
qed

text \<open>
  A new bitmap of a positive number of bits is well formed and has no bit marked; the
  constructor asserts on any other size.
\<close>

theorem bitmap_new:
  "if numItems > 0 then \<exists>m. Bitmap numItems = Inr m \<and> bm_wf m \<and> numBits m = numItems \<and> bm_set m = {}
   else Bitmap numItems = Inl AssertFailed"
  using Bitmap_ok [of numItems] by (simp add: Bitmap_def)

end
