(* ===== verification/File_Store.thy ===== *)
theory File_Store
  imports Disk_Device Bitmap_Lib
begin

text \<open>
  File headers (\<^verbatim>\<open>filesys/filehdr.cc\<close>), open files (\<^verbatim>\<open>filesys/openfile.cc\<close>) and the bitmap
  stored in a file (\<^verbatim>\<open>filesys/pbitmap.cc\<close>), of the file system that is compiled without
  \<^verbatim>\<open>FILESYS_STUB\<close>. Headers live on the disk as the 128 bytes of the C++ object. Memory that
  the code obtains from \<^verbatim>\<open>new\<close> and does not initialise is an argument (\<open>junk\<close>), so the theorems
  hold whatever it contains. \<open>file_data\<close> is the byte string a file represents; reads and
  writes at any offset are shown to be reads and writes of that string.
\<close>

section \<open>File headers\<close>

definition NumDirect :: int where
  "NumDirect = (SectorSize - 2 * 4) div 4"

record filehdr =
  fh_numBytes :: int
  fh_numSectors :: int
  fh_dataSectors :: "int list"

text \<open>The object in memory and its image as the bytes of one sector.\<close>

definition fh_bytes :: "filehdr \<Rightarrow> byte list" where
  "fh_bytes h = int_bytes (fh_numBytes h) @ int_bytes (fh_numSectors h) @ concat (map int_bytes (fh_dataSectors h))"

definition chunk :: "nat \<Rightarrow> byte list \<Rightarrow> nat \<Rightarrow> byte list" where
  "chunk n bs k = take n (drop (n * k) bs)"

definition fh_of_bytes :: "byte list \<Rightarrow> filehdr" where
  "fh_of_bytes bs =
     \<lparr>fh_numBytes = bytes_int (chunk 4 bs 0), fh_numSectors = bytes_int (chunk 4 bs 1),
      fh_dataSectors = map (\<lambda>k. bytes_int (chunk 4 bs (k + 2))) [0..<nat NumDirect]\<rparr>"

text \<open>
  \<^verbatim>\<open>Allocate\<close>, on an uninitialised header \<open>h\<close>. The table has room for \<^verbatim>\<open>NumDirect\<close> sectors and
  the code does not check that the file needs no more: a larger index is an error here.
\<close>

function fh_alloc_loop :: "filehdr \<Rightarrow> bitmap \<Rightarrow> int \<Rightarrow> (filehdr \<times> bitmap) result" where
  "fh_alloc_loop h freeMap i =
     (if i < fh_numSectors h
      then rbind (bm_FindAndSet freeMap) (\<lambda>(k, freeMap).
           rbind (awrite (fh_dataSectors h) i k) (\<lambda>ds.
           rassert (k \<ge> 0) (fh_alloc_loop (h\<lparr>fh_dataSectors := ds\<rparr>) freeMap (i + 1))))
      else Inr (h, freeMap))"
  by pat_completeness auto
termination
  by (relation "measure (\<lambda>(h, m, i). nat (fh_numSectors h - i))") auto

definition fh_Allocate :: "filehdr \<Rightarrow> bitmap \<Rightarrow> int \<Rightarrow> (bool \<times> filehdr \<times> bitmap) result" where
  "fh_Allocate h freeMap fileSize =
     (let h = h\<lparr>fh_numBytes := fileSize, fh_numSectors := divRoundUp fileSize SectorSize\<rparr> in
      rbind (bm_NumClear freeMap) (\<lambda>c.
      if c < fh_numSectors h then Inr (False, h, freeMap)
      else rbind (fh_alloc_loop h freeMap 0) (\<lambda>(h, freeMap). Inr (True, h, freeMap))))"

function fh_dealloc_loop :: "filehdr \<Rightarrow> bitmap \<Rightarrow> int \<Rightarrow> bitmap result" where
  "fh_dealloc_loop h freeMap i =
     (if i < fh_numSectors h
      then rbind (aread (fh_dataSectors h) i) (\<lambda>k.
           rbind (bm_Test freeMap k) (\<lambda>t. rassert t
          (rbind (bm_Clear freeMap k) (\<lambda>freeMap. fh_dealloc_loop h freeMap (i + 1)))))
      else Inr freeMap)"
  by pat_completeness auto
termination
  by (relation "measure (\<lambda>(h, m, i). nat (fh_numSectors h - i))") auto

definition fh_Deallocate :: "filehdr \<Rightarrow> bitmap \<Rightarrow> bitmap result" where
  "fh_Deallocate h freeMap = fh_dealloc_loop h freeMap 0"

definition fh_FetchFrom :: "synchdisk \<Rightarrow> int \<Rightarrow> (filehdr \<times> synchdisk) result" where
  "fh_FetchFrom s sector = rbind (ReadSector s sector) (\<lambda>(data, s). Inr (fh_of_bytes data, s))"

definition fh_WriteBack :: "synchdisk \<Rightarrow> filehdr \<Rightarrow> int \<Rightarrow> synchdisk result" where
  "fh_WriteBack s h sector = WriteSector s sector (fh_bytes h)"

definition fh_ByteToSector :: "filehdr \<Rightarrow> int \<Rightarrow> int result" where
  "fh_ByteToSector h offset = aread (fh_dataSectors h) (cdiv offset SectorSize)"

definition fh_FileLength :: "filehdr \<Rightarrow> int" where
  "fh_FileLength h = fh_numBytes h"

section \<open>Open files\<close>

record openfile =
  of_hdr :: filehdr
  of_seekPosition :: int

definition OpenFile :: "synchdisk \<Rightarrow> int \<Rightarrow> (openfile \<times> synchdisk) result" where
  "OpenFile s sector =
     rbind (fh_FetchFrom s sector) (\<lambda>(h, s). Inr (\<lparr>of_hdr = h, of_seekPosition = 0\<rparr>, s))"

definition of_Seek :: "openfile \<Rightarrow> int \<Rightarrow> openfile" where
  "of_Seek f position = f\<lparr>of_seekPosition := position\<rparr>"

definition of_Length :: "openfile \<Rightarrow> int" where
  "of_Length f = fh_FileLength (of_hdr f)"

text \<open>
  \<^verbatim>\<open>bcopy\<close> out of and into a buffer at an offset; bytes outside the buffer are an error.
\<close>

definition bcopy_from :: "byte list \<Rightarrow> int \<Rightarrow> int \<Rightarrow> byte list result" where
  "bcopy_from buf off n =
     (if 0 \<le> off \<and> 0 \<le> n \<and> off + n \<le> int (length buf) then Inr (take (nat n) (drop (nat off) buf))
      else Inl OutOfBounds)"

definition overlay :: "'a list \<Rightarrow> nat \<Rightarrow> 'a list \<Rightarrow> 'a list" where
  "overlay buf off bs = take off buf @ bs @ drop (off + length bs) buf"

definition bcopy_to :: "byte list \<Rightarrow> int \<Rightarrow> byte list \<Rightarrow> byte list result" where
  "bcopy_to buf off bs =
     (if 0 \<le> off \<and> off + int (length bs) \<le> int (length buf) then Inr (overlay buf (nat off) bs)
      else Inl OutOfBounds)"

text \<open>The loops over the sectors \<open>i\<close> to \<open>last\<close> of the file in \<^verbatim>\<open>ReadAt\<close> and \<^verbatim>\<open>WriteAt\<close>.\<close>

function of_read_loop :: "synchdisk \<Rightarrow> filehdr \<Rightarrow> int \<Rightarrow> int \<Rightarrow> (byte list \<times> synchdisk) result" where
  "of_read_loop s h i lastSector =
     (if i \<le> lastSector
      then rbind (fh_ByteToSector h (i * SectorSize)) (\<lambda>k.
           rbind (ReadSector s k) (\<lambda>(b, s).
           rbind (of_read_loop s h (i + 1) lastSector) (\<lambda>(bs, s). Inr (b @ bs, s))))
      else Inr ([], s))"
  by pat_completeness auto
termination
  by (relation "measure (\<lambda>(s, h, i, l). nat (l + 1 - i))") auto

function of_write_loop :: "synchdisk \<Rightarrow> filehdr \<Rightarrow> int \<Rightarrow> int \<Rightarrow> byte list \<Rightarrow> synchdisk result" where
  "of_write_loop s h i lastSector buf =
     (if i \<le> lastSector
      then rbind (fh_ByteToSector h (i * SectorSize)) (\<lambda>k.
           rbind (WriteSector s k (take 128 buf)) (\<lambda>s.
           of_write_loop s h (i + 1) lastSector (drop 128 buf)))
      else Inr s)"
  by pat_completeness auto
termination
  by (relation "measure (\<lambda>(s, h, i, l, b). nat (l + 1 - i))") auto

text \<open>
  \<^verbatim>\<open>ReadAt\<close> returns the bytes it copies into the caller's buffer; their number is the result
  of the C++ function. The end of the request, \<^verbatim>\<open>position + numBytes\<close>, is computed as an \<^verbatim>\<open>int\<close> before the request is clipped.
\<close>

definition of_ReadAt :: "synchdisk \<Rightarrow> openfile \<Rightarrow> int \<Rightarrow> int \<Rightarrow> (byte list \<times> synchdisk) result" where
  "of_ReadAt s f numBytes position =
     (let fileLength = fh_FileLength (of_hdr f) in
      if numBytes \<le> 0 \<or> position \<ge> fileLength then Inr ([], s)
      else if position + numBytes > INT_MAX then Inl IntOverflow
      else
        let numBytes = (if position + numBytes > fileLength then fileLength - position else numBytes);
            firstSector = divRoundDown position SectorSize;
            lastSector = divRoundDown (position + numBytes - 1) SectorSize in
        rbind (of_read_loop s (of_hdr f) firstSector lastSector) (\<lambda>(buf, s).
        rbind (bcopy_from buf (position - firstSector * SectorSize) numBytes) (\<lambda>into.
        Inr (into, s))))"

definition of_WriteAt ::
    "(nat \<Rightarrow> byte) \<Rightarrow> synchdisk \<Rightarrow> openfile \<Rightarrow> byte list \<Rightarrow> int \<Rightarrow> int \<Rightarrow> (int \<times> synchdisk) result" where
  "of_WriteAt junk s f from numBytes position =
     (let fileLength = fh_FileLength (of_hdr f) in
      if numBytes \<le> 0 \<or> position \<ge> fileLength then Inr (0, s)
      else if position + numBytes > INT_MAX then Inl IntOverflow
      else
        let numBytes = (if position + numBytes > fileLength then fileLength - position else numBytes);
            firstSector = divRoundDown position SectorSize;
            lastSector = divRoundDown (position + numBytes - 1) SectorSize;
            numSectors = 1 + lastSector - firstSector;
            buf = map junk [0..<nat (numSectors * SectorSize)];
            firstAligned = (position = firstSector * SectorSize);
            lastAligned = (position + numBytes = (lastSector + 1) * SectorSize) in
        rbind (if \<not> firstAligned
               then rbind (of_ReadAt s f SectorSize (firstSector * SectorSize)) (\<lambda>(b, s).
                    rbind (bcopy_to buf 0 b) (\<lambda>buf. Inr (buf, s)))
               else Inr (buf, s)) (\<lambda>(buf, s).
        rbind (if \<not> lastAligned \<and> (firstSector \<noteq> lastSector \<or> firstAligned)
               then rbind (of_ReadAt s f SectorSize (lastSector * SectorSize)) (\<lambda>(b, s).
                    rbind (bcopy_to buf ((lastSector - firstSector) * SectorSize) b) (\<lambda>buf. Inr (buf, s)))
               else Inr (buf, s)) (\<lambda>(buf, s).
        rbind (bcopy_from from 0 numBytes) (\<lambda>data.
        rbind (bcopy_to buf (position - firstSector * SectorSize) data) (\<lambda>buf.
        rbind (of_write_loop s (of_hdr f) firstSector lastSector buf) (\<lambda>s.
        Inr (numBytes, s)))))))"

definition of_Read :: "synchdisk \<Rightarrow> openfile \<Rightarrow> int \<Rightarrow> (byte list \<times> openfile \<times> synchdisk) result" where
  "of_Read s f numBytes =
     rbind (of_ReadAt s f numBytes (of_seekPosition f)) (\<lambda>(bs, s).
       Inr (bs, f\<lparr>of_seekPosition := of_seekPosition f + int (length bs)\<rparr>, s))"

definition of_Write ::
    "(nat \<Rightarrow> byte) \<Rightarrow> synchdisk \<Rightarrow> openfile \<Rightarrow> byte list \<Rightarrow> int \<Rightarrow> (int \<times> openfile \<times> synchdisk) result" where
  "of_Write junk s f from numBytes =
     rbind (of_WriteAt junk s f from numBytes (of_seekPosition f)) (\<lambda>(result, s).
       Inr (result, f\<lparr>of_seekPosition := of_seekPosition f + result\<rparr>, s))"

section \<open>The bitmap in a file\<close>

definition pbm_bytes :: "bitmap \<Rightarrow> byte list" where
  "pbm_bytes m = concat (map le32 (bmap m))"

text \<open>The bytes read replace the first ones of the array of words.\<close>

definition pbm_load :: "bitmap \<Rightarrow> byte list \<Rightarrow> bitmap" where
  "pbm_load m bs =
     (let image = overlay (pbm_bytes m) 0 bs
      in m\<lparr>bmap := map (\<lambda>k. un_le32 (chunk 4 image k)) [0..<length (bmap m)]\<rparr>)"

definition pbm_FetchFrom :: "synchdisk \<Rightarrow> openfile \<Rightarrow> bitmap \<Rightarrow> (bitmap \<times> synchdisk) result" where
  "pbm_FetchFrom s file m =
     rbind (of_ReadAt s file (numWords m * 4) 0) (\<lambda>(bs, s). Inr (pbm_load m bs, s))"

definition PersistentBitmap :: "synchdisk \<Rightarrow> openfile \<Rightarrow> int \<Rightarrow> (bitmap \<times> synchdisk) result" where
  "PersistentBitmap s file numItems =
     rbind (Bitmap numItems) (\<lambda>m.
     rbind (of_ReadAt s file (numWords m * 4) 0) (\<lambda>(bs, s). Inr (pbm_load m bs, s)))"

definition pbm_WriteBack :: "(nat \<Rightarrow> byte) \<Rightarrow> synchdisk \<Rightarrow> openfile \<Rightarrow> bitmap \<Rightarrow> synchdisk result" where
  "pbm_WriteBack junk s file m =
     rbind (of_WriteAt junk s file (pbm_bytes m) (numWords m * 4) 0) (\<lambda>(n, s). Inr s)"

declare fh_alloc_loop.simps [simp del] fh_dealloc_loop.simps [simp del]
  of_read_loop.simps [simp del] of_write_loop.simps [simp del]

section \<open>Lists of equal chunks\<close>

lemma length_concat_chunks: "\<forall>x \<in> set xs. length (f x) = n \<Longrightarrow> length (concat (map f xs)) = n * length xs"
  by (induction xs) auto

lemma take_concat_chunks:
  "\<forall>x \<in> set xs. length (f x) = n \<Longrightarrow> take (n * k) (concat (map f xs)) = concat (map f (take k xs))"
proof (induction xs arbitrary: k)
  case (Cons x xs)
  then show ?case by (cases k) auto
qed simp

lemma drop_concat_chunks:
  "\<forall>x \<in> set xs. length (f x) = n \<Longrightarrow> drop (n * k) (concat (map f xs)) = concat (map f (drop k xs))"
proof (induction xs arbitrary: k)
  case (Cons x xs)
  then show ?case by (cases k) auto
qed simp

lemma chunk_concat:
  assumes "\<forall>x \<in> set xs. length (f x) = n" and "k < length xs"
  shows "chunk n (concat (map f xs)) k = f (xs ! k)"
proof -
  have "drop k xs = xs ! k # drop (Suc k) xs" using assms(2) by (simp add: Cons_nth_drop_Suc)
  then show ?thesis using assms by (simp add: chunk_def drop_concat_chunks)
qed

lemma chunk_append: "length xs = n * m \<Longrightarrow> m \<le> k \<Longrightarrow> chunk n (xs @ ys) k = chunk n ys (k - m)"
  by (simp add: chunk_def diff_mult_distrib2)

lemma overlay_nth:
  "off + length bs \<le> length buf \<Longrightarrow> j < length buf \<Longrightarrow>
     overlay buf off bs ! j = (if off \<le> j \<and> j < off + length bs then bs ! (j - off) else buf ! j)"
  by (auto simp: overlay_def nth_append min_def)

lemma length_overlay [simp]: "off + length bs \<le> length buf \<Longrightarrow> length (overlay buf off bs) = length buf"
  by (auto simp: overlay_def)

section \<open>Headers on disk\<close>

definition fh_int32 :: "filehdr \<Rightarrow> bool" where
  "fh_int32 h \<longleftrightarrow> is_int32 (fh_numBytes h) \<and> is_int32 (fh_numSectors h) \<and> (\<forall>k \<in> set (fh_dataSectors h). is_int32 k)
     \<and> length (fh_dataSectors h) = nat NumDirect"

lemma NumDirect_30: "NumDirect = 30"
  by (simp add: NumDirect_def SectorSize_def)

lemma length_fh_bytes: "length (fh_dataSectors h) = nat NumDirect \<Longrightarrow> length (fh_bytes h) = 128"
  by (simp add: fh_bytes_def length_concat_chunks [where n = 4] NumDirect_30)

lemma fh_of_bytes_bytes: "fh_int32 h \<Longrightarrow> fh_of_bytes (fh_bytes h) = h"
proof -
  assume h: "fh_int32 h"
  let ?b = "int_bytes (fh_numBytes h) @ int_bytes (fh_numSectors h)"
  have l: "length (fh_dataSectors h) = 30" using h by (simp add: fh_int32_def NumDirect_30)
  have c: "chunk 4 (fh_bytes h) (k + 2) = int_bytes (fh_dataSectors h ! k)" if "k < 30" for k
    using chunk_append [of ?b 4 2 "k + 2" "concat (map int_bytes (fh_dataSectors h))"]
      chunk_concat [of "fh_dataSectors h" int_bytes 4 k] that l
    by (simp add: fh_bytes_def)
  have "map (\<lambda>k. bytes_int (chunk 4 (fh_bytes h) (k + 2))) [0..<30] = fh_dataSectors h"
    by (rule nth_equalityI) (use c l h in \<open>auto simp: fh_int32_def\<close>)
  moreover have "chunk 4 (fh_bytes h) 0 = int_bytes (fh_numBytes h)"
    "chunk 4 (fh_bytes h) 1 = int_bytes (fh_numSectors h)"
    by (simp_all add: chunk_def fh_bytes_def)
  ultimately show ?thesis using h by (simp add: fh_of_bytes_def fh_int32_def NumDirect_30)
qed

section \<open>The contents of a file\<close>

definition fh_sectors :: "filehdr \<Rightarrow> int list" where
  "fh_sectors h = take (nat (fh_numSectors h)) (fh_dataSectors h)"

definition fh_wf :: "filehdr \<Rightarrow> bool" where
  "fh_wf h \<longleftrightarrow> 0 \<le> fh_numBytes h \<and> fh_numSectors h = divRoundUp (fh_numBytes h) SectorSize
     \<and> fh_numSectors h \<le> NumDirect \<and> length (fh_dataSectors h) = nat NumDirect
     \<and> distinct (fh_sectors h) \<and> (\<forall>k \<in> set (fh_sectors h). valid_sector k)"

definition raw_data :: "synchdisk \<Rightarrow> filehdr \<Rightarrow> byte list" where
  "raw_data s h = concat (map (sector_of s) (fh_sectors h))"

definition file_data :: "synchdisk \<Rightarrow> filehdr \<Rightarrow> byte list" where
  "file_data s h = take (nat (fh_numBytes h)) (raw_data s h)"

lemma fh_wf_sectors:
  assumes "fh_wf h"
  shows "length (fh_sectors h) = nat (fh_numSectors h)" and "0 \<le> fh_numSectors h"
    and "fh_numBytes h \<le> 128 * fh_numSectors h" and "nat (fh_numSectors h) \<le> length (fh_dataSectors h)"
    and "nat (fh_numBytes h) \<le> 128 * nat (fh_numSectors h)"
proof -
  note b = divRoundUp_bounds [of "fh_numBytes h" 128]
  show n: "0 \<le> fh_numSectors h" "fh_numBytes h \<le> 128 * fh_numSectors h"
    using b(1,2) assms by (simp_all add: fh_wf_def SectorSize_def)
  show l: "nat (fh_numSectors h) \<le> length (fh_dataSectors h)"
    using assms unfolding fh_wf_def by (metis nat_mono)
  show "length (fh_sectors h) = nat (fh_numSectors h)" using l by (simp add: fh_sectors_def)
  show "nat (fh_numBytes h) \<le> 128 * nat (fh_numSectors h)" using n by linarith
qed

lemma fh_wf_128: "sd_ready s \<Longrightarrow> fh_wf h \<Longrightarrow> \<forall>k \<in> set (fh_sectors h). length (sector_of s k) = 128"
  unfolding fh_wf_def by (blast intro: sd.sector_length)

lemma length_raw_data: "sd_ready s \<Longrightarrow> fh_wf h \<Longrightarrow> length (raw_data s h) = 128 * nat (fh_numSectors h)"
  by (simp add: raw_data_def fh_wf_sectors(1) length_concat_chunks [OF fh_wf_128])

lemma length_file_data: "sd_ready s \<Longrightarrow> fh_wf h \<Longrightarrow> length (file_data s h) = nat (fh_numBytes h)"
  using fh_wf_sectors(5) [of h] by (simp add: file_data_def length_raw_data)

lemma of_read_loop_eq:
  "a \<le> c \<Longrightarrow> c \<le> length (fh_dataSectors h) \<Longrightarrow>
     of_read_loop s h (int a) (int c - 1) = read_sectors ReadSector s (take (c - a) (drop a (fh_dataSectors h)))"
proof (induction "c - a" arbitrary: a s)
  case 0
  then show ?case by (subst of_read_loop.simps) simp
next
  case (Suc d)
  then have a: "a < length (fh_dataSectors h)" "a < c" by simp_all
  have e: "take (c - a) (drop a (fh_dataSectors h)) =
      fh_dataSectors h ! a # take (c - Suc a) (drop (Suc a) (fh_dataSectors h))"
    using a by (simp add: Cons_nth_drop_Suc [symmetric] take_Cons')
  have b: "fh_ByteToSector h (int a * SectorSize) = Inr (fh_dataSectors h ! a)"
    using a by (simp add: fh_ByteToSector_def SectorSize_def)
  have IH: "of_read_loop s' h (int a + 1) (int c - 1) =
      read_sectors ReadSector s' (take (c - Suc a) (drop (Suc a) (fh_dataSectors h)))" for s'
    using Suc.hyps(1) [of "Suc a" s'] Suc.hyps(2) Suc.prems a by (simp add: ac_simps)
  show ?case using a by (subst of_read_loop.simps) (simp add: e b IH)
qed

lemma of_write_loop_eq:
  "a \<le> c \<Longrightarrow> c \<le> length (fh_dataSectors h) \<Longrightarrow>
     of_write_loop s h (int a) (int c - 1) buf =
       write_sectors WriteSector s (take (c - a) (drop a (fh_dataSectors h))) buf"
proof (induction "c - a" arbitrary: a s buf)
  case 0
  then show ?case by (subst of_write_loop.simps) simp
next
  case (Suc d)
  then have a: "a < length (fh_dataSectors h)" "a < c" by simp_all
  have e: "take (c - a) (drop a (fh_dataSectors h)) =
      fh_dataSectors h ! a # take (c - Suc a) (drop (Suc a) (fh_dataSectors h))"
    using a by (simp add: Cons_nth_drop_Suc [symmetric] take_Cons')
  have b: "fh_ByteToSector h (int a * SectorSize) = Inr (fh_dataSectors h ! a)"
    using a by (simp add: fh_ByteToSector_def SectorSize_def)
  have IH: "of_write_loop s' h (int a + 1) (int c - 1) buf' =
      write_sectors WriteSector s' (take (c - Suc a) (drop (Suc a) (fh_dataSectors h))) buf'" for s' buf'
    using Suc.hyps(1) [of "Suc a" s' buf'] Suc.hyps(2) Suc.prems a by (simp add: ac_simps)
  show ?case using a by (subst of_write_loop.simps) (simp add: e b IH)
qed

text \<open>The sectors of a file between two indices, and the bytes in them.\<close>

lemma window_sectors:
  "c \<le> nat (fh_numSectors h) \<Longrightarrow> take (c - a) (drop a (fh_dataSectors h)) = take (c - a) (drop a (fh_sectors h))"
  by (simp add: fh_sectors_def drop_take min_def)

lemma window_data:
  assumes "sd_ready s" and "fh_wf h" and "a \<le> c" "c \<le> nat (fh_numSectors h)"
  shows "concat (map (sector_of s) (take (c - a) (drop a (fh_sectors h)))) =
    take (128 * (c - a)) (drop (128 * a) (raw_data s h))"
proof -
  have v: "\<forall>k \<in> set (fh_sectors h). length (sector_of s k) = 128"
    using assms by (simp add: fh_wf_128)
  then have "\<forall>k \<in> set (drop a (fh_sectors h)). length (sector_of s k) = 128" by (meson in_set_dropD)
  then show ?thesis
    using v by (simp add: raw_data_def drop_concat_chunks take_concat_chunks)
qed

lemma window_valid: "fh_wf h \<Longrightarrow> \<forall>k \<in> set (take m (drop a (fh_sectors h))). valid_sector k"
  by (meson fh_wf_def in_set_dropD in_set_takeD)

lemma of_read_window:
  assumes "sd_ready s" and "fh_wf h" and "a \<le> c" "c \<le> nat (fh_numSectors h)"
  shows "\<exists>s'. of_read_loop s h (int a) (int c - 1) = Inr (take (128 * (c - a)) (drop (128 * a) (raw_data s h)), s')
    \<and> sd_ready s' \<and> sector_of s' = sector_of s"
proof -
  have "c \<le> length (fh_dataSectors h)" using fh_wf_sectors(4) [OF assms(2)] assms(4) by simp
  then show ?thesis
    using sd.read_sectors_ok [OF assms(1) window_valid [OF assms(2)], of "c - a" a]
    by (simp add: of_read_loop_eq assms(3) window_sectors [OF assms(4)] window_data [OF assms])
qed

text \<open>The sectors that a request for \<open>n\<close> bytes at \<open>p\<close> touches, in the file's own terms.\<close>

lemma request_window:
  fixes p n :: nat
  assumes "0 < n"
  defines "a \<equiv> p div 128" and "c \<equiv> (p + n - 1) div 128 + 1"
  shows "divRoundDown (int p) SectorSize = int a" and "divRoundDown (int p + int n - 1) SectorSize = int c - 1"
    and "a < c" and "128 * a \<le> p" and "p < 128 * (a + 1)" and "p + n \<le> 128 * c" and "128 * (c - 1) < p + n"
    and "p + n \<le> 128 * m \<Longrightarrow> c \<le> m"
proof -
  have q: "divRoundDown (int m) SectorSize = int (m div 128)" for m
    by (simp add: divRoundDown_def SectorSize_def zdiv_int)
  show "divRoundDown (int p) SectorSize = int a" by (simp only: q a_def)
  have e: "int p + int n - 1 = int (p + n - 1)" using assms(1) by simp
  show "divRoundDown (int p + int n - 1) SectorSize = int c - 1"
    unfolding e q c_def by simp
  have d: "128 * (m div 128) \<le> m" "m < 128 + 128 * (m div 128)" for m :: nat
    by (rule times_div_less_eq_dividend, rule dividend_less_times_div) simp
  show "128 * a \<le> p" "p < 128 * (a + 1)" using d [of p] by (simp_all add: a_def)
  show "p + n \<le> 128 * c" "128 * (c - 1) < p + n"
    using d [of "p + n - 1"] assms(1) by (simp_all only: c_def) auto
  show "a < c" using assms(1) by (simp add: a_def c_def less_Suc_eq_le div_le_mono)
  show "p + n \<le> 128 * m \<Longrightarrow> c \<le> m" using assms(1) by (simp add: c_def Suc_le_eq less_mult_imp_div_less mult.commute)
qed

section \<open>Reads\<close>

text \<open>The request is empty, or its end is an \<^verbatim>\<open>int\<close>.\<close>

definition end_fits :: "filehdr \<Rightarrow> int \<Rightarrow> int \<Rightarrow> bool" where
  "end_fits h n position \<longleftrightarrow> n \<le> 0 \<or> position \<ge> fh_numBytes h \<or> position + n \<le> INT_MAX"

lemma fh_wf_size: "fh_wf h \<Longrightarrow> fh_numBytes h \<le> 3840"
  using divRoundUp_bounds(2) [of "fh_numBytes h" SectorSize] by (simp add: fh_wf_def NumDirect_30 SectorSize_def)

lemma end_fits_small: "fh_wf h \<Longrightarrow> n \<le> 2147479807 \<Longrightarrow> end_fits h n position"
  using fh_wf_size [of h] by (auto simp: end_fits_def INT_MAX_def)

lemma end_overflows:
  assumes "\<not> end_fits (of_hdr f) n position"
  shows "of_ReadAt s f n position = Inl IntOverflow" "of_WriteAt junk s f bs n position = Inl IntOverflow"
  using assms by (simp_all add: end_fits_def of_ReadAt_def of_WriteAt_def fh_FileLength_def Let_def)

lemma of_ReadAt_core:
  fixes p n :: nat
  assumes r: "sd_ready s" and wf: "fh_wf (of_hdr f)" and n: "0 < n"
    and le: "int p + int n \<le> fh_numBytes (of_hdr f)"
  shows "\<exists>s'. rbind (of_read_loop s (of_hdr f) (divRoundDown (int p) SectorSize)
        (divRoundDown (int p + int n - 1) SectorSize)) (\<lambda>(buf, s).
      rbind (bcopy_from buf (int p - divRoundDown (int p) SectorSize * SectorSize) (int n)) (\<lambda>into.
      Inr (into, s))) = Inr (take n (drop p (file_data s (of_hdr f))), s')
    \<and> sd_ready s' \<and> sector_of s' = sector_of s"
proof -
  let ?h = "of_hdr f" and ?raw = "raw_data s (of_hdr f)"
  define a c where "a = p div 128" and "c = (p + n - 1) div 128 + 1"
  note w = request_window [OF n, of p, folded a_def c_def]
  have pn: "p + n \<le> nat (fh_numBytes ?h)" using le by linarith
  then have "p + n \<le> 128 * nat (fh_numSectors ?h)" using fh_wf_sectors(5) [OF wf] by linarith
  then have c: "c \<le> nat (fh_numSectors ?h)" by (rule w(8))
  obtain s' where s': "of_read_loop s ?h (int a) (int c - 1) = Inr (take (128 * (c - a)) (drop (128 * a) ?raw), s')"
    "sd_ready s'" "sector_of s' = sector_of s"
    using of_read_window [OF r wf _ c, of a] w(3) by auto
  have len: "length (take (128 * (c - a)) (drop (128 * a) ?raw)) = 128 * (c - a)"
    using c length_raw_data [OF r wf] w(3) by (auto simp: min_def diff_mult_distrib2)
  have ac: "p - 128 * a + n \<le> 128 * (c - a)" using w(3,4,6) by (simp add: diff_mult_distrib2)
  have off: "int p - int a * SectorSize = int (p - 128 * a)" using w(4) by (simp add: SectorSize_def)
  have "take n (drop (p - 128 * a) (take (128 * (c - a)) (drop (128 * a) ?raw))) = take n (drop p ?raw)"
    using w(4) ac by (simp add: drop_take min_def)
  also have "\<dots> = take n (drop p (file_data s ?h))"
    using pn by (simp add: file_data_def drop_take min_def)
  finally have copy: "bcopy_from (take (128 * (c - a)) (drop (128 * a) ?raw)) (int p - int a * SectorSize) (int n)
      = Inr (take n (drop p (file_data s ?h)))"
    unfolding bcopy_from_def off len using ac by simp
  show ?thesis using s' copy by (simp add: w(1,2))
qed

lemma of_ReadAt_ok:
  assumes r: "sd_ready s" and wf: "fh_wf (of_hdr f)" and p: "0 \<le> position" and fits: "end_fits (of_hdr f) n position"
  shows "\<exists>s'. of_ReadAt s f n position = Inr (take (nat n) (drop (nat position) (file_data s (of_hdr f))), s')
    \<and> sd_ready s' \<and> sector_of s' = sector_of s"
proof (cases "n \<le> 0 \<or> position \<ge> fh_numBytes (of_hdr f)")
  case True
  then show ?thesis
    using r length_file_data [OF r wf] by (auto simp: of_ReadAt_def fh_FileLength_def)
next
  case False
  define m where "m = nat (if position + n > fh_numBytes (of_hdr f) then fh_numBytes (of_hdr f) - position else n)"
  have m: "0 < m" "int (nat position) + int m \<le> fh_numBytes (of_hdr f)"
    "int m = (if position + n > fh_numBytes (of_hdr f) then fh_numBytes (of_hdr f) - position else n)"
    using False p by (auto simp: m_def)
  have "take m (drop (nat position) (file_data s (of_hdr f))) = take (nat n) (drop (nat position) (file_data s (of_hdr f)))"
    using length_file_data [OF r wf] p False by (cases "position + n > fh_numBytes (of_hdr f)") (auto simp: m_def)
  then show ?thesis
    using of_ReadAt_core [OF r wf m(1,2)] False p fits
    by (simp add: end_fits_def of_ReadAt_def fh_FileLength_def Let_def m(3) [symmetric])
qed

section \<open>Writes\<close>

lemma of_write_window:
  assumes r: "sd_ready s" and wf: "fh_wf h" and ac: "a \<le> c" "c \<le> nat (fh_numSectors h)"
    and len: "length buf = 128 * (c - a)"
  shows "\<exists>s'. of_write_loop s h (int a) (int c - 1) buf = Inr s' \<and> sd_ready s'
    \<and> raw_data s' h = overlay (raw_data s h) (128 * a) buf
    \<and> (\<forall>j. valid_sector j \<longrightarrow> j \<notin> set (fh_sectors h) \<longrightarrow> sector_of s' j = sector_of s j)"
proof -
  let ?S = "fh_sectors h"
  let ?W = "take (c - a) (drop a ?S)"
  have cl: "c \<le> length (fh_dataSectors h)" using fh_wf_sectors(4) [OF wf] ac(2) by simp
  have S: "?S = take a ?S @ ?W @ drop c ?S"
    using ac by (metis append_take_drop_id le_add_diff_inverse2 drop_drop)
  have d: "distinct ?S" "\<forall>k \<in> set ?S. valid_sector k" using wf by (simp_all add: fh_wf_def)
  have "distinct (take a ?S @ ?W @ drop c ?S)" using d(1) S by simp
  then have dw: "distinct ?W" "set (take a ?S) \<inter> set ?W = {}" "set (drop c ?S) \<inter> set ?W = {}"
    unfolding distinct_append set_append by blast+
  have lw: "length buf = 128 * length ?W" using len ac fh_wf_sectors(1) [OF wf] by simp
  obtain s' where s': "write_sectors WriteSector s ?W buf = Inr s'" "sd_ready s'"
    "concat (map (sector_of s') ?W) = buf"
    "\<forall>j. valid_sector j \<longrightarrow> j \<notin> set ?W \<longrightarrow> sector_of s' j = sector_of s j"
    using sd.write_sectors_ok [OF r window_valid [OF wf] dw(1) lw] by blast
  have v: "\<forall>k \<in> set ?S. length (sector_of s k) = 128" by (rule fh_wf_128 [OF r wf])
  have same: "map (sector_of s') ks = map (sector_of s) ks" if "set ks \<subseteq> set ?S" "set ks \<inter> set ?W = {}" for ks
    using that d(2) s'(4) by (auto intro!: map_cong)
  have "raw_data s' h = concat (map (sector_of s') (take a ?S @ ?W @ drop c ?S))"
    unfolding raw_data_def S [symmetric] ..
  also have "\<dots> = concat (map (sector_of s) (take a ?S)) @ buf @ concat (map (sector_of s) (drop c ?S))"
    unfolding map_append concat_append s'(3) same [OF set_take_subset dw(2)]
      same [OF set_drop_subset dw(3)] ..
  also have "\<dots> = overlay (raw_data s h) (128 * a) buf"
    using v len ac by (simp add: overlay_def raw_data_def take_concat_chunks drop_concat_chunks
        add_mult_distrib2 [symmetric])
  finally have raw: "raw_data s' h = overlay (raw_data s h) (128 * a) buf" .
  have "\<forall>j. valid_sector j \<longrightarrow> j \<notin> set ?S \<longrightarrow> sector_of s' j = sector_of s j"
    using s'(4) by (meson in_set_dropD in_set_takeD)
  then show ?thesis
    using s'(1,2) raw by (simp add: of_write_loop_eq [OF ac(1) cl] window_sectors [OF ac(2)])
qed

text \<open>
  The buffer \<^verbatim>\<open>WriteAt\<close> prepares: the whole window of the sectors \<open>a\<close> to \<open>c - 1\<close>, in which every
  byte of the file outside the written range is the file's own. It starts as junk, and the
  first and the last sector are read in when they are partly overwritten.
\<close>

definition prepared :: "byte list \<Rightarrow> nat \<Rightarrow> nat \<Rightarrow> nat \<Rightarrow> nat \<Rightarrow> byte list \<Rightarrow> bool" where
  "prepared fd a c p n buf \<longleftrightarrow> length buf = 128 * (c - a)
     \<and> (\<forall>j < 128 * (c - a). 128 * a + j < length fd \<longrightarrow> 128 * a + j < p \<or> p + n \<le> 128 * a + j \<longrightarrow>
          buf ! j = fd ! (128 * a + j))"

lemma prepared_overlays:
  fixes fd :: "byte list" and p n :: nat
  assumes n: "0 < n" "p + n \<le> length fd" and len: "length buf = 128 * (c - a)"
    and a: "a = p div 128" and c: "c = (p + n - 1) div 128 + 1"
  defines "b1 \<equiv> take 128 (drop (128 * a) fd)" and "b2 \<equiv> take 128 (drop (128 * (c - 1)) fd)"
  defines "buf1 \<equiv> if p \<noteq> 128 * a then overlay buf 0 b1 else buf"
  defines "buf2 \<equiv> if p + n \<noteq> 128 * c \<and> (a \<noteq> c - 1 \<or> p = 128 * a) then overlay buf1 (128 * (c - 1 - a)) b2 else buf1"
  shows "prepared fd a c p n buf2" and "length b1 \<le> length buf" and "length buf1 = length buf"
    and "128 * (c - 1 - a) + length b2 \<le> length buf1"
proof -
  note w = request_window [OF n(1), of p, folded a c]
  have ca: "128 \<le> 128 * (c - a)" using w(3) by simp
  show l1: "length b1 \<le> length buf" using ca len by (simp add: b1_def)
  show l: "length buf1 = length buf" using l1 by (simp add: buf1_def)
  have e: "128 * (c - 1 - a) + 128 = 128 * (c - a)" using w(3) by simp
  have "length b2 \<le> 128" by (simp add: b2_def)
  then show l2: "128 * (c - 1 - a) + length b2 \<le> length buf1" using e l len by linarith
  have "buf2 ! j = fd ! (128 * a + j)"
    if j: "j < 128 * (c - a)" "128 * a + j < length fd" "128 * a + j < p \<or> p + n \<le> 128 * a + j" for j
  proof -
    have b1: "b1 ! j = fd ! (128 * a + j)" "j < length b1" if "j < 128" using that j by (simp_all add: b1_def)
    have b2: "b2 ! (j - 128 * (c - 1 - a)) = fd ! (128 * a + j)" "j < 128 * (c - 1 - a) + length b2"
      if "128 * (c - 1 - a) \<le> j"
    proof -
      obtain x where "c = a + x + 1" using w(3) less_imp_Suc_add by fastforce
      then have x: "c - 1 - a = x" "c - 1 = a + x" "c - a = x + 1" by simp_all
      have "128 * (a + x) + (j - 128 * x) = 128 * a + j" "j - 128 * x < 128"
        using that j(1) unfolding x by auto
      then show "b2 ! (j - 128 * (c - 1 - a)) = fd ! (128 * a + j)" "j < 128 * (c - 1 - a) + length b2"
        using j(2) that unfolding x b2_def by auto
    qed
    have buf1: "buf1 ! j = fd ! (128 * a + j)" if "j < 128" "p \<noteq> 128 * a"
      using that b1 l1 j(1) len by (simp add: buf1_def overlay_nth)
    have buf2: "buf2 ! j = (if p + n \<noteq> 128 * c \<and> (a \<noteq> c - 1 \<or> p = 128 * a) \<and> 128 * (c - 1 - a) \<le> j
        then fd ! (128 * a + j) else buf1 ! j)"
      using b2 l2 j(1) l len by (auto simp: buf2_def overlay_nth)
    show ?thesis
    proof (cases "128 * a + j < p")
      case True
      then have "j < 128" "p \<noteq> 128 * a" using w(5) by auto
      then show ?thesis using buf1 buf2 by auto
    next
      case False
      then have g: "p + n \<le> 128 * a + j" using j(3) by simp
      then have "128 * (c - 1 - a) \<le> j" "p + n \<noteq> 128 * c" using w(3,7) j(1) by auto
      then show ?thesis using buf2 buf1 j(1) w(3) by (cases "a \<noteq> c - 1 \<or> p = 128 * a") auto
    qed
  qed
  then show "prepared fd a c p n buf2"
    using l l2 len by (simp add: prepared_def buf2_def)
qed

lemma prepared_written:
  assumes pr: "prepared fd a c p n buf" and fd: "fd = take nb raw" "nb \<le> length raw"
    and len: "128 * c \<le> length raw" "length data = n" "p + n \<le> nb" "128 * a \<le> p" "p + n \<le> 128 * c" "a < c"
  shows "take nb (overlay raw (128 * a) (overlay buf (p - 128 * a) data)) = overlay fd p data"
proof (rule nth_equalityI)
  have lb: "length buf = 128 * (c - a)" using pr by (simp add: prepared_def)
  have e: "128 * a + 128 * (c - a) = 128 * c" using len(6) by (simp add: diff_mult_distrib2)
  have o: "p - 128 * a + length data \<le> length buf" using lb len e by linarith
  have lr: "128 * a + length (overlay buf (p - 128 * a) data) \<le> length raw" using o lb e len by simp
  have lf: "length fd = nb" using fd by simp
  show "length (take nb (overlay raw (128 * a) (overlay buf (p - 128 * a) data))) = length (overlay fd p data)"
    using lr lf len fd(2) by simp
  fix i assume "i < length (take nb (overlay raw (128 * a) (overlay buf (p - 128 * a) data)))"
  then have i: "i < nb" by simp
  have "overlay raw (128 * a) (overlay buf (p - 128 * a) data) ! i =
      (if 128 * a \<le> i \<and> i < 128 * c then overlay buf (p - 128 * a) data ! (i - 128 * a) else raw ! i)"
    using lr i fd(2) o lb e by (simp add: overlay_nth)
  also have "\<dots> = (if p \<le> i \<and> i < p + n then data ! (i - p) else fd ! i)"
  proof (cases "128 * a \<le> i \<and> i < 128 * c")
    case True
    then have "i - 128 * a < length buf" using lb e by linarith
    moreover have "i - 128 * a < 128 * (c - a)" using True e by linarith
    then have "\<not> (p \<le> i \<and> i < p + n) \<Longrightarrow> buf ! (i - 128 * a) = fd ! i"
      using pr True i lf unfolding prepared_def by (auto dest!: spec [of _ "i - 128 * a"])
    ultimately show ?thesis using True o len by (auto simp: overlay_nth)
  next
    case False
    then show ?thesis using len(4,5) i fd by auto
  qed
  also have "\<dots> = overlay fd p data ! i" using i lf len by (simp add: overlay_nth)
  finally show "take nb (overlay raw (128 * a) (overlay buf (p - 128 * a) data)) ! i = overlay fd p data ! i"
    using i by simp
qed

text \<open>One conditional read of a sector of the file into the buffer.\<close>

lemma read_into:
  assumes "sd_ready s" and "fh_wf (of_hdr f)" and "off + length (take 128 (drop (128 * k) (file_data s (of_hdr f)))) \<le> length buf"
  shows "\<exists>s'. (if b then rbind (of_ReadAt s f SectorSize (int k * SectorSize)) (\<lambda>(b, s).
        rbind (bcopy_to buf (int off) b) (\<lambda>buf. Inr (buf, s))) else Inr (buf, s)) =
      Inr (if b then overlay buf off (take 128 (drop (128 * k) (file_data s (of_hdr f)))) else buf, s')
    \<and> sd_ready s' \<and> sector_of s' = sector_of s"
proof -
  have "nat (int k * 128) = 128 * k" by (simp add: nat_mult_distrib)
  then show ?thesis
    using of_ReadAt_ok [OF assms(1,2) _ end_fits_small [OF assms(2)], of "int k * SectorSize" SectorSize] assms
    by (auto simp: bcopy_to_def SectorSize_def)
qed

lemma of_WriteAt_core:
  fixes p n :: nat and junk :: "nat \<Rightarrow> byte"
  assumes r: "sd_ready s" and wf: "fh_wf (of_hdr f)" and n: "0 < n"
    and le: "int p + int n \<le> fh_numBytes (of_hdr f)" and fr: "n \<le> length from"
    and a: "a = p div 128" and c: "c = (p + n - 1) div 128 + 1"
  shows "\<exists>s'. rbind (if p \<noteq> 128 * a
               then rbind (of_ReadAt s f SectorSize (int a * SectorSize)) (\<lambda>(b, s).
                    rbind (bcopy_to (map junk [0..<128 * (c - a)]) (int 0) b) (\<lambda>buf. Inr (buf, s)))
               else Inr (map junk [0..<128 * (c - a)], s)) (\<lambda>(buf, s).
        rbind (if p + n \<noteq> 128 * c \<and> (a \<noteq> c - 1 \<or> p = 128 * a)
               then rbind (of_ReadAt s f SectorSize ((int c - 1) * SectorSize)) (\<lambda>(b, s).
                    rbind (bcopy_to buf (int (128 * (c - 1 - a))) b) (\<lambda>buf. Inr (buf, s)))
               else Inr (buf, s)) (\<lambda>(buf, s).
        rbind (bcopy_from from 0 (int n)) (\<lambda>data.
        rbind (bcopy_to buf (int (p - 128 * a)) data) (\<lambda>buf.
        rbind (of_write_loop s (of_hdr f) (int a) (int c - 1) buf) (\<lambda>s.
        Inr (int n, s)))))) = Inr (int n, s')
    \<and> sd_ready s' \<and> file_data s' (of_hdr f) = overlay (file_data s (of_hdr f)) p (take n from)
    \<and> (\<forall>j. valid_sector j \<longrightarrow> j \<notin> set (fh_sectors (of_hdr f)) \<longrightarrow> sector_of s' j = sector_of s j)"
proof -
  let ?h = "of_hdr f" and ?buf = "map junk [0..<128 * (c - a)]"
  let ?fd = "file_data s ?h" and ?data = "take n from"
  let ?b1 = "take 128 (drop (128 * a) ?fd)" and ?b2 = "take 128 (drop (128 * (c - 1)) ?fd)"
  let ?buf1 = "if p \<noteq> 128 * a then overlay ?buf 0 ?b1 else ?buf"
  let ?buf2 = "if p + n \<noteq> 128 * c \<and> (a \<noteq> c - 1 \<or> p = 128 * a) then overlay ?buf1 (128 * (c - 1 - a)) ?b2 else ?buf1"
  note w = request_window [OF n, of p, folded a c]
  have pn: "p + n \<le> length ?fd" using le length_file_data [OF r wf] by linarith
  have cn: "c \<le> nat (fh_numSectors ?h)"
    using w(8) pn fh_wf_sectors(5) [OF wf] length_file_data [OF r wf] by simp
  note ps = prepared_overlays [OF n pn _ a c, of ?buf, simplified length_map length_upt minus_nat.diff_0, OF refl]
  have data: "bcopy_from from 0 (int n) = Inr ?data" "length ?data = n"
    using fr by (simp_all add: bcopy_from_def)
  obtain s1 where s1: "(if p \<noteq> 128 * a
       then rbind (of_ReadAt s f SectorSize (int a * SectorSize)) (\<lambda>(b, s).
            rbind (bcopy_to ?buf (int 0) b) (\<lambda>buf. Inr (buf, s)))
       else Inr (?buf, s)) = Inr (?buf1, s1)" "sd_ready s1" "sector_of s1 = sector_of s"
    using read_into [OF r wf, of 0 a ?buf "p \<noteq> 128 * a"] ps(2) by auto
  have fd1: "file_data s1 ?h = ?fd" using s1(3) by (simp add: file_data_def raw_data_def)
  obtain s2 where s2: "(if p + n \<noteq> 128 * c \<and> (a \<noteq> c - 1 \<or> p = 128 * a)
       then rbind (of_ReadAt s1 f SectorSize (int (c - 1) * SectorSize)) (\<lambda>(b, s).
            rbind (bcopy_to ?buf1 (int (128 * (c - 1 - a))) b) (\<lambda>buf. Inr (buf, s)))
       else Inr (?buf1, s1)) = Inr (?buf2, s2)" "sd_ready s2" "sector_of s2 = sector_of s"
    using read_into [OF s1(2) wf, of "128 * (c - 1 - a)" "c - 1" ?buf1 "p + n \<noteq> 128 * c \<and> (a \<noteq> c - 1 \<or> p = 128 * a)"]
      ps(4) s1(3) unfolding fd1 by auto
  have ic: "int (c - 1) = int c - 1" using w(3) by (simp add: of_nat_diff)
  have raw2: "raw_data s2 ?h = raw_data s ?h" using s2(3) by (simp add: raw_data_def)
  have lb: "length ?buf2 = 128 * (c - a)" using ps(1) by (simp add: prepared_def)
  have o: "p - 128 * a + length ?data \<le> length ?buf2"
  proof -
    have "128 * a + 128 * (c - a) = 128 * c" using w(3) by (simp add: diff_mult_distrib2)
    then have "p - 128 * a + n \<le> 128 * (c - a)" using w(4,6) by linarith
    then show ?thesis unfolding lb data(2) .
  qed
  have c3: "bcopy_to ?buf2 (int (p - 128 * a)) ?data = Inr (overlay ?buf2 (p - 128 * a) ?data)"
    using o unfolding bcopy_to_def by simp
  have l3: "length (overlay ?buf2 (p - 128 * a) ?data) = 128 * (c - a)" using o lb by simp
  obtain s3 where s3: "of_write_loop s2 ?h (int a) (int c - 1) (overlay ?buf2 (p - 128 * a) ?data) = Inr s3"
    "sd_ready s3" "raw_data s3 ?h = overlay (raw_data s ?h) (128 * a) (overlay ?buf2 (p - 128 * a) ?data)"
    "\<forall>j. valid_sector j \<longrightarrow> j \<notin> set (fh_sectors ?h) \<longrightarrow> sector_of s3 j = sector_of s2 j"
    using of_write_window [OF s2(2) wf _ cn l3] w(3) unfolding raw2 by auto
  have "file_data s3 ?h = overlay ?fd p ?data"
    unfolding file_data_def [of s3] s3(3)
    by (rule prepared_written [OF ps(1)])
       (use file_data_def length_raw_data [OF r wf] fh_wf_sectors(5) [OF wf] cn data(2) pn
          length_file_data [OF r wf] w in auto)
  then show ?thesis
    using s3(2,4) s2(3)
    unfolding s1(1) rbind_simps prod.case s2(1) [unfolded ic] data(1) c3 s3(1) by auto
qed

text \<open>How many bytes a write of \<open>n\<close> bytes at \<open>position\<close> stores: files do not grow.\<close>

definition clipped :: "filehdr \<Rightarrow> int \<Rightarrow> int \<Rightarrow> nat" where
  "clipped h n position = nat (min n (fh_numBytes h - position))"

lemma of_WriteAt_ok:
  fixes junk :: "nat \<Rightarrow> byte"
  assumes r: "sd_ready s" and wf: "fh_wf (of_hdr f)" and p: "0 \<le> position" and l: "n \<le> int (length bs)"
    and fits: "end_fits (of_hdr f) n position"
  defines "m \<equiv> clipped (of_hdr f) n position"
  shows "\<exists>s'. of_WriteAt junk s f bs n position = Inr (int m, s') \<and> sd_ready s'
    \<and> file_data s' (of_hdr f) = (if m = 0 then file_data s (of_hdr f)
         else overlay (file_data s (of_hdr f)) (nat position) (take m bs))
    \<and> (\<forall>j. valid_sector j \<longrightarrow> j \<notin> set (fh_sectors (of_hdr f)) \<longrightarrow> sector_of s' j = sector_of s j)"
proof (cases "n \<le> 0 \<or> position \<ge> fh_numBytes (of_hdr f)")
  case True
  then show ?thesis
    using r by (auto simp: of_WriteAt_def fh_FileLength_def m_def clipped_def min_def)
next
  case False
  let ?h = "of_hdr f"
  have m: "0 < m" "int m = (if position + n > fh_numBytes ?h then fh_numBytes ?h - position else n)"
    "int (nat position) + int m \<le> fh_numBytes ?h" "m \<le> length bs" "int (nat position) = position"
    using False p l by (auto simp: m_def clipped_def)
  define p where "p = nat position"
  define a c where "a = p div 128" and "c = (p + m - 1) div 128 + 1"
  note w = request_window [OF m(1), of p, folded a_def c_def]
  have pos: "position = int p" using m(5) by (simp add: p_def)
  have nofl: "\<not> position + n > INT_MAX" using fits False by (simp add: end_fits_def)
  have e: "(1 + (int c - 1) - int a) * SectorSize = int (128 * (c - a))"
    "int p - int a * SectorSize = int (p - 128 * a)"
    "(int c - 1 - int a) * SectorSize = int (128 * (c - 1 - a))"
    "int p = int a * SectorSize \<longleftrightarrow> p = 128 * a"
    "int p + int m = (int c - 1 + 1) * SectorSize \<longleftrightarrow> p + m = 128 * c" "int a = int c - 1 \<longleftrightarrow> a = c - 1"
    using w(3,4) by (auto simp: SectorSize_def)
  have i: "of_WriteAt junk s f bs n position =
    rbind (if p \<noteq> 128 * a
               then rbind (of_ReadAt s f SectorSize (int a * SectorSize)) (\<lambda>(b, s).
                    rbind (bcopy_to (map junk [0..<128 * (c - a)]) (int 0) b) (\<lambda>buf. Inr (buf, s)))
               else Inr (map junk [0..<128 * (c - a)], s)) (\<lambda>(buf, s).
        rbind (if p + m \<noteq> 128 * c \<and> (a \<noteq> c - 1 \<or> p = 128 * a)
               then rbind (of_ReadAt s f SectorSize ((int c - 1) * SectorSize)) (\<lambda>(b, s).
                    rbind (bcopy_to buf (int (128 * (c - 1 - a))) b) (\<lambda>buf. Inr (buf, s)))
               else Inr (buf, s)) (\<lambda>(buf, s).
        rbind (bcopy_from bs 0 (int m)) (\<lambda>data.
        rbind (bcopy_to buf (int (p - 128 * a)) data) (\<lambda>buf.
        rbind (of_write_loop s (of_hdr f) (int a) (int c - 1) buf) (\<lambda>s.
        Inr (int m, s))))))"
    using False nofl
    unfolding of_WriteAt_def fh_FileLength_def Let_def pos m(2) [unfolded pos, symmetric]
    unfolding w(1,2) e nat_int
    by (simp only: if_False int_ops(1))
  show ?thesis
    using of_WriteAt_core [OF r wf m(1) _ m(4) a_def c_def, of junk] m(1,3) unfolding i p_def [symmetric] by simp
qed

section \<open>Allocation of data sectors\<close>

lemma fh_alloc_loop_eq:
  assumes "i \<le> nat (fh_numSectors h)" and "nat (fh_numSectors h) \<le> length (fh_dataSectors h)"
    and "alloc_n bm_FindAndSet (nat (fh_numSectors h) - i) m = Inr (ks, m')"
  shows "fh_alloc_loop h m (int i) =
    Inr (h\<lparr>fh_dataSectors := take i (fh_dataSectors h) @ ks @ drop (nat (fh_numSectors h)) (fh_dataSectors h)\<rparr>, m')"
  using assms
proof (induction "nat (fh_numSectors h) - i" arbitrary: i h m ks)
  case 0
  then show ?case by (subst fh_alloc_loop.simps) auto
next
  case (Suc d)
  let ?n = "nat (fh_numSectors h)"
  have i: "i < ?n" "int i < fh_numSectors h" using Suc.hyps(2) by linarith+
  have e: "?n - i = Suc (?n - Suc i)" using i(1) by simp
  obtain k m1 ks' where k: "bm_FindAndSet m = Inr (k, m1)" "k \<ge> 0"
    "alloc_n bm_FindAndSet (?n - Suc i) m1 = Inr (ks', m')" "ks = k # ks'"
    using Suc.prems(3) unfolding e by (auto simp: rbind_Inr_iff rassert_Inr_iff)
  let ?h = "h\<lparr>fh_dataSectors := (fh_dataSectors h)[i := k]\<rparr>"
  have "fh_alloc_loop ?h m1 (int (Suc i)) = Inr (?h\<lparr>fh_dataSectors :=
      take (Suc i) (fh_dataSectors ?h) @ ks' @ drop ?n (fh_dataSectors ?h)\<rparr>, m')"
    using Suc.hyps(1) [of ?h "Suc i" m1 ks'] Suc.hyps(2) Suc.prems i k(3) by simp
  moreover have "take (Suc i) ((fh_dataSectors h)[i := k]) = take i (fh_dataSectors h) @ [k]"
    using i Suc.prems(2) by (simp add: take_Suc_conv_app_nth)
  ultimately show ?case
    using i k Suc.prems(2) by (subst fh_alloc_loop.simps) (simp add: ac_simps)
qed

lemma fh_Allocate_ok:
  assumes wf: "bm_wf m" and cap: "numBits m = NumSectors"
    and sz: "0 \<le> fileSize" "fileSize \<le> NumDirect * SectorSize" and len: "length (fh_dataSectors h) = nat NumDirect"
    and room: "divRoundUp fileSize SectorSize \<le> numBits m - int (card (bm_set m))"
  shows "\<exists>h' m'. fh_Allocate h m fileSize = Inr (True, h', m') \<and> fh_wf h' \<and> fh_numBytes h' = fileSize
    \<and> set (fh_sectors h') \<inter> bm_set m = {} \<and> bm_wf m' \<and> numBits m' = numBits m
    \<and> bm_set m' = bm_set m \<union> set (fh_sectors h')
    \<and> set (fh_dataSectors h') \<subseteq> set (fh_dataSectors h) \<union> set (fh_sectors h')"
proof -
  let ?n = "divRoundUp fileSize SectorSize"
  have n: "0 \<le> ?n" using divRoundUp_bounds(1) [OF sz(1)] by (simp add: SectorSize_def)
  have "SectorSize * ?n < fileSize + SectorSize"
    using divRoundUp_bounds(3) [OF sz(1)] by (simp add: SectorSize_def)
  then have n30: "?n \<le> NumDirect" using sz(2) by (simp add: SectorSize_def NumDirect_30)
  obtain ks m' where a: "alloc_n bm_FindAndSet (nat ?n) m = Inr (ks, m')" "length ks = nat ?n" "distinct ks"
    "set ks \<inter> bm_set m = {}" "set ks \<subseteq> {0..<numBits m}" "bm_wf m'" "numBits m' = numBits m"
    "bm_set m' = bm_set m \<union> set ks"
    using bm.alloc_n_enough [OF wf, of "nat ?n"] room n by auto
  let ?h = "h\<lparr>fh_numBytes := fileSize, fh_numSectors := ?n\<rparr>"
  let ?h' = "?h\<lparr>fh_dataSectors := ks @ drop (nat ?n) (fh_dataSectors h)\<rparr>"
  have le: "nat ?n \<le> length (fh_dataSectors h)" using n30 len by simp
  have "fh_alloc_loop ?h m (int 0) = Inr (?h', m')"
    using fh_alloc_loop_eq [of 0 ?h m ks m'] a(1) le by simp
  then have al: "fh_Allocate h m fileSize = Inr (True, ?h', m')"
    using bm.num_clear_law [OF wf] room by (simp add: fh_Allocate_def Let_def)
  have s: "fh_sectors ?h' = ks" using a(2) by (simp add: fh_sectors_def)
  have "fh_wf ?h'"
    using s a(2,3,5) sz n30 le len cap by (auto simp: fh_wf_def valid_sector_def)
  moreover have "set (fh_dataSectors ?h') \<subseteq> set (fh_dataSectors h) \<union> set ks"
    by (auto dest: in_set_dropD)
  ultimately show ?thesis using al s a(4,6,7,8)
    by (intro exI [of _ ?h'] exI [of _ m']) simp
qed

lemma fh_Allocate_full:
  "bm_wf m \<Longrightarrow> numBits m - int (card (bm_set m)) < divRoundUp fileSize SectorSize \<Longrightarrow>
     \<exists>h'. fh_Allocate h m fileSize = Inr (False, h', m)"
  using bm.num_clear_law [of m] by (simp add: fh_Allocate_def Let_def)

lemma fh_dealloc_loop_eq:
  "i \<le> nat (fh_numSectors h) \<Longrightarrow> nat (fh_numSectors h) \<le> length (fh_dataSectors h) \<Longrightarrow>
     fh_dealloc_loop h m (int i) = free_all bm_Test bm_Clear (drop i (fh_sectors h)) m"
proof (induction "nat (fh_numSectors h) - i" arbitrary: i m)
  case 0
  then show ?case by (subst fh_dealloc_loop.simps) (auto simp: fh_sectors_def)
next
  case (Suc d)
  let ?n = "nat (fh_numSectors h)"
  have i: "i < ?n" "int i < fh_numSectors h" "i < length (fh_dataSectors h)"
    using Suc.hyps(2) Suc.prems(2) by linarith+
  have "drop i (fh_sectors h) = fh_dataSectors h ! i # drop (Suc i) (fh_sectors h)"
    using i by (simp add: fh_sectors_def Cons_nth_drop_Suc [symmetric])
  moreover have "fh_dealloc_loop h m' (int (Suc i)) = free_all bm_Test bm_Clear (drop (Suc i) (fh_sectors h)) m'" for m'
    by (rule Suc.hyps(1)) (use Suc.hyps(2) Suc.prems i in simp_all)
  ultimately show ?case using i by (subst fh_dealloc_loop.simps) (simp add: ac_simps)
qed

lemma fh_Deallocate_ok:
  assumes "bm_wf m" and "fh_wf h" and "set (fh_sectors h) \<subseteq> bm_set m"
  shows "\<exists>m'. fh_Deallocate h m = Inr m' \<and> bm_wf m' \<and> numBits m' = numBits m
    \<and> bm_set m' = bm_set m - set (fh_sectors h)"
  using bm.free_all_used [OF assms(1) _ assms(3)] assms(2) fh_dealloc_loop_eq [of 0 h m]
    fh_wf_sectors(4) [OF assms(2)]
  by (simp add: fh_Deallocate_def fh_wf_def)

text \<open>
  Without the missing check: a file of more than \<^verbatim>\<open>NumDirect\<close> sectors makes \<^verbatim>\<open>Allocate\<close> write
  past the end of \<^verbatim>\<open>dataSectors\<close> whenever the disk has room for it.
\<close>

lemma fh_alloc_loop_overflow:
  assumes "i \<le> length (fh_dataSectors h)" and "int (length (fh_dataSectors h)) < fh_numSectors h"
    and "bm_wf m" and "fh_numSectors h - int i \<le> numBits m - int (card (bm_set m))"
  shows "fh_alloc_loop h m (int i) = Inl OutOfBounds"
  using assms
proof (induction "length (fh_dataSectors h) - i" arbitrary: i h m)
  case 0
  then have "i = length (fh_dataSectors h)" by simp
  moreover have "bm_set m \<noteq> {0..<numBits m}" using 0 by (intro bm.not_full) simp_all
  then obtain k m1 where "bm_FindAndSet m = Inr (k, m1)" using bm.find_free [OF "0.prems"(3)] by blast
  ultimately show ?case using 0 by (subst fh_alloc_loop.simps) (simp add: awrite_def)
next
  case (Suc d)
  have i: "i < length (fh_dataSectors h)" using Suc.hyps(2) by simp
  have "bm_set m \<noteq> {0..<numBits m}" using Suc.prems i by (intro bm.not_full) simp_all
  from bm.find_free [OF Suc.prems(3) this] obtain k m1 where k: "bm_FindAndSet m = Inr (k, m1)" "0 \<le> k"
    "bm_wf m1" "numBits m1 = numBits m" "k \<notin> bm_set m" "bm_set m1 = insert k (bm_set m)" by blast
  let ?h = "h\<lparr>fh_dataSectors := (fh_dataSectors h)[i := k]\<rparr>"
  have "fh_alloc_loop ?h m1 (int (Suc i)) = Inl OutOfBounds"
    by (rule Suc.hyps(1)) (use Suc.hyps(2) Suc.prems i k in simp_all)
  then show ?case using i k Suc.prems(2) by (subst fh_alloc_loop.simps) (simp add: ac_simps)
qed

section \<open>Headers and bitmaps on disk\<close>

lemma fh_FetchFrom_ok:
  assumes "sd_ready s" and "valid_sector k" and "sector_of s k = fh_bytes h" and "fh_int32 h"
  shows "\<exists>s'. fh_FetchFrom s k = Inr (h, s') \<and> sd_ready s' \<and> sector_of s' = sector_of s"
  using sd.rd_law [OF assms(1,2)] assms(3) fh_of_bytes_bytes [OF assms(4)]
  by (auto simp: fh_FetchFrom_def)

lemma fh_WriteBack_ok:
  assumes "sd_ready s" and "valid_sector k" and "fh_int32 h"
  shows "\<exists>s'. fh_WriteBack s h k = Inr s' \<and> sd_ready s'
    \<and> (\<forall>j. valid_sector j \<longrightarrow> sector_of s' j = (if j = k then fh_bytes h else sector_of s j))"
  using sd.wr_law [OF assms(1,2), of "fh_bytes h"] length_fh_bytes [of h] assms(3)
  by (simp add: fh_WriteBack_def fh_int32_def)

lemma length_pbm_bytes: "length (pbm_bytes m) = 4 * length (bmap m)"
  by (simp add: pbm_bytes_def length_concat_chunks [where n = 4])

lemma pbm_load_bytes:
  assumes "length (bmap m) = length (bmap m0)"
  shows "pbm_load m0 (pbm_bytes m) = m0\<lparr>bmap := bmap m\<rparr>"
proof -
  have "overlay (pbm_bytes m0) 0 (pbm_bytes m) = pbm_bytes m"
    using assms by (simp add: overlay_def length_pbm_bytes)
  moreover have "map (\<lambda>k. un_le32 (chunk 4 (pbm_bytes m) k)) [0..<length (bmap m)] = bmap m"
    by (rule nth_equalityI) (simp_all add: pbm_bytes_def chunk_concat)
  ultimately show ?thesis using assms by (simp add: pbm_load_def)
qed

lemma PersistentBitmap_ok:
  assumes "sd_ready s" and "fh_wf (of_hdr f)" and "bm_wf m" and "file_data s (of_hdr f) = pbm_bytes m"
  shows "\<exists>s'. PersistentBitmap s f (numBits m) = Inr (m, s') \<and> sd_ready s' \<and> sector_of s' = sector_of s"
proof -
  obtain m0 where m0: "Bitmap (numBits m) = Inr m0" "bm_wf m0" "numBits m0 = numBits m"
    using Bitmap_ok [of "numBits m"] assms(3) by (auto simp: bm_wf_def)
  have w: "numWords m0 = numWords m" "length (bmap m) = length (bmap m0)" "0 \<le> numWords m"
    "length (bmap m) = nat (numWords m)"
    using m0(2,3) assms(3) divRoundUp_bounds(1) [of "numBits m" 32] by (auto simp: bm_wf_def)
  have "m0\<lparr>bmap := bmap m\<rparr> = m" using w(1) m0(3) by (cases m; cases m0) simp
  moreover have "nat (numWords m * 4) = 4 * length (bmap m)" using w(3,4) by (simp add: nat_mult_distrib)
  then have "take (nat (numWords m0 * 4)) (pbm_bytes m) = pbm_bytes m"
    using w(1) by (simp add: length_pbm_bytes)
  moreover have fits: "end_fits (of_hdr f) (numWords m0 * 4) 0"
    using length_file_data [OF assms(1,2)] fh_wf_size [OF assms(2)] assms(4) w(1,3,4) by (intro end_fits_small [OF assms(2)]) (simp add: length_pbm_bytes)
  ultimately show ?thesis
    using of_ReadAt_ok [OF assms(1,2) _ fits] m0(1) assms(4) pbm_load_bytes [OF w(2)]
    by (auto simp: PersistentBitmap_def)
qed

lemma overlay_all: "length bs = length xs \<Longrightarrow> overlay xs 0 bs = bs"
  by (simp add: overlay_def)

lemma pbm_WriteBack_ok:
  assumes "sd_ready s" and "fh_wf (of_hdr f)" and "bm_wf m" and "fh_numBytes (of_hdr f) = 4 * numWords m"
  shows "\<exists>s'. pbm_WriteBack junk s f m = Inr s' \<and> sd_ready s' \<and> file_data s' (of_hdr f) = pbm_bytes m
    \<and> (\<forall>j. valid_sector j \<longrightarrow> j \<notin> set (fh_sectors (of_hdr f)) \<longrightarrow> sector_of s' j = sector_of s j)"
proof -
  have n: "int (length (pbm_bytes m)) = numWords m * 4" "0 < numWords m"
    using assms(3) divRoundUp_bounds(1,2) [of "numBits m" 32]
    by (auto simp: bm_wf_def length_pbm_bytes)
  have c: "clipped (of_hdr f) (numWords m * 4) 0 = length (pbm_bytes m)"
    using n assms(4) by (simp add: clipped_def)
  have l: "length (file_data s (of_hdr f)) = length (pbm_bytes m)"
    using length_file_data [OF assms(1,2)] assms(4) n by linarith
  have fits: "end_fits (of_hdr f) (numWords m * 4) 0" using fh_wf_size [OF assms(2)] assms(4) n by (intro end_fits_small [OF assms(2)]) linarith
  from l have "overlay (file_data s (of_hdr f)) 0 (take (length (pbm_bytes m)) (pbm_bytes m)) = pbm_bytes m"
    by (simp add: overlay_all)
  then show ?thesis
    using of_WriteAt_ok [OF assms(1,2) _ _ fits, of "pbm_bytes m" junk] n
    unfolding c by (auto simp: pbm_WriteBack_def split: if_splits)
qed

text \<open>A header of a file of 200 bytes in the sectors 10 and 11, used as an example.\<close>

definition sample_hdr :: filehdr where
  "sample_hdr = \<lparr>fh_numBytes = 200, fh_numSectors = 2, fh_dataSectors = 10 # 11 # replicate 28 0\<rparr>"

lemma sample_hdr_wf: "fh_wf sample_hdr"
  by (simp add: fh_wf_def sample_hdr_def fh_sectors_def divRoundUp_def SectorSize_def NumDirect_30
      valid_sector_def NumSectors_def SectorsPerTrack_def NumTracks_def numeral_2_eq_2)

section \<open>The promises of files\<close>

text \<open>
  A file header written to its sector and fetched again is the same header, for all
  header contents the C++ object can hold, and no other sector changes.
\<close>

theorem file_header_roundtrip:
  assumes "sd_ready s" and "valid_sector k" and "fh_int32 h"
  shows "\<exists>s1 s2. fh_WriteBack s h k = Inr s1 \<and> fh_FetchFrom s1 k = Inr (h, s2)
    \<and> (\<forall>j. valid_sector j \<longrightarrow> j \<noteq> k \<longrightarrow> sector_of s2 j = sector_of s j)"
proof -
  obtain s1 where s1: "fh_WriteBack s h k = Inr s1" "sd_ready s1"
    "\<forall>j. valid_sector j \<longrightarrow> sector_of s1 j = (if j = k then fh_bytes h else sector_of s j)"
    using fh_WriteBack_ok [OF assms] by auto
  then show ?thesis using fh_FetchFrom_ok [OF s1(2) assms(2) _ assms(3)] assms(2) by auto
qed

lemma file_header_roundtrip_witness:
  "\<exists>s s1 s2. fh_WriteBack s \<lparr>fh_numBytes = 200, fh_numSectors = 2, fh_dataSectors = replicate 30 (- 7)\<rparr> 5 = Inr s1
    \<and> fh_FetchFrom s1 5 = Inr (\<lparr>fh_numBytes = 200, fh_numSectors = 2, fh_dataSectors = replicate 30 (- 7)\<rparr>, s2)"
proof -
  obtain s where "sd_ready s" using disk_ready_exists by blast
  then show ?thesis
    using file_header_roundtrip [of s 5 "\<lparr>fh_numBytes = 200, fh_numSectors = 2, fh_dataSectors = replicate 30 (- 7)\<rparr>"]
    by (force simp: valid_sector_def disk_consts fh_int32_def is_int32_def NumDirect_30)
qed

text \<open>
  C22: \<^verbatim>\<open>ReadAt\<close> returns exactly the bytes of the file from the given position, at most as many
  as asked for and none past the end of the file, for requests that need not be aligned to
  sectors, and changes nothing on the disk. This holds for every request whose end, \<^verbatim>\<open>position + numBytes\<close>, is an \<^verbatim>\<open>int\<close>, and for every
  empty one; otherwise the sum overflows before the request is clipped, and the result is undefined.
\<close>

theorem open_file_read_at:
  assumes "sd_ready s" and "fh_wf (of_hdr f)" and "0 \<le> position"
  shows "if end_fits (of_hdr f) n position
    then \<exists>s'. of_ReadAt s f n position = Inr (take (nat n) (drop (nat position) (file_data s (of_hdr f))), s')
      \<and> sd_ready s' \<and> sector_of s' = sector_of s
    else of_ReadAt s f n position = Inl IntOverflow"
  using of_ReadAt_ok [OF assms] end_overflows(1) by simp

lemma open_file_read_at_witness:
  "\<exists>s s'. of_ReadAt s \<lparr>of_hdr = sample_hdr, of_seekPosition = 0\<rparr> 100 150
     = Inr (take 100 (drop 150 (file_data s sample_hdr)), s') \<and> length (file_data s sample_hdr) = 200"
proof -
  obtain s where s: "sd_ready s" using disk_ready_exists by blast
  let ?f = "\<lparr>of_hdr = sample_hdr, of_seekPosition = 0\<rparr>"
  have "length (file_data s sample_hdr) = 200"
    using length_file_data [OF s sample_hdr_wf] by (simp add: sample_hdr_def)
  moreover obtain s' where "of_ReadAt s ?f 100 150 = Inr (take 100 (drop 150 (file_data s sample_hdr)), s')"
    using open_file_read_at [OF s, of ?f 150 100] sample_hdr_wf end_fits_small [OF sample_hdr_wf] by auto
  ultimately show ?thesis by blast
qed

text \<open>
  C21: \<^verbatim>\<open>WriteAt\<close> overwrites the bytes of the file from the given position with the caller's,
  as many as asked for but not past the end of the file, and returns their number. Every other
  byte of the file keeps its value, also in the sectors that are partly overwritten, whatever
  the uninitialised buffer contained, and no sector of the disk that does not belong to the
  file changes. Reading the same range returns the bytes just written. This is for requests whose end is an \<^verbatim>\<open>int\<close>; for others the sum
  \<^verbatim>\<open>position + numBytes\<close> overflows, in both calls.
\<close>

theorem open_file_write_at:
  fixes junk :: "nat \<Rightarrow> byte"
  assumes "sd_ready s" and "fh_wf (of_hdr f)" and "0 \<le> position" and "n \<le> int (length bs)"
  shows "if end_fits (of_hdr f) n position
    then \<exists>s' s''. of_WriteAt junk s f bs n position = Inr (int (clipped (of_hdr f) n position), s') \<and> sd_ready s'
      \<and> file_data s' (of_hdr f) = (if clipped (of_hdr f) n position = 0 then file_data s (of_hdr f)
           else overlay (file_data s (of_hdr f)) (nat position) (take (clipped (of_hdr f) n position) bs))
      \<and> (\<forall>j. valid_sector j \<longrightarrow> j \<notin> set (fh_sectors (of_hdr f)) \<longrightarrow> sector_of s' j = sector_of s j)
      \<and> of_ReadAt s' f n position = Inr (take (clipped (of_hdr f) n position) bs, s'')
    else of_WriteAt junk s f bs n position = Inl IntOverflow \<and> of_ReadAt s f n position = Inl IntOverflow"
proof (cases "end_fits (of_hdr f) n position")
  case fits: True
  let ?m = "clipped (of_hdr f) n position" and ?h = "of_hdr f"
  obtain s' where s': "of_WriteAt junk s f bs n position = Inr (int ?m, s')" "sd_ready s'"
    "file_data s' ?h = (if ?m = 0 then file_data s ?h else overlay (file_data s ?h) (nat position) (take ?m bs))"
    "\<forall>j. valid_sector j \<longrightarrow> j \<notin> set (fh_sectors ?h) \<longrightarrow> sector_of s' j = sector_of s j"
    using of_WriteAt_ok [OF assms fits] by blast
  have len: "length (file_data s ?h) = nat (fh_numBytes ?h)" by (rule length_file_data [OF assms(1,2)])
  have "take (nat n) (drop (nat position) (file_data s' ?h)) = take ?m bs"
  proof (cases "?m = 0")
    case True
    then show ?thesis
      using s'(3) len assms(3) by (auto simp: clipped_def)
  next
    case False
    then have m: "int ?m = min n (fh_numBytes ?h - position)" by (auto simp: clipped_def)
    have b: "nat position + ?m \<le> length (file_data s ?h)" "?m \<le> length bs" "?m \<le> nat n"
      using m len assms(3,4) False by auto
    have "?m = nat n \<or> nat position + ?m = length (file_data s ?h)" using m len assms(3) by linarith
    then show ?thesis
      using False b unfolding s'(3) by (auto simp: overlay_def)
  qed
  then show ?thesis using s' of_ReadAt_ok [OF s'(2) assms(2,3) fits] fits by auto
qed (simp add: end_overflows)

lemma open_file_write_at_witness:
  "\<exists>s s' s''. of_WriteAt (\<lambda>_. 0xff) s \<lparr>of_hdr = sample_hdr, of_seekPosition = 0\<rparr> (replicate 9 7) 9 195 = Inr (5, s')
    \<and> of_ReadAt s' \<lparr>of_hdr = sample_hdr, of_seekPosition = 0\<rparr> 9 195 = Inr (replicate 5 7, s'')"
proof -
  obtain s where s: "sd_ready s" using disk_ready_exists by blast
  let ?f = "\<lparr>of_hdr = sample_hdr, of_seekPosition = 0\<rparr>"
  have "clipped sample_hdr 9 195 = 5" by (simp add: clipped_def sample_hdr_def)
  then show ?thesis
    using open_file_write_at [OF s, of ?f 195 9 "replicate 9 7" "\<lambda>_. 0xff"] sample_hdr_wf end_fits_small [OF sample_hdr_wf] by auto
qed

text \<open>
  C27: \<^verbatim>\<open>Allocate\<close> for a file of at most \<^verbatim>\<open>NumDirect\<close> sectors succeeds if and only if the map has
  enough clear bits. It then marks exactly the sectors it records in the header, none of which
  was in use and no two of which are the same, and \<^verbatim>\<open>Deallocate\<close> of the header restores the map.
  For a longer file it runs over the end of the table: the size is never checked.
\<close>

theorem file_header_allocate:
  assumes "bm_wf m" and "numBits m = NumSectors" and "0 \<le> fileSize"
    and "length (fh_dataSectors h) = nat NumDirect"
  shows "if numBits m - int (card (bm_set m)) < divRoundUp fileSize SectorSize
    then \<exists>h'. fh_Allocate h m fileSize = Inr (False, h', m)
    else if fileSize \<le> NumDirect * SectorSize
    then \<exists>h' m' m''. fh_Allocate h m fileSize = Inr (True, h', m') \<and> fh_wf h' \<and> fh_numBytes h' = fileSize
      \<and> bm_wf m' \<and> set (fh_sectors h') \<inter> bm_set m = {} \<and> bm_set m' = bm_set m \<union> set (fh_sectors h')
      \<and> fh_Deallocate h' m' = Inr m'' \<and> bm_set m'' = bm_set m
    else fh_Allocate h m fileSize = Inl OutOfBounds"
proof (cases "numBits m - int (card (bm_set m)) < divRoundUp fileSize SectorSize")
  case True
  then show ?thesis using fh_Allocate_full [OF assms(1)] by simp
next
  case False
  show ?thesis
  proof (cases "fileSize \<le> NumDirect * SectorSize")
    case True
    obtain h' m' where a: "fh_Allocate h m fileSize = Inr (True, h', m')" "fh_wf h'" "fh_numBytes h' = fileSize"
      "set (fh_sectors h') \<inter> bm_set m = {}" "bm_wf m'" "bm_set m' = bm_set m \<union> set (fh_sectors h')"
      using fh_Allocate_ok [OF assms(1-3) True assms(4)] False by auto
    obtain m'' where "fh_Deallocate h' m' = Inr m''" "bm_set m'' = bm_set m' - set (fh_sectors h')"
      using fh_Deallocate_ok [OF a(5,2)] a(6) by auto
    then show ?thesis using a False True by auto
  next
    case big: False
    let ?h = "h\<lparr>fh_numBytes := fileSize, fh_numSectors := divRoundUp fileSize SectorSize\<rparr>"
    have "int (length (fh_dataSectors h)) < divRoundUp fileSize SectorSize"
      using divRoundUp_bounds(2) [OF assms(3), of SectorSize] big assms(4)
      by (simp add: SectorSize_def NumDirect_30)
    then have "fh_alloc_loop ?h m (int 0) = Inl OutOfBounds"
      using False by (intro fh_alloc_loop_overflow assms(1)) simp_all
    then show ?thesis
      using False big bm.num_clear_law [OF assms(1)] by (simp add: fh_Allocate_def Let_def)
  qed
qed

lemma file_header_allocate_witness:
  "\<exists>m h' m'. bm_wf m \<and> fh_Allocate sample_hdr m 300 = Inr (True, h', m') \<and> fh_wf h' \<and> fh_numBytes h' = 300
    \<and> fh_Allocate sample_hdr m 4000 = Inl OutOfBounds"
proof -
  obtain m where m: "bm_wf m" "numBits m = NumSectors" "bm_set m = {}"
    using Bitmap_ok [of NumSectors] by (auto simp: NumSectors_def SectorsPerTrack_def NumTracks_def)
  have l: "length (fh_dataSectors sample_hdr) = nat NumDirect" by (simp add: sample_hdr_def NumDirect_30)
  show ?thesis
    using file_header_allocate [OF m(1,2) _ l, of 300] file_header_allocate [OF m(1,2) _ l, of 4000] m
    by (auto simp: NumDirect_30 SectorSize_def divRoundUp_def NumSectors_def SectorsPerTrack_def NumTracks_def)
qed

text \<open>
  The free map survives the disk: a bitmap written back to a file of its size and loaded by
  the constructor of \<^verbatim>\<open>PersistentBitmap\<close> is the same bitmap.
\<close>

theorem persistent_bitmap_roundtrip:
  assumes "sd_ready s" and "fh_wf (of_hdr f)" and "bm_wf m" and "fh_numBytes (of_hdr f) = 4 * numWords m"
  shows "\<exists>s1 s2. pbm_WriteBack junk s f m = Inr s1 \<and> PersistentBitmap s1 f (numBits m) = Inr (m, s2)
    \<and> (\<forall>j. valid_sector j \<longrightarrow> j \<notin> set (fh_sectors (of_hdr f)) \<longrightarrow> sector_of s2 j = sector_of s j)"
proof -
  obtain s1 where s1: "pbm_WriteBack junk s f m = Inr s1" "sd_ready s1" "file_data s1 (of_hdr f) = pbm_bytes m"
    "\<forall>j. valid_sector j \<longrightarrow> j \<notin> set (fh_sectors (of_hdr f)) \<longrightarrow> sector_of s1 j = sector_of s j"
    using pbm_WriteBack_ok [OF assms, of junk] by auto
  then show ?thesis using PersistentBitmap_ok [OF s1(2) assms(2,3) s1(3)] by auto
qed

lemma persistent_bitmap_roundtrip_witness:
  "\<exists>s s1 s2. pbm_WriteBack (\<lambda>_. 0) s \<lparr>of_hdr = sample_hdr, of_seekPosition = 0\<rparr>
       \<lparr>numBits = 1600, numWords = 50, bmap = replicate 50 5\<rparr> = Inr s1
     \<and> PersistentBitmap s1 \<lparr>of_hdr = sample_hdr, of_seekPosition = 0\<rparr> 1600
       = Inr (\<lparr>numBits = 1600, numWords = 50, bmap = replicate 50 5\<rparr>, s2)"
proof -
  obtain s where s: "sd_ready s" using disk_ready_exists by blast
  let ?f = "\<lparr>of_hdr = sample_hdr, of_seekPosition = 0\<rparr>"
    and ?m = "\<lparr>numBits = 1600, numWords = 50, bmap = replicate 50 (5 :: u32)\<rparr>"
  have "bm_wf ?m" by (simp add: bm_wf_def divRoundUp_def)
  moreover have "fh_numBytes (of_hdr ?f) = 4 * numWords ?m" by (simp add: sample_hdr_def)
  ultimately show ?thesis
    using persistent_bitmap_roundtrip [OF s, of ?f ?m "\<lambda>_. 0"] sample_hdr_wf by auto
qed

end
