(* ===== verification/List_Lib.thy ===== *)
theory List_Lib
  imports Nachos_Prelude "HOL-Library.Multiset"
begin

text \<open>
  The singly linked lists of \<^verbatim>\<open>lib/list.h\<close> and \<^verbatim>\<open>lib/list.cc\<close>, at the level of their cells:
  a list owns the \<^verbatim>\<open>ListElement\<close>s it allocated, addressed by numbers, with \<^verbatim>\<open>first\<close>,
  \<^verbatim>\<open>last\<close> and \<^verbatim>\<open>numInList\<close> as in the class. \<^verbatim>\<open>new\<close> takes the next unused address,
  \<^verbatim>\<open>delete\<close> removes the cell. A loop that follows \<^verbatim>\<open>next\<close> pointers is given one unit of
  fuel more than cells were ever allocated: a walk that is longer revisits a cell and never
  ends in the source, and is the error \<open>Diverges\<close> here. The second half states the
  operations on plain lists, proves that the cell-level code implements them, and packages
  this as the interfaces \<open>seq_list\<close> and \<open>sorted_seq_list\<close>.
\<close>

section \<open>Cells and lists\<close>

record 'a elem =
  el_item :: 'a
  el_next :: "nat option"

record 'a nlist =
  l_first :: "nat option"
  l_last :: "nat option"
  numInList :: int
  l_cells :: "nat \<Rightarrow> 'a elem option"
  l_fresh :: nat

definition ListElement :: "'a \<Rightarrow> 'a elem" where
  "ListElement itm = \<lparr>el_item = itm, el_next = None\<rparr>"

definition List_new :: "'a nlist" where
  "List_new = \<lparr>l_first = None, l_last = None, numInList = 0, l_cells = (\<lambda>_. None), l_fresh = 0\<rparr>"

definition deref :: "(nat \<Rightarrow> 'a elem option) \<Rightarrow> nat option \<Rightarrow> (nat \<times> 'a elem) result" where
  "deref h p = (case p of None \<Rightarrow> Inl NullDeref
     | Some a \<Rightarrow> (case h a of None \<Rightarrow> Inl NullDeref | Some e \<Rightarrow> Inr (a, e)))"

definition new_elem :: "'a nlist \<Rightarrow> 'a \<Rightarrow> nat \<times> 'a nlist" where
  "new_elem l itm =
     (let a = l_fresh l
      in (a, l\<lparr>l_cells := (l_cells l)(a := Some (ListElement itm)), l_fresh := Suc a\<rparr>))"

definition list_IsEmpty :: "'a nlist \<Rightarrow> bool" where
  "list_IsEmpty l = (numInList l = 0)"

definition list_NumInList :: "'a nlist \<Rightarrow> int" where
  "list_NumInList l = numInList l"

definition list_Front :: "'a nlist \<Rightarrow> 'a result" where
  "list_Front l = rbind (deref (l_cells l) (l_first l)) (\<lambda>(a, e). Inr (el_item e))"

section \<open>The operations of \<open>List\<close>\<close>

fun is_in_loop :: "nat \<Rightarrow> (nat \<Rightarrow> 'a elem option) \<Rightarrow> nat option \<Rightarrow> 'a \<Rightarrow> bool result" where
  "is_in_loop 0 h ptr itm = Inl Diverges"
| "is_in_loop (Suc n) h ptr itm =
     (case ptr of None \<Rightarrow> Inr False
      | Some _ \<Rightarrow> rbind (deref h ptr) (\<lambda>(a, e).
          if itm = el_item e then Inr True else is_in_loop n h (el_next e) itm))"

definition list_IsInList :: "'a nlist \<Rightarrow> 'a \<Rightarrow> bool result" where
  "list_IsInList l itm = is_in_loop (Suc (l_fresh l)) (l_cells l) (l_first l) itm"

definition list_Append :: "'a nlist \<Rightarrow> 'a \<Rightarrow> 'a nlist result" where
  "list_Append l itm =
     (let (element, l) = new_elem l itm in
      rbind (list_IsInList l itm) (\<lambda>b. rassert (\<not> b)
     (rbind (if list_IsEmpty l
             then Inr (l\<lparr>l_first := Some element, l_last := Some element\<rparr>)
             else rbind (deref (l_cells l) (l_last l)) (\<lambda>(a, e).
                    Inr (l\<lparr>l_cells := (l_cells l)(a := Some (e\<lparr>el_next := Some element\<rparr>)),
                           l_last := Some element\<rparr>)))
      (\<lambda>l. let l = l\<lparr>numInList := numInList l + 1\<rparr> in
           rbind (list_IsInList l itm) (\<lambda>b. rassert b (Inr l))))))"

definition list_Prepend :: "'a nlist \<Rightarrow> 'a \<Rightarrow> 'a nlist result" where
  "list_Prepend l itm =
     (let (element, l) = new_elem l itm in
      rbind (list_IsInList l itm) (\<lambda>b. rassert (\<not> b)
     (rbind (if list_IsEmpty l
             then Inr (l\<lparr>l_first := Some element, l_last := Some element\<rparr>)
             else rbind (deref (l_cells l) (Some element)) (\<lambda>(a, e).
                    Inr (l\<lparr>l_cells := (l_cells l)(a := Some (e\<lparr>el_next := l_first l\<rparr>)),
                           l_first := Some element\<rparr>)))
      (\<lambda>l. let l = l\<lparr>numInList := numInList l + 1\<rparr> in
           rbind (list_IsInList l itm) (\<lambda>b. rassert b (Inr l))))))"

definition list_RemoveFront :: "'a nlist \<Rightarrow> ('a \<times> 'a nlist) result" where
  "list_RemoveFront l =
     rassert (\<not> list_IsEmpty l)
       (rbind (deref (l_cells l) (l_first l)) (\<lambda>(element, e).
          let thing = el_item e;
              l = (if l_first l = l_last l then l\<lparr>l_first := None, l_last := None\<rparr>
                   else l\<lparr>l_first := el_next e\<rparr>);
              l = l\<lparr>numInList := numInList l - 1, l_cells := (l_cells l)(element := None)\<rparr>
          in Inr (thing, l)))"

text \<open>
  The search loop of \<^verbatim>\<open>List::Remove\<close>: \<open>prev\<close> is a cell of the list, \<open>ptr\<close> its successor.
  Falling off the end of the list fails the assertion after the loop.
\<close>

fun remove_loop :: "nat \<Rightarrow> 'a nlist \<Rightarrow> nat option \<Rightarrow> nat option \<Rightarrow> 'a \<Rightarrow> 'a nlist result" where
  "remove_loop 0 l prev ptr itm = Inl Diverges"
| "remove_loop (Suc n) l prev ptr itm =
     (case ptr of None \<Rightarrow> Inl AssertFailed
      | Some _ \<Rightarrow> rbind (deref (l_cells l) ptr) (\<lambda>(p, e).
          if itm = el_item e
          then rbind (deref (l_cells l) prev) (\<lambda>(q, f).
                 let l = l\<lparr>l_cells := (l_cells l)(q := Some (f\<lparr>el_next := el_next e\<rparr>))\<rparr>;
                     l = (if el_next e = None then l\<lparr>l_last := prev\<rparr> else l);
                     l = l\<lparr>l_cells := (l_cells l)(p := None), numInList := numInList l - 1\<rparr>
                 in Inr l)
          else remove_loop n l ptr (el_next e) itm))"

definition list_Remove :: "'a nlist \<Rightarrow> 'a \<Rightarrow> 'a nlist result" where
  "list_Remove l itm =
     rbind (list_IsInList l itm) (\<lambda>b. rassert b
    (rbind (deref (l_cells l) (l_first l)) (\<lambda>(a, e).
     rbind (if itm = el_item e
            then rbind (list_RemoveFront l) (\<lambda>(removed, l). rassert (itm = removed) (Inr l))
            else remove_loop (Suc (l_fresh l)) l (l_first l) (el_next e) itm)
     (\<lambda>l. rbind (list_IsInList l itm) (\<lambda>b. rassert (\<not> b) (Inr l))))))"

text \<open>\<^verbatim>\<open>Apply\<close> runs a function on every item; the function's effects are on a state \<open>s\<close>.\<close>

fun apply_loop :: "nat \<Rightarrow> (nat \<Rightarrow> 'a elem option) \<Rightarrow> nat option \<Rightarrow> ('a \<Rightarrow> 's \<Rightarrow> 's) \<Rightarrow> 's \<Rightarrow> 's result" where
  "apply_loop 0 h ptr f s = Inl Diverges"
| "apply_loop (Suc n) h ptr f s =
     (case ptr of None \<Rightarrow> Inr s
      | Some _ \<Rightarrow> rbind (deref h ptr) (\<lambda>(a, e). apply_loop n h (el_next e) f (f (el_item e) s)))"

definition list_Apply :: "'a nlist \<Rightarrow> ('a \<Rightarrow> 's \<Rightarrow> 's) \<Rightarrow> 's \<Rightarrow> 's result" where
  "list_Apply l f s = apply_loop (Suc (l_fresh l)) (l_cells l) (l_first l) f s"

fun sanity_loop :: "nat \<Rightarrow> 'a nlist \<Rightarrow> int \<Rightarrow> nat option \<Rightarrow> unit result" where
  "sanity_loop 0 l numFound ptr = Inl Diverges"
| "sanity_loop (Suc n) l numFound ptr =
     (if ptr \<noteq> l_last l
      then rassert (numFound + 1 \<le> numInList l)
             (rbind (deref (l_cells l) ptr) (\<lambda>(a, e). sanity_loop n l (numFound + 1) (el_next e)))
      else rassert (numFound = numInList l)
             (rbind (deref (l_cells l) (l_last l)) (\<lambda>(a, e). rassert (el_next e = None) (Inr ()))))"

definition list_SanityCheck :: "'a nlist \<Rightarrow> unit result" where
  "list_SanityCheck l =
     (if l_first l = None then rassert (numInList l = 0 \<and> l_last l = None) (Inr ())
      else if l_first l = l_last l
      then rbind (deref (l_cells l) (l_last l)) (\<lambda>(a, e).
             rassert (numInList l = 1 \<and> el_next e = None) (Inr ()))
      else sanity_loop (Suc (l_fresh l)) l 1 (l_first l))"

section \<open>The operations of \<open>SortedList\<close>\<close>

text \<open>
  The loop of \<^verbatim>\<open>SortedList::Insert\<close>: \<open>ptr\<close> walks the list until the item belongs before
  the next cell (then the function returns) or \<open>ptr\<close> is the last cell (\<open>None\<close>: the loop
  ended).
\<close>

fun sorted_insert_loop ::
    "nat \<Rightarrow> ('a \<Rightarrow> 'a \<Rightarrow> int) \<Rightarrow> 'a nlist \<Rightarrow> nat \<Rightarrow> nat option \<Rightarrow> 'a \<Rightarrow> 'a nlist option result" where
  "sorted_insert_loop 0 compare l element ptr itm = Inl Diverges"
| "sorted_insert_loop (Suc n) compare l element ptr itm =
     rbind (deref (l_cells l) ptr) (\<lambda>(p, e).
       if el_next e = None then Inr None
       else rbind (deref (l_cells l) (el_next e)) (\<lambda>(q, f).
         if compare itm (el_item f) < 0
         then rbind (deref (l_cells l) (Some element)) (\<lambda>(a, el).
                Inr (Some (l\<lparr>l_cells := (l_cells l)(a := Some (el\<lparr>el_next := el_next e\<rparr>),
                                                   p := Some (e\<lparr>el_next := Some element\<rparr>)),
                             numInList := numInList l + 1\<rparr>)))
         else sorted_insert_loop n compare l element (el_next e) itm))"

definition sorted_Insert :: "('a \<Rightarrow> 'a \<Rightarrow> int) \<Rightarrow> 'a nlist \<Rightarrow> 'a \<Rightarrow> 'a nlist result" where
  "sorted_Insert compare l itm =
     (let (element, l) = new_elem l itm;
          finish = (\<lambda>l. let l = l\<lparr>numInList := numInList l + 1\<rparr> in
                        rbind (list_IsInList l itm) (\<lambda>b. rassert b (Inr l))) in
      rbind (list_IsInList l itm) (\<lambda>b. rassert (\<not> b)
     (if list_IsEmpty l then finish (l\<lparr>l_first := Some element, l_last := Some element\<rparr>)
      else rbind (deref (l_cells l) (l_first l)) (\<lambda>(a, e).
        if compare itm (el_item e) < 0
        then rbind (deref (l_cells l) (Some element)) (\<lambda>(b, el).
               finish (l\<lparr>l_cells := (l_cells l)(b := Some (el\<lparr>el_next := l_first l\<rparr>)),
                         l_first := Some element\<rparr>))
        else rbind (sorted_insert_loop (Suc (l_fresh l)) compare l element (l_first l) itm) (\<lambda>r.
               case r of Some l' \<Rightarrow> Inr l'
               | None \<Rightarrow> rbind (deref (l_cells l) (l_last l)) (\<lambda>(c, g).
                   finish (l\<lparr>l_cells := (l_cells l)(c := Some (g\<lparr>el_next := Some element\<rparr>)),
                             l_last := Some element\<rparr>)))))))"

fun sorted_sanity_loop ::
    "nat \<Rightarrow> ('a \<Rightarrow> 'a \<Rightarrow> int) \<Rightarrow> (nat \<Rightarrow> 'a elem option) \<Rightarrow> nat option \<Rightarrow> nat option \<Rightarrow> unit result" where
  "sorted_sanity_loop 0 compare h prev ptr = Inl Diverges"
| "sorted_sanity_loop (Suc n) compare h prev ptr =
     (case ptr of None \<Rightarrow> Inr ()
      | Some _ \<Rightarrow> rbind (deref h prev) (\<lambda>(a, e). rbind (deref h ptr) (\<lambda>(b, f).
          rassert (compare (el_item e) (el_item f) \<le> 0)
            (sorted_sanity_loop n compare h ptr (el_next f)))))"

definition sorted_SanityCheck :: "('a \<Rightarrow> 'a \<Rightarrow> int) \<Rightarrow> 'a nlist \<Rightarrow> unit result" where
  "sorted_SanityCheck compare l =
     rbind (list_SanityCheck l) (\<lambda>_.
       if l_first l \<noteq> l_last l
       then rbind (deref (l_cells l) (l_first l)) (\<lambda>(a, e).
              sorted_sanity_loop (Suc (l_fresh l)) compare (l_cells l) (l_first l) (el_next e))
       else Inr ())"

section \<open>The same operations on plain lists\<close>

definition al_Append :: "'a list \<Rightarrow> 'a \<Rightarrow> 'a list result" where
  "al_Append xs x = rassert (x \<notin> set xs) (Inr (xs @ [x]))"

definition al_Prepend :: "'a list \<Rightarrow> 'a \<Rightarrow> 'a list result" where
  "al_Prepend xs x = rassert (x \<notin> set xs) (Inr (x # xs))"

definition al_RemoveFront :: "'a list \<Rightarrow> ('a \<times> 'a list) result" where
  "al_RemoveFront xs = (case xs of [] \<Rightarrow> Inl AssertFailed | x # ys \<Rightarrow> Inr (x, ys))"

definition al_Front :: "'a list \<Rightarrow> 'a result" where
  "al_Front xs = (case xs of [] \<Rightarrow> Inl NullDeref | x # ys \<Rightarrow> Inr x)"

definition al_Remove :: "'a list \<Rightarrow> 'a \<Rightarrow> 'a list result" where
  "al_Remove xs x = rassert (x \<in> set xs) (Inr (remove1 x xs))"

definition insert_before :: "('a \<Rightarrow> 'a \<Rightarrow> int) \<Rightarrow> 'a \<Rightarrow> 'a list \<Rightarrow> 'a list" where
  "insert_before compare x xs =
     takeWhile (\<lambda>y. \<not> compare x y < 0) xs @ x # dropWhile (\<lambda>y. \<not> compare x y < 0) xs"

definition al_Insert :: "('a \<Rightarrow> 'a \<Rightarrow> int) \<Rightarrow> 'a list \<Rightarrow> 'a \<Rightarrow> 'a list result" where
  "al_Insert compare xs x = rassert (x \<notin> set xs) (Inr (insert_before compare x xs))"

section \<open>Cells that spell a list\<close>

fun lseg :: "(nat \<Rightarrow> 'a elem option) \<Rightarrow> nat option \<Rightarrow> (nat \<times> 'a) list \<Rightarrow> nat option \<Rightarrow> bool" where
  "lseg h p [] q = (p = q)"
| "lseg h p ((a, x) # cs) q =
     (p = Some a \<and> (\<exists>n. h a = Some \<lparr>el_item = x, el_next = n\<rparr> \<and> lseg h n cs q))"

definition list_rep :: "'a nlist \<Rightarrow> (nat \<times> 'a) list \<Rightarrow> bool" where
  "list_rep l cs \<longleftrightarrow> lseg (l_cells l) (l_first l) cs None \<and> distinct (map fst cs)
     \<and> l_last l = (if cs = [] then None else Some (fst (last cs)))
     \<and> numInList l = int (length cs) \<and> dom (l_cells l) = fst ` set cs
     \<and> (\<forall>a \<in> fst ` set cs. a < l_fresh l)"

definition list_abs :: "'a nlist \<Rightarrow> 'a list \<Rightarrow> bool" where
  "list_abs l xs \<longleftrightarrow> distinct xs \<and> (\<exists>cs. list_rep l cs \<and> xs = map snd cs)"

text \<open>Two results agree: both stop with the same error, or both return related values.\<close>

definition rsim :: "('a \<Rightarrow> 'b \<Rightarrow> bool) \<Rightarrow> 'a result \<Rightarrow> 'b result \<Rightarrow> bool" where
  "rsim R m n = (case m of Inl e \<Rightarrow> n = Inl e | Inr x \<Rightarrow> (\<exists>y. n = Inr y \<and> R x y))"

lemma rsim_simps [simp]:
  "rsim R (Inl e) n = (n = Inl e)" "rsim R (Inr x) (Inr y) = R x y" "\<not> rsim R (Inr x) (Inl e)"
  by (auto simp: rsim_def)

lemma lseg_append [simp]:
  "lseg h p (cs @ ds) q = (\<exists>r. lseg h p cs r \<and> lseg h r ds q)"
  by (induction h p cs q rule: lseg.induct) auto

lemma lseg_upd [simp]:
  "a \<notin> fst ` set cs \<Longrightarrow> lseg (h(a := v)) p cs q = lseg h p cs q"
  by (induction cs arbitrary: p) auto

lemma lseg_dom: "lseg h p cs q \<Longrightarrow> fst ` set cs \<subseteq> dom h"
  by (induction h p cs q rule: lseg.induct) auto

lemma lseg_None_Nil [simp]: "lseg h None cs None = (cs = [])"
  by (cases cs) auto

lemma lseg_last_next:
  "lseg h p cs q \<Longrightarrow> cs \<noteq> [] \<Longrightarrow>
   h (fst (last cs)) = Some \<lparr>el_item = snd (last cs), el_next = q\<rparr>"
  by (induction cs arbitrary: p) auto

lemma lseg_butlast:
  "lseg h p cs q \<Longrightarrow> cs \<noteq> [] \<Longrightarrow> lseg h p (butlast cs) (Some (fst (last cs)))"
  by (induction cs arbitrary: p) auto

lemma deref_lseg [simp]:
  "h a = Some e \<Longrightarrow> deref h (Some a) = Inr (a, e)" "deref h None = Inl NullDeref"
  by (simp_all add: deref_def)

lemma is_in_loop_lseg:
  "lseg h p cs None \<Longrightarrow> length cs < n \<Longrightarrow> is_in_loop n h p x = Inr (x \<in> snd ` set cs)"
proof (induction cs arbitrary: p n)
  case Nil
  then show ?case by (cases n) auto
next
  case (Cons c cs)
  then show ?case by (cases n; cases c) auto
qed

lemma list_rep_length: "list_rep l cs \<Longrightarrow> length cs \<le> l_fresh l"
proof -
  assume r: "list_rep l cs"
  then have "fst ` set cs \<subseteq> {..<l_fresh l}" by (auto simp: list_rep_def)
  then have "card (fst ` set cs) \<le> l_fresh l" using card_mono [of "{..<l_fresh l}"] by fastforce
  moreover have "card (fst ` set cs) = length cs"
    using r distinct_card [of "map fst cs"] by (simp add: list_rep_def)
  ultimately show ?thesis by simp
qed

lemma list_IsInList_rep:
  "list_rep l cs \<Longrightarrow> list_IsInList l x = Inr (x \<in> snd ` set cs)"
  using list_rep_length [of l cs]
  by (simp add: list_IsInList_def is_in_loop_lseg list_rep_def del: is_in_loop.simps)

lemma list_IsEmpty_rep: "list_rep l cs \<Longrightarrow> list_IsEmpty l = (cs = [])"
  by (simp add: list_IsEmpty_def list_rep_def)

text \<open>Membership in a list whose cells include a detached one, as after \<^verbatim>\<open>new ListElement\<close>.\<close>

lemma list_IsInList_seg:
  assumes "lseg (l_cells l) (l_first l) cs None" and "length cs \<le> l_fresh l"
  shows "list_IsInList l x = Inr (x \<in> snd ` set cs)"
  using assms by (simp add: list_IsInList_def is_in_loop_lseg del: is_in_loop.simps)

lemma fresh_notin: "list_rep l cs \<Longrightarrow> l_fresh l \<notin> fst ` set cs"
  by (auto simp: list_rep_def)

lemma list_rep_new: "list_rep List_new []"
  by (simp add: list_rep_def List_new_def)


definition next_of :: "(nat \<times> 'a) list \<Rightarrow> nat option" where
  "next_of cs = (case cs of [] \<Rightarrow> None | (a, _) # _ \<Rightarrow> Some a)"

lemma next_of_simps [simp]: "next_of [] = None" "next_of ((a, x) # cs) = Some a"
  by (simp_all add: next_of_def)

lemma lseg_next_of: "lseg h n cs None \<Longrightarrow> n = next_of cs"
  by (cases cs) auto

lemma rep_insert_front:
  assumes "list_rep l cs"
  shows "list_rep (l\<lparr>l_first := Some (l_fresh l),
      l_last := (if cs = [] then Some (l_fresh l) else l_last l), numInList := numInList l + 1,
      l_cells := (l_cells l)(l_fresh l := Some \<lparr>el_item = x, el_next = l_first l\<rparr>),
      l_fresh := Suc (l_fresh l)\<rparr>) ((l_fresh l, x) # cs)"
  using assms fresh_notin [OF assms] by (auto simp: list_rep_def less_Suc_eq)

lemma rep_insert_after:
  assumes "list_rep l (cs @ (b, y) # ds)"
  shows "list_rep (l\<lparr>l_last := (if ds = [] then Some (l_fresh l) else l_last l),
      numInList := numInList l + 1,
      l_cells := (l_cells l)(l_fresh l := Some \<lparr>el_item = x, el_next = next_of ds\<rparr>,
                             b := Some \<lparr>el_item = y, el_next = Some (l_fresh l)\<rparr>),
      l_fresh := Suc (l_fresh l)\<rparr>) (cs @ (b, y) # (l_fresh l, x) # ds)"
  using assms fresh_notin [OF assms]
  by (auto simp: list_rep_def less_Suc_eq image_Un dest: lseg_next_of)

lemma rep_remove_front:
  assumes "list_rep l ((a, x) # cs)"
  shows "list_rep (l\<lparr>l_first := next_of cs, l_last := (if cs = [] then None else l_last l),
      numInList := numInList l - 1, l_cells := (l_cells l)(a := None)\<rparr>) cs"
  using assms by (auto simp: list_rep_def dest: lseg_next_of)

lemma rep_remove_after:
  assumes "list_rep l (cs @ (b, y) # (c, z) # ds)"
  shows "list_rep (l\<lparr>l_last := (if ds = [] then Some b else l_last l),
      l_cells := (l_cells l)(b := Some \<lparr>el_item = y, el_next = next_of ds\<rparr>, c := None),
      numInList := numInList l - 1\<rparr>) (cs @ (b, y) # ds)"
  using assms by (auto simp: list_rep_def dest: lseg_next_of)


lemma new_elem_absent:
  assumes "list_rep l cs"
  shows "list_IsInList (snd (new_elem l x)) y = Inr (y \<in> snd ` set cs)"
  by (rule list_IsInList_seg)
     (use assms fresh_notin [OF assms] list_rep_length [OF assms] in
      \<open>auto simp: list_rep_def new_elem_def Let_def\<close>)

lemma new_elem_simps [simp]:
  "fst (new_elem l x) = l_fresh l"
  "snd (new_elem l x) = l\<lparr>l_cells := (l_cells l)(l_fresh l := Some \<lparr>el_item = x, el_next = None\<rparr>),
     l_fresh := Suc (l_fresh l)\<rparr>"
  by (simp_all add: new_elem_def Let_def ListElement_def)

lemma new_elem_pair:
  "new_elem l x = (l_fresh l, l\<lparr>l_cells := (l_cells l)(l_fresh l := Some \<lparr>el_item = x, el_next = None\<rparr>),
     l_fresh := Suc (l_fresh l)\<rparr>)"
  using new_elem_simps [of l x] by (metis prod.collapse)

lemma list_rep_empty_first: "list_rep l [] \<Longrightarrow> l_first l = None"
  by (simp add: list_rep_def)

lemmas new_elem_rules = new_elem_pair Let_def prod.case rbind_simps

lemma list_Append_rep:
  assumes r: "list_rep l cs" and x: "x \<notin> snd ` set cs"
  shows "\<exists>l'. list_Append l x = Inr l' \<and> list_rep l' (cs @ [(l_fresh l, x)])"
proof (cases cs rule: rev_cases)
  case Nil
  let ?l' = "l\<lparr>l_first := Some (l_fresh l), l_last := Some (l_fresh l),
    numInList := numInList l + 1,
    l_cells := (l_cells l)(l_fresh l := Some \<lparr>el_item = x, el_next = None\<rparr>),
    l_fresh := Suc (l_fresh l)\<rparr>"
  have rep: "list_rep ?l' [(l_fresh l, x)]"
    using rep_insert_front [of l "[]" x] r Nil list_rep_empty_first [of l] by simp
  have "list_Append l x = Inr ?l'"
    using new_elem_absent [OF r, of x x] list_IsInList_rep [OF rep, of x] Nil x r
    by (cases l) (simp add: list_Append_def new_elem_pair Let_def list_IsEmpty_def list_rep_def)
  then show ?thesis using rep Nil by auto
next
  case (snoc ds c)
  obtain b y where c: "c = (b, y)" by force
  have r': "list_rep l (ds @ (b, y) # [])" using r snoc c by simp
  note rep = rep_insert_after [OF r', of x]
  have b: "l_last l = Some b" "l_cells l b = Some \<lparr>el_item = y, el_next = None\<rparr>" "b \<noteq> l_fresh l"
    "numInList l \<noteq> 0"
    using r' by (auto simp: list_rep_def)
  have "list_Append l x = Inr (l\<lparr>l_last := Some (l_fresh l), numInList := numInList l + 1,
      l_cells := (l_cells l)(l_fresh l := Some \<lparr>el_item = x, el_next = None\<rparr>,
                             b := Some \<lparr>el_item = y, el_next = Some (l_fresh l)\<rparr>),
      l_fresh := Suc (l_fresh l)\<rparr>)"
    using new_elem_absent [OF r, of x x] list_IsInList_rep [OF rep, of x] b x
    by (cases l) (simp add: list_Append_def new_elem_pair Let_def list_IsEmpty_def)
  then show ?thesis using rep snoc c by auto
qed

lemma list_Prepend_rep:
  assumes r: "list_rep l cs" and x: "x \<notin> snd ` set cs"
  shows "\<exists>l'. list_Prepend l x = Inr l' \<and> list_rep l' ((l_fresh l, x) # cs)"
proof -
  note rep = rep_insert_front [OF r, of x]
  have "list_Prepend l x = Inr (l\<lparr>l_first := Some (l_fresh l),
      l_last := (if cs = [] then Some (l_fresh l) else l_last l), numInList := numInList l + 1,
      l_cells := (l_cells l)(l_fresh l := Some \<lparr>el_item = x, el_next = l_first l\<rparr>),
      l_fresh := Suc (l_fresh l)\<rparr>)"
    using new_elem_absent [OF r, of x x] list_IsInList_rep [OF rep, of x] x r
    by (cases l; cases "cs = []") (simp_all add: list_Prepend_def new_elem_pair Let_def list_IsEmpty_def
        list_rep_def)
  then show ?thesis using rep by auto
qed

lemma list_RemoveFront_rep:
  assumes r: "list_rep l ((a, x) # cs)"
  shows "\<exists>l'. list_RemoveFront l = Inr (x, l') \<and> list_rep l' cs"
proof -
  note rep = rep_remove_front [OF r]
  have "l_cells l a = Some \<lparr>el_item = x, el_next = next_of cs\<rparr>" "l_first l = Some a"
    "numInList l \<noteq> 0" "l_last l = Some (fst (last ((a, x) # cs)))"
    using r by (auto simp: list_rep_def dest: lseg_next_of)
  moreover have "cs \<noteq> [] \<Longrightarrow> fst (last cs) \<noteq> a" using r last_in_set [of cs]
    by (auto simp: list_rep_def)
  ultimately have "list_RemoveFront l = Inr (x, l\<lparr>l_first := next_of cs,
      l_last := (if cs = [] then None else l_last l),
      numInList := numInList l - 1, l_cells := (l_cells l)(a := None)\<rparr>)"
    by (auto simp: list_RemoveFront_def list_IsEmpty_def Let_def)
  then show ?thesis using rep by auto
qed

lemma list_RemoveFront_empty: "list_rep l [] \<Longrightarrow> list_RemoveFront l = Inl AssertFailed"
  by (simp add: list_RemoveFront_def list_IsEmpty_rep)

lemma remove_loop_rep:
  assumes "list_rep l (cs @ (b, y) # ds)" and "x \<in> snd ` set ds" and "length ds < n"
    and "distinct (map snd ds)"
  shows "\<exists>l' ds'. remove_loop n l (Some b) (next_of ds) x = Inr l'
     \<and> list_rep l' (cs @ (b, y) # ds') \<and> map snd ds' = remove1 x (map snd ds)"
  using assms
proof (induction ds arbitrary: cs b y n)
  case (Cons d ds)
  obtain m where n: "n = Suc m" using Cons.prems by (cases n) auto
  obtain c z where d: "d = (c, z)" by force
  have h: "l_cells l b = Some \<lparr>el_item = y, el_next = Some c\<rparr>"
    "l_cells l c = Some \<lparr>el_item = z, el_next = next_of ds\<rparr>"
    using Cons.prems(1) d by (auto simp: list_rep_def dest: lseg_next_of)
  show ?case
  proof (cases "x = z")
    case True
    have "b \<noteq> c" using Cons.prems(1) d by (auto simp: list_rep_def)
    moreover have "next_of ds = None \<longleftrightarrow> ds = []" by (cases ds) auto
    ultimately have "remove_loop n l (Some b) (next_of (d # ds)) x =
      Inr (l\<lparr>l_last := (if ds = [] then Some b else l_last l),
        l_cells := (l_cells l)(b := Some \<lparr>el_item = y, el_next = next_of ds\<rparr>, c := None),
        numInList := numInList l - 1\<rparr>)"
      using h True n d by (simp add: Let_def)
    then show ?thesis
      using rep_remove_after [of l cs b y c z ds] Cons.prems(1) d True by auto
  next
    case False
    have "list_rep l ((cs @ [(b, y)]) @ (c, z) # ds)" using Cons.prems(1) d by simp
    from Cons.IH [OF this, of m] Cons.prems d False n obtain l' ds' where
      "remove_loop m l (Some c) (next_of ds) x = Inr l'"
      "list_rep l' ((cs @ [(b, y)]) @ (c, z) # ds')" "map snd ds' = remove1 x (map snd ds)"
      by auto
    then have "remove_loop n l (Some b) (next_of (d # ds)) x = Inr l'
        \<and> list_rep l' (cs @ (b, y) # (c, z) # ds')
        \<and> map snd ((c, z) # ds') = remove1 x (map snd (d # ds))"
      using False d n h by simp
    then show ?thesis by blast
  qed
qed simp

lemma list_Remove_rep:
  assumes r: "list_rep l cs" and d: "distinct (map snd cs)" and x: "x \<in> snd ` set cs"
  shows "\<exists>l' cs'. list_Remove l x = Inr l' \<and> list_rep l' cs'
     \<and> map snd cs' = remove1 x (map snd cs)"
proof -
  obtain a y ds where cs: "cs = (a, y) # ds" using x by (cases cs) auto
  have h: "l_first l = Some a" "l_cells l a = Some \<lparr>el_item = y, el_next = next_of ds\<rparr>"
    using r cs by (auto simp: list_rep_def dest: lseg_next_of)
  have "\<exists>l' cs'. (if x = y then rbind (list_RemoveFront l) (\<lambda>(z, l). rassert (x = z) (Inr l))
      else remove_loop (Suc (l_fresh l)) l (l_first l) (next_of ds) x) = Inr l'
      \<and> list_rep l' cs' \<and> map snd cs' = remove1 x (map snd cs)"
  proof (cases "x = y")
    case True
    then show ?thesis using list_RemoveFront_rep [of l a y ds] r cs by auto
  next
    case False
    have "length ds < Suc (l_fresh l)" using list_rep_length [OF r] cs by simp
    from remove_loop_rep [of l "[]" a y ds x "Suc (l_fresh l)"] this False r cs x d h
    obtain l' ds' where "remove_loop (Suc (l_fresh l)) l (Some a) (next_of ds) x = Inr l'"
      "list_rep l' ((a, y) # ds')" "map snd ds' = remove1 x (map snd ds)" by auto
    then show ?thesis using False h cs by auto
  qed
  then obtain l' cs' where l': "(if x = y then rbind (list_RemoveFront l) (\<lambda>(z, l). rassert (x = z) (Inr l))
      else remove_loop (Suc (l_fresh l)) l (l_first l) (next_of ds) x) = Inr l'"
    "list_rep l' cs'" "map snd cs' = remove1 x (map snd cs)" by blast
  have "x \<notin> snd ` set cs'"
    using l'(3) d by (metis distinct_remove1_removeAll list.set_map remove_code(1) Diff_iff insertI1 set_removeAll)
  then have "list_IsInList l' x = Inr False" using list_IsInList_rep [OF l'(2)] by simp
  then have "list_Remove l x = Inr l'"
    using h l'(1) list_IsInList_rep [OF r, of x] x
    by (cases "x = y") (simp_all add: list_Remove_def del: remove_loop.simps)
  then show ?thesis using l' by blast
qed

lemma apply_loop_lseg:
  "lseg h p cs None \<Longrightarrow> length cs < n \<Longrightarrow> apply_loop n h p f s = Inr (fold f (map snd cs) s)"
proof (induction cs arbitrary: p n s)
  case (Cons c cs)
  then show ?case by (cases n; cases c) auto
qed (auto simp: gr0_conv_Suc)

lemma list_Apply_rep: "list_rep l cs \<Longrightarrow> list_Apply l f s = Inr (fold f (map snd cs) s)"
  using list_rep_length [of l cs]
  by (simp add: list_Apply_def apply_loop_lseg list_rep_def del: apply_loop.simps)

lemma list_Front_rep: "list_rep l cs \<Longrightarrow> list_Front l = al_Front (map snd cs)"
  by (cases cs) (auto simp: list_Front_def al_Front_def list_rep_def)

lemma sorted_insert_loop_rep:
  fixes compare :: "'a \<Rightarrow> 'a \<Rightarrow> int" and x :: 'a
  assumes "list_rep l (cs @ (b, y) # ds)" and "length ds < n"
  defines "P \<equiv> \<lambda>c. \<not> compare x (snd c) < 0"
  shows "if dropWhile P ds = []
    then sorted_insert_loop n compare (snd (new_elem l x)) (l_fresh l) (Some b) x = Inr None
    else \<exists>l'. sorted_insert_loop n compare (snd (new_elem l x)) (l_fresh l) (Some b) x = Inr (Some l')
      \<and> list_rep l' (cs @ (b, y) # takeWhile P ds @ (l_fresh l, x) # dropWhile P ds)"
  using assms(1,2)
proof (induction ds arbitrary: cs b y n)
  case Nil
  then obtain m where n: "n = Suc m" by (cases n) auto
  have "l_cells l b = Some \<lparr>el_item = y, el_next = None\<rparr>" "b \<noteq> l_fresh l"
    using Nil.prems(1) by (auto simp: list_rep_def)
  then show ?case using n by simp
next
  case (Cons d ds)
  obtain m where n: "n = Suc m" using Cons.prems by (cases n) auto
  obtain c z where d: "d = (c, z)" by force
  have h: "l_cells l b = Some \<lparr>el_item = y, el_next = Some c\<rparr>"
    "l_cells l c = Some \<lparr>el_item = z, el_next = next_of ds\<rparr>" "b \<noteq> l_fresh l" "c \<noteq> l_fresh l"
    using Cons.prems(1) d by (auto simp: list_rep_def dest: lseg_next_of)
  show ?case
  proof (cases "compare x z < 0")
    case True
    have "sorted_insert_loop n compare (snd (new_elem l x)) (l_fresh l) (Some b) x =
      Inr (Some (l\<lparr>l_last := (if d # ds = [] then Some (l_fresh l) else l_last l),
        numInList := numInList l + 1,
        l_cells := (l_cells l)(l_fresh l := Some \<lparr>el_item = x, el_next = next_of (d # ds)\<rparr>,
                               b := Some \<lparr>el_item = y, el_next = Some (l_fresh l)\<rparr>),
        l_fresh := Suc (l_fresh l)\<rparr>))"
      using h True n d by (cases l) simp
    then show ?thesis
      using rep_insert_after [OF Cons.prems(1), of x] d True by (simp add: P_def)
  next
    case False
    have "list_rep l ((cs @ [(b, y)]) @ (c, z) # ds)" using Cons.prems(1) d by simp
    from Cons.IH [OF this, of m] Cons.prems(2) n show ?thesis
      using False h d n by (auto simp: P_def split: if_splits)
  qed
qed

lemma sorted_Insert_rep:
  assumes r: "list_rep l cs" and x: "x \<notin> snd ` set cs"
  shows "\<exists>l' cs'. sorted_Insert compare l x = Inr l' \<and> list_rep l' cs'
     \<and> map snd cs' = insert_before compare x (map snd cs)"
proof (cases cs)
  case Nil
  note rep = rep_insert_front [OF r, of x]
  have "sorted_Insert compare l x = Inr (l\<lparr>l_first := Some (l_fresh l),
      l_last := (if cs = [] then Some (l_fresh l) else l_last l), numInList := numInList l + 1,
      l_cells := (l_cells l)(l_fresh l := Some \<lparr>el_item = x, el_next = l_first l\<rparr>),
      l_fresh := Suc (l_fresh l)\<rparr>)"
    using new_elem_absent [OF r, of x x] list_IsInList_rep [OF rep, of x] x r Nil
    by (cases l) (simp add: sorted_Insert_def new_elem_pair Let_def list_IsEmpty_def list_rep_def)
  then show ?thesis using rep Nil by (auto simp: insert_before_def)
next
  case (Cons c ds)
  obtain b y where c: "c = (b, y)" by force
  let ?P = "\<lambda>c. \<not> compare x (snd c) < 0"
  have h: "l_first l = Some b" "l_cells l b = Some \<lparr>el_item = y, el_next = next_of ds\<rparr>"
    "numInList l \<noteq> 0" "b \<noteq> l_fresh l"
    using r Cons c by (auto simp: list_rep_def dest: lseg_next_of)
  show ?thesis
  proof (cases "compare x y < 0")
    case True
    note rep = rep_insert_front [OF r, of x]
    have "sorted_Insert compare l x = Inr (l\<lparr>l_first := Some (l_fresh l),
      l_last := (if cs = [] then Some (l_fresh l) else l_last l), numInList := numInList l + 1,
      l_cells := (l_cells l)(l_fresh l := Some \<lparr>el_item = x, el_next = l_first l\<rparr>),
      l_fresh := Suc (l_fresh l)\<rparr>)"
      using new_elem_absent [OF r, of x x] list_IsInList_rep [OF rep, of x] x h Cons True
      by (cases l) (simp add: sorted_Insert_def new_elem_pair Let_def list_IsEmpty_def)
    then show ?thesis using rep Cons c True by (auto simp: insert_before_def)
  next
    case False
    have r': "list_rep l ([] @ (b, y) # ds)" using r Cons c by simp
    have len: "length ds < Suc (Suc (l_fresh l))" using list_rep_length [OF r] Cons by simp
    note loop = sorted_insert_loop_rep [OF r' len, of compare x]
    show ?thesis
    proof (cases "dropWhile ?P ds = []")
      case True
      obtain es b' y' where es: "cs = es @ [(b', y')]" using Cons by (metis list.distinct(1) rev_exhaust surj_pair)
      have r'': "list_rep l (es @ (b', y') # [])" using r es by simp
      note rep = rep_insert_after [OF r'', of x]
      have b': "l_last l = Some b'" "l_cells l b' = Some \<lparr>el_item = y', el_next = None\<rparr>" "b' \<noteq> l_fresh l"
        using r'' by (auto simp: list_rep_def)
      have "sorted_Insert compare l x = Inr (l\<lparr>l_last := Some (l_fresh l), numInList := numInList l + 1,
        l_cells := (l_cells l)(l_fresh l := Some \<lparr>el_item = x, el_next = None\<rparr>,
                             b' := Some \<lparr>el_item = y', el_next = Some (l_fresh l)\<rparr>),
        l_fresh := Suc (l_fresh l)\<rparr>)"
        using new_elem_absent [OF r, of x x] list_IsInList_rep [OF rep, of x] x h loop True False b'
        by (cases l) (simp add: sorted_Insert_def new_elem_pair Let_def list_IsEmpty_def
            del: sorted_insert_loop.simps)
      moreover have "dropWhile ?P cs = []" using True False Cons c by simp
      then have "insert_before compare x (map snd cs) = map snd cs @ [x]"
        by (simp add: insert_before_def dropWhile_eq_Nil_conv takeWhile_eq_all_conv)
      ultimately show ?thesis using rep es by fastforce
    next
      case F: False
      then obtain l' where l': "sorted_insert_loop (Suc (Suc (l_fresh l))) compare (snd (new_elem l x))
          (l_fresh l) (Some b) x = Inr (Some l')"
        "list_rep l' ((b, y) # takeWhile ?P ds @ (l_fresh l, x) # dropWhile ?P ds)"
        using loop [unfolded if_not_P [OF F]]
        by (auto simp del: sorted_insert_loop.simps new_elem_simps)
      have "sorted_Insert compare l x = Inr l'"
        using new_elem_absent [OF r, of x x] x h l'(1) False
        by (simp add: sorted_Insert_def new_elem_pair Let_def list_IsEmpty_def
            del: sorted_insert_loop.simps)
      moreover have "map snd ((b, y) # takeWhile ?P ds @ (l_fresh l, x) # dropWhile ?P ds)
          = insert_before compare x (map snd cs)"
        using Cons c False by (simp add: insert_before_def takeWhile_map dropWhile_map comp_def)
      ultimately show ?thesis using l'(2) by blast
    qed
  qed
qed


section \<open>The list interfaces\<close>

text \<open>
  What the rest of the kernel relies on: a list is a finite sequence without repetitions,
  \<open>abs\<close> relates a concrete list to it, and each operation does to the sequence what the
  operation on plain lists does, failing exactly when that fails.
\<close>

locale seq_list =
  fixes abs :: "'l \<Rightarrow> 'a list \<Rightarrow> bool"
    and empty :: 'l
    and append :: "'l \<Rightarrow> 'a \<Rightarrow> 'l result"
    and prepend :: "'l \<Rightarrow> 'a \<Rightarrow> 'l result"
    and remove_front :: "'l \<Rightarrow> ('a \<times> 'l) result"
    and remove :: "'l \<Rightarrow> 'a \<Rightarrow> 'l result"
    and is_in :: "'l \<Rightarrow> 'a \<Rightarrow> bool result"
    and is_empty :: "'l \<Rightarrow> bool"
  assumes abs_distinct: "abs l xs \<Longrightarrow> distinct xs"
    and empty_law: "abs empty []"
    and append_law: "abs l xs \<Longrightarrow> rsim abs (append l x) (al_Append xs x)"
    and prepend_law: "abs l xs \<Longrightarrow> rsim abs (prepend l x) (al_Prepend xs x)"
    and remove_front_law: "abs l xs \<Longrightarrow> rsim (rel_prod (=) abs) (remove_front l) (al_RemoveFront xs)"
    and remove_law: "abs l xs \<Longrightarrow> rsim abs (remove l x) (al_Remove xs x)"
    and is_in_law: "abs l xs \<Longrightarrow> is_in l x = Inr (x \<in> set xs)"
    and is_empty_law: "abs l xs \<Longrightarrow> is_empty l = (xs = [])"

fun put_all :: "('l \<Rightarrow> 'a \<Rightarrow> 'l result) \<Rightarrow> 'l \<Rightarrow> 'a list \<Rightarrow> 'l result" where
  "put_all put l [] = Inr l"
| "put_all put l (x # xs) = rbind (put l x) (\<lambda>l'. put_all put l' xs)"

fun take_n :: "('l \<Rightarrow> ('a \<times> 'l) result) \<Rightarrow> nat \<Rightarrow> 'l \<Rightarrow> ('a list \<times> 'l) result" where
  "take_n get 0 l = Inr ([], l)"
| "take_n get (Suc n) l =
     rbind (get l) (\<lambda>(x, l'). rbind (take_n get n l') (\<lambda>(xs, l''). Inr (x # xs, l'')))"

lemma rsim_Inr_right: "rsim R m (Inr y) \<Longrightarrow> \<exists>x. m = Inr x \<and> R x y"
  by (cases m) auto

lemma rsim_Inl_right: "rsim R m (Inl e) \<Longrightarrow> m = Inl e"
  by (cases m) auto

context seq_list
begin

lemma append_new: "abs l xs \<Longrightarrow> x \<notin> set xs \<Longrightarrow> \<exists>l'. append l x = Inr l' \<and> abs l' (xs @ [x])"
  using append_law [of l xs x] by (auto simp: al_Append_def dest: rsim_Inr_right)

lemma append_dup: "abs l xs \<Longrightarrow> x \<in> set xs \<Longrightarrow> append l x = Inl AssertFailed"
  using append_law [of l xs x] by (auto simp: al_Append_def dest: rsim_Inl_right)

lemma remove_front_Cons: "abs l (x # xs) \<Longrightarrow> \<exists>l'. remove_front l = Inr (x, l') \<and> abs l' xs"
  using remove_front_law [of l "x # xs"] by (auto simp: al_RemoveFront_def dest!: rsim_Inr_right)

lemma remove_front_Nil: "abs l [] \<Longrightarrow> remove_front l = Inl AssertFailed"
  using remove_front_law [of l "[]"] by (auto simp: al_RemoveFront_def dest: rsim_Inl_right)

lemma remove_present: "abs l xs \<Longrightarrow> x \<in> set xs \<Longrightarrow> \<exists>l'. remove l x = Inr l' \<and> abs l' (remove1 x xs)"
  using remove_law [of l xs x] by (auto simp: al_Remove_def dest: rsim_Inr_right)

lemma put_all_append:
  "abs l ys \<Longrightarrow> distinct (ys @ xs) \<Longrightarrow> \<exists>l'. put_all append l xs = Inr l' \<and> abs l' (ys @ xs)"
proof (induction xs arbitrary: l ys)
  case (Cons x xs)
  then obtain l1 where "append l x = Inr l1" "abs l1 (ys @ [x])"
    using append_new [of l ys x] by auto
  then show ?case using Cons.IH [of l1 "ys @ [x]"] Cons.prems by auto
qed auto

lemma take_n_all: "abs l (xs @ ys) \<Longrightarrow> \<exists>l'. take_n remove_front (length xs) l = Inr (xs, l') \<and> abs l' ys"
proof (induction xs arbitrary: l)
  case (Cons x xs)
  then obtain l1 where "remove_front l = Inr (x, l1)" "abs l1 (xs @ ys)"
    using remove_front_Cons [of l x "xs @ ys"] by auto
  then show ?case using Cons.IH [of l1] by auto
qed auto

lemma fifo:
  assumes "distinct xs"
  shows "\<exists>l l'. put_all append empty xs = Inr l \<and> take_n remove_front (length xs) l = Inr (xs, l')
    \<and> is_empty l'"
proof -
  obtain l where l: "put_all append empty xs = Inr l" "abs l xs"
    using put_all_append [OF empty_law, of xs] assms by auto
  then obtain l' where "take_n remove_front (length xs) l = Inr (xs, l')" "abs l' []"
    using take_n_all [of l xs "[]"] by auto
  then show ?thesis using l is_empty_law by auto
qed

end

lemma insert_before_set [simp]: "set (insert_before compare x xs) = insert x (set xs)"
  by (auto simp: insert_before_def) (metis Un_iff set_append takeWhile_dropWhile_id)+

lemma insert_before_distinct:
  "distinct xs \<Longrightarrow> x \<notin> set xs \<Longrightarrow> distinct (insert_before compare x xs)"
  unfolding insert_before_def
  by (simp, metis Un_iff distinct_append set_append takeWhile_dropWhile_id)

lemma mset_insert_before: "mset (insert_before compare x xs) = add_mset x (mset xs)"
  unfolding insert_before_def
  by (simp, metis mset_append takeWhile_dropWhile_id)

locale sorted_seq_list = seq_list abs empty append prepend remove_front remove is_in is_empty
  for abs :: "'l \<Rightarrow> 'a list \<Rightarrow> bool" and empty append prepend remove_front remove is_in is_empty +
  fixes compare :: "'a \<Rightarrow> 'a \<Rightarrow> int"
    and key :: "'a \<Rightarrow> int"
    and insert :: "'l \<Rightarrow> 'a \<Rightarrow> 'l result"
  assumes insert_law: "abs l xs \<Longrightarrow> rsim abs (insert l x) (al_Insert compare xs x)"
    and compare_key: "compare x y < 0 \<longleftrightarrow> key x < key y"
begin

lemma insert_new:
  "abs l xs \<Longrightarrow> x \<notin> set xs \<Longrightarrow> \<exists>l'. insert l x = Inr l' \<and> abs l' (insert_before compare x xs)"
  using insert_law [of l xs x] by (auto simp: al_Insert_def dest: rsim_Inr_right)

lemma insert_dup: "abs l xs \<Longrightarrow> x \<in> set xs \<Longrightarrow> insert l x = Inl AssertFailed"
  using insert_law [of l xs x] by (auto simp: al_Insert_def dest: rsim_Inl_right)

lemma insert_before_sorted:
  "sorted (map key xs) \<Longrightarrow> sorted (map key (insert_before compare x xs))"
proof (induction xs)
  case (Cons y ys)
  have "insert_before compare x (y # ys) =
      (if key x < key y then x # y # ys else y # insert_before compare x ys)"
    by (simp add: insert_before_def compare_key)
  then show ?case using Cons by auto
qed (simp add: insert_before_def)

lemma insert_before_stable:
  "sorted (map key xs) \<Longrightarrow> filter (\<lambda>y. k = key y) (insert_before compare x xs)
     = filter (\<lambda>y. k = key y) xs @ (if key x = k then [x] else [])"
proof (induction xs)
  case (Cons y ys)
  have "insert_before compare x (y # ys) =
      (if key x < key y then x # y # ys else y # insert_before compare x ys)"
    by (simp add: insert_before_def compare_key)
  moreover have "key x < key y \<Longrightarrow> key x = k \<Longrightarrow> filter (\<lambda>y. k = key y) (y # ys) = []"
    using Cons.prems by (auto simp: filter_empty_conv)
  ultimately show ?case using Cons by (cases "key x < key y"; cases "key x = k") auto
qed (simp add: insert_before_def)

lemma put_all_insert:
  assumes "abs l ys" and "distinct (ys @ xs)" and "sorted (map key ys)"
  shows "\<exists>l' zs. put_all insert l xs = Inr l' \<and> abs l' zs \<and> sorted (map key zs)
    \<and> mset zs = mset (ys @ xs)
    \<and> (\<forall>k. filter (\<lambda>y. k = key y) zs = filter (\<lambda>y. k = key y) (ys @ xs))"
  using assms
proof (induction xs arbitrary: l ys)
  case Nil
  then show ?case by auto
next
  case (Cons x xs)
  let ?ys = "insert_before compare x ys"
  obtain l1 where l1: "insert l x = Inr l1" "abs l1 ?ys"
    using insert_new [of l ys x] Cons.prems by auto
  have d: "distinct (?ys @ xs)" using Cons.prems by (auto simp: insert_before_distinct)
  from Cons.IH [OF l1(2) d insert_before_sorted [OF Cons.prems(3)]] obtain l' zs where
    "put_all insert l1 xs = Inr l'" "abs l' zs" "sorted (map key zs)" "mset zs = mset (?ys @ xs)"
    "\<forall>k. filter (\<lambda>y. k = key y) zs = filter (\<lambda>y. k = key y) (?ys @ xs)" by blast
  then show ?case
    using l1 by (auto simp: mset_insert_before insert_before_stable [OF Cons.prems(3)])
qed

lemma drains_sorted:
  assumes "distinct xs"
  shows "\<exists>l l'. put_all insert empty xs = Inr l
    \<and> take_n remove_front (length xs) l = Inr (sort_key key xs, l') \<and> is_empty l'"
proof -
  obtain l zs where l: "put_all insert empty xs = Inr l" "abs l zs" "sorted (map key zs)"
    "mset zs = mset xs" "\<forall>k. filter (\<lambda>y. k = key y) zs = filter (\<lambda>y. k = key y) xs"
    using put_all_insert [OF empty_law, of xs] assms by auto
  have zs: "sort_key key xs = zs"
    by (rule properties_for_sort_key) (use l in simp_all)
  obtain l' where "take_n remove_front (length zs) l = Inr (zs, l')" "abs l' []"
    using take_n_all [of l zs "[]"] l by auto
  moreover have "length zs = length xs" using l(4) by (metis size_mset)
  ultimately show ?thesis using l zs is_empty_law by auto
qed

end

section \<open>The cell-level code implements the interfaces\<close>

interpretation ll: seq_list list_abs List_new list_Append list_Prepend list_RemoveFront
  list_Remove list_IsInList list_IsEmpty
proof unfold_locales
  fix l :: "'a nlist" and xs :: "'a list" and x :: 'a
  show "list_abs List_new []" using list_rep_new by (force simp: list_abs_def)
  assume a: "list_abs l xs"
  then obtain cs where cs: "distinct xs" "list_rep l cs" "xs = map snd cs"
    by (auto simp: list_abs_def)
  then have absI: "\<And>l' cs'. list_rep l' cs' \<Longrightarrow> distinct (map snd cs') \<Longrightarrow> list_abs l' (map snd cs')"
    by (auto simp: list_abs_def)
  note na = new_elem_absent [OF cs(2), of x x]
  show "distinct xs" by (fact cs)
  show "list_IsInList l x = Inr (x \<in> set xs)" using list_IsInList_rep [OF cs(2)] cs(3) by simp
  show "list_IsEmpty l = (xs = [])" using list_IsEmpty_rep [OF cs(2)] cs(3) by simp
  show "rsim list_abs (list_Append l x) (al_Append xs x)"
  proof (cases "x \<in> set xs")
    case True
    then show ?thesis using na cs(3)
      by (simp add: al_Append_def list_Append_def new_elem_pair)
  next
    case False
    then obtain l' where "list_Append l x = Inr l'" "list_rep l' (cs @ [(l_fresh l, x)])"
      using list_Append_rep [OF cs(2), of x] cs(3) by auto
    then show ?thesis
      using False absI [of l' "cs @ [(l_fresh l, x)]"] cs by (simp add: al_Append_def)
  qed
  show "rsim list_abs (list_Prepend l x) (al_Prepend xs x)"
  proof (cases "x \<in> set xs")
    case True
    then show ?thesis using na cs(3)
      by (simp add: al_Prepend_def list_Prepend_def new_elem_pair)
  next
    case False
    then obtain l' where "list_Prepend l x = Inr l'" "list_rep l' ((l_fresh l, x) # cs)"
      using list_Prepend_rep [OF cs(2), of x] cs(3) by auto
    then show ?thesis
      using False absI [of l' "(l_fresh l, x) # cs"] cs by (simp add: al_Prepend_def)
  qed
  show "rsim (rel_prod (=) list_abs) (list_RemoveFront l) (al_RemoveFront xs)"
  proof (cases cs)
    case Nil
    then show ?thesis using list_RemoveFront_empty [of l] cs by (simp add: al_RemoveFront_def)
  next
    case (Cons c ds)
    then show ?thesis
      using list_RemoveFront_rep [of l "fst c" "snd c" ds] cs absI
      by (auto simp: al_RemoveFront_def)
  qed
  show "rsim list_abs (list_Remove l x) (al_Remove xs x)"
  proof (cases "x \<in> set xs")
    case True
    then show ?thesis
      using list_Remove_rep [OF cs(2), of x] cs absI by (fastforce simp: al_Remove_def)
  next
    case False
    then show ?thesis using list_IsInList_rep [OF cs(2), of x] cs(3)
      by (simp add: al_Remove_def list_Remove_def)
  qed
qed

lemma sorted_Insert_refines:
  assumes "list_abs l xs"
  shows "rsim list_abs (sorted_Insert compare l x) (al_Insert compare xs x)"
proof -
  obtain cs where cs: "distinct xs" "list_rep l cs" "xs = map snd cs"
    using assms by (auto simp: list_abs_def)
  show ?thesis
  proof (cases "x \<in> set xs")
    case True
    then show ?thesis using new_elem_absent [OF cs(2), of x x] cs(3)
      by (simp add: al_Insert_def sorted_Insert_def new_elem_pair)
  next
    case False
    then obtain l' cs' where "sorted_Insert compare l x = Inr l'" "list_rep l' cs'"
      "map snd cs' = insert_before compare x xs"
      using sorted_Insert_rep [OF cs(2), of x compare] cs(3) by auto
    then show ?thesis using False cs(1) insert_before_distinct [of xs x compare]
      by (auto simp: al_Insert_def list_abs_def)
  qed
qed

lemma sorted_list_impl:
  assumes "\<And>x y. compare x y < 0 \<longleftrightarrow> key x < key y"
  shows "sorted_seq_list list_abs List_new list_Append list_Prepend list_RemoveFront
    list_Remove list_IsInList list_IsEmpty compare key (sorted_Insert compare)"
  by unfold_locales (auto simp: assms sorted_Insert_refines)

text \<open>\<^verbatim>\<open>IntCompare\<close> of \<^verbatim>\<open>lib/libtest.cc\<close>, the comparison the library's self test sorts by.\<close>

definition IntCompare :: "int \<Rightarrow> int \<Rightarrow> int" where
  "IntCompare x y = (if x < y then - 1 else if x = y then 0 else 1)"

interpretation il: sorted_seq_list list_abs List_new list_Append list_Prepend list_RemoveFront
  list_Remove list_IsInList list_IsEmpty IntCompare "\<lambda>x. x" "sorted_Insert IntCompare"
  by (rule sorted_list_impl) (simp add: IntCompare_def)

section \<open>The self tests\<close>

text \<open>
  \<^verbatim>\<open>List::SelfTest\<close>. Its \<^verbatim>\<open>Append\<close> and \<^verbatim>\<open>SanityCheck\<close> calls are virtual: run on a sorted
  list they are \<^verbatim>\<open>Insert\<close> and the sorted check, so both are arguments.
\<close>

fun self_test_put :: "('a nlist \<Rightarrow> 'a \<Rightarrow> 'a nlist result) \<Rightarrow> 'a nlist \<Rightarrow> 'a list \<Rightarrow> 'a nlist result" where
  "self_test_put put l [] = Inr l"
| "self_test_put put l (x # p) =
     rbind (put l x) (\<lambda>l. rbind (list_IsInList l x) (\<lambda>b. rassert b
       (rassert (\<not> list_IsEmpty l) (self_test_put put l p))))"

fun self_test_remove :: "'a nlist \<Rightarrow> 'a list \<Rightarrow> 'a nlist result" where
  "self_test_remove l [] = Inr l"
| "self_test_remove l (x # p) =
     rbind (list_Remove l x) (\<lambda>l. rbind (list_IsInList l x) (\<lambda>b. rassert (\<not> b)
       (self_test_remove l p)))"

definition list_SelfTest ::
    "('a nlist \<Rightarrow> 'a \<Rightarrow> 'a nlist result) \<Rightarrow> ('a nlist \<Rightarrow> unit result) \<Rightarrow> 'a nlist \<Rightarrow> 'a list
     \<Rightarrow> 'a nlist result" where
  "list_SelfTest put sanity l p =
     rbind (sanity l) (\<lambda>_. rassert (list_IsEmpty l \<and> l_first l = None)
    (rbind (self_test_put put l p) (\<lambda>l.
     rbind (sanity l) (\<lambda>_.
     rbind (self_test_remove l p) (\<lambda>l. rassert (list_IsEmpty l)
    (rbind (sanity l) (\<lambda>_. Inr l)))))))"

fun self_test_insert :: "('a \<Rightarrow> 'a \<Rightarrow> int) \<Rightarrow> 'a nlist \<Rightarrow> 'a list \<Rightarrow> 'a nlist result" where
  "self_test_insert compare l [] = Inr l"
| "self_test_insert compare l (x # p) =
     rbind (sorted_Insert compare l x) (\<lambda>l. rbind (list_IsInList l x) (\<lambda>b. rassert b
       (self_test_insert compare l p)))"

fun self_test_drain :: "nat \<Rightarrow> 'a nlist \<Rightarrow> ('a list \<times> 'a nlist) result" where
  "self_test_drain 0 l = Inr ([], l)"
| "self_test_drain (Suc n) l =
     rbind (list_RemoveFront l) (\<lambda>(x, l). rbind (list_IsInList l x) (\<lambda>b. rassert (\<not> b)
       (rbind (self_test_drain n l) (\<lambda>(q, l). Inr (x # q, l)))))"

fun self_test_order :: "('a \<Rightarrow> 'a \<Rightarrow> int) \<Rightarrow> 'a list \<Rightarrow> unit result" where
  "self_test_order compare (x # y # q) =
     rassert (compare x y \<le> 0) (self_test_order compare (y # q))"
| "self_test_order compare q = Inr ()"

definition sorted_SelfTest :: "('a \<Rightarrow> 'a \<Rightarrow> int) \<Rightarrow> 'a nlist \<Rightarrow> 'a list \<Rightarrow> 'a nlist result" where
  "sorted_SelfTest compare l p =
     rbind (list_SelfTest (sorted_Insert compare) (sorted_SanityCheck compare) l p) (\<lambda>l.
     rbind (self_test_insert compare l p) (\<lambda>l.
     rbind (sorted_SanityCheck compare l) (\<lambda>_.
     rbind (self_test_drain (length p) l) (\<lambda>(q, l). rassert (list_IsEmpty l)
    (rbind (self_test_order compare q) (\<lambda>_.
     rbind (sorted_SanityCheck compare l) (\<lambda>_. Inr l)))))))"

lemma sanity_loop_rep:
  assumes "list_rep l (cs @ ds)" and "ds \<noteq> []" and "length ds \<le> n"
  shows "sanity_loop n l (int (length cs) + 1) (next_of ds) = Inr ()"
  using assms
proof (induction ds arbitrary: cs n)
  case (Cons d ds)
  obtain m where n: "n = Suc m" using Cons.prems by (cases n) auto
  obtain a x where d: "d = (a, x)" by force
  have h: "l_cells l a = Some \<lparr>el_item = x, el_next = next_of ds\<rparr>"
    using Cons.prems(1) d by (auto simp: list_rep_def dest: lseg_next_of)
  show ?case
  proof (cases "ds = []")
    case True
    then show ?thesis using Cons.prems(1) h n d by (simp add: list_rep_def)
  next
    case False
    have "l_last l \<noteq> Some a" "int (length cs) + 2 \<le> numInList l"
      using Cons.prems(1) d False last_in_set [OF False]
      by (auto simp: list_rep_def Suc_le_eq)
    moreover have "sanity_loop m l (int (length (cs @ [d])) + 1) (next_of ds) = Inr ()"
      by (rule Cons.IH) (use Cons.prems n False in auto)
    ultimately show ?thesis using h n d by (simp add: ac_simps)
  qed
qed simp

lemma list_SanityCheck_rep:
  assumes r: "list_rep l cs"
  shows "list_SanityCheck l = Inr ()"
proof (cases cs)
  case Nil
  then show ?thesis using r by (simp add: list_SanityCheck_def list_rep_def)
next
  case (Cons c ds)
  obtain a x where c: "c = (a, x)" by force
  have h: "l_first l = Some a" "l_cells l a = Some \<lparr>el_item = x, el_next = next_of ds\<rparr>"
    using r Cons c by (auto simp: list_rep_def dest: lseg_next_of)
  have "length cs \<le> Suc (l_fresh l)" using list_rep_length [OF r] by simp
  then have s: "sanity_loop (Suc (l_fresh l)) l 1 (Some a) = Inr ()"
    using sanity_loop_rep [of l "[]" cs "Suc (l_fresh l)"] r Cons c by simp
  show ?thesis
  proof (cases "l_last l = Some a")
    case True
    then have "ds = []" using r Cons c last_in_set [of ds]
      by (auto simp: list_rep_def split: if_splits)
    then show ?thesis using True h r Cons by (simp add: list_SanityCheck_def list_rep_def)
  next
    case False
    then show ?thesis using h s by (auto simp: list_SanityCheck_def simp del: sanity_loop.simps)
  qed
qed

lemma sorted_sanity_loop_rep:
  assumes "lseg h (Some a) ((a, x) # cs) None" and "length cs < n"
    and "sorted_wrt (\<lambda>x y. compare x y \<le> 0) (x # map snd cs)"
  shows "sorted_sanity_loop n compare h (Some a) (next_of cs) = Inr ()"
  using assms
proof (induction cs arbitrary: a x n)
  case (Cons c cs)
  obtain m where n: "n = Suc m" using Cons.prems(2) by (cases n) auto
  obtain b y where c: "c = (b, y)" by force
  obtain k where k: "h a = Some \<lparr>el_item = x, el_next = Some b\<rparr>"
    "h b = Some \<lparr>el_item = y, el_next = k\<rparr>" "lseg h k cs None"
    using Cons.prems(1) c by auto
  have kn: "k = next_of cs" using lseg_next_of [OF k(3)] by simp
  have "sorted_sanity_loop m compare h (Some b) (next_of cs) = Inr ()"
    by (rule Cons.IH [of b y]) (use Cons.prems n c k in auto)
  then show ?case using k kn n c Cons.prems(3) by simp
qed (auto simp: gr0_conv_Suc)

lemma sorted_SanityCheck_rep:
  assumes r: "list_rep l cs" and "sorted_wrt (\<lambda>x y. compare x y \<le> 0) (map snd cs)"
  shows "sorted_SanityCheck compare l = Inr ()"
proof (cases cs)
  case Nil
  then show ?thesis using r list_SanityCheck_rep [OF r]
    by (simp add: sorted_SanityCheck_def list_rep_def)
next
  case (Cons c ds)
  obtain a x where c: "c = (a, x)" by force
  have h: "l_first l = Some a" "l_cells l a = Some \<lparr>el_item = x, el_next = next_of ds\<rparr>"
    "lseg (l_cells l) (Some a) ((a, x) # ds) None"
    using r Cons c by (auto simp: list_rep_def dest: lseg_next_of)
  have "length ds < Suc (l_fresh l)" using list_rep_length [OF r] Cons by simp
  then show ?thesis
    using list_SanityCheck_rep [OF r] h sorted_sanity_loop_rep [OF h(3), of _ compare] assms(2) Cons c
    by (simp add: sorted_SanityCheck_def del: sorted_sanity_loop.simps)
qed

lemma self_test_put_ok:
  assumes put: "\<And>l xs x. list_abs l xs \<Longrightarrow> x \<notin> set xs \<Longrightarrow>
      \<exists>l' ys. put l x = Inr l' \<and> list_abs l' ys \<and> set ys = insert x (set xs) \<and> (P xs \<longrightarrow> P ys)"
    and "list_abs l xs" and "distinct p" and "set p \<inter> set xs = {}" and "P xs"
  shows "\<exists>l' ys. self_test_put put l p = Inr l' \<and> list_abs l' ys \<and> set ys = set xs \<union> set p \<and> P ys"
  using assms(2-)
proof (induction p arbitrary: l xs)
  case (Cons x p)
  obtain l1 ys where l1: "put l x = Inr l1" "list_abs l1 ys" "set ys = insert x (set xs)" "P ys"
    using put [OF Cons.prems(1), of x] Cons.prems by auto
  have "ys \<noteq> []" using l1(3) by auto
  moreover obtain l2 zs where "self_test_put put l1 p = Inr l2" "list_abs l2 zs"
    "set zs = set ys \<union> set p" "P zs"
    using Cons.IH [OF l1(2)] Cons.prems l1 by auto
  ultimately show ?case using l1 ll.is_in_law [OF l1(2)] ll.is_empty_law [OF l1(2)] by auto
qed auto

lemma self_test_remove_ok:
  assumes "list_abs l xs" and "distinct p" and "set p \<subseteq> set xs"
  shows "\<exists>l' ys. self_test_remove l p = Inr l' \<and> list_abs l' ys \<and> set ys = set xs - set p"
  using assms
proof (induction p arbitrary: l xs)
  case (Cons x p)
  obtain l1 where l1: "list_Remove l x = Inr l1" "list_abs l1 (remove1 x xs)"
    using ll.remove_present [OF Cons.prems(1), of x] Cons.prems by auto
  have s: "set (remove1 x xs) = set xs - {x}" using ll.abs_distinct [OF Cons.prems(1)] by simp
  from Cons.IH [OF l1(2)] Cons.prems s obtain l2 zs where "self_test_remove l1 p = Inr l2"
    "list_abs l2 zs" "set zs = (set xs - {x}) - set p" by auto
  then show ?case using l1 ll.is_in_law [OF l1(2)] s by auto
qed auto

lemma list_SelfTest_ok:
  assumes put: "\<And>l xs x. list_abs l xs \<Longrightarrow> x \<notin> set xs \<Longrightarrow>
      \<exists>l' ys. put l x = Inr l' \<and> list_abs l' ys \<and> set ys = insert x (set xs) \<and> (P xs \<longrightarrow> P ys)"
    and sanity: "\<And>l xs. list_abs l xs \<Longrightarrow> P xs \<Longrightarrow> sanity l = Inr ()"
    and "P []" and "list_abs l []" and "distinct p"
  shows "\<exists>l'. list_SelfTest put sanity l p = Inr l' \<and> list_abs l' []"
proof -
  obtain l1 ys where l1: "self_test_put put l p = Inr l1" "list_abs l1 ys" "set ys = set p" "P ys"
    using self_test_put_ok [of put P l "[]" p] put assms(3-) by auto
  obtain l2 zs where "self_test_remove l1 p = Inr l2" "list_abs l2 zs" "set zs = set ys - set p"
    using self_test_remove_ok [OF l1(2) assms(5)] l1(3) by auto
  then have l2: "self_test_remove l1 p = Inr l2" "list_abs l2 []" using l1(3) by auto
  have "l_first l = None" using assms(4) by (auto simp: list_abs_def list_rep_def)
  then show ?thesis
    using l1 sanity [OF assms(4,3)] sanity [OF l1(2,4)] sanity [OF l2(2) assms(3)] l2
      ll.is_empty_law [OF assms(4)] ll.is_empty_law [OF l2(2)]
    by (simp add: list_SelfTest_def)
qed

lemma self_test_insert_ok:
  assumes "sorted_seq_list list_abs List_new list_Append list_Prepend list_RemoveFront
      list_Remove list_IsInList list_IsEmpty compare key (sorted_Insert compare)"
    and "list_abs l xs" and "distinct (xs @ p)" and "sorted (map key xs)"
  shows "\<exists>l' ys. self_test_insert compare l p = Inr l' \<and> list_abs l' ys \<and> sorted (map key ys)
    \<and> set ys = set xs \<union> set p \<and> length ys = length xs + length p"
  using assms(2-)
proof (induction p arbitrary: l xs)
  case (Cons x p)
  let ?ys = "insert_before compare x xs"
  obtain l1 where l1: "sorted_Insert compare l x = Inr l1" "list_abs l1 ?ys"
    using sorted_seq_list.insert_new [OF assms(1) Cons.prems(1), of x] Cons.prems by auto
  have len: "length ?ys = Suc (length xs)"
    by (metis mset_insert_before size_add_mset size_mset)
  have d: "distinct (?ys @ p)" using Cons.prems by (auto simp: insert_before_distinct)
  have s: "sorted (map key ?ys)"
    using sorted_seq_list.insert_before_sorted [OF assms(1)] Cons.prems(3) by simp
  obtain l2 zs where "self_test_insert compare l1 p = Inr l2" "list_abs l2 zs" "sorted (map key zs)"
    "set zs = set ?ys \<union> set p" "length zs = length ?ys + length p"
    using Cons.IH [OF l1(2) d s] by blast
  then show ?case using l1 len ll.is_in_law [OF l1(2), of x] by auto
qed auto

lemma self_test_drain_ok:
  "list_abs l xs \<Longrightarrow> \<exists>l'. self_test_drain (length xs) l = Inr (xs, l') \<and> list_abs l' []"
proof (induction xs arbitrary: l)
  case (Cons x xs)
  obtain l1 where l1: "list_RemoveFront l = Inr (x, l1)" "list_abs l1 xs"
    using ll.remove_front_Cons [OF Cons.prems] by auto
  obtain l2 where "self_test_drain (length xs) l1 = Inr (xs, l2)" "list_abs l2 []"
    using Cons.IH [OF l1(2)] by auto
  then show ?case
    using l1 ll.is_in_law [OF l1(2), of x] ll.abs_distinct [OF Cons.prems] by simp
qed auto

lemma self_test_order_ok:
  "sorted_wrt (\<lambda>x y. compare x y \<le> 0) q \<Longrightarrow> self_test_order compare q = Inr ()"
  by (induction compare q rule: self_test_order.induct) auto

lemma list_abs_sanity:
  "list_abs l xs \<Longrightarrow> list_SanityCheck l = Inr ()"
  "list_abs l xs \<Longrightarrow> sorted_wrt (\<lambda>x y. compare x y \<le> 0) xs \<Longrightarrow> sorted_SanityCheck compare l = Inr ()"
  using list_SanityCheck_rep sorted_SanityCheck_rep by (auto simp: list_abs_def)

lemma sorted_SelfTest_ok:
  fixes key :: "'a \<Rightarrow> int"
  assumes c: "\<And>x y. compare x y < 0 \<longleftrightarrow> key x < key y" "\<And>x y. compare x y \<le> 0 \<longleftrightarrow> key x \<le> key y"
    and "list_abs l []" and "distinct p"
  shows "\<exists>l'. sorted_SelfTest compare l p = Inr l' \<and> list_abs l' []"
proof -
  note impl = sorted_list_impl [of compare key, OF c(1)]
  have le: "sorted_wrt (\<lambda>x y. compare x y \<le> 0) xs = sorted (map key xs)" for xs
    by (simp add: c(2) sorted_map)
  have put: "\<exists>l' ys. sorted_Insert compare l x = Inr l' \<and> list_abs l' ys
      \<and> set ys = insert x (set xs) \<and> (sorted (map key xs) \<longrightarrow> sorted (map key ys))"
    if "list_abs l xs" "x \<notin> set xs" for l xs x
    using sorted_seq_list.insert_new [OF impl that]
      sorted_seq_list.insert_before_sorted [OF impl, of xs x] by fastforce
  obtain l0 where l0: "list_SelfTest (sorted_Insert compare) (sorted_SanityCheck compare) l p = Inr l0"
    "list_abs l0 []"
    using list_SelfTest_ok [of "sorted_Insert compare" "\<lambda>xs. sorted (map key xs)"
        "sorted_SanityCheck compare" l p] put list_abs_sanity(2) [of _ _ compare] assms(3,4) le by auto
  obtain l1 q where l1: "self_test_insert compare l0 p = Inr l1" "list_abs l1 q" "sorted (map key q)"
    "length q = length p"
    using self_test_insert_ok [OF impl l0(2), of p] assms(4) by auto
  obtain l2 where l2: "self_test_drain (length p) l1 = Inr (q, l2)" "list_abs l2 []"
    using self_test_drain_ok [OF l1(2)] l1(4) by auto
  have s: "sorted_SanityCheck compare l1 = Inr ()" "sorted_SanityCheck compare l2 = Inr ()"
    "self_test_order compare q = Inr ()"
    using list_abs_sanity(2) [OF l1(2)] list_abs_sanity(2) [OF l2(2)]
      self_test_order_ok [of compare q] le l1(3) by auto
  then show ?thesis using l0 l1 l2 s ll.is_empty_law [OF l2(2)] by (simp add: sorted_SelfTest_def)
qed

lemma list_SelfTest_empty:
  "distinct p \<Longrightarrow> \<exists>l. list_SelfTest list_Append list_SanityCheck List_new p = Inr l \<and> list_abs l []"
  by (rule list_SelfTest_ok [where P = "\<lambda>_. True"])
     (use ll.append_new ll.empty_law list_abs_sanity(1) in fastforce)+

section \<open>The promises of the lists\<close>

text \<open>
  C24: the cell-level \<^verbatim>\<open>Append\<close>, \<^verbatim>\<open>Prepend\<close>, \<^verbatim>\<open>RemoveFront\<close>, \<^verbatim>\<open>Remove\<close> and
  \<^verbatim>\<open>IsInList\<close> of \<^verbatim>\<open>List\<close> and \<^verbatim>\<open>Insert\<close> of \<^verbatim>\<open>SortedList\<close> implement the operations on
  plain sequences without repetitions: on a list that represents \<open>xs\<close>, each stops with the
  same error as the sequence operation or returns a list that represents its result, and
  \<^verbatim>\<open>Front\<close>, \<^verbatim>\<open>NumInList\<close> and \<^verbatim>\<open>SanityCheck\<close> return what they should.
\<close>

theorem list_operations_refine:
  assumes "list_abs l xs"
  shows "rsim list_abs (list_Append l x) (al_Append xs x)
    \<and> rsim list_abs (list_Prepend l x) (al_Prepend xs x)
    \<and> rsim (rel_prod (=) list_abs) (list_RemoveFront l) (al_RemoveFront xs)
    \<and> rsim list_abs (list_Remove l x) (al_Remove xs x)
    \<and> rsim list_abs (sorted_Insert compare l x) (al_Insert compare xs x)
    \<and> list_IsInList l x = Inr (x \<in> set xs) \<and> list_IsEmpty l = (xs = [])
    \<and> list_Front l = al_Front xs \<and> list_NumInList l = int (length xs)
    \<and> list_SanityCheck l = Inr ()"
proof -
  obtain cs where cs: "list_rep l cs" "xs = map snd cs" using assms by (auto simp: list_abs_def)
  have "list_Front l = al_Front xs"
    using cs by (cases cs) (auto simp: list_rep_def list_Front_def al_Front_def)
  moreover have "list_NumInList l = int (length xs)"
    using cs by (simp add: list_rep_def list_NumInList_def)
  ultimately show ?thesis
    using ll.append_law [OF assms] ll.prepend_law [OF assms] ll.remove_front_law [OF assms]
      ll.remove_law [OF assms] ll.is_in_law [OF assms] ll.is_empty_law [OF assms]
      list_abs_sanity(1) [OF assms] sorted_Insert_refines [OF assms] by simp
qed

lemma list_operations_refine_witness:
  "(\<exists>l. list_Append List_new (7::int) = Inr l \<and> list_IsInList l 7 = Inr True)
   \<and> list_RemoveFront (List_new :: int nlist) = Inl AssertFailed"
  using list_operations_refine [OF ll.empty_law, of "7::int" IntCompare]
    list_operations_refine [of _ "[7::int]" 7 IntCompare]
  by (auto simp: al_Append_def al_RemoveFront_def dest!: rsim_Inr_right rsim_Inl_right)

text \<open>
  Appending the distinct items \<open>xs\<close> to an empty list and calling \<^verbatim>\<open>RemoveFront\<close> as
  often returns them in the same order and leaves the list empty.
\<close>

theorem list_fifo:
  assumes "distinct xs"
  shows "\<exists>l l'. put_all list_Append List_new xs = Inr l
    \<and> take_n list_RemoveFront (length xs) l = Inr (xs, l') \<and> list_IsEmpty l'"
  using assms by (rule ll.fifo)

lemma list_fifo_witness:
  "\<exists>l l'. put_all list_Append List_new [9, 5, 7::int] = Inr l
    \<and> take_n list_RemoveFront 3 l = Inr ([9, 5, 7], l') \<and> list_IsEmpty l'"
  using list_fifo [of "[9, 5, 7::int]"] by (simp add: numeral_3_eq_3)

text \<open>
  C23: a \<^verbatim>\<open>SortedList\<close> is a stable priority queue. For a comparison function that orders by
  a key, inserting distinct items and removing them all from the front returns them sorted
  by key, items with the same key in the order of their insertion (\<open>sort_key\<close> is stable).
  The interrupt queue of the simulated machine relies on it.
\<close>

theorem sorted_list_drains_sorted:
  fixes key :: "'a \<Rightarrow> int"
  assumes "\<And>x y. compare x y < 0 \<longleftrightarrow> key x < key y" and "distinct xs"
  shows "\<exists>l l'. put_all (sorted_Insert compare) List_new xs = Inr l
    \<and> take_n list_RemoveFront (length xs) l = Inr (sort_key key xs, l') \<and> list_IsEmpty l'"
  by (rule sorted_seq_list.drains_sorted [OF sorted_list_impl]) (use assms in auto)

lemma sorted_list_drains_sorted_witness:
  "\<exists>l l'. put_all (sorted_Insert IntCompare) List_new [9, 5, 7] = Inr l
    \<and> take_n list_RemoveFront 3 l = Inr ([5, 7, 9], l') \<and> list_IsEmpty l'"
  using sorted_list_drains_sorted [of IntCompare "\<lambda>x. x" "[9, 5, 7]"]
  by (simp add: IntCompare_def numeral_3_eq_3)

end
