(* ===== verification/Client_Data.thy ===== *)
theory Client_Data
  imports Machine_Mem List_Lib
begin

text \<open>
  The objects of the parts of the kernel that are built on threads and synchronisation: synchronised lists
  (\<^verbatim>\<open>threads/synchlist.h\<close>), the console (\<^verbatim>\<open>machine/console.h\<close>, \<^verbatim>\<open>userprog/synchconsole.h\<close>), the network and the post office
  (\<^verbatim>\<open>machine/network.h\<close>, \<^verbatim>\<open>network/post.h\<close>), and the variables of the tests in \<^verbatim>\<open>threads/kernel.cc\<close>. \<open>client\<close> lists the
  pieces of their routines between the calls of other routines that may switch threads.
\<close>

type_synonym addr = nat

section \<open>Address spaces and synchronised lists\<close>

record addrspace =
  as_pt :: "tentry list option"
  as_numPages :: int
  as_vmFile :: "byte list option"
  as_openedFile :: "byte list option"
  as_noffHeader :: noff_header

text \<open>The items of a list are integers; items that are pointers are the addresses.\<close>

record synchlist =
  sl_list :: "int list"
  sl_lock :: addr
  sl_listEmpty :: addr

section \<open>The console\<close>

text \<open>
  A console device reads from and writes to a UNIX file. What the polls of the input file will find is \<open>ci_polls\<close>: nothing, or a character;
  at the end of the list is the end of the file. A \<^verbatim>\<open>char\<close> is signed, and \<^verbatim>\<open>EOF\<close> is -1.
\<close>

definition EOF :: int where "EOF = - 1"

record console_input =
  ci_polls :: "byte option list"
  ci_incoming :: int
  ci_lock :: addr
  ci_waitFor :: addr

record console_output =
  co_written :: "byte list"
  co_putBusy :: bool
  co_lock :: addr
  co_waitFor :: addr

section \<open>The network and the post office\<close>

definition MaxWireSize :: int where "MaxWireSize = 64"

record packet_header =
  pkt_to :: int
  pkt_from :: int
  pkt_length :: int

definition sizeof_PacketHeader :: int where "sizeof_PacketHeader = 12"
definition MaxPacketSize :: int where "MaxPacketSize = MaxWireSize - sizeof_PacketHeader"

record mail_header =
  mail_to :: int
  mail_from :: int
  mail_length :: int

definition sizeof_MailHeader :: int where "sizeof_MailHeader = 12"
definition MaxMailSize :: int where "MaxMailSize = MaxPacketSize - sizeof_MailHeader"

lemmas net_consts = MaxWireSize_def sizeof_PacketHeader_def MaxPacketSize_def sizeof_MailHeader_def MaxMailSize_def

record mail =
  ml_pktHdr :: packet_header
  ml_mailHdr :: mail_header
  ml_data :: "byte list"

text \<open>
  The two network devices. What the polls of the socket will find is \<open>ni_polls\<close>; what was sent, and to which machine, is
  \<open>no_sent\<close>. \<^verbatim>\<open>chanceToWork * 100\<close>, which the code compares with integers, is rounded up to \<open>no_chance\<close>; \<open>no_new\<close> is what the
  memory of a new buffer holds.
\<close>

record network_input =
  ni_inHdr :: packet_header
  ni_inbox :: "byte list"
  ni_polls :: "byte list option list"
  ni_messageAvailable :: addr

record network_output =
  no_sendBusy :: bool
  no_chance :: int
  no_new :: "byte list"
  no_sent :: "(int \<times> byte list) list"
  no_messageSent :: addr
  no_sendLock :: addr

text \<open>
  The post office: the mailboxes are synchronised lists of the addresses of \<^verbatim>\<open>Mail\<close> objects. \<open>po_buffer\<close> is the buffer of the postal
  worker and \<open>po_got\<close> what each thread has received.
\<close>

record post_office =
  po_boxes :: "addr list"
  po_mails :: "int \<rightharpoonup> mail"
  po_fresh :: int
  po_buffer :: "byte list"
  po_got :: "addr \<rightharpoonup> mail"

section \<open>The data of the clients\<close>

text \<open>
  The last three fields are what the consumers of the two tests and the readers print.
\<close>

record client_data =
  d_lists :: "addr \<rightharpoonup> synchlist"
  d_consoleIn :: console_input
  d_consoleOut :: console_output
  d_networkIn :: network_input
  d_networkOut :: network_output
  d_post :: post_office
  d_hostName :: int
  d_high :: int
  d_low :: int
  d_produceArray :: "int list"
  d_readerCount :: int
  d_readContent :: "int list"
  d_consumed :: "int list"
  d_shown :: "int list"
  d_seen :: "int list"

datatype client =
    SynchList_Append addr int
  | SynchList_Append_locked addr int
  | SynchList_Append_result addr
  | SynchList_RemoveFront addr
  | SynchList_RemoveFront_locked addr
  | SynchList_RemoveSpecificOne addr int
  | SynchList_Remove_locked addr int
  | SynchList_assert_empty addr
  | assert_result int
  | assert_value addr
  | delete_SynchList addr
  | Console_GetChar
  | Console_GetChar_locked
  | Console_PutChar int
  | Console_PutChar_locked int
  | ConsoleTest
  | ConsoleTest_echo
  | PostalDelivery
  | PostalDelivery_receive
  | Post_Receive int
  | MailBox_Get
  | Post_Send packet_header mail_header "byte list"
  | Network_Send packet_header "byte list"
  | NetworkTest_ack
  | while_ready
  | produce_item int
  | consume_item
  | show_result
  | reader_enter addr
  | read_item int
  | reader_leave addr
  | write_item int
  | SimpleThread_loop nat
  | MyThreadTest_loop addr int int nat
  | bzero_memory
  | SimpleUserThread "byte list option" addrspace "byte list" "nat \<Rightarrow> tentry"
  | Halt

end
