(* ===== verification/Kernel_State.thy ===== *)
theory Kernel_State
  imports Client_Data
begin

text \<open>
  The state that the kernel proper works on: threads (\<^verbatim>\<open>threads/thread.h\<close>), the scheduler's queues
  (\<^verbatim>\<open>threads/scheduler.h\<close>), the interrupt simulation (\<^verbatim>\<open>machine/interrupt.h\<close>), semaphores, locks and condition
  variables (\<^verbatim>\<open>threads/synch.h\<close>), and the \<^verbatim>\<open>kernel\<close> object that ties them together. Objects are addressed by
  numbers; a thread that has been deleted has no object at its address, and following a pointer to it is the error
  \<open>NullDeref\<close>. Queues of pointers are lists with the operations \<open>al_Append\<close> and so on, which the lists of
  \<^verbatim>\<open>lib/list.cc\<close> implement.

  The field \<open>t_result\<close> of a thread is the value that the last call returned to it.

  A thread's execution stack is a list of frames: the calls it still has to make and the rest of each call that was
  left at a context switch. The frames of a thread that is not running are what \<^verbatim>\<open>SWITCH\<close> preserves.
\<close>

datatype int_status = IntOff | IntOn

datatype int_type = TimerInt | DiskInt | ConsoleWriteInt | ConsoleReadInt | NetworkSendInt | NetworkRecvInt

text \<open>The objects that handle interrupts: the timer, and the other devices by number.\<close>

datatype callback = TimerDevice | Device nat

record pending_interrupt =
  callOnInterrupt :: callback
  int_when :: int
  int_kind :: int_type

datatype thread_status = JUST_CREATED | RUNNING | READY | BLOCKED | SUSPENDED

text \<open>
  First the calls that the procedure of a thread makes, then what remains of a call after a
  context switch or of a call that consists of other calls. \<open>Client\<close> is a call of a routine built on these, or the rest of one, and
  \<open>UserRun\<close> the loop of the processor that executes the user program of the thread.
\<close>

datatype frame =
    sem_P addr
  | sem_V addr
  | Acquire addr
  | Release addr
  | Wait addr addr
  | Signal addr addr
  | Broadcast addr addr
  | Barrier addr addr
  | Yield
  | SetLevel int_status
  | NewThread addr int int
  | SetPriority addr int
  | Fork addr "frame list"
  | Finish
  | P_loop addr int_status
  | Sleep_loop bool
  | after_SWITCH
  | set_status machine_status
  | Fork_check
  | set_lockHolder addr
  | delete_Semaphore addr
  | ThreadBegin
  | Client client
  | UserRun

record thread =
  t_threadID :: int
  t_priority :: int
  t_timeSliceRemain :: int
  t_status :: thread_status
  t_stack :: "int option"
  t_userRegisters :: "u32 list"
  t_space :: "addrspace option"
  t_frames :: "frame list"
  t_result :: int

record semaphore =
  s_value :: int
  s_queue :: "addr list"

record lock =
  l_semaphore :: addr
  l_lockHolder :: "addr option"

record condition =
  c_waitQueue :: "addr list"
  c_barrierNum :: int

text \<open>
  The kernel. \<^verbatim>\<open>kernel->stats\<close> and the status of the interrupt simulation are those of the machine record.
  \<open>k_random\<close> are the numbers that \<^verbatim>\<open>RandomNumber\<close> will return, \<open>k_freshSem\<close> the address of
  the next semaphore to be allocated.
\<close>

record kernel =
  k_typeno :: int
  k_threads :: "addr \<rightharpoonup> thread"
  k_threadArray :: "addr option list"
  k_current :: addr
  k_readyList :: "addr list"
  k_sortedReadyList :: "addr list"
  k_threadArrQueue :: "addr list list"
  k_suspendList :: "addr list"
  k_blockList :: "addr list"
  k_toBeDestroyed :: "addr option"
  k_level :: int_status
  k_pending :: "pending_interrupt list"
  k_inHandler :: bool
  k_yieldOnReturn :: bool
  k_machine :: machine
  k_sems :: "addr \<rightharpoonup> semaphore"
  k_locks :: "addr \<rightharpoonup> lock"
  k_conds :: "addr \<rightharpoonup> condition"
  k_freshSem :: addr
  k_randomize :: bool
  k_timerDisable :: bool
  k_random :: "nat \<Rightarrow> int"
  k_halted :: bool
  k_data :: client_data

text \<open>Following pointers.\<close>

definition get_thread :: "kernel \<Rightarrow> addr \<Rightarrow> thread result" where
  "get_thread k a = (case k_threads k a of None \<Rightarrow> Inl NullDeref | Some t \<Rightarrow> Inr t)"

definition upd_thread :: "kernel \<Rightarrow> addr \<Rightarrow> (thread \<Rightarrow> thread) \<Rightarrow> kernel result" where
  "upd_thread k a f = rbind (get_thread k a) (\<lambda>t. Inr (k\<lparr>k_threads := (k_threads k)(a \<mapsto> f t)\<rparr>))"

definition get_sem :: "kernel \<Rightarrow> addr \<Rightarrow> semaphore result" where
  "get_sem k s = (case k_sems k s of None \<Rightarrow> Inl NullDeref | Some x \<Rightarrow> Inr x)"

definition put_sem :: "kernel \<Rightarrow> addr \<Rightarrow> semaphore \<Rightarrow> kernel" where
  "put_sem k s x = k\<lparr>k_sems := (k_sems k)(s \<mapsto> x)\<rparr>"

definition get_lock :: "kernel \<Rightarrow> addr \<Rightarrow> lock result" where
  "get_lock k l = (case k_locks k l of None \<Rightarrow> Inl NullDeref | Some x \<Rightarrow> Inr x)"

definition put_lock :: "kernel \<Rightarrow> addr \<Rightarrow> lock \<Rightarrow> kernel" where
  "put_lock k l x = k\<lparr>k_locks := (k_locks k)(l \<mapsto> x)\<rparr>"

definition get_cond :: "kernel \<Rightarrow> addr \<Rightarrow> condition result" where
  "get_cond k c = (case k_conds k c of None \<Rightarrow> Inl NullDeref | Some x \<Rightarrow> Inr x)"

definition put_cond :: "kernel \<Rightarrow> addr \<Rightarrow> condition \<Rightarrow> kernel" where
  "put_cond k c x = k\<lparr>k_conds := (k_conds k)(c \<mapsto> x)\<rparr>"

text \<open>Frames on top of the stack of a thread, for calls that follow.\<close>

definition push :: "frame list \<Rightarrow> kernel \<Rightarrow> kernel result" where
  "push fs k = upd_thread k (k_current k) (\<lambda>t. t\<lparr>t_frames := fs @ t_frames t\<rparr>)"

definition k_stats :: "kernel \<Rightarrow> statistics" where
  "k_stats k = m_stats (k_machine k)"

definition set_stats :: "kernel \<Rightarrow> statistics \<Rightarrow> kernel" where
  "set_stats k st = k\<lparr>k_machine := (k_machine k)\<lparr>m_stats := st\<rparr>\<rparr>"

definition getStatus :: "kernel \<Rightarrow> machine_status" where
  "getStatus k = m_status (k_machine k)"

definition setStatus :: "kernel \<Rightarrow> machine_status \<Rightarrow> kernel" where
  "setStatus k st = k\<lparr>k_machine := (k_machine k)\<lparr>m_status := st\<rparr>\<rparr>"

end
