(* ===== verification/Thread_Sched.thy ===== *)
theory Thread_Sched
  imports Kernel_State
begin

text \<open>
  Threads (\<^verbatim>\<open>threads/thread.cc\<close>), the scheduler (\<^verbatim>\<open>threads/scheduler.cc\<close>) with its four policies (first come
  first served, preemptive priorities, round robin and multilevel feedback queues), the interrupt simulation
  (\<^verbatim>\<open>machine/interrupt.cc\<close>), the timer (\<^verbatim>\<open>machine/timer.cc\<close>) and the alarm (\<^verbatim>\<open>threads/alarm.cc\<close>), and on top of
  them semaphores, locks and condition variables (\<^verbatim>\<open>threads/synch.cc\<close>). One function per routine; where
  a routine may be left by a context switch, what follows is pushed as a frame on the stack of the thread, so that
  \<open>kernel_step\<close>, which executes the topmost frame of the current thread, runs the whole system.
\<close>

section \<open>The scheduler\<close>

definition timeSlice :: int where "timeSlice = 3"
definition QueueNum :: int where "QueueNum = 5"
definition threadArrTimeSlice :: "int list" where "threadArrTimeSlice = [3, 4, 5, 6, 7]"
definition MaxThreadNum :: int where "MaxThreadNum = 128"
definition STACK_FENCEPOST :: int where "STACK_FENCEPOST = 0xdedbeef"

definition getPriority :: "kernel \<Rightarrow> addr \<Rightarrow> int" where
  "getPriority k a = (case k_threads k a of None \<Rightarrow> 0 | Some t \<Rightarrow> t_priority t)"

definition cmp :: "kernel \<Rightarrow> addr \<Rightarrow> addr \<Rightarrow> int" where
  "cmp k t1 t2 =
     (if getPriority k t1 < getPriority k t2 then - 1
      else if getPriority k t1 > getPriority k t2 then 1 else 0)"

text \<open>The part of \<^verbatim>\<open>ReadyToRun\<close> that puts the thread on a queue.\<close>

definition enqueue_ready :: "kernel \<Rightarrow> addr \<Rightarrow> kernel result" where
  "enqueue_ready k a =
     (if k_typeno k = 1
      then rbind (al_Insert (cmp k) (k_sortedReadyList k) a) (\<lambda>q. Inr (k\<lparr>k_sortedReadyList := q\<rparr>))
      else if k_typeno k = 0 \<or> k_typeno k = 2
      then rbind (if k_typeno k = 2 then upd_thread k a (\<lambda>t. t\<lparr>t_timeSliceRemain := timeSlice\<rparr>) else Inr k) (\<lambda>k.
           rbind (al_Append (k_readyList k) a) (\<lambda>q. Inr (k\<lparr>k_readyList := q\<rparr>)))
      else if k_typeno k = 3
      then rbind (get_thread k a) (\<lambda>t.
           let p = (if t_priority t \<noteq> QueueNum - 1 then t_priority t + 1 else t_priority t) in
           rbind (aread threadArrTimeSlice p) (\<lambda>slice.
           rbind (upd_thread k a (\<lambda>t. t\<lparr>t_priority := p, t_timeSliceRemain := slice\<rparr>)) (\<lambda>k.
           rbind (aread (k_threadArrQueue k) p) (\<lambda>q.
           rbind (al_Append q a) (\<lambda>q.
           rbind (awrite (k_threadArrQueue k) p q) (\<lambda>qs. Inr (k\<lparr>k_threadArrQueue := qs\<rparr>)))))))
      else Inr k)"

definition ReadyToRun :: "kernel \<Rightarrow> addr \<Rightarrow> kernel result" where
  "ReadyToRun k a =
     rassert (k_level k = IntOff)
      (rbind (if a \<in> set (k_blockList k)
              then rbind (al_Remove (k_blockList k) a) (\<lambda>b. Inr (k\<lparr>k_blockList := b\<rparr>))
              else Inr k) (\<lambda>k.
       rbind (upd_thread k a (\<lambda>t. t\<lparr>t_status := READY\<rparr>)) (\<lambda>k. enqueue_ready k a)))"

fun find_queue :: "addr list list \<Rightarrow> (addr \<times> addr list list) option" where
  "find_queue [] = None"
| "find_queue ([] # qs) = map_option (\<lambda>(a, qs). (a, [] # qs)) (find_queue qs)"
| "find_queue ((a # q) # qs) = Some (a, q # qs)"

definition FindNextToRun :: "kernel \<Rightarrow> (addr option \<times> kernel) result" where
  "FindNextToRun k =
     rassert (k_level k = IntOff)
      (if k_typeno k = 0 \<or> k_typeno k = 2
       then case k_readyList k of [] \<Rightarrow> Inr (None, k) | a # q \<Rightarrow> Inr (Some a, k\<lparr>k_readyList := q\<rparr>)
       else if k_typeno k = 1
       then case k_sortedReadyList k of [] \<Rightarrow> Inr (None, k) | a # q \<Rightarrow> Inr (Some a, k\<lparr>k_sortedReadyList := q\<rparr>)
       else if k_typeno k = 3
       then case find_queue (k_threadArrQueue k) of None \<Rightarrow> Inr (None, k)
            | Some (a, qs) \<Rightarrow> Inr (Some a, k\<lparr>k_threadArrQueue := qs\<rparr>)
       else Inr (None, k))"

definition isReadyListEmpty :: "kernel \<Rightarrow> bool" where
  "isReadyListEmpty k =
     (if k_typeno k = 0 \<or> k_typeno k = 2 then k_readyList k = []
      else if k_typeno k = 1 then k_sortedReadyList k = []
      else if k_typeno k = 3 then find_queue (k_threadArrQueue k) = None
      else True)"

definition getReadyListFront :: "kernel \<Rightarrow> addr option" where
  "getReadyListFront k =
     (if k_typeno k = 0 \<or> k_typeno k = 2 then (case k_readyList k of [] \<Rightarrow> None | a # q \<Rightarrow> Some a)
      else if k_typeno k = 1 then (case k_sortedReadyList k of [] \<Rightarrow> None | a # q \<Rightarrow> Some a)
      else if k_typeno k = 3 then map_option fst (find_queue (k_threadArrQueue k))
      else None)"

definition blockAThread :: "kernel \<Rightarrow> addr \<Rightarrow> kernel result" where
  "blockAThread k a =
     rbind (upd_thread k a (\<lambda>t. t\<lparr>t_status := BLOCKED\<rparr>)) (\<lambda>k.
     rbind (al_Append (k_blockList k) a) (\<lambda>b. Inr (k\<lparr>k_blockList := b\<rparr>)))"

definition awakeAThead :: "kernel \<Rightarrow> kernel result" where
  "awakeAThead k =
     rbind (al_RemoveFront (k_blockList k)) (\<lambda>(a, b).
     rbind (upd_thread (k\<lparr>k_blockList := b\<rparr>) a (\<lambda>t. t\<lparr>t_status := READY\<rparr>)) (\<lambda>k.
     rbind (al_Append (k_readyList k) a) (\<lambda>q. Inr (k\<lparr>k_readyList := q\<rparr>))))"

section \<open>Threads\<close>

function add_thread_loop :: "addr option list \<Rightarrow> addr \<Rightarrow> int \<Rightarrow> (int \<times> addr option list) result" where
  "add_thread_loop arr a i =
     (if i < MaxThreadNum
      then rbind (aread arr i) (\<lambda>e.
        if e = None then rbind (awrite arr i (Some a)) (\<lambda>arr. Inr (i, arr)) else add_thread_loop arr a (i + 1))
      else Inr (- 1, arr))"
  by pat_completeness auto
termination
  by (relation "measure (\<lambda>(arr, a, i). nat (MaxThreadNum - i))") auto

definition addAThread :: "kernel \<Rightarrow> addr \<Rightarrow> (int \<times> kernel) result" where
  "addAThread k a =
     rbind (add_thread_loop (k_threadArray k) a 0) (\<lambda>(i, arr). Inr (i, k\<lparr>k_threadArray := arr\<rparr>))"

definition removeAThread :: "kernel \<Rightarrow> int \<Rightarrow> kernel result" where
  "removeAThread k tid = rbind (awrite (k_threadArray k) tid None) (\<lambda>arr. Inr (k\<lparr>k_threadArray := arr\<rparr>))"

text \<open>
  The constructor, for a new object at address \<open>a\<close>; \<open>prio\<close> and \<open>remain\<close> are the values of the fields that it
  does not initialise. An allocator never returns the address of a live object.
\<close>

definition Thread_new :: "kernel \<Rightarrow> addr \<Rightarrow> int \<Rightarrow> int \<Rightarrow> kernel result" where
  "Thread_new k a prio remain =
     (if k_threads k a \<noteq> None then Inl OutOfBounds
      else
        rbind (addAThread k a) (\<lambda>(tid, k).
        rassert (tid \<noteq> - 1)
         (Inr (k\<lparr>k_threads := (k_threads k)(a \<mapsto>
            \<lparr>t_threadID = tid,
             t_priority = (if k_typeno k = 1 then 8 else if k_typeno k = 3 then - 1 else prio),
             t_timeSliceRemain = (if k_typeno k = 1 then timeSlice else remain),
             t_status = JUST_CREATED, t_stack = None, t_userRegisters = [], t_space = None, t_frames = [], t_result = 0\<rparr>)\<rparr>))))"

definition Thread_delete :: "kernel \<Rightarrow> addr \<Rightarrow> kernel result" where
  "Thread_delete k a =
     rassert (a \<noteq> k_current k)
      (rbind (get_thread k a) (\<lambda>t.
       rbind (removeAThread k (t_threadID t)) (\<lambda>k. Inr (k\<lparr>k_threads := (k_threads k)(a := None)\<rparr>))))"

definition CheckToBeDestroyed :: "kernel \<Rightarrow> kernel result" where
  "CheckToBeDestroyed k =
     (case k_toBeDestroyed k of None \<Rightarrow> Inr k
      | Some a \<Rightarrow> rbind (Thread_delete k a) (\<lambda>k. Inr (k\<lparr>k_toBeDestroyed := None\<rparr>)))"

definition StackAllocate :: "kernel \<Rightarrow> addr \<Rightarrow> frame list \<Rightarrow> kernel result" where
  "StackAllocate k a body =
     upd_thread k a (\<lambda>t. t\<lparr>t_stack := Some STACK_FENCEPOST, t_frames := ThreadBegin # body @ [Finish]\<rparr>)"

definition CheckOverflow :: "thread \<Rightarrow> unit result" where
  "CheckOverflow t = (case t_stack t of None \<Rightarrow> Inr () | Some w \<Rightarrow> rassert (w = STACK_FENCEPOST) (Inr ()))"

text \<open>The registers and the translation table of a user program.\<close>

definition SaveUserState :: "kernel \<Rightarrow> addr \<Rightarrow> kernel result" where
  "SaveUserState k a =
     (if NumTotalRegs \<le> length (registers (k_machine k))
      then upd_thread k a (\<lambda>t. t\<lparr>t_userRegisters := take NumTotalRegs (registers (k_machine k))\<rparr>)
      else Inl OutOfBounds)"

definition RestoreUserState :: "kernel \<Rightarrow> addr \<Rightarrow> kernel result" where
  "RestoreUserState k a =
     rbind (get_thread k a) (\<lambda>t.
     if NumTotalRegs \<le> length (registers (k_machine k)) \<and> length (t_userRegisters t) = NumTotalRegs
     then Inr (k\<lparr>k_machine := (k_machine k)\<lparr>registers := t_userRegisters t @ drop NumTotalRegs (registers (k_machine k))\<rparr>\<rparr>)
     else Inl OutOfBounds)"

definition as_SaveState :: "config \<Rightarrow> machine \<Rightarrow> addrspace \<Rightarrow> addrspace" where
  "as_SaveState c m sp =
     (let sp = (if USE_RPT c then sp else sp\<lparr>as_pt := pt m, as_numPages := pageTableSize m\<rparr>) in
      sp\<lparr>as_openedFile := currentOpenedFile m, as_noffHeader := currentNoffHeader m\<rparr>)"

definition as_RestoreState :: "config \<Rightarrow> machine \<Rightarrow> addrspace \<Rightarrow> machine" where
  "as_RestoreState c m sp =
     (let m = (if USE_RPT c then m else m\<lparr>pt := as_pt sp, pageTableSize := as_numPages sp\<rparr>) in
      m\<lparr>currentOpenedFile := as_openedFile sp, currentNoffHeader := as_noffHeader sp\<rparr>)"

definition reset_tlb :: "config \<Rightarrow> kernel \<Rightarrow> kernel result" where
  "reset_tlb c k =
     (if USE_TLB c
      then case tlb (k_machine k) of None \<Rightarrow> Inl NullDeref
           | Some t \<Rightarrow> if int (length t) < TLBSize then Inl OutOfBounds
               else Inr (k\<lparr>k_machine := (k_machine k)\<lparr>tlb := Some (map te_reset (take (nat TLBSize) t) @ drop (nat TLBSize) t)\<rparr>\<rparr>)
      else Inr k)"

definition save_space :: "config \<Rightarrow> kernel \<Rightarrow> addr \<Rightarrow> kernel result" where
  "save_space c k a =
     rbind (get_thread k a) (\<lambda>t.
     case t_space t of None \<Rightarrow> Inr k
     | Some sp \<Rightarrow> rbind (SaveUserState k a) (\<lambda>k.
         upd_thread k a (\<lambda>t. t\<lparr>t_space := Some ((as_SaveState c (k_machine k) sp)\<lparr>as_vmFile := m_vmFile (k_machine k)\<rparr>)\<rparr>)))"

text \<open>The machine's fields for the current thread and its backing file follow the current thread.\<close>

definition follow_current :: "kernel \<Rightarrow> kernel result" where
  "follow_current k =
     rbind (get_thread k (k_current k)) (\<lambda>t.
     Inr (k\<lparr>k_machine := (k_machine k)\<lparr>m_tID := t_threadID t,
       m_vmFile := (case t_space t of None \<Rightarrow> None | Some sp \<Rightarrow> as_vmFile sp)\<rparr>\<rparr>))"

text \<open>\<^verbatim>\<open>Scheduler::Run\<close> up to \<^verbatim>\<open>SWITCH\<close>.\<close>

definition Run :: "config \<Rightarrow> kernel \<Rightarrow> addr \<Rightarrow> bool \<Rightarrow> kernel result" where
  "Run c k nextThread finishing =
     (let oldThread = k_current k in
      rassert (k_level k = IntOff)
       (rbind (if finishing then rassert (k_toBeDestroyed k = None) (Inr (k\<lparr>k_toBeDestroyed := Some oldThread\<rparr>)) else Inr k) (\<lambda>k.
        rbind (reset_tlb c k) (\<lambda>k.
        rbind (save_space c k oldThread) (\<lambda>k.
        rbind (get_thread k oldThread) (\<lambda>t.
        rbind (CheckOverflow t) (\<lambda>_.
        rbind (push [after_SWITCH] k) (\<lambda>k.
        rbind (upd_thread (k\<lparr>k_current := nextThread\<rparr>) nextThread (\<lambda>t. t\<lparr>t_status := RUNNING\<rparr>)) follow_current))))))))"

text \<open>The rest of \<^verbatim>\<open>Run\<close>, when the thread is running again.\<close>

definition exec_after_SWITCH :: "config \<Rightarrow> kernel \<Rightarrow> kernel result" where
  "exec_after_SWITCH c k =
     rassert (k_level k = IntOff)
      (rbind (CheckToBeDestroyed k) (\<lambda>k.
       rbind (get_thread k (k_current k)) (\<lambda>t.
       case t_space t of None \<Rightarrow> Inr k
       | Some sp \<Rightarrow> rbind (RestoreUserState k (k_current k)) (\<lambda>k.
           Inr (k\<lparr>k_machine := as_RestoreState c (k_machine k) sp\<rparr>)))))"

section \<open>Interrupts\<close>

definition ChangeLevel :: "kernel \<Rightarrow> int_status \<Rightarrow> kernel" where
  "ChangeLevel k now = k\<lparr>k_level := now\<rparr>"

definition PendingCompare :: "pending_interrupt \<Rightarrow> pending_interrupt \<Rightarrow> int" where
  "PendingCompare x y = (if int_when x < int_when y then - 1 else if int_when x > int_when y then 1 else 0)"

text \<open>A new object is on no list, so that the assertion of \<^verbatim>\<open>Insert\<close> holds.\<close>

definition Schedule :: "kernel \<Rightarrow> callback \<Rightarrow> int \<Rightarrow> int_type \<Rightarrow> kernel result" where
  "Schedule k toCall fromNow type =
     (let toOccur = \<lparr>callOnInterrupt = toCall, int_when = totalTicks (k_stats k) + fromNow, int_kind = type\<rparr> in
      rassert (fromNow > 0) (Inr (k\<lparr>k_pending := insert_before PendingCompare toOccur (k_pending k)\<rparr>)))"

definition YieldOnReturn :: "kernel \<Rightarrow> kernel result" where
  "YieldOnReturn k = rassert (k_inHandler k) (Inr (k\<lparr>k_yieldOnReturn := True\<rparr>))"

definition Timer_SetInterrupt :: "kernel \<Rightarrow> kernel result" where
  "Timer_SetInterrupt k =
     (if \<not> k_timerDisable k
      then if k_randomize k
           then Schedule (k\<lparr>k_random := (\<lambda>n. k_random k (Suc n))\<rparr>) TimerDevice (1 + k_random k 0 mod (TimerTicks * 2)) TimerInt
           else Schedule k TimerDevice TimerTicks TimerInt
      else Inr k)"

definition Alarm_CallBack :: "kernel \<Rightarrow> kernel result" where
  "Alarm_CallBack k =
     rbind (upd_thread k (k_current k) (\<lambda>t. t\<lparr>t_timeSliceRemain := t_timeSliceRemain t - 1\<rparr>)) (\<lambda>k.
     rbind (get_thread k (k_current k)) (\<lambda>t.
     if k_typeno k = 1 then YieldOnReturn k
     else if (k_typeno k = 2 \<or> k_typeno k = 3) \<and> getStatus k \<noteq> IdleMode \<and> t_timeSliceRemain t \<le> 0 then YieldOnReturn k
     else Inr k))"

definition Timer_CallBack :: "kernel \<Rightarrow> kernel result" where
  "Timer_CallBack k = rbind (Alarm_CallBack k) Timer_SetInterrupt"

text \<open>The interrupt handlers of the other devices.\<close>

type_synonym devices = "nat \<Rightarrow> kernel \<Rightarrow> kernel result"

definition CallBack :: "devices \<Rightarrow> callback \<Rightarrow> kernel \<Rightarrow> kernel result" where
  "CallBack D obj k = (case obj of TimerDevice \<Rightarrow> Timer_CallBack k | Device n \<Rightarrow> D n k)"

text \<open>
  The loop of \<^verbatim>\<open>CheckIfDue\<close>. Handlers schedule only later interrupts, so that as many iterations as there
  are pending interrupts are enough.
\<close>

fun due_loop :: "nat \<Rightarrow> devices \<Rightarrow> kernel \<Rightarrow> kernel result" where
  "due_loop 0 D k = Inl Diverges"
| "due_loop (Suc n) D k =
     rbind (al_RemoveFront (k_pending k)) (\<lambda>(p, ps).
     rbind (CallBack D (callOnInterrupt p) (k\<lparr>k_pending := ps\<rparr>)) (\<lambda>k.
     case k_pending k of [] \<Rightarrow> Inr k
     | q # qs \<Rightarrow> if int_when q \<le> totalTicks (k_stats k) then due_loop n D k else Inr k))"

definition CheckIfDue :: "devices \<Rightarrow> kernel \<Rightarrow> bool \<Rightarrow> (bool \<times> kernel) result" where
  "CheckIfDue D k advanceClock =
     rassert (k_level k = IntOff)
      (case k_pending k of [] \<Rightarrow> Inr (False, k)
       | p # ps \<Rightarrow>
           if int_when p > totalTicks (k_stats k) \<and> \<not> advanceClock then Inr (False, k)
           else
             let st = k_stats k;
                 k = (if int_when p > totalTicks st
                      then set_stats k (st\<lparr>idleTicks := idleTicks st + (int_when p - totalTicks st), totalTicks := int_when p\<rparr>) else k)
             in rbind (DelayedLoad (k_machine k) 0 0) (\<lambda>m.
                rbind (due_loop (length (k_pending k)) D (k\<lparr>k_machine := m, k_inHandler := True\<rparr>)) (\<lambda>k.
                Inr (True, k\<lparr>k_inHandler := False\<rparr>))))"

text \<open>\<^verbatim>\<open>OneTick\<close>: the call of \<^verbatim>\<open>Yield\<close> and the restoration of the status are frames.\<close>

definition OneTick :: "devices \<Rightarrow> kernel \<Rightarrow> kernel result" where
  "OneTick D k =
     (let oldStatus = getStatus k; st = k_stats k;
          k = set_stats k (if oldStatus = SystemMode
                then st\<lparr>totalTicks := totalTicks st + SystemTick, systemTicks := systemTicks st + SystemTick\<rparr>
                else st\<lparr>totalTicks := totalTicks st + UserTick, userTicks := userTicks st + UserTick\<rparr>) in
      rbind (CheckIfDue D (ChangeLevel k IntOff) False) (\<lambda>(_, k).
      let k = ChangeLevel k IntOn in
      if k_yieldOnReturn k
      then push [Yield, set_status oldStatus] (setStatus (k\<lparr>k_yieldOnReturn := False\<rparr>) SystemMode)
      else Inr k))"

definition exec_SetLevel :: "devices \<Rightarrow> kernel \<Rightarrow> int_status \<Rightarrow> kernel result" where
  "exec_SetLevel D k now =
     (let old = k_level k in
      rassert (now = IntOff \<or> \<not> k_inHandler k)
       (let k = ChangeLevel k now in if now = IntOn \<and> old = IntOff then OneTick D k else Inr k))"

definition Idle :: "devices \<Rightarrow> kernel \<Rightarrow> kernel result" where
  "Idle D k =
     rbind (CheckIfDue D (setStatus k IdleMode) True) (\<lambda>(fired, k).
     if fired then Inr (setStatus k SystemMode) else Inr (k\<lparr>k_halted := True\<rparr>))"

section \<open>Yield, sleep, fork\<close>

definition exec_Yield :: "devices \<Rightarrow> config \<Rightarrow> kernel \<Rightarrow> kernel result" where
  "exec_Yield D c k =
     (let oldLevel = k_level k; this = k_current k; k = ChangeLevel k IntOff in
      rbind (FindNextToRun k) (\<lambda>(nextThread, k).
      rbind (push [SetLevel oldLevel] k) (\<lambda>k.
      case nextThread of None \<Rightarrow> Inr k
      | Some n \<Rightarrow> rbind (ReadyToRun k this) (\<lambda>k. Run c k n False))))"

text \<open>\<^verbatim>\<open>Sleep\<close> until its loop, and one iteration of the loop.\<close>

definition Sleep :: "kernel \<Rightarrow> bool \<Rightarrow> kernel result" where
  "Sleep k finishing =
     rassert (k_level k = IntOff)
      (rbind (blockAThread k (k_current k)) (push [Sleep_loop finishing]))"

definition exec_Sleep_loop :: "devices \<Rightarrow> config \<Rightarrow> kernel \<Rightarrow> bool \<Rightarrow> kernel result" where
  "exec_Sleep_loop D c k finishing =
     rbind (FindNextToRun k) (\<lambda>(nextThread, k).
     case nextThread of
       None \<Rightarrow> rbind (push [Sleep_loop finishing] k) (Idle D)
     | Some n \<Rightarrow> Run c k n finishing)"

definition exec_Fork :: "kernel \<Rightarrow> addr \<Rightarrow> frame list \<Rightarrow> kernel result" where
  "exec_Fork k a body =
     rbind (StackAllocate k a body) (\<lambda>k.
     let oldLevel = k_level k in
     rbind (ReadyToRun (ChangeLevel k IntOff) a) (push [SetLevel oldLevel, Fork_check]))"

definition exec_Fork_check :: "kernel \<Rightarrow> kernel result" where
  "exec_Fork_check k =
     (if k_typeno k = 1
      then case getReadyListFront k of None \<Rightarrow> Inl NullDeref
           | Some a \<Rightarrow>
               rbind (get_thread k a) (\<lambda>t.
               rbind (get_thread k (k_current k)) (\<lambda>t'.
               if t_priority t < t_priority t' then push [Yield] k else Inr k))
      else Inr k)"

definition exec_ThreadBegin :: "kernel \<Rightarrow> kernel result" where
  "exec_ThreadBegin k = rbind (CheckToBeDestroyed k) (push [SetLevel IntOn])"

definition exec_Finish :: "kernel \<Rightarrow> kernel result" where
  "exec_Finish k = Sleep (ChangeLevel k IntOff) True"

section \<open>Semaphores, locks and condition variables\<close>

definition BARRIER_NUM :: int where "BARRIER_NUM = 5"

definition exec_P :: "kernel \<Rightarrow> addr \<Rightarrow> kernel result" where
  "exec_P k s = push [P_loop s (k_level k)] (ChangeLevel k IntOff)"

definition exec_P_loop :: "kernel \<Rightarrow> addr \<Rightarrow> int_status \<Rightarrow> kernel result" where
  "exec_P_loop k s oldLevel =
     rbind (get_sem k s) (\<lambda>x.
     if s_value x = 0
     then rbind (al_Append (s_queue x) (k_current k)) (\<lambda>q.
          rbind (push [P_loop s oldLevel] (put_sem k s (x\<lparr>s_queue := q\<rparr>))) (\<lambda>k. Sleep k False))
     else push [SetLevel oldLevel] (put_sem k s (x\<lparr>s_value := s_value x - 1\<rparr>)))"

text \<open>\<^verbatim>\<open>V\<close> between its two calls of \<^verbatim>\<open>SetLevel\<close>.\<close>

definition V_body :: "kernel \<Rightarrow> addr \<Rightarrow> kernel result" where
  "V_body k s =
     rbind (get_sem k s) (\<lambda>x.
     rbind (case s_queue x of [] \<Rightarrow> Inr k | a # q \<Rightarrow> ReadyToRun (put_sem k s (x\<lparr>s_queue := q\<rparr>)) a) (\<lambda>k.
     rbind (get_sem k s) (\<lambda>x. Inr (put_sem k s (x\<lparr>s_value := s_value x + 1\<rparr>)))))"

definition exec_V :: "kernel \<Rightarrow> addr \<Rightarrow> kernel result" where
  "exec_V k s = (let oldLevel = k_level k in rbind (V_body (ChangeLevel k IntOff) s) (push [SetLevel oldLevel]))"

definition exec_Acquire :: "kernel \<Rightarrow> addr \<Rightarrow> kernel result" where
  "exec_Acquire k l = rbind (get_lock k l) (\<lambda>x. push [sem_P (l_semaphore x), set_lockHolder l] k)"

definition exec_set_lockHolder :: "kernel \<Rightarrow> addr \<Rightarrow> kernel result" where
  "exec_set_lockHolder k l = rbind (get_lock k l) (\<lambda>x. Inr (put_lock k l (x\<lparr>l_lockHolder := Some (k_current k)\<rparr>)))"

definition IsHeldByCurrentThread :: "kernel \<Rightarrow> lock \<Rightarrow> bool" where
  "IsHeldByCurrentThread k x \<longleftrightarrow> l_lockHolder x = Some (k_current k)"

definition exec_Release :: "kernel \<Rightarrow> addr \<Rightarrow> kernel result" where
  "exec_Release k l =
     rbind (get_lock k l) (\<lambda>x.
     rassert (IsHeldByCurrentThread k x) (push [sem_V (l_semaphore x)] (put_lock k l (x\<lparr>l_lockHolder := None\<rparr>))))"

definition exec_Wait :: "kernel \<Rightarrow> addr \<Rightarrow> addr \<Rightarrow> kernel result" where
  "exec_Wait k cv l =
     rbind (get_lock k l) (\<lambda>x. rassert (IsHeldByCurrentThread k x)
      (rbind (get_cond k cv) (\<lambda>y.
       let waiter = k_freshSem k; k = put_sem (k\<lparr>k_freshSem := Suc waiter\<rparr>) waiter \<lparr>s_value = 0, s_queue = []\<rparr> in
       rbind (al_Append (c_waitQueue y) waiter) (\<lambda>q.
       push [Release l, sem_P waiter, Acquire l, delete_Semaphore waiter] (put_cond k cv (y\<lparr>c_waitQueue := q\<rparr>))))))"

definition exec_Signal :: "kernel \<Rightarrow> addr \<Rightarrow> addr \<Rightarrow> kernel result" where
  "exec_Signal k cv l =
     rbind (get_lock k l) (\<lambda>x. rassert (IsHeldByCurrentThread k x)
      (rbind (get_cond k cv) (\<lambda>y.
       case c_waitQueue y of [] \<Rightarrow> Inr k
       | waiter # q \<Rightarrow> push [sem_V waiter] (put_cond k cv (y\<lparr>c_waitQueue := q\<rparr>)))))"

definition exec_Broadcast :: "kernel \<Rightarrow> addr \<Rightarrow> addr \<Rightarrow> kernel result" where
  "exec_Broadcast k cv l =
     rbind (get_cond k cv) (\<lambda>y. if c_waitQueue y = [] then Inr k else push [Signal cv l, Broadcast cv l] k)"

definition exec_Barrier :: "kernel \<Rightarrow> addr \<Rightarrow> addr \<Rightarrow> kernel result" where
  "exec_Barrier k cv l =
     rbind (get_cond k cv) (\<lambda>y.
     let n = c_barrierNum y + 1; k = put_cond k cv (y\<lparr>c_barrierNum := n\<rparr>) in
     if n = BARRIER_NUM then push [Broadcast cv l] k else push [Wait cv l] k)"

declare add_thread_loop.simps [simp del]

end
