(* ===== verification/Page_Replacement.thy ===== *)
theory Page_Replacement
  imports Machine_Mem "HOL-Library.Multiset"
begin

text \<open>
  What the replacement flags of \<^verbatim>\<open>machine/machine.cc\<close> achieve. With \<^verbatim>\<open>LRU_REPLACE\<close>, the entry that
  \<^verbatim>\<open>findOneToReplace\<close> selects is the least recently used one; with \<^verbatim>\<open>FIFO_REPLACE\<close>, the TLB holds the
  entries that were loaded last.
\<close>

section \<open>The loops over the flags\<close>

lemma flag_loop_bounds:
  assumes "0 \<le> i" and "len \<le> int (length t)"
  shows "\<exists>r. flag_loop flag t pos len i num = Inr r \<and> num \<le> r
    \<and> (\<forall>j. i \<le> int j \<and> int j < len \<and> te_valid (t ! j) \<and> int j \<noteq> pos \<longrightarrow> flag (t ! j) \<le> r)
    \<and> (r = num \<or> (\<exists>j. int j < len \<and> te_valid (t ! j) \<and> int j \<noteq> pos \<and> r = flag (t ! j)))"
  using assms
proof (induction "nat (len - i)" arbitrary: i num rule: less_induct)
  case less
  show ?case
  proof (cases "i < len")
    case False
    then show ?thesis by (subst flag_loop.simps) auto
  next
    case True
    let ?e = "t ! nat i"
    let ?num = "if te_valid ?e \<and> i \<noteq> pos then (if num \<ge> flag ?e then num else flag ?e) else num"
    have "nat (len - (i + 1)) < nat (len - i)" using True by simp
    from less.hyps [OF this, of ?num] less.prems obtain r where r:
      "flag_loop flag t pos len (i + 1) ?num = Inr r" "?num \<le> r"
      "\<forall>j. i + 1 \<le> int j \<and> int j < len \<and> te_valid (t ! j) \<and> int j \<noteq> pos \<longrightarrow> flag (t ! j) \<le> r"
      "r = ?num \<or> (\<exists>j. int j < len \<and> te_valid (t ! j) \<and> int j \<noteq> pos \<and> r = flag (t ! j))" by auto
    have "flag_loop flag t pos len i num = Inr r"
      using True less.prems r(1) by (subst flag_loop.simps) (simp add: aread_ok)
    moreover have "num \<le> r" using r(2) by (auto split: if_splits)
    moreover have "flag (t ! j) \<le> r" if "i \<le> int j" "int j < len" "te_valid (t ! j)" "int j \<noteq> pos" for j
      using r(2,3) that by (cases "i = int j") (auto split: if_splits)
    moreover have "r = num \<or> (\<exists>j. int j < len \<and> te_valid (t ! j) \<and> int j \<noteq> pos \<and> r = flag (t ! j))"
      using r(4) True less.prems(1) by (auto split: if_splits intro: exI [of _ "nat i"])
    ultimately show ?thesis by blast
  qed
qed

text \<open>The flag that the configuration uses for replacement, when it uses one.\<close>

definition victim_flag :: "config \<Rightarrow> tentry \<Rightarrow> int" where
  "victim_flag c e = (if FIFO_REPLACE c then te_FIFOFlag e else te_LRUFlag e)"

definition one_policy :: "config \<Rightarrow> bool" where
  "one_policy c \<longleftrightarrow> FIFO_REPLACE c \<noteq> LRU_REPLACE c"

lemma replace_loop_step:
  assumes "one_policy c" "0 \<le> i" "i < len" "len \<le> int (length t)"
  shows "replace_loop c t len i v k =
    (if v > victim_flag c (t ! nat i) then replace_loop c t len (i + 1) (victim_flag c (t ! nat i)) i
     else replace_loop c t len (i + 1) v k)"
  using assms by (subst replace_loop.simps) (auto simp: aread_ok one_policy_def victim_flag_def)

lemma replace_loop_min:
  assumes "one_policy c" and "0 \<le> i" and "len \<le> int (length t)"
  shows "replace_loop c t len i v k = Inr k \<and> (\<forall>j. i \<le> int j \<and> int j < len \<longrightarrow> v \<le> victim_flag c (t ! j))
    \<or> (\<exists>n. replace_loop c t len i v k = Inr (int n) \<and> i \<le> int n \<and> int n < len \<and> victim_flag c (t ! n) < v
        \<and> (\<forall>j. i \<le> int j \<and> int j < len \<longrightarrow> victim_flag c (t ! n) \<le> victim_flag c (t ! j)))"
  using assms
proof (induction "nat (len - i)" arbitrary: i v k rule: less_induct)
  case less
  show ?case
  proof (cases "i < len")
    case False
    then show ?thesis by (subst (1 2) replace_loop.simps) auto
  next
    case True
    let ?f = "victim_flag c (t ! nat i)"
    have dec: "nat (len - (i + 1)) < nat (len - i)" using True by simp
    have step: "replace_loop c t len i v k = replace_loop c t len (i + 1) (min v ?f) (if v > ?f then i else k)"
      using replace_loop_step [OF less.prems(1,2) True less.prems(3), of v k] by (auto simp: min_def)
    have here: "\<forall>j. i \<le> int j \<and> int j < len \<longrightarrow> w \<le> victim_flag c (t ! j)"
      if "w \<le> ?f" "\<forall>j. i + 1 \<le> int j \<and> int j < len \<longrightarrow> w \<le> victim_flag c (t ! j)" for w
    proof (intro allI impI)
      fix j assume "i \<le> int j \<and> int j < len"
      then show "w \<le> victim_flag c (t ! j)" using that by (cases "int j = i") auto
    qed
    from less.hyps [OF dec less.prems(1) _ less.prems(3), of "min v ?f" "if v > ?f then i else k"] less.prems(2)
    consider (keep) "replace_loop c t len i v k = Inr (if v > ?f then i else k)"
        "\<forall>j. i + 1 \<le> int j \<and> int j < len \<longrightarrow> min v ?f \<le> victim_flag c (t ! j)"
      | (new) n where "replace_loop c t len i v k = Inr (int n)" "i + 1 \<le> int n" "int n < len"
        "victim_flag c (t ! n) < min v ?f" "\<forall>j. i + 1 \<le> int j \<and> int j < len \<longrightarrow> victim_flag c (t ! n) \<le> victim_flag c (t ! j)"
      unfolding step by auto
    then show ?thesis
    proof cases
      case keep
      show ?thesis
      proof (cases "v > ?f")
        case v: True
        then have "\<forall>j. i \<le> int j \<and> int j < len \<longrightarrow> ?f \<le> victim_flag c (t ! j)"
          using keep(2) by (intro here) (simp_all add: min_def)
        then show ?thesis using keep(1) v less.prems(2) True by (intro disjI2 exI [of _ "nat i"]) simp
      next
        case v: False
        then have "\<forall>j. i \<le> int j \<and> int j < len \<longrightarrow> v \<le> victim_flag c (t ! j)"
          using keep(2) by (intro here) (simp_all add: min_def)
        then show ?thesis using keep(1) v by simp
      qed
    next
      case (new n)
      then have "\<forall>j. i \<le> int j \<and> int j < len \<longrightarrow> victim_flag c (t ! n) \<le> victim_flag c (t ! j)"
        by (intro here) simp_all
      then show ?thesis using new(1-4) by (intro disjI2 exI [of _ n]) simp
    qed
  qed
qed

definition table_len :: "config \<Rightarrow> machine \<Rightarrow> bool \<Rightarrow> int" where
  "table_len c m is_tlb = (if is_tlb then TLBSize else if USE_RPT c then NumPhysPages else pageTableSize m)"

lemma findOneToReplace_min:
  assumes "one_policy c" and "table_len c m is_tlb = int (length t)" and "\<exists>e \<in> set t. victim_flag c e < INT_MAX"
  shows "\<exists>n. findOneToReplace c m t is_tlb = Inr (int n) \<and> n < length t
    \<and> (\<forall>j < length t. victim_flag c (t ! n) \<le> victim_flag c (t ! j))"
proof -
  obtain j where "j < length t" "victim_flag c (t ! j) < INT_MAX" using assms(3) by (auto simp: in_set_conv_nth)
  moreover have "findOneToReplace c m t is_tlb = replace_loop c t (int (length t)) 0 INT_MAX 0"
    using assms(2) by (simp add: findOneToReplace_def table_len_def)
  ultimately show ?thesis
    using replace_loop_min [OF assms(1), of 0 "int (length t)" t INT_MAX 0] by fastforce
qed

section \<open>Least recently used\<close>

definition all_valid :: "tentry list \<Rightarrow> bool" where
  "all_valid t \<longleftrightarrow> (\<forall>e \<in> set t. te_valid e)"

lemma updateLRUFlag_ok:
  assumes "p < length t" and "all_valid t"
  shows "\<exists>v. updateLRUFlag t (int p) (int (length t)) = Inr (t[p := (t ! p)\<lparr>te_LRUFlag := v\<rparr>])
    \<and> (\<forall>q < length t. q \<noteq> p \<longrightarrow> te_LRUFlag (t ! q) < v)
    \<and> (v = 0 \<or> (\<exists>q < length t. v = te_LRUFlag (t ! q) + 1))"
proof -
  obtain r where r: "flag_loop te_LRUFlag t (int p) (int (length t)) 0 (- 1) = Inr r"
    "\<forall>j. j < length t \<and> te_valid (t ! j) \<and> j \<noteq> p \<longrightarrow> te_LRUFlag (t ! j) \<le> r"
    "r = - 1 \<or> (\<exists>j < length t. r = te_LRUFlag (t ! j))"
    using flag_loop_bounds [of 0 "int (length t)" t te_LRUFlag "int p" "- 1"] by auto
  then have "updateLRUFlag t (int p) (int (length t)) = Inr (t[p := (t ! p)\<lparr>te_LRUFlag := r + 1\<rparr>])"
    using assms(1) by (simp add: updateLRUFlag_def)
  then show ?thesis using r(2,3) assms(2) by (intro exI [of _ "r + 1"]) (auto simp: all_valid_def)
qed

text \<open>A sequence of uses of the entries of a table.\<close>

fun touch_all :: "tentry list \<Rightarrow> nat list \<Rightarrow> tentry list result" where
  "touch_all t [] = Inr t"
| "touch_all t (p # ps) = rbind (updateLRUFlag t (int p) (int (length t))) (\<lambda>t. touch_all t ps)"

lemma all_valid_update: "all_valid t \<Longrightarrow> te_valid e \<Longrightarrow> all_valid (t[p := e])"
  by (auto simp: all_valid_def dest: subsetD [OF set_update_subset_insert])

lemma touch_all_ok:
  "all_valid t \<Longrightarrow> \<forall>p \<in> set ps. p < length t \<Longrightarrow> \<forall>e \<in> set t. te_LRUFlag e \<le> b \<Longrightarrow> - 1 \<le> b \<Longrightarrow>
   \<exists>t'. touch_all t ps = Inr t' \<and> length t' = length t \<and> all_valid t' \<and> (\<forall>e \<in> set t'. te_LRUFlag e \<le> b + int (length ps))
     \<and> (\<forall>q < length t. q \<notin> set ps \<longrightarrow> t' ! q = t ! q)"
proof (induction ps arbitrary: t b)
  case (Cons p ps)
  obtain v where v: "updateLRUFlag t (int p) (int (length t)) = Inr (t[p := (t ! p)\<lparr>te_LRUFlag := v\<rparr>])"
    "v = 0 \<or> (\<exists>q < length t. v = te_LRUFlag (t ! q) + 1)"
    using updateLRUFlag_ok [of p t] Cons.prems(1,2) by auto
  let ?t = "t[p := (t ! p)\<lparr>te_LRUFlag := v\<rparr>]"
  have "v \<le> b + 1" using v(2) Cons.prems(3,4) nth_mem by fastforce
  then have le: "\<forall>e \<in> set ?t. te_LRUFlag e \<le> b + 1"
    using Cons.prems(3) set_update_subset_insert [of t p "(t ! p)\<lparr>te_LRUFlag := v\<rparr>"] by fastforce
  have "all_valid ?t" using Cons.prems(1,2) by (intro all_valid_update) (auto simp: all_valid_def)
  from Cons.IH [OF this _ le] Cons.prems(2,4) obtain t' where "touch_all ?t ps = Inr t'" "length t' = length t" "all_valid t'"
    "\<forall>e \<in> set t'. te_LRUFlag e \<le> b + 1 + int (length ps)" "\<forall>q < length t. q \<notin> set ps \<longrightarrow> t' ! q = ?t ! q" by auto
  then show ?case using v(1) by auto
qed auto

lemma touch_all_append: "touch_all t (ps @ qs) = rbind (touch_all t ps) (\<lambda>t. touch_all t qs)"
  by (induction ps arbitrary: t) (auto simp: rbind_assoc)

lemma touch_order:
  assumes "all_valid t" "\<forall>p \<in> set (us @ p # vs). p < length t"
    and "touch_all t (us @ p # vs) = Inr t'" "p \<notin> set vs" "q \<in> set vs"
  shows "te_LRUFlag (t' ! p) < te_LRUFlag (t' ! q)"
  using assms
proof (induction vs arbitrary: t' rule: rev_induct)
  case (snoc x vs)
  obtain b where b: "\<forall>e \<in> set t. te_LRUFlag e \<le> b" "- 1 \<le> b"
    using that [of "Max (insert (- 1) (te_LRUFlag ` set t))"] by simp
  obtain t1 where t1: "touch_all t (us @ p # vs) = Inr t1" "length t1 = length t" "all_valid t1"
    using touch_all_ok [OF snoc.prems(1) _ b, of "us @ p # vs"] snoc.prems(2) by auto
  have x: "x < length t1" and p: "p < length t1" "p \<noteq> x" using snoc.prems(2,4) t1(2) by auto
  obtain v where v: "updateLRUFlag t1 (int x) (int (length t1)) = Inr (t1[x := (t1 ! x)\<lparr>te_LRUFlag := v\<rparr>])"
    "\<forall>q < length t1. q \<noteq> x \<longrightarrow> te_LRUFlag (t1 ! q) < v"
    using updateLRUFlag_ok [OF x t1(3)] by auto
  have t': "t' = t1[x := (t1 ! x)\<lparr>te_LRUFlag := v\<rparr>]"
    using snoc.prems(3) t1(1) v(1) touch_all_append [of t "us @ p # vs" "[x]"] by simp
  show ?case
  proof (cases "q = x")
    case True
    then show ?thesis using v(2) p x t' by simp
  next
    case False
    then have "te_LRUFlag (t1 ! p) < te_LRUFlag (t1 ! q)"
      using snoc.IH [OF snoc.prems(1) _ t1(1)] snoc.prems(2,4,5) by auto
    then show ?thesis using False p t' by simp
  qed
qed auto

lemma touch_all_victim:
  assumes "all_valid t" and used: "set ps = {..<length t}" and pol: "one_policy c" "LRU_REPLACE c"
    and len: "table_len c m is_tlb = int (length t)" "0 < length t"
    and b: "\<forall>e \<in> set t. te_LRUFlag e \<le> b" "- 1 \<le> b" "b + int (length ps) < INT_MAX"
  shows "\<exists>t' v. touch_all t ps = Inr t' \<and> findOneToReplace c m t' is_tlb = Inr (int v)
    \<and> (\<exists>us vs. ps = us @ v # vs \<and> v \<notin> set vs \<and> (\<forall>q < length t. q \<noteq> v \<longrightarrow> q \<in> set vs))"
proof -
  have lru: "victim_flag c e = te_LRUFlag e" for e using pol by (simp add: victim_flag_def one_policy_def)
  obtain t' where t': "touch_all t ps = Inr t'" "length t' = length t"
    "\<forall>e \<in> set t'. te_LRUFlag e \<le> b + int (length ps)"
    using touch_all_ok [OF assms(1) _ b(1,2), of ps] used by auto
  have "hd t' \<in> set t'" using len(2) t'(2) by (cases t') auto
  then have "\<exists>e \<in> set t'. victim_flag c e < INT_MAX" using t'(3) b(3) lru by (intro bexI [of _ "hd t'"]) fastforce+
  then obtain v where v: "findOneToReplace c m t' is_tlb = Inr (int v)" "v < length t"
    "\<forall>j < length t. te_LRUFlag (t' ! v) \<le> te_LRUFlag (t' ! j)"
    using findOneToReplace_min [OF pol(1), of m is_tlb t'] len(1) t'(2) lru by auto
  obtain us vs where vs: "ps = us @ v # vs" "v \<notin> set vs"
    using split_list_last [of v ps] v(2) used by auto
  have "q \<in> set vs" if q: "q < length t" "q \<noteq> v" for q
  proof (rule ccontr)
    assume n: "q \<notin> set vs"
    then have "q \<in> set us" using q used vs(1) by auto
    then obtain us1 us2 where us: "us = us1 @ q # us2" "q \<notin> set us2" using split_list_last by metis
    have "te_LRUFlag (t' ! q) < te_LRUFlag (t' ! v)"
      by (rule touch_order [OF assms(1), of us1 q "us2 @ v # vs"]) (use t'(1) us vs used n q in auto)
    then show False using v(3) q(1) by fastforce
  qed
  then show ?thesis using t'(1) v(1) vs by blast
qed

section \<open>First in, first out\<close>

definition unflag :: "tentry \<Rightarrow> tentry" where
  "unflag e = e\<lparr>te_FIFOFlag := 0\<rparr>"

lemma unflag_FIFO [simp]: "unflag (e\<lparr>te_FIFOFlag := v\<rparr>) = unflag e"
  by (simp add: unflag_def)

definition lastn :: "nat \<Rightarrow> 'a list \<Rightarrow> 'a list" where
  "lastn n xs = drop (length xs - n) xs"

lemma lastn_snoc:
  "0 < n \<Longrightarrow> lastn n (xs @ [x]) = (if length (lastn n xs) < n then lastn n xs @ [x] else tl (lastn n xs) @ [x])"
  by (auto simp: lastn_def tl_drop Suc_diff_le not_less drop_Suc)

lemma free_slot_loop_ok:
  assumes "0 \<le> i" "i \<le> TLBSize" "int (length t) = TLBSize"
  shows "\<exists>n. free_slot_loop t i = Inr (int n) \<and> n \<le> length t \<and> (\<forall>j. i \<le> int j \<and> j < n \<longrightarrow> te_valid (t ! j))
    \<and> (n < length t \<longrightarrow> \<not> te_valid (t ! n))"
  using assms
proof (induction "nat (TLBSize - i)" arbitrary: i rule: less_induct)
  case less
  consider (stop) "i = TLBSize" | (here) "i < TLBSize" "\<not> te_valid (t ! nat i)" | (go) "i < TLBSize" "te_valid (t ! nat i)"
    using less.prems by linarith
  then show ?case
  proof cases
    case stop
    then show ?thesis using less.prems
      by (intro exI [of _ "length t"], subst free_slot_loop.simps) auto
  next
    case here
    then show ?thesis using less.prems
      by (intro exI [of _ "nat i"], subst free_slot_loop.simps) (auto simp: aread_ok)
  next
    case go
    have "nat (TLBSize - (i + 1)) < nat (TLBSize - i)" using go by simp
    from less.hyps [OF this] less.prems go obtain n where n: "free_slot_loop t (i + 1) = Inr (int n)" "n \<le> length t"
      "\<forall>j. i + 1 \<le> int j \<and> j < n \<longrightarrow> te_valid (t ! j)" "n < length t \<longrightarrow> \<not> te_valid (t ! n)" by auto
    have "te_valid (t ! j)" if "i \<le> int j" "j < n" for j
      using n(3) that go(2) by (cases "int j = i") auto
    moreover have "free_slot_loop t i = Inr (int n)"
      using go less.prems n(1) by (subst free_slot_loop.simps) (simp add: aread_ok)
    ultimately show ?thesis using n(2,4) by blast
  qed
qed

lemma updateFIFOFlag_ok:
  assumes "p < length t"
  shows "\<exists>v. updateFIFOFlag t (int p) (int (length t)) = Inr (t[p := (t ! p)\<lparr>te_FIFOFlag := v\<rparr>])
    \<and> (\<forall>q < length t. q \<noteq> p \<and> te_valid (t ! q) \<longrightarrow> te_FIFOFlag (t ! q) < v)
    \<and> (v = 0 \<or> (\<exists>q < length t. q \<noteq> p \<and> te_valid (t ! q) \<and> v = te_FIFOFlag (t ! q) + 1))"
proof -
  obtain r where r: "flag_loop te_FIFOFlag t (int p) (int (length t)) 0 (- 1) = Inr r"
    "\<forall>j. j < length t \<and> te_valid (t ! j) \<and> j \<noteq> p \<longrightarrow> te_FIFOFlag (t ! j) \<le> r"
    "r = - 1 \<or> (\<exists>j < length t. te_valid (t ! j) \<and> j \<noteq> p \<and> r = te_FIFOFlag (t ! j))"
    using flag_loop_bounds [of 0 "int (length t)" t te_FIFOFlag "int p" "- 1"] by auto
  then have "updateFIFOFlag t (int p) (int (length t)) = Inr (t[p := (t ! p)\<lparr>te_FIFOFlag := r + 1\<rparr>])"
    using assms(1) by (simp add: updateFIFOFlag_def)
  then show ?thesis using r(2,3) by (intro exI [of _ "r + 1"]) auto
qed

text \<open>
  The TLB as a queue: \<open>order\<close> lists the valid slots from the oldest to the newest, and \<open>es\<close> are the
  entries in them.
\<close>

definition fifo_inv :: "tentry list \<Rightarrow> nat list \<Rightarrow> tentry list \<Rightarrow> int \<Rightarrow> bool" where
  "fifo_inv t order es b \<longleftrightarrow> int (length t) = TLBSize \<and> distinct order \<and> set order = {i. i < length t \<and> te_valid (t ! i)}
     \<and> sorted_wrt (\<lambda>p q. te_FIFOFlag (t ! p) < te_FIFOFlag (t ! q)) order
     \<and> map (\<lambda>p. unflag (t ! p)) order = map unflag es \<and> (\<forall>p \<in> set order. te_FIFOFlag (t ! p) < b) \<and> 0 \<le> b"

lemma fifo_inv_put:
  assumes inv: "fifo_inv t order es b" and p: "p < length t" and e: "te_valid e"
    and rest: "distinct rest" "set rest = {i. i < length t \<and> te_valid (t ! i)} - {p}"
    and sub: "sorted_wrt (\<lambda>p q. te_FIFOFlag (t ! p) < te_FIFOFlag (t ! q)) rest"
    and es: "map (\<lambda>p. unflag (t ! p)) rest = map unflag es'"
  shows "\<exists>t'. updateFIFOFlag (t[p := e]) (int p) TLBSize = Inr t' \<and> fifo_inv t' (rest @ [p]) (es' @ [e]) (b + 1)"
proof -
  let ?t = "t[p := e]"
  have len: "TLBSize = int (length ?t)" using inv by (simp add: fifo_inv_def)
  obtain v where v: "updateFIFOFlag ?t (int p) (int (length ?t)) = Inr (?t[p := (?t ! p)\<lparr>te_FIFOFlag := v\<rparr>])"
    "\<forall>q < length t. q \<noteq> p \<and> te_valid (t ! q) \<longrightarrow> te_FIFOFlag (t ! q) < v"
    "v = 0 \<or> (\<exists>q < length t. q \<noteq> p \<and> te_valid (t ! q) \<and> v = te_FIFOFlag (t ! q) + 1)"
  proof -
    obtain v where v: "updateFIFOFlag ?t (int p) (int (length ?t)) = Inr (?t[p := (?t ! p)\<lparr>te_FIFOFlag := v\<rparr>])"
      "\<forall>q < length t. q \<noteq> p \<and> te_valid (?t ! q) \<longrightarrow> te_FIFOFlag (?t ! q) < v"
      "v = 0 \<or> (\<exists>q < length t. q \<noteq> p \<and> te_valid (?t ! q) \<and> v = te_FIFOFlag (?t ! q) + 1)"
      using updateFIFOFlag_ok [of p ?t] p by auto
    have eq: "?t ! q = t ! q" if "q \<noteq> p" for q using that by simp
    have "\<forall>q < length t. q \<noteq> p \<and> te_valid (t ! q) \<longrightarrow> te_FIFOFlag (t ! q) < v" using v(2) eq by auto
    moreover have "v = 0 \<or> (\<exists>q < length t. q \<noteq> p \<and> te_valid (t ! q) \<and> v = te_FIFOFlag (t ! q) + 1)"
      using v(3) eq by auto
    ultimately show thesis using that v(1) by blast
  qed
  let ?t' = "t[p := e\<lparr>te_FIFOFlag := v\<rparr>]"
  have old: "?t' ! q = t ! q" if "q \<in> set rest" for q using that rest(2) by simp
  have vb: "v \<le> b" using v(3) inv by (force simp: fifo_inv_def)
  have "fifo_inv ?t' (rest @ [p]) (es' @ [e]) (b + 1)"
    unfolding fifo_inv_def
  proof (intro conjI)
    show "set (rest @ [p]) = {i. i < length ?t' \<and> te_valid (?t' ! i)}"
      using rest(2) p e by (auto simp: nth_list_update)
    have "sorted_wrt (\<lambda>p q. te_FIFOFlag (?t' ! p) < te_FIFOFlag (?t' ! q)) rest"
      by (rule sorted_wrt_mono_rel [OF _ sub]) (simp add: old)
    then show "sorted_wrt (\<lambda>p q. te_FIFOFlag (?t' ! p) < te_FIFOFlag (?t' ! q)) (rest @ [p])"
      using v(2) rest(2) p old by (simp add: sorted_wrt_append)
    show "map (\<lambda>p. unflag (?t' ! p)) (rest @ [p]) = map unflag (es' @ [e])"
      using es p old by (simp cong: map_cong)
    have "te_FIFOFlag (t ! q) < b" if "q \<in> set rest" for q
      using inv rest(2) that by (auto simp: fifo_inv_def)
    then show "\<forall>q \<in> set (rest @ [p]). te_FIFOFlag (?t' ! q) < b + 1"
      using vb p old by fastforce
  qed (use inv rest in \<open>auto simp: fifo_inv_def\<close>)
  moreover have "updateFIFOFlag ?t (int p) TLBSize = Inr ?t'" unfolding len using v(1) p by simp
  ultimately show ?thesis by blast
qed

lemma updateTLB_fifo:
  assumes inv: "fifo_inv t order es b" and pol: "FIFO_REPLACE c" "\<not> LRU_REPLACE c" and e: "te_valid e"
    and b: "b < INT_MAX"
  shows "\<exists>t' order'. updateTLB c m t e = Inr t'
    \<and> fifo_inv t' order' ((if length es < nat TLBSize then es else tl es) @ [e]) (b + 1)"
proof -
  have i: "int (length t) = TLBSize" "distinct order" "set order = {i. i < length t \<and> te_valid (t ! i)}"
    "sorted_wrt (\<lambda>p q. te_FIFOFlag (t ! p) < te_FIFOFlag (t ! q)) order" "map (\<lambda>p. unflag (t ! p)) order = map unflag es"
    "\<forall>p \<in> set order. te_FIFOFlag (t ! p) < b"
    using inv by (auto simp: fifo_inv_def)
  have lo: "length order = length es" using i(5) map_eq_imp_length_eq by blast
  have card: "length order = card {i. i < length t \<and> te_valid (t ! i)}" using i(2,3) distinct_card by metis
  obtain n where n: "free_slot_loop t 0 = Inr (int n)" "n \<le> length t" "\<forall>j < n. te_valid (t ! j)"
    "n < length t \<longrightarrow> \<not> te_valid (t ! n)"
    using free_slot_loop_ok [of 0 t] i(1) by (auto simp: TLBSize_def)
  show ?thesis
  proof (cases "n < length t")
    case True
    have "{i. i < length t \<and> te_valid (t ! i)} \<subset> {..<length t}" using True n(4) by auto
    then have "card {i. i < length t \<and> te_valid (t ! i)} < length t"
      using psubset_card_mono [of "{..<length t}"] by simp
    then have short: "length es < nat TLBSize" using card lo i(1) by simp
    obtain t' where "updateFIFOFlag (t[n := e]) (int n) TLBSize = Inr t'" "fifo_inv t' (order @ [n]) (es @ [e]) (b + 1)"
      using fifo_inv_put [OF inv True e i(2) _ i(4,5)] i(3) n(4) True by auto
    then show ?thesis using n(1) True i(1) pol short by (auto simp: updateTLB_def)
  next
    case False
    then have full: "{i. i < length t \<and> te_valid (t ! i)} = {..<length t}" using n(2,3) by auto
    then have "length order = nat TLBSize" using card i(1) by simp
    then obtain v rest where o: "order = v # rest" and long: "length es = nat TLBSize"
      using lo by (cases order) (auto simp: TLBSize_def)
    have vf: "victim_flag c = te_FIFOFlag" "one_policy c" using pol by (auto simp: victim_flag_def one_policy_def)
    have vl: "v < length t" using o i(3) by auto
    have "\<exists>e \<in> set t. victim_flag c e < INT_MAX" using vl i(6) o b vf(1) by (intro bexI [of _ "t ! v"]) auto
    then obtain w where w: "findOneToReplace c m t True = Inr (int w)" "w < length t"
      "\<forall>j < length t. te_FIFOFlag (t ! w) \<le> te_FIFOFlag (t ! j)"
      using findOneToReplace_min [OF vf(2), of m True t] i(1) vf(1) by (auto simp: table_len_def)
    have "w = v"
    proof (rule ccontr)
      assume "w \<noteq> v"
      then have "w \<in> set rest" using w(2) i(3) full o by auto
      then have "te_FIFOFlag (t ! v) < te_FIFOFlag (t ! w)" using i(4) o by simp
      then show False using w(3) vl by fastforce
    qed
    moreover obtain t' where "updateFIFOFlag (t[v := e]) (int v) TLBSize = Inr t'" "fifo_inv t' (rest @ [v]) (tl es @ [e]) (b + 1)"
      using fifo_inv_put [OF inv vl e, of rest "tl es"] i(2-5) o by (cases es) auto
    ultimately show ?thesis using n(1,2) False i(1) pol w(1,2) long vl by (auto simp: updateTLB_def)
  qed
qed

text \<open>A sequence of loads into the TLB.\<close>

fun load_all :: "config \<Rightarrow> machine \<Rightarrow> tentry list \<Rightarrow> tentry list \<Rightarrow> tentry list result" where
  "load_all c m t [] = Inr t"
| "load_all c m t (e # es) = rbind (updateTLB c m t e) (\<lambda>t. load_all c m t es)"

lemma load_all_fifo:
  assumes "fifo_inv t order (lastn (nat TLBSize) ds) b" and "FIFO_REPLACE c" "\<not> LRU_REPLACE c"
    and "\<forall>e \<in> set es. te_valid e" and "b + int (length es) < INT_MAX"
  shows "\<exists>t' order'. load_all c m t es = Inr t' \<and> fifo_inv t' order' (lastn (nat TLBSize) (ds @ es)) (b + int (length es))"
  using assms
proof (induction es arbitrary: t order ds b)
  case (Cons e es)
  have "\<exists>t1 order1. updateTLB c m t e = Inr t1 \<and> fifo_inv t1 order1 (lastn (nat TLBSize) (ds @ [e])) (b + 1)"
    using updateTLB_fifo [OF Cons.prems(1-3), of e m] Cons.prems(4,5) by (simp add: lastn_snoc TLBSize_def split: if_splits)
  then obtain t1 order1 where t1: "updateTLB c m t e = Inr t1" "fifo_inv t1 order1 (lastn (nat TLBSize) (ds @ [e])) (b + 1)"
    by blast
  from Cons.IH [OF this(2) Cons.prems(2,3)] Cons.prems(4,5) show ?case using t1(1) by (auto simp: algebra_simps)
qed auto

lemma mset_filter_nth:
  "mset (filter P xs) = image_mset ((!) xs) (mset_set {i. i < length xs \<and> P (xs ! i)})"
proof (induction xs rule: rev_induct)
  case (snoc x xs)
  let ?I = "{i. i < length xs \<and> P (xs ! i)}"
  have "{i. i < length (xs @ [x]) \<and> P ((xs @ [x]) ! i)} = (if P x then insert (length xs) ?I else ?I)"
    by (auto simp: nth_append less_Suc_eq)
  moreover have "image_mset ((!) (xs @ [x])) (mset_set ?I) = image_mset ((!) xs) (mset_set ?I)"
    by (rule image_mset_cong) (simp add: nth_append)
  ultimately show ?case using snoc by simp
qed simp

lemma fifo_inv_contents:
  assumes "fifo_inv t order es b"
  shows "mset (map unflag (filter te_valid t)) = mset (map unflag es)"
proof -
  have "mset order = mset_set {i. i < length t \<and> te_valid (t ! i)}"
    using assms mset_set_set [of order] by (simp add: fifo_inv_def)
  then have "mset (map unflag (filter te_valid t)) = mset (map (\<lambda>p. unflag (t ! p)) order)"
    by (simp only: mset_map mset_filter_nth image_mset.compositionality comp_def)
  moreover have "map (\<lambda>p. unflag (t ! p)) order = map unflag es" using assms by (simp add: fifo_inv_def)
  ultimately show ?thesis by (simp only:)
qed

section \<open>What replacement guarantees\<close>

text \<open>
  C32: With \<^verbatim>\<open>LRU_REPLACE\<close>, the entry of a table that \<^verbatim>\<open>findOneToReplace\<close> selects is the least recently
  used one: after any sequence of uses in which each entry was used at least once, every
  other entry has been used since its last use. (The number of uses is below the range of an
  \<^verbatim>\<open>int\<close>, so that the flags do not overflow.) It holds for the TLB and for both kinds of page table.
\<close>

theorem lru_replaces_least_recently_used:
  assumes "LRU_REPLACE c" and "\<not> FIFO_REPLACE c" and "all_valid t" and "\<forall>e \<in> set t. te_LRUFlag e = - 1"
    and "set ps = {..<length t}" and "table_len c m is_tlb = int (length t)" and "0 < length t" and "int (length ps) \<le> INT_MAX"
  shows "\<exists>t' v. touch_all t ps = Inr t' \<and> findOneToReplace c m t' is_tlb = Inr (int v)
    \<and> (\<exists>us vs. ps = us @ v # vs \<and> v \<notin> set vs \<and> (\<forall>q < length t. q \<noteq> v \<longrightarrow> q \<in> set vs))"
  by (rule touch_all_victim [OF assms(3,5) _ assms(1,6,7), of "- 1"]) (use assms in \<open>auto simp: one_policy_def\<close>)

definition sample_entry :: "int \<Rightarrow> tentry" where
  "sample_entry k = \<lparr>te_vpn = k, te_tID = 0, te_ppn = k, te_valid = True, te_readOnly = False, te_use = False,
     te_dirty = False, te_FIFOFlag = - 1, te_LRUFlag = - 1\<rparr>"

definition sample_config :: "bool \<Rightarrow> config" where
  "sample_config lru = \<lparr>USE_TLB = True, USE_RPT = True, FIFO_REPLACE = \<not> lru, LRU_REPLACE = lru\<rparr>"

theorem lru_replaces_least_recently_used_witness:
  "\<forall>m. \<exists>t' v us vs. touch_all (map sample_entry [0, 1, 2]) [0, 2, 1, 0] = Inr t'
    \<and> findOneToReplace (sample_config True) m t' True = Inr (int v) \<and> [0, 2, 1, 0] = us @ v # vs \<and> v \<notin> set vs"
proof
  fix m
  let ?t = "map sample_entry [0, 1, 2]" and ?c = "sample_config True"
  have "set [0, 2, 1, 0] = {..<length ?t}" by (auto simp: lessThan_Suc numeral_eq_Suc)
  moreover have "all_valid ?t" "\<forall>e \<in> set ?t. te_LRUFlag e = - 1" by (simp_all add: all_valid_def sample_entry_def)
  moreover have "LRU_REPLACE ?c" "\<not> FIFO_REPLACE ?c" by (simp_all add: sample_config_def)
  moreover have "table_len ?c m True = int (length ?t)" "0 < length ?t" by (simp_all add: table_len_def TLBSize_def)
  moreover have "int (length [0 :: nat, 2, 1, 0]) \<le> INT_MAX" by (simp add: INT_MAX_def)
  ultimately show "\<exists>t' v us vs. touch_all ?t [0, 2, 1, 0] = Inr t' \<and> findOneToReplace ?c m t' True = Inr (int v)
    \<and> [0, 2, 1, 0] = us @ v # vs \<and> v \<notin> set vs"
    using lru_replaces_least_recently_used [of ?c ?t "[0, 2, 1, 0]" m True] by blast
qed

text \<open>
  C33: With \<^verbatim>\<open>FIFO_REPLACE\<close>, the TLB is a queue: after any number of calls of \<^verbatim>\<open>updateTLB\<close>, starting from
  a TLB without valid entries, its valid entries are the last three entries loaded (all of them, if there
  were fewer), so each load evicts the entry that was loaded first.
\<close>

theorem fifo_keeps_newest:
  assumes "FIFO_REPLACE c" and "\<not> LRU_REPLACE c" and "int (length t) = TLBSize" and "\<forall>e \<in> set t. \<not> te_valid e"
    and "\<forall>e \<in> set es. te_valid e" and "int (length es) < INT_MAX"
  shows "\<exists>t'. load_all c m t es = Inr t' \<and> length t' = length t
    \<and> mset (map unflag (filter te_valid t')) = mset (map unflag (lastn (nat TLBSize) es))"
proof -
  have "fifo_inv t [] (lastn (nat TLBSize) []) 0"
    using assms(3,4) nth_mem by (auto simp: fifo_inv_def lastn_def)
  from load_all_fifo [OF this assms(1,2,5), of m] assms(6) obtain t' order' where
    "load_all c m t es = Inr t'" "fifo_inv t' order' (lastn (nat TLBSize) es) (int (length es))" by auto
  moreover from this(2) have "length t' = length t" using assms(3) by (simp add: fifo_inv_def)
  ultimately show ?thesis using fifo_inv_contents by blast
qed

theorem fifo_keeps_newest_witness:
  "\<forall>m. \<exists>t'. load_all (sample_config False) m (map te_reset (map sample_entry [0, 0, 0])) (map sample_entry [5, 6, 7, 8]) = Inr t'
    \<and> mset (map unflag (filter te_valid t')) = mset (map unflag (map sample_entry [6, 7, 8]))"
proof
  fix m
  let ?t = "map te_reset (map sample_entry [0, 0, 0])" and ?es = "map sample_entry [5, 6, 7, 8]"
  have "\<forall>e \<in> set ?t. \<not> te_valid e" "int (length ?t) = TLBSize" by (auto simp: te_reset_def TLBSize_def)
  moreover have "\<forall>e \<in> set ?es. te_valid e" "int (length ?es) < INT_MAX" by (simp_all add: sample_entry_def INT_MAX_def)
  moreover have "FIFO_REPLACE (sample_config False)" "\<not> LRU_REPLACE (sample_config False)" by (simp_all add: sample_config_def)
  ultimately obtain t' where "load_all (sample_config False) m ?t ?es = Inr t'"
    "mset (map unflag (filter te_valid t')) = mset (map unflag (lastn (nat TLBSize) ?es))"
    using fifo_keeps_newest [of "sample_config False" ?t ?es m] by blast
  then show "\<exists>t'. load_all (sample_config False) m ?t ?es = Inr t'
    \<and> mset (map unflag (filter te_valid t')) = mset (map unflag (map sample_entry [6, 7, 8]))"
    by (intro exI [of _ t']) (simp add: lastn_def TLBSize_def)
qed

end
