(* ===== verification/Address_Translation.thy ===== *)
theory Address_Translation
  imports Page_Replacement
begin

text \<open>
  What \<^verbatim>\<open>Translate\<close>, \<^verbatim>\<open>ReadMem\<close> and \<^verbatim>\<open>WriteMem\<close> of \<^verbatim>\<open>machine/translate.cc\<close> do. \<open>view\<close> is the mapping of
  virtual pages to frames that the machine's tables define; \<open>xlate\<close> is the translation as a function of it, and
  \<^verbatim>\<open>Translate\<close> is shown to compute it and to change nothing but replacement flags and counters. On
  top of it, the memory that a program sees is an array of bytes indexed by virtual addresses:
  the interface \<open>byte_memory\<close>, which \<^verbatim>\<open>ReadMem\<close> and \<^verbatim>\<open>WriteMem\<close> implement. The swapping of
  pages to the file of the address space is shown to preserve that memory.
\<close>

section \<open>The mapping that the tables define\<close>

definition view :: "config \<Rightarrow> machine \<Rightarrow> int \<Rightarrow> (int \<times> bool) option" where
  "view c m vpn =
     (case tlb m of
        Some t \<Rightarrow> map_option (\<lambda>j. (te_ppn (t ! j), te_readOnly (t ! j)))
          (List.find (\<lambda>j. te_valid (t ! j) \<and> te_vpn (t ! j) = vpn) [0..<length t])
      | None \<Rightarrow> (case pt m of
          None \<Rightarrow> None
        | Some t \<Rightarrow>
            if USE_RPT c
            then map_option (\<lambda>j. (int j, te_readOnly (t ! j)))
              (List.find (\<lambda>j. te_vpn (t ! j) = vpn \<and> te_tID (t ! j) = m_tID m) [0..<length t])
            else if 0 \<le> vpn \<and> vpn < int (length t) \<and> te_valid (t ! nat vpn)
            then Some (te_ppn (t ! nat vpn), te_readOnly (t ! nat vpn)) else None))"

text \<open>The exception for a page that is not mapped.\<close>

definition fault :: "config \<Rightarrow> machine \<Rightarrow> int \<Rightarrow> exception_type" where
  "fault c m vpn =
     (if tlb m \<noteq> None then TLBMissException else if USE_RPT c then PageFaultException
      else if vpn \<ge> pageTableSize m then AddressErrorException else PageFaultException)"

definition misaligned :: "int \<Rightarrow> int \<Rightarrow> bool" where
  "misaligned va sz \<longleftrightarrow> sz = 4 \<and> va mod 4 \<noteq> 0 \<or> sz = 2 \<and> va mod 2 \<noteq> 0"

definition xlate :: "config \<Rightarrow> machine \<Rightarrow> int \<Rightarrow> int \<Rightarrow> bool \<Rightarrow> exception_type + int" where
  "xlate c m va sz writing =
     (if misaligned va sz then Inl AddressErrorException
      else case view c m (cdiv va PageSize) of
        None \<Rightarrow> Inl (fault c m (cdiv va PageSize))
      | Some (f, ro) \<Rightarrow>
          if ro \<and> writing then Inl ReadOnlyException
          else if f \<ge> NumPhysPages \<or> f < 0 then Inl BusErrorException
          else Inr (f * PageSize + cmod va PageSize))"

text \<open>
  A well-formed machine: its arrays have the sizes of the code, there is a page table, and with a TLB over linear
  page tables, the TLB has pages of the current table only. \<open>swapped\<close> says that a translation of the page would go to the
  swap file.
\<close>

definition machine_wf :: "config \<Rightarrow> machine \<Rightarrow> bool" where
  "machine_wf c m \<longleftrightarrow> length (registers m) = NumTotalRegs \<and> length (mainMemory m) = nat MemorySize
     \<and> (\<exists>t. pt m = Some t \<and> int (length t) = (if USE_RPT c then NumPhysPages else pageTableSize m))
     \<and> (\<forall>t. tlb m = Some t \<longrightarrow> int (length t) = TLBSize
          \<and> (\<not> USE_RPT c \<longrightarrow> (\<forall>e \<in> set t. te_valid e \<longrightarrow> 0 \<le> te_vpn e \<and> te_vpn e < pageTableSize m)))"

definition swapped :: "config \<Rightarrow> machine \<Rightarrow> int \<Rightarrow> bool" where
  "swapped c m vpn \<longleftrightarrow> tlb m = None \<and> \<not> USE_RPT c
     \<and> (\<exists>t. pt m = Some t \<and> 0 \<le> vpn \<and> vpn < int (length t) \<and> \<not> te_valid (t ! nat vpn) \<and> te_ppn (t ! nat vpn) \<noteq> - 1)"

text \<open>Two machines that differ at most in LRU flags and statistics.\<close>

definition unlru :: "tentry \<Rightarrow> tentry" where
  "unlru e = e\<lparr>te_LRUFlag := 0\<rparr>"

definition same_but_flags :: "machine \<Rightarrow> machine \<Rightarrow> bool" where
  "same_but_flags m m' \<longleftrightarrow> m'\<lparr>tlb := None, pt := None, m_stats := m_stats m\<rparr> = m\<lparr>tlb := None, pt := None\<rparr>
     \<and> map_option (map unlru) (tlb m') = map_option (map unlru) (tlb m)
     \<and> map_option (map unlru) (pt m') = map_option (map unlru) (pt m)"

lemma same_refl [simp]: "same_but_flags m m" by (simp add: same_but_flags_def)

lemma same_stats [simp]: "same_but_flags m (m\<lparr>m_stats := st\<rparr>)" by (cases m) (simp add: same_but_flags_def)

lemma same_trans: "same_but_flags m m' \<Longrightarrow> same_but_flags m' m'' \<Longrightarrow> same_but_flags m m''"
  by (cases m; cases m'; cases m'') (simp add: same_but_flags_def)

lemma same_fields:
  assumes "same_but_flags m m'"
  shows "mainMemory m' = mainMemory m" "registers m' = registers m" "mmBitmap m' = mmBitmap m"
    "pageTableSize m' = pageTableSize m" "m_tID m' = m_tID m" "m_status m' = m_status m" "m_vmFile m' = m_vmFile m"
    "(tlb m' = None) = (tlb m = None)"
  using assms by (cases m; cases m'; auto simp: same_but_flags_def)+

lemma map_unlru_nth:
  assumes "map unlru t' = map unlru t" and "j < length t"
  shows "te_valid (t' ! j) = te_valid (t ! j)" "te_vpn (t' ! j) = te_vpn (t ! j)" "te_ppn (t' ! j) = te_ppn (t ! j)"
    "te_tID (t' ! j) = te_tID (t ! j)" "te_readOnly (t' ! j) = te_readOnly (t ! j)"
proof -
  have "unlru (t' ! j) = unlru (t ! j)" using assms by (metis length_map nth_map)
  then show "te_valid (t' ! j) = te_valid (t ! j)" "te_vpn (t' ! j) = te_vpn (t ! j)" "te_ppn (t' ! j) = te_ppn (t ! j)"
    "te_tID (t' ! j) = te_tID (t ! j)" "te_readOnly (t' ! j) = te_readOnly (t ! j)"
    by (cases "t' ! j"; cases "t ! j"; simp add: unlru_def)+
qed

lemma map_option_find_cong:
  assumes "n' = n" "\<And>j. j < n \<Longrightarrow> P' j = P j" "\<And>j. j < n \<Longrightarrow> g' j = g j"
  shows "map_option g' (List.find P' [0..<n']) = map_option g (List.find P [0..<n])"
proof -
  have "List.find P' [0..<n'] = List.find P [0..<n]" by (rule find_cong) (simp_all add: assms)
  then show ?thesis using assms by (auto simp: find_Some_iff intro!: option.map_cong)
qed

lemma same_tables:
  assumes "same_but_flags m m'"
  shows "tlb m = Some t \<Longrightarrow> \<exists>t'. tlb m' = Some t' \<and> map unlru t' = map unlru t \<and> length t' = length t"
    and "pt m = Some t \<Longrightarrow> \<exists>t'. pt m' = Some t' \<and> map unlru t' = map unlru t \<and> length t' = length t"
    and "pt m = None \<Longrightarrow> pt m' = None"
  using assms by (auto simp: same_but_flags_def dest: map_eq_imp_length_eq)

lemma view_same: "same_but_flags m m' \<Longrightarrow> view c m' = view c m"
proof
  fix vpn
  assume s: "same_but_flags m m'"
  show "view c m' vpn = view c m vpn"
  proof (cases "tlb m")
    case (Some t)
    then obtain t' where t': "tlb m' = Some t'" "map unlru t' = map unlru t" "length t' = length t"
      using same_tables(1) [OF s] by blast
    show ?thesis
      unfolding view_def Some t'(1) option.case by (rule map_option_find_cong) (simp_all add: t' map_unlru_nth [OF t'(2)])
  next
    case None
    then have n: "tlb m' = None" using same_fields(8) [OF s] by simp
    show ?thesis
    proof (cases "pt m")
      case (Some t)
      then obtain t' where t': "pt m' = Some t'" "map unlru t' = map unlru t" "length t' = length t"
        using same_tables(2) [OF s] by blast
      note nth = map_unlru_nth [OF t'(2)]
      have "map_option (\<lambda>j. (int j, te_readOnly (t' ! j))) (List.find (\<lambda>j. te_vpn (t' ! j) = vpn \<and> te_tID (t' ! j) = m_tID m') [0..<length t'])
          = map_option (\<lambda>j. (int j, te_readOnly (t ! j))) (List.find (\<lambda>j. te_vpn (t ! j) = vpn \<and> te_tID (t ! j) = m_tID m) [0..<length t])"
        by (rule map_option_find_cong) (simp_all add: t'(3) nth same_fields(5) [OF s])
      moreover have "(0 \<le> vpn \<and> vpn < int (length t') \<and> te_valid (t' ! nat vpn)) = (0 \<le> vpn \<and> vpn < int (length t) \<and> te_valid (t ! nat vpn))"
        "0 \<le> vpn \<and> vpn < int (length t) \<and> te_valid (t ! nat vpn) \<Longrightarrow>
         te_ppn (t' ! nat vpn) = te_ppn (t ! nat vpn) \<and> te_readOnly (t' ! nat vpn) = te_readOnly (t ! nat vpn)"
        using t'(3) nth [of "nat vpn"] by auto
      ultimately show ?thesis unfolding view_def None n Some t'(1) option.case by auto
    next
      case np: None
      then show ?thesis using None n same_tables(3) [OF s] by (simp add: view_def)
    qed
  qed
qed

lemma wf_same:
  assumes s: "same_but_flags m m'" and w: "machine_wf c m"
  shows "machine_wf c m'"
proof -
  obtain t where t: "pt m = Some t" "int (length t) = (if USE_RPT c then NumPhysPages else pageTableSize m)"
    using w by (auto simp: machine_wf_def)
  obtain t' where "pt m' = Some t'" "length t' = length t" using same_tables(2) [OF s t(1)] by blast
  moreover have "int (length u') = TLBSize \<and> (\<not> USE_RPT c \<longrightarrow> (\<forall>e \<in> set u'. te_valid e \<longrightarrow> 0 \<le> te_vpn e \<and> te_vpn e < pageTableSize m))"
    if u': "tlb m' = Some u'" for u'
  proof -
    obtain u where u: "tlb m = Some u" using u' same_fields(8) [OF s] by fastforce
    then have e: "map unlru u' = map unlru u" "length u' = length u" using same_tables(1) [OF s] u' by auto
    have "int (length u) = TLBSize" "\<not> USE_RPT c \<longrightarrow> (\<forall>j < length u. te_valid (u ! j) \<longrightarrow> 0 \<le> te_vpn (u ! j) \<and> te_vpn (u ! j) < pageTableSize m)"
      using w u by (auto simp: machine_wf_def)
    then show ?thesis using map_unlru_nth [OF e(1)] e(2) by (auto simp: in_set_conv_nth)
  qed
  ultimately show ?thesis using w t same_fields [OF s] by (auto simp: machine_wf_def)
qed

lemma swapped_same: "same_but_flags m m' \<Longrightarrow> swapped c m' vpn = swapped c m vpn"
proof -
  assume s: "same_but_flags m m'"
  show ?thesis
  proof (cases "pt m")
    case None
    then show ?thesis using same_tables(3) [OF s] by (simp add: swapped_def)
  next
    case (Some t)
    then obtain t' where t': "pt m' = Some t'" "map unlru t' = map unlru t" "length t' = length t"
      using same_tables(2) [OF s] by blast
    show ?thesis
    proof (cases "0 \<le> vpn \<and> vpn < int (length t)")
      case True
      then have "nat vpn < length t" by auto
      then show ?thesis using Some t' same_fields(8) [OF s] map_unlru_nth [OF t'(2), of "nat vpn"] by (simp add: swapped_def)
    next
      case False
      then show ?thesis using Some t' by (auto simp: swapped_def)
    qed
  qed
qed

section \<open>Translation\<close>

lemma tlb_loop_find:
  assumes "int (length t) = TLBSize" and "i \<le> length t"
  shows "tlb_loop t vpn (int i) =
    Inr (map_option (\<lambda>j. (int j, t ! j)) (List.find (\<lambda>j. te_valid (t ! j) \<and> te_vpn (t ! j) = vpn) [i..<length t]))"
  using assms(2)
proof (induction "length t - i" arbitrary: i)
  case 0
  then show ?case using assms(1) by (subst tlb_loop.simps) simp
next
  case (Suc n)
  have "tlb_loop t vpn (int (Suc i)) =
    Inr (map_option (\<lambda>j. (int j, t ! j)) (List.find (\<lambda>j. te_valid (t ! j) \<and> te_vpn (t ! j) = vpn) [Suc i..<length t]))"
    by (rule Suc.hyps(1)) (use Suc in auto)
  moreover have "[i..<length t] = i # [Suc i..<length t]" using Suc by (simp add: upt_conv_Cons)
  ultimately show ?case
    using Suc assms(1) by (subst tlb_loop.simps) (auto simp: aread_of_nat ac_simps)
qed

lemma rpt_loop_find:
  assumes "int (length t) = NumPhysPages" and "i \<le> length t"
  shows "rpt_loop t vpn tid (int i) =
    Inr (map_option (\<lambda>j. (int j, t ! j)) (List.find (\<lambda>j. te_vpn (t ! j) = vpn \<and> te_tID (t ! j) = tid) [i..<length t]))"
  using assms(2)
proof (induction "length t - i" arbitrary: i)
  case 0
  then show ?case using assms(1) by (subst rpt_loop.simps) simp
next
  case (Suc n)
  have "rpt_loop t vpn tid (int (Suc i)) =
    Inr (map_option (\<lambda>j. (int j, t ! j)) (List.find (\<lambda>j. te_vpn (t ! j) = vpn \<and> te_tID (t ! j) = tid) [Suc i..<length t]))"
    by (rule Suc.hyps(1)) (use Suc in auto)
  moreover have "[i..<length t] = i # [Suc i..<length t]" using Suc by (simp add: upt_conv_Cons)
  ultimately show ?case
    using Suc assms(1) by (subst rpt_loop.simps) (auto simp: aread_of_nat ac_simps)
qed

lemma updateLRUFlag_same:
  assumes "0 \<le> p" "p < int (length t)" "len \<le> int (length t)"
  shows "\<exists>t'. updateLRUFlag t p len = Inr t' \<and> map unlru t' = map unlru t"
proof -
  obtain r where "flag_loop te_LRUFlag t p len 0 (- 1) = Inr r"
    using flag_loop_bounds [of 0 len t te_LRUFlag p "- 1"] assms(3) by auto
  then have "updateLRUFlag t p len = Inr (t[nat p := (t ! nat p)\<lparr>te_LRUFlag := r + 1\<rparr>])"
    using assms by (simp add: updateLRUFlag_def aread_ok awrite_ok)
  moreover have "map unlru (t[nat p := (t ! nat p)\<lparr>te_LRUFlag := r + 1\<rparr>]) = map unlru t"
    using assms by (simp add: map_update unlru_def list_update_same_conv)
  ultimately show ?thesis by blast
qed

text \<open>The page that the LRU update of the page table touches is a page of it.\<close>

definition lru_index :: "config \<Rightarrow> int \<Rightarrow> int \<Rightarrow> int" where
  "lru_index c vpn frame = (if USE_RPT c then frame else vpn)"

lemma finish_pt:
  assumes w: "machine_wf c m" and p: "pt m = Some t" and i: "0 \<le> lru_index c vpn f" "lru_index c vpn f < int (length t)"
  shows "\<exists>m'. (if LRU_REPLACE c
         then case pt m of None \<Rightarrow> Inl NullDeref
              | Some t \<Rightarrow> rbind (if USE_RPT c then updateLRUFlag t f NumPhysPages
                                 else updateLRUFlag t vpn (pageTableSize m)) (\<lambda>t. Inr (m\<lparr>pt := Some t\<rparr>))
         else Inr m) = Inr m' \<and> same_but_flags m m' \<and> tlb m' = tlb m"
proof -
  have len: "int (length t) = (if USE_RPT c then NumPhysPages else pageTableSize m)" using w p by (auto simp: machine_wf_def)
  obtain t' where t': "updateLRUFlag t (lru_index c vpn f) (int (length t)) = Inr t'" "map unlru t' = map unlru t"
    using updateLRUFlag_same [OF i order_refl] by blast
  have "same_but_flags m (m\<lparr>pt := Some t'\<rparr>)" using t'(2) p by (cases m) (simp add: same_but_flags_def)
  then show ?thesis using t'(1) p len by (auto simp: lru_index_def)
qed

lemma finish_translation_ok:
  assumes w: "machine_wf c m" and p: "pt m = Some t" and i: "0 \<le> f \<Longrightarrow> f < NumPhysPages \<Longrightarrow> 0 \<le> lru_index c vpn f \<and> lru_index c vpn f < int (length t)"
    and s: "tlb m \<noteq> None \<Longrightarrow> 0 \<le> slot \<and> slot < TLBSize"
  shows "\<exists>m'. same_but_flags m m' \<and> finish_translation c m slot wr vpn off f e =
    (if te_readOnly e \<and> wr then Inr (Inl ReadOnlyException, m')
     else if f \<ge> NumPhysPages \<or> f < 0 then Inr (Inl BusErrorException, m')
     else if 0 \<le> f * PageSize + off \<and> f * PageSize + off + 4 \<le> MemorySize then Inr (Inr (f * PageSize + off), m')
     else Inl AssertFailed)"
proof (cases "te_readOnly e \<and> wr \<or> f \<ge> NumPhysPages \<or> f < 0")
  case True
  then show ?thesis by (intro exI [of _ m]) (auto simp: finish_translation_def)
next
  case F: False
  then obtain m1 where m1: "(if LRU_REPLACE c
         then case pt m of None \<Rightarrow> Inl NullDeref
              | Some t \<Rightarrow> rbind (if USE_RPT c then updateLRUFlag t f NumPhysPages
                                 else updateLRUFlag t vpn (pageTableSize m)) (\<lambda>t. Inr (m\<lparr>pt := Some t\<rparr>))
         else Inr m) = Inr m1" "same_but_flags m m1" "tlb m1 = tlb m"
    using finish_pt [OF w p, of vpn f] i by auto
  have "\<exists>m2. same_but_flags m1 m2 \<and> (case tlb m1 of None \<Rightarrow> Inr m1
      | Some t \<Rightarrow> if LRU_REPLACE c then rbind (updateLRUFlag t slot TLBSize) (\<lambda>t. Inr (m1\<lparr>tlb := Some t\<rparr>)) else Inr m1) = Inr m2"
  proof (cases "tlb m1")
    case (Some u)
    then have "int (length u) = TLBSize" "0 \<le> slot" "slot < TLBSize" using w s m1(3) by (auto simp: machine_wf_def)
    then obtain u' where u': "updateLRUFlag u slot TLBSize = Inr u'" "map unlru u' = map unlru u"
      using updateLRUFlag_same [of slot u TLBSize] by auto
    then have "same_but_flags m1 (m1\<lparr>tlb := Some u'\<rparr>)" using Some by (cases m1) (simp add: same_but_flags_def)
    then show ?thesis using Some u'(1) same_refl by auto
  qed (use same_refl in auto)
  then obtain m2 where m2: "same_but_flags m1 m2" "(case tlb m1 of None \<Rightarrow> Inr m1
      | Some t \<Rightarrow> if LRU_REPLACE c then rbind (updateLRUFlag t slot TLBSize) (\<lambda>t. Inr (m1\<lparr>tlb := Some t\<rparr>)) else Inr m1) = Inr m2"
    by blast
  show ?thesis
    using F m1(1) m2(2) same_trans [OF m1(2) m2(1)] unfolding finish_translation_def Let_def
    by (intro exI [of _ m2]) (auto simp: rassert_def)
qed

text \<open>A translation outcome: the exception or address that \<open>xlate\<close> says, in a machine that differs in flags only.\<close>

definition translates :: "machine \<Rightarrow> exception_type + int \<Rightarrow> ((exception_type + int) \<times> machine) result \<Rightarrow> bool" where
  "translates m x r \<longleftrightarrow> (\<exists>m'. same_but_flags m m' \<and> r =
     (case x of Inl e \<Rightarrow> Inr (Inl e, m')
      | Inr pa \<Rightarrow> if 0 \<le> pa \<and> pa + 4 \<le> MemorySize then Inr (Inr pa, m') else Inl AssertFailed))"

lemma translates_finish:
  assumes "machine_wf c m" "pt m = Some t" "0 \<le> f \<Longrightarrow> f < NumPhysPages \<Longrightarrow> 0 \<le> lru_index c vpn f \<and> lru_index c vpn f < int (length t)"
    and "tlb m \<noteq> None \<Longrightarrow> 0 \<le> slot \<and> slot < TLBSize" and "te_readOnly e = ro"
  shows "translates m (if ro \<and> wr then Inl ReadOnlyException else if f \<ge> NumPhysPages \<or> f < 0 then Inl BusErrorException
      else Inr (f * PageSize + off)) (finish_translation c m slot wr vpn off f e)"
proof -
  obtain m' where m': "same_but_flags m m'" "finish_translation c m slot wr vpn off f e =
    (if te_readOnly e \<and> wr then Inr (Inl ReadOnlyException, m')
     else if f \<ge> NumPhysPages \<or> f < 0 then Inr (Inl BusErrorException, m')
     else if 0 \<le> f * PageSize + off \<and> f * PageSize + off + 4 \<le> MemorySize then Inr (Inr (f * PageSize + off), m')
     else Inl AssertFailed)"
    using finish_translation_ok [OF assms(1-4), where ?off = off and ?wr = wr and ?e = e] by blast
  show ?thesis unfolding translates_def m'(2) using m'(1) assms(5) by (intro exI [of _ m']) auto
qed

lemma translates_same: "same_but_flags m m1 \<Longrightarrow> translates m1 x r \<Longrightarrow> translates m x r"
  unfolding translates_def using same_trans by blast

lemma translates_Inl: "same_but_flags m m' \<Longrightarrow> translates m (Inl e) (Inr (Inl e, m'))"
  by (auto simp: translates_def)

lemma translate_tlb:
  assumes w: "machine_wf c m" and t: "tlb m = Some t"
  shows "translates m (case view c m vpn of None \<Rightarrow> Inl (fault c m vpn)
      | Some (f, ro) \<Rightarrow> if ro \<and> wr then Inl ReadOnlyException else if f \<ge> NumPhysPages \<or> f < 0 then Inl BusErrorException
          else Inr (f * PageSize + off))
    (rbind (tlb_loop t vpn 0) (\<lambda>found. case found of
        None \<Rightarrow> Inr (Inl TLBMissException, m)
      | Some (i, e) \<Rightarrow> if te_readOnly e \<and> wr then Inr (Inl ReadOnlyException, m)
          else finish_translation c m i wr vpn off (te_ppn e) e))"
proof -
  have len: "int (length t) = TLBSize" using w t by (simp add: machine_wf_def)
  obtain u where u: "pt m = Some u" "int (length u) = (if USE_RPT c then NumPhysPages else pageTableSize m)"
    using w by (auto simp: machine_wf_def)
  let ?P = "\<lambda>j. te_valid (t ! j) \<and> te_vpn (t ! j) = vpn"
  note loop = tlb_loop_find [OF len, of 0 vpn, simplified]
  show ?thesis
  proof (cases "List.find ?P [0..<length t]")
    case None
    then show ?thesis using t loop by (auto simp: view_def fault_def intro!: translates_Inl)
  next
    case (Some j)
    then have j: "j < length t" "te_valid (t ! j)" "te_vpn (t ! j) = vpn" by (auto simp: find_Some_iff)
    have v: "view c m vpn = Some (te_ppn (t ! j), te_readOnly (t ! j))" using Some t by (simp add: view_def)
    have "\<not> USE_RPT c \<Longrightarrow> 0 \<le> vpn \<and> vpn < pageTableSize m" using w t j by (auto simp: machine_wf_def)
    then have idx: "0 \<le> te_ppn (t ! j) \<Longrightarrow> te_ppn (t ! j) < NumPhysPages \<Longrightarrow>
        0 \<le> lru_index c vpn (te_ppn (t ! j)) \<and> lru_index c vpn (te_ppn (t ! j)) < int (length u)"
      using u(2) by (auto simp: lru_index_def)
    have "translates m (case view c m vpn of None \<Rightarrow> Inl (fault c m vpn)
      | Some (f, ro) \<Rightarrow> if ro \<and> wr then Inl ReadOnlyException else if f \<ge> NumPhysPages \<or> f < 0 then Inl BusErrorException
          else Inr (f * PageSize + off)) (finish_translation c m (int j) wr vpn off (te_ppn (t ! j)) (t ! j))"
      unfolding v option.case prod.case by (rule translates_finish [OF w u(1) idx]) (use j(1) len in auto)
    then show ?thesis using loop Some v by (auto intro!: translates_Inl)
  qed
qed

lemma translate_pt:
  assumes w: "machine_wf c m" and n: "tlb m = None" and ns: "\<not> swapped c m vpn" and nn: "\<not> USE_RPT c \<Longrightarrow> 0 \<le> vpn"
  shows "translates m (case view c m vpn of None \<Rightarrow> Inl (fault c m vpn)
      | Some (f, ro) \<Rightarrow> if ro \<and> wr then Inl ReadOnlyException else if f \<ge> NumPhysPages \<or> f < 0 then Inl BusErrorException
          else Inr (f * PageSize + off))
    (rbind (pageTableTranslation c m vpn) (\<lambda>(r, m). case r of Inl e \<Rightarrow> Inr (Inl e, m)
      | Inr (f, e) \<Rightarrow> finish_translation c m 0 wr vpn off f e))"
proof -
  obtain u where u: "pt m = Some u" "int (length u) = (if USE_RPT c then NumPhysPages else pageTableSize m)"
    using w by (auto simp: machine_wf_def)
  show ?thesis
  proof (cases "view c m vpn")
    case None
    have "pageTableTranslation c m vpn = Inr (Inl (fault c m vpn), m)"
    proof (cases "USE_RPT c")
      case True
      then show ?thesis using rpt_loop_find [of u 0 vpn "m_tID m", simplified] u None n
        by (auto simp: pageTableTranslation_def view_def fault_def)
    next
      case False
      then show ?thesis using u None n nn ns
        by (auto simp: pageTableTranslation_def view_def fault_def swapped_def aread_ok split: if_splits)
    qed
    then show ?thesis using None by (simp add: translates_Inl)
  next
    case (Some r)
    obtain f ro where r: "r = (f, ro)" by force
    have "\<exists>e. pageTableTranslation c m vpn = Inr (Inr (f, e), m) \<and> te_readOnly e = ro
      \<and> 0 \<le> lru_index c vpn f \<and> lru_index c vpn f < int (length u)"
    proof (cases "USE_RPT c")
      case True
      then obtain j where j: "List.find (\<lambda>j. te_vpn (u ! j) = vpn \<and> te_tID (u ! j) = m_tID m) [0..<length u] = Some j"
        "f = int j" "ro = te_readOnly (u ! j)" using u(1) Some r n by (auto simp: view_def)
      then have "j < length u" by (auto simp: find_Some_iff)
      then show ?thesis using rpt_loop_find [of u 0 vpn "m_tID m", simplified] u True j
        by (simp add: pageTableTranslation_def lru_index_def)
    next
      case False
      then show ?thesis using u Some r n
        by (auto simp: pageTableTranslation_def view_def lru_index_def aread_ok split: if_splits)
    qed
    then obtain e where e: "pageTableTranslation c m vpn = Inr (Inr (f, e), m)" "te_readOnly e = ro"
      "0 \<le> lru_index c vpn f \<and> lru_index c vpn f < int (length u)" by blast
    show ?thesis
      unfolding Some r option.case prod.case e(1) rbind_simps sum.case
      by (rule translates_finish [OF w u(1)]) (use e n in auto)
  qed
qed

lemma Translate_ok:
  assumes w: "machine_wf c m" and ns: "\<not> swapped c m (cdiv va PageSize)"
    and nn: "tlb m = None \<Longrightarrow> \<not> USE_RPT c \<Longrightarrow> 0 \<le> cdiv va PageSize"
  shows "translates m (xlate c m va sz wr) (Translate c m va sz wr)"
proof -
  let ?m = "m\<lparr>m_stats := (m_stats m)\<lparr>numAddressTranslation := numAddressTranslation (m_stats m) + 1\<rparr>\<rparr>"
  let ?vpn = "cdiv va PageSize" and ?off = "cmod va PageSize"
  have s: "same_but_flags m ?m" by simp
  have w': "machine_wf c ?m" by (rule wf_same [OF s w])
  have v: "view c ?m = view c m" by (rule view_same [OF s])
  have ns': "\<not> swapped c ?m ?vpn" using ns swapped_same [OF s] by simp
  have f: "fault c ?m = fault c m" by (rule ext) (simp add: fault_def)
  obtain u where u: "pt m = Some u" using w by (auto simp: machine_wf_def)
  show ?thesis
  proof (cases "misaligned va sz")
    case True
    then show ?thesis using translates_Inl [OF s] by (auto simp: Translate_def xlate_def misaligned_def)
  next
    case False
    then have al: "\<not> (sz = 4 \<and> va mod 4 \<noteq> 0 \<or> sz = 2 \<and> va mod 2 \<noteq> 0)" by (simp add: misaligned_def)
    show ?thesis
    proof (cases "tlb m")
      case (Some t)
      have "translates ?m (xlate c m va sz wr) (Translate c m va sz wr)"
        using translate_tlb [OF w', of t ?vpn wr ?off] Some u
        unfolding v f Translate_def Let_def if_not_P [OF al] xlate_def if_not_P [OF False] by simp
      then show ?thesis by (rule translates_same [OF s])
    next
      case None
      have "translates ?m (xlate c m va sz wr) (Translate c m va sz wr)"
        using translate_pt [OF w' _ ns', of wr ?off] None u nn
        unfolding v f Translate_def Let_def if_not_P [OF al] xlate_def if_not_P [OF False] by simp
      then show ?thesis by (rule translates_same [OF s])
    qed
  qed
qed

section \<open>The memory that a program sees\<close>

definition vbyte :: "config \<Rightarrow> machine \<Rightarrow> int \<Rightarrow> byte option" where
  "vbyte c m va =
     (if va < 0 then None
      else case view c m (va div PageSize) of
        None \<Rightarrow> None
      | Some (f, ro) \<Rightarrow> if 0 \<le> f \<and> f < NumPhysPages then Some (mainMemory m ! nat (f * PageSize + va mod PageSize)) else None)"

definition vwritable :: "config \<Rightarrow> machine \<Rightarrow> int \<Rightarrow> bool" where
  "vwritable c m va \<longleftrightarrow> 0 \<le> va \<and> (\<exists>f. view c m (va div PageSize) = Some (f, False) \<and> 0 \<le> f \<and> f < NumPhysPages)"

text \<open>No two virtual pages share a frame.\<close>

definition no_alias :: "config \<Rightarrow> machine \<Rightarrow> bool" where
  "no_alias c m \<longleftrightarrow> (\<forall>p q f r r'. view c m p = Some (f, r) \<and> view c m q = Some (f, r') \<longrightarrow> p = q)"

definition vm_ok :: "config \<Rightarrow> machine \<Rightarrow> bool" where
  "vm_ok c m \<longleftrightarrow> machine_wf c m \<and> no_alias c m"

lemma vm_same:
  assumes "same_but_flags m m'"
  shows "vbyte c m' = vbyte c m" "vwritable c m' = vwritable c m" "vm_ok c m \<Longrightarrow> vm_ok c m'"
  unfolding vbyte_def vwritable_def vm_ok_def no_alias_def view_same [OF assms] same_fields(1) [OF assms]
  using wf_same [OF assms] by simp_all

lemma mapped_not_swapped: "view c m vpn \<noteq> None \<Longrightarrow> \<not> swapped c m vpn"
  by (auto simp: swapped_def view_def split: if_splits)

text \<open>An aligned access of one, two or four bytes stays in its page.\<close>

definition access_size :: "int \<Rightarrow> bool" where
  "access_size sz \<longleftrightarrow> sz = 1 \<or> sz = 2 \<or> sz = 4"

lemma access_in_page:
  assumes "access_size sz" "va mod sz = 0" "0 \<le> i" "i < sz"
  shows "(va + i) div PageSize = va div PageSize" "(va + i) mod PageSize = va mod PageSize + i"
    "va mod PageSize + sz \<le> PageSize"
proof -
  have le: "va mod 128 + sz \<le> 128"
    using assms(1,2) unfolding access_size_def by (elim disjE) (simp_all, presburger+)
  have "va + i = (va div 128) * 128 + (va mod 128 + i)" by simp
  moreover have "0 \<le> va mod 128 + i" "va mod 128 + i < 128" using assms(3,4) le by auto
  ultimately show "(va + i) div PageSize = va div PageSize" "(va + i) mod PageSize = va mod PageSize + i"
    unfolding PageSize_def by (metis div_mult_self3 add_cancel_right_right div_pos_pos_trivial zero_neq_numeral,
      metis mod_mult_self3 mod_pos_pos_trivial)
  show "va mod PageSize + sz \<le> PageSize" using le by (simp add: PageSize_def)
qed

text \<open>The frame address of a mapped, aligned access.\<close>

lemma xlate_mapped:
  assumes sz: "access_size sz" "va mod sz = 0" and va: "0 \<le> va"
    and v: "view c m (va div PageSize) = Some (f, ro)" "0 \<le> f" "f < NumPhysPages" and wr: "\<not> (ro \<and> wr)"
  shows "xlate c m va sz wr = Inr (f * PageSize + va mod PageSize)"
    and "0 \<le> f * PageSize + va mod PageSize" and "f * PageSize + va mod PageSize + sz \<le> MemorySize"
    and "\<And>i. 0 \<le> i \<Longrightarrow> i < sz \<Longrightarrow> vbyte c m (va + i) = Some (mainMemory m ! nat (f * PageSize + va mod PageSize + i))"
proof -
  have "cdiv va PageSize = va div PageSize" "cmod va PageSize = va mod PageSize" using va by (simp_all add: PageSize_def)
  then show "xlate c m va sz wr = Inr (f * PageSize + va mod PageSize)"
    using sz v wr by (auto simp: xlate_def misaligned_def access_size_def)
  show "0 \<le> f * PageSize + va mod PageSize" using v by (simp add: PageSize_def)
  have "va mod PageSize + sz \<le> PageSize" using access_in_page(3) [OF sz order_refl] sz(1) by (auto simp: access_size_def)
  then show "f * PageSize + va mod PageSize + sz \<le> MemorySize" using v by (simp add: machine_consts)
  fix i assume i: "0 \<le> i" "i < sz"
  show "vbyte c m (va + i) = Some (mainMemory m ! nat (f * PageSize + va mod PageSize + i))"
    using access_in_page [OF sz i] va i v by (simp add: vbyte_def add.assoc)
qed

definition value_of :: "int \<Rightarrow> byte list \<Rightarrow> u32" where
  "value_of sz bs = (if sz = 1 then scast (bs ! 0) else if sz = 2 then ucast (un_le16 bs) else un_le32 bs)"

definition bytes_of :: "int \<Rightarrow> u32 \<Rightarrow> byte list" where
  "bytes_of sz w = (if sz = 1 then [ucast w] else if sz = 2 then le16 (ucast w) else le32 w)"

lemma length_bytes_of: "access_size sz \<Longrightarrow> int (length (bytes_of sz w)) = sz"
  by (auto simp: bytes_of_def access_size_def le16_def)

lemma Translate_mapped:
  assumes w: "machine_wf c m" and sz: "access_size sz" "va mod sz = 0" and va: "0 \<le> va"
    and v: "view c m (va div PageSize) = Some (f, ro)" "0 \<le> f" "f < NumPhysPages" and wr: "\<not> (ro \<and> wr)"
    and fit: "f * PageSize + va mod PageSize + 4 \<le> MemorySize"
  shows "\<exists>m'. Translate c m va sz wr = Inr (Inr (f * PageSize + va mod PageSize), m') \<and> same_but_flags m m'"
proof -
  have d: "cdiv va PageSize = va div PageSize" using va by (simp add: PageSize_def)
  have "translates m (xlate c m va sz wr) (Translate c m va sz wr)"
    by (rule Translate_ok [OF w]) (use v(1) mapped_not_swapped [of c m] va in \<open>auto simp: d PageSize_def\<close>)
  then show ?thesis using xlate_mapped(1,2) [OF sz va v wr] fit by (auto simp: translates_def)
qed

lemma ReadMem_ok:
  assumes w: "machine_wf c m" and sz: "access_size sz" "sint a mod sz = 0" and va: "0 \<le> sint a"
    and v: "view c m (sint a div PageSize) = Some (f, ro)" "0 \<le> f" "f < NumPhysPages"
    and fit: "f * PageSize + sint a mod PageSize + 4 \<le> MemorySize"
  shows "\<exists>m' bs. ReadMem c h m a sz = Inr (Some (value_of sz bs), m') \<and> same_but_flags m m' \<and> int (length bs) = sz
    \<and> (\<forall>i < length bs. vbyte c m (sint a + int i) = Some (bs ! i))"
proof -
  let ?pa = "f * PageSize + sint a mod PageSize" and ?mem = "mainMemory m"
  let ?bs = "take (nat sz) (drop (nat ?pa) ?mem)"
  obtain m' where m': "Translate c m (sint a) sz False = Inr (Inr ?pa, m')" "same_but_flags m m'"
    using Translate_mapped [OF w sz va v _ fit] by auto
  note x = xlate_mapped [OF sz va v, of False, simplified]
  have len: "int (length ?mem) = MemorySize" using w by (simp add: machine_wf_def machine_consts)
  have bl: "int (length ?bs) = sz" using x(2,3) len sz(1) by (auto simp: access_size_def)
  have cp: "bcopy_from ?mem ?pa sz = Inr ?bs" using x(2,3) len sz(1) by (auto simp: bcopy_from_def access_size_def)
  have b: "vbyte c m (sint a + int i) = Some (?bs ! i)" if "i < length ?bs" for i
    using x(4) [of "int i"] that bl x(2,3) len by (simp add: nat_add_distrib)
  have "aread ?mem ?pa = Inr (?bs ! 0)" if "sz = 1" using x(2,3) len that by (simp add: aread_ok)
  then have "ReadMem c h m a sz = Inr (Some (value_of sz ?bs), m')"
    using m' cp sz(1) same_fields(1) [OF m'(2)]
    by (auto simp: ReadMem_def access_size_def value_of_def ShortToHost_def WordToHost_def)
  then show ?thesis using m'(2) bl b by blast
qed

text \<open>Storing bytes in main memory keeps the tables.\<close>

lemma view_memory: "view c (m\<lparr>mainMemory := mem\<rparr>) = view c m"
  by (rule ext) (simp add: view_def split: option.split)

lemma wf_memory: "length mem = length (mainMemory m) \<Longrightarrow> machine_wf c m \<Longrightarrow> machine_wf c (m\<lparr>mainMemory := mem\<rparr>)"
  by (auto simp: machine_wf_def)

lemmas same_memory = view_memory wf_memory

text \<open>Two addresses of mapped pages have the same frame address only if they are equal.\<close>

lemma frame_offset_inj:
  "0 \<le> a \<Longrightarrow> a < 128 \<Longrightarrow> 0 \<le> b \<Longrightarrow> b < 128 \<Longrightarrow> f * 128 + a = g * 128 + b \<Longrightarrow> f = g \<and> a = (b :: int)"
  by (cases f g rule: linorder_cases) auto

lemma frame_address_inj:
  assumes "no_alias c m" "view c m (x div PageSize) = Some (f, r)" "view c m (y div PageSize) = Some (g, r')"
    "f * PageSize + x mod PageSize = g * PageSize + y mod PageSize"
  shows "x = y"
proof -
  have "f * 128 + x mod 128 = g * 128 + y mod 128" using assms(4) by (simp add: PageSize_def)
  then have "f = g \<and> x mod 128 = y mod 128" by (intro frame_offset_inj) auto
  moreover from this have "x div 128 = y div 128" using assms(1-3) by (auto simp: no_alias_def PageSize_def)
  ultimately show ?thesis by (metis mult_div_mod_eq)
qed

lemma vbyte_store:
  assumes ok: "vm_ok c m" and sz: "access_size sz" "va mod sz = 0" and va: "0 \<le> va"
    and v: "view c m (va div PageSize) = Some (f, ro)" "0 \<le> f" "f < NumPhysPages" and bs: "int (length bs) = sz"
  shows "vbyte c (m\<lparr>mainMemory := overlay (mainMemory m) (nat (f * PageSize + va mod PageSize)) bs\<rparr>) x =
    (if va \<le> x \<and> x < va + sz then Some (bs ! nat (x - va)) else vbyte c m x)"
proof (cases "0 \<le> x")
  case True
  let ?pa = "f * PageSize + va mod PageSize"
  let ?m = "m\<lparr>mainMemory := overlay (mainMemory m) (nat ?pa) bs\<rparr>"
  have len: "int (length (mainMemory m)) = MemorySize" using ok by (simp add: vm_ok_def machine_wf_def machine_consts)
  note p = xlate_mapped(2,3) [OF sz va v, of False, simplified]
  show ?thesis
  proof (cases "va \<le> x \<and> x < va + sz")
    case T: True
    have "x div PageSize = va div PageSize" "x mod PageSize = va mod PageSize + (x - va)"
      using access_in_page(1,2) [OF sz, of "x - va"] T by auto
    moreover have "overlay (mainMemory m) (nat ?pa) bs ! nat (?pa + (x - va)) = bs ! nat (x - va)"
      using T p len bs by (subst overlay_nth) (auto simp: nat_add_distrib)
    ultimately show ?thesis using T v True by (simp add: vbyte_def same_memory add.assoc)
  next
    case F: False
    have "overlay (mainMemory m) (nat ?pa) bs ! nat (g * PageSize + x mod PageSize) = mainMemory m ! nat (g * PageSize + x mod PageSize)"
      if g: "view c m (x div PageSize) = Some (g, r)" "0 \<le> g" "g < NumPhysPages" for g r
    proof -
      let ?pb = "g * PageSize + x mod PageSize"
      have pb: "0 \<le> ?pb" "?pb < MemorySize"
        using g(2,3) pos_mod_bound [of 128 x] pos_mod_sign [of 128 x] by (simp_all add: machine_consts)
      have "?pb \<noteq> ?pa + i" if "0 \<le> i" "i < sz" for i
      proof
        assume e: "?pb = ?pa + i"
        have "x = va + i"
          by (rule frame_address_inj [of c m _ g r _ f ro])
            (use ok g(1) v(1) e access_in_page [OF sz that] in \<open>auto simp: vm_ok_def\<close>)
        then show False using F that by simp
      qed
      from this [of "?pb - ?pa"] have "\<not> (?pa \<le> ?pb \<and> ?pb < ?pa + sz)" by auto
      then show ?thesis using pb p len bs by (subst overlay_nth) auto
    qed
    then show ?thesis using F True by (auto simp: vbyte_def same_memory split: option.splits)
  qed
qed (use va in \<open>simp add: vbyte_def\<close>)

lemma mask_low_byte: "ucast (w AND 0xff :: u32) = (ucast w :: byte)"
proof -
  have m: "(0xff :: u32) = mask 8" by (simp add: mask_eq_exp_minus_1)
  show ?thesis unfolding m by (rule bit_word_eqI) (auto simp: bit_simps)
qed

lemma mask_low_short: "ucast (w AND 0xffff :: u32) = (ucast w :: 16 word)"
proof -
  have m: "(0xffff :: u32) = mask 16" by (simp add: mask_eq_exp_minus_1)
  show ?thesis unfolding m by (rule bit_word_eqI) (auto simp: bit_simps)
qed

lemma WriteMem_ok:
  assumes ok: "vm_ok c m" and sz: "access_size sz" "sint a mod sz = 0" and va: "0 \<le> sint a"
    and v: "view c m (sint a div PageSize) = Some (f, False)" "0 \<le> f" "f < NumPhysPages"
    and fit: "f * PageSize + sint a mod PageSize + 4 \<le> MemorySize"
  shows "\<exists>m'. WriteMem c h m a sz w = Inr (True, m') \<and> vm_ok c m' \<and> view c m' = view c m \<and> registers m' = registers m
    \<and> vbyte c m' = (\<lambda>x. if sint a \<le> x \<and> x < sint a + sz then Some (bytes_of sz w ! nat (x - sint a)) else vbyte c m x)"
proof -
  let ?pa = "f * PageSize + sint a mod PageSize"
  have wf: "machine_wf c m" using ok by (simp add: vm_ok_def)
  obtain m1 where m1: "Translate c m (sint a) sz True = Inr (Inr ?pa, m1)" "same_but_flags m m1"
    using Translate_mapped [OF wf sz va v _ fit] by auto
  have ok1: "vm_ok c m1" "view c m1 = view c m" "vbyte c m1 = vbyte c m" "mainMemory m1 = mainMemory m"
    using vm_same [OF m1(2)] view_same [OF m1(2)] same_fields [OF m1(2)] ok by auto
  note p = xlate_mapped(2,3) [OF sz va v, of False, simplified]
  have len: "int (length (mainMemory m1)) = MemorySize" using wf ok1(4) by (simp add: machine_wf_def machine_consts)
  let ?mem = "overlay (mainMemory m1) (nat ?pa) (bytes_of sz w)"
  have bl: "int (length (bytes_of sz w)) = sz" by (rule length_bytes_of [OF sz(1)])
  have "bcopy_to (mainMemory m1) ?pa (bytes_of sz w) = Inr ?mem" using p len bl by (simp add: bcopy_to_def)
  moreover have "ucast (w AND 0xff) = (ucast w :: byte)" "ucast (w AND 0xffff) = (ucast w :: 16 word)"
    by (rule mask_low_byte, rule mask_low_short)
  ultimately have "WriteMem c h m a sz w = Inr (True, m1\<lparr>mainMemory := ?mem\<rparr>)"
    using m1(1) sz(1) by (auto simp: WriteMem_def access_size_def bytes_of_def ShortToMachine_def ShortToHost_def WordToMachine_def WordToHost_def)
  moreover have "length ?mem = length (mainMemory m1)" using p len bl by (auto simp: overlay_def)
  then have "vm_ok c (m1\<lparr>mainMemory := ?mem\<rparr>)" using ok1(1) by (simp add: vm_ok_def same_memory no_alias_def)
  moreover have "vbyte c (m1\<lparr>mainMemory := ?mem\<rparr>) = (\<lambda>x. if sint a \<le> x \<and> x < sint a + sz then Some (bytes_of sz w ! nat (x - sint a)) else vbyte c m x)"
  proof
    have f1: "view c m1 (sint a div PageSize) = Some (f, False)" using v(1) ok1(2) by simp
    fix x
    show "vbyte c (m1\<lparr>mainMemory := ?mem\<rparr>) x = (if sint a \<le> x \<and> x < sint a + sz then Some (bytes_of sz w ! nat (x - sint a)) else vbyte c m x)"
      unfolding vbyte_store [OF ok1(1) sz va f1 v(2,3) bl] ok1(3) ..
  qed
  ultimately show ?thesis using ok1(2) same_fields(2) [OF m1(2)] by (auto simp: same_memory)
qed

section \<open>The interface of the memory\<close>

text \<open>
  Word-aligned access to a memory of bytes, as the instruction simulation uses it. \<open>mem s\<close> is the
  memory that a program sees in the state \<open>s\<close>, \<open>writable s\<close> the addresses it may store to; \<open>rd\<close> and \<open>wr\<close> read and
  write a word.
\<close>

locale byte_memory =
  fixes ok :: "'s \<Rightarrow> bool"
    and mem :: "'s \<Rightarrow> int \<rightharpoonup> byte"
    and writable :: "'s \<Rightarrow> int \<Rightarrow> bool"
    and rd :: "'s \<Rightarrow> u32 \<Rightarrow> (u32 option \<times> 's) result"
    and wr :: "'s \<Rightarrow> u32 \<Rightarrow> u32 \<Rightarrow> (bool \<times> 's) result"
  assumes rd_law: "ok s \<Longrightarrow> 0 \<le> sint a \<Longrightarrow> sint a mod 4 = 0 \<Longrightarrow> mem s (sint a) \<noteq> None \<Longrightarrow>
      \<exists>s' bs. rd s a = Inr (Some (un_le32 bs), s') \<and> length bs = 4 \<and> (\<forall>i < 4. mem s (sint a + int i) = Some (bs ! i))
        \<and> ok s' \<and> mem s' = mem s \<and> writable s' = writable s"
    and wr_law: "ok s \<Longrightarrow> 0 \<le> sint a \<Longrightarrow> sint a mod 4 = 0 \<Longrightarrow> writable s (sint a) \<Longrightarrow>
      \<exists>s'. wr s a w = Inr (True, s') \<and> ok s' \<and> writable s' = writable s
        \<and> mem s' = (\<lambda>x. if sint a \<le> x \<and> x < sint a + 4 then Some (le32 w ! nat (x - sint a)) else mem s x)"
begin

text \<open>A word that was written is read back.\<close>

lemma read_back:
  assumes "ok s" "0 \<le> sint a" "sint a mod 4 = 0" "writable s (sint a)"
  shows "\<exists>s1 s2. wr s a w = Inr (True, s1) \<and> rd s1 a = Inr (Some w, s2) \<and> mem s2 = mem s1 \<and> ok s2"
proof -
  obtain s1 where s1: "wr s a w = Inr (True, s1)" "ok s1"
    "mem s1 = (\<lambda>x. if sint a \<le> x \<and> x < sint a + 4 then Some (le32 w ! nat (x - sint a)) else mem s x)"
    using wr_law [OF assms] by blast
  then obtain s2 bs where s2: "rd s1 a = Inr (Some (un_le32 bs), s2)" "length bs = 4"
    "\<forall>i < 4. mem s1 (sint a + int i) = Some (bs ! i)" "ok s2" "mem s2 = mem s1"
    using rd_law [OF s1(2) assms(2,3)] by auto
  have "bs = le32 w" by (rule nth_equalityI) (use s1(3) s2(2,3) in auto)
  then show ?thesis using s1(1) s2 by auto
qed

end

text \<open>Storing and loading a run of words.\<close>

fun store_words :: "('s \<Rightarrow> u32 \<Rightarrow> u32 \<Rightarrow> (bool \<times> 's) result) \<Rightarrow> 's \<Rightarrow> u32 \<Rightarrow> u32 list \<Rightarrow> (bool \<times> 's) result" where
  "store_words wr s a [] = Inr (True, s)"
| "store_words wr s a (w # ws) = rbind (wr s a w) (\<lambda>(b, s). if b then store_words wr s (a + 4) ws else Inr (False, s))"

fun load_words :: "('s \<Rightarrow> u32 \<Rightarrow> (u32 option \<times> 's) result) \<Rightarrow> 's \<Rightarrow> u32 \<Rightarrow> nat \<Rightarrow> (u32 list option \<times> 's) result" where
  "load_words rd s a 0 = Inr (Some [], s)"
| "load_words rd s a (Suc n) = rbind (rd s a) (\<lambda>(v, s). case v of None \<Rightarrow> Inr (None, s)
     | Some w \<Rightarrow> rbind (load_words rd s (a + 4) n) (\<lambda>(ws, s). Inr (map_option (\<lambda>ws. w # ws) ws, s)))"

text \<open>The word address after \<open>a\<close>, when it does not wrap.\<close>

lemma next_word:
  assumes "sint (a :: u32) + 4 < 2 ^ 31"
  shows "sint (a + 4) = sint a + 4"
proof -
  have "is_int32 (sint a + 4)" using assms sint_is_int32 [of a] by (simp add: is_int32_def)
  moreover have "a + 4 = word_of_int (sint a + 4)" by simp
  ultimately show ?thesis by (simp only: sint_word_of_int32)
qed

lemma nat_back4: "nat (x - (y + 4)) = nat (x - y) - 4" for x y :: int
  by arith

context byte_memory
begin

text \<open>The bytes of a run of words.\<close>

lemma store_words_ok:
  "ok s \<Longrightarrow> 0 \<le> sint a \<Longrightarrow> sint a mod 4 = 0 \<Longrightarrow> sint a + 4 * int (length ws) < 2 ^ 31 \<Longrightarrow>
   \<forall>i < length ws. writable s (sint a + 4 * int i) \<Longrightarrow>
   \<exists>s'. store_words wr s a ws = Inr (True, s') \<and> ok s' \<and> writable s' = writable s
     \<and> mem s' = (\<lambda>x. if sint a \<le> x \<and> x < sint a + 4 * int (length ws)
          then Some (concat (map le32 ws) ! nat (x - sint a)) else mem s x)"
proof (induction ws arbitrary: s a)
  case (Cons w ws)
  have "writable s (sint a)" using Cons.prems(5) by force
  then obtain s1 where s1: "wr s a w = Inr (True, s1)" "ok s1" "writable s1 = writable s"
    "mem s1 = (\<lambda>x. if sint a \<le> x \<and> x < sint a + 4 then Some (le32 w ! nat (x - sint a)) else mem s x)"
    using wr_law [OF Cons.prems(1-3)] by blast
  have n: "sint (a + 4) = sint a + 4" by (rule next_word) (use Cons.prems(4) in auto)
  have wt: "\<forall>i < length ws. writable s1 (sint (a + 4) + 4 * int i)"
  proof (intro allI impI)
    fix i assume "i < length ws"
    then have "Suc i < length (w # ws)" by simp
    then have "writable s (sint a + 4 * int (Suc i))" by (rule Cons.prems(5) [rule_format])
    moreover have "sint a + 4 * int (Suc i) = sint a + 4 + 4 * int i" by simp
    ultimately show "writable s1 (sint (a + 4) + 4 * int i)" unfolding n s1(3) by (simp only:)
  qed
  have "sint (a + 4) mod 4 = 0" unfolding n using Cons.prems(3) by simp
  then obtain s2 where s2: "store_words wr s1 (a + 4) ws = Inr (True, s2)" "ok s2" "writable s2 = writable s1"
    "mem s2 = (\<lambda>x. if sint (a + 4) \<le> x \<and> x < sint (a + 4) + 4 * int (length ws)
          then Some (concat (map le32 ws) ! nat (x - sint (a + 4))) else mem s1 x)"
    using Cons.IH [OF s1(2) _ _ _ wt] Cons.prems(2,4) unfolding n by auto
  have "mem s2 x = (if sint a \<le> x \<and> x < sint a + 4 * int (length (w # ws))
      then Some (concat (map le32 (w # ws)) ! nat (x - sint a)) else mem s x)" for x
    unfolding s2(4) s1(4) n by (auto simp: nth_append nat_less_iff nat_back4)
  then show ?case using s1(1) s2(1-3) s1(3) by auto
qed (auto simp: fun_eq_iff)

lemma load_words_ok:
  "ok s \<Longrightarrow> 0 \<le> sint a \<Longrightarrow> sint a mod 4 = 0 \<Longrightarrow> sint a + 4 * int (length ws) < 2 ^ 31 \<Longrightarrow>
   \<forall>i < 4 * length ws. mem s (sint a + int i) = Some (concat (map le32 ws) ! i) \<Longrightarrow>
   \<exists>s'. load_words rd s a (length ws) = Inr (Some ws, s') \<and> ok s' \<and> mem s' = mem s"
proof (induction ws arbitrary: s a)
  case (Cons w ws)
  have m: "mem s (sint a + int i) = Some (le32 w ! i)" if "i < 4" for i
    using Cons.prems(5) [rule_format, of i] that by (simp add: nth_append)
  have "mem s (sint a) \<noteq> None" using m [of 0] by simp
  then obtain s1 bs where s1: "rd s a = Inr (Some (un_le32 bs), s1)" "length bs = 4"
    "\<forall>i < 4. mem s (sint a + int i) = Some (bs ! i)" "ok s1" "mem s1 = mem s"
    using rd_law [OF Cons.prems(1-3)] by blast
  have bs: "bs = le32 w" by (rule nth_equalityI) (use s1(2,3) m in auto)
  have n: "sint (a + 4) = sint a + 4" by (rule next_word) (use Cons.prems(4) in auto)
  have "mem s1 (sint (a + 4) + int i) = Some (concat (map le32 ws) ! i)" if "i < 4 * length ws" for i
  proof -
    have "mem s (sint a + int (i + 4)) = Some (concat (map le32 (w # ws)) ! (i + 4))"
      by (rule Cons.prems(5) [rule_format]) (use that in simp)
    moreover have "concat (map le32 (w # ws)) ! (i + 4) = concat (map le32 ws) ! i" by (simp add: nth_append)
    moreover have "sint a + int (i + 4) = sint a + 4 + int i" by simp
    ultimately show ?thesis unfolding n s1(5) by (simp only:)
  qed
  moreover have "sint (a + 4) mod 4 = 0" unfolding n using Cons.prems(3) by simp
  ultimately obtain s2 where "load_words rd s1 (a + 4) (length ws) = Inr (Some ws, s2)" "ok s2" "mem s2 = mem s1"
    using Cons.IH [OF s1(4), of "a + 4"] Cons.prems(2,4) unfolding n by auto
  then show ?case using s1(1,5) bs by auto
qed auto

lemma store_load_words:
  assumes "ok s" "0 \<le> sint a" "sint a mod 4 = 0" "sint a + 4 * int (length ws) < 2 ^ 31"
    "\<forall>i < length ws. writable s (sint a + 4 * int i)"
  shows "\<exists>s1 s2. store_words wr s a ws = Inr (True, s1) \<and> load_words rd s1 a (length ws) = Inr (Some ws, s2)
    \<and> (\<forall>x. \<not> (sint a \<le> x \<and> x < sint a + 4 * int (length ws)) \<longrightarrow> mem s2 x = mem s x)"
proof -
  obtain s1 where s1: "store_words wr s a ws = Inr (True, s1)" "ok s1"
    "mem s1 = (\<lambda>x. if sint a \<le> x \<and> x < sint a + 4 * int (length ws) then Some (concat (map le32 ws) ! nat (x - sint a)) else mem s x)"
    using store_words_ok [OF assms] by blast
  have "\<forall>i < 4 * length ws. mem s1 (sint a + int i) = Some (concat (map le32 ws) ! i)" unfolding s1(3) by auto
  from load_words_ok [OF s1(2) assms(2-4) this] show ?thesis using s1(1,3) by auto
qed

end

interpretation vm: byte_memory "vm_ok c" "vbyte c" "vwritable c" "\<lambda>m a. ReadMem c h m a 4" "\<lambda>m a w. WriteMem c h m a 4 w"
  for c h
proof
  fix s :: machine and a :: u32
  assume ok: "vm_ok c s" and a: "0 \<le> sint a" "sint a mod 4 = 0" and "vbyte c s (sint a) \<noteq> None"
  then obtain f ro where v: "view c s (sint a div PageSize) = Some (f, ro)" "0 \<le> f" "f < NumPhysPages"
    by (auto simp: vbyte_def split: option.splits if_splits)
  have sz: "access_size 4" by (simp add: access_size_def)
  obtain s' bs where r: "ReadMem c h s a 4 = Inr (Some (value_of 4 bs), s')" "same_but_flags s s'" "int (length bs) = 4"
    "\<forall>i < length bs. vbyte c s (sint a + int i) = Some (bs ! i)"
    using ReadMem_ok [OF _ sz a(2,1) v xlate_mapped(3) [OF sz a(2,1) v, of False], where h = h] ok
    unfolding vm_ok_def by blast
  show "\<exists>s' bs. ReadMem c h s a 4 = Inr (Some (un_le32 bs), s') \<and> length bs = 4
      \<and> (\<forall>i < 4. vbyte c s (sint a + int i) = Some (bs ! i)) \<and> vm_ok c s' \<and> vbyte c s' = vbyte c s \<and> vwritable c s' = vwritable c s"
    using r ok vm_same [OF r(2)] by (intro exI [of _ s'] exI [of _ bs]) (auto simp: value_of_def)
next
  fix s :: machine and a w :: u32
  assume ok: "vm_ok c s" and a: "0 \<le> sint a" "sint a mod 4 = 0" and "vwritable c s (sint a)"
  then obtain f where v: "view c s (sint a div PageSize) = Some (f, False)" "0 \<le> f" "f < NumPhysPages"
    by (auto simp: vwritable_def)
  have sz: "access_size 4" by (simp add: access_size_def)
  obtain s' where "WriteMem c h s a 4 w = Inr (True, s')" "vm_ok c s'" "view c s' = view c s"
    "vbyte c s' = (\<lambda>x. if sint a \<le> x \<and> x < sint a + 4 then Some (bytes_of 4 w ! nat (x - sint a)) else vbyte c s x)"
    using WriteMem_ok [OF ok sz a(2,1) v xlate_mapped(3) [OF sz a(2,1) v, of False], where h = h and w = w] by auto
  then show "\<exists>s'. WriteMem c h s a 4 w = Inr (True, s') \<and> vm_ok c s' \<and> vwritable c s' = vwritable c s
      \<and> vbyte c s' = (\<lambda>x. if sint a \<le> x \<and> x < sint a + 4 then Some (le32 w ! nat (x - sint a)) else vbyte c s x)"
    by (auto simp: vwritable_def bytes_of_def fun_eq_iff)
qed

end
