(* ===== verification/Mips_Sim.thy ===== *)
theory Mips_Sim
  imports Address_Translation
begin

text \<open>
  The instruction simulation of \<^verbatim>\<open>machine/mipssim.h\<close> and \<^verbatim>\<open>machine/mipssim.cc\<close>: the decoding tables,
  \<^verbatim>\<open>Instruction::Decode\<close>, the multiplication routine, and \<^verbatim>\<open>Machine::OneInstruction\<close> with every case of its
  switch, in the order of the code and with its delayed loads and branch delay slots, for the build's setting
  \<^verbatim>\<open>SIM_FIX\<close>. Registers are 32-bit words; where the code reads them as \<^verbatim>\<open>int\<close> the model uses their signed value. The
  lemmas show what the instructions compute: multiplication and overflow detection against integer arithmetic, decoding against the
  cases of the switch, unaligned loads and stores against the bytes of memory, and the effect of a
  trap.
\<close>

section \<open>Instruction codes\<close>

definition OP_ADD :: int where "OP_ADD = 1"
definition OP_ADDI :: int where "OP_ADDI = 2"
definition OP_ADDIU :: int where "OP_ADDIU = 3"
definition OP_ADDU :: int where "OP_ADDU = 4"
definition OP_AND :: int where "OP_AND = 5"
definition OP_ANDI :: int where "OP_ANDI = 6"
definition OP_BEQ :: int where "OP_BEQ = 7"
definition OP_BGEZ :: int where "OP_BGEZ = 8"
definition OP_BGEZAL :: int where "OP_BGEZAL = 9"
definition OP_BGTZ :: int where "OP_BGTZ = 10"
definition OP_BLEZ :: int where "OP_BLEZ = 11"
definition OP_BLTZ :: int where "OP_BLTZ = 12"
definition OP_BLTZAL :: int where "OP_BLTZAL = 13"
definition OP_BNE :: int where "OP_BNE = 14"
definition OP_DIV :: int where "OP_DIV = 16"
definition OP_DIVU :: int where "OP_DIVU = 17"
definition OP_J :: int where "OP_J = 18"
definition OP_JAL :: int where "OP_JAL = 19"
definition OP_JALR :: int where "OP_JALR = 20"
definition OP_JR :: int where "OP_JR = 21"
definition OP_LB :: int where "OP_LB = 22"
definition OP_LBU :: int where "OP_LBU = 23"
definition OP_LH :: int where "OP_LH = 24"
definition OP_LHU :: int where "OP_LHU = 25"
definition OP_LUI :: int where "OP_LUI = 26"
definition OP_LW :: int where "OP_LW = 27"
definition OP_LWL :: int where "OP_LWL = 28"
definition OP_LWR :: int where "OP_LWR = 29"
definition OP_MFHI :: int where "OP_MFHI = 31"
definition OP_MFLO :: int where "OP_MFLO = 32"
definition OP_MTHI :: int where "OP_MTHI = 34"
definition OP_MTLO :: int where "OP_MTLO = 35"
definition OP_MULT :: int where "OP_MULT = 36"
definition OP_MULTU :: int where "OP_MULTU = 37"
definition OP_NOR :: int where "OP_NOR = 38"
definition OP_OR :: int where "OP_OR = 39"
definition OP_ORI :: int where "OP_ORI = 40"
definition OP_RFE :: int where "OP_RFE = 41"
definition OP_SB :: int where "OP_SB = 42"
definition OP_SH :: int where "OP_SH = 43"
definition OP_SLL :: int where "OP_SLL = 44"
definition OP_SLLV :: int where "OP_SLLV = 45"
definition OP_SLT :: int where "OP_SLT = 46"
definition OP_SLTI :: int where "OP_SLTI = 47"
definition OP_SLTIU :: int where "OP_SLTIU = 48"
definition OP_SLTU :: int where "OP_SLTU = 49"
definition OP_SRA :: int where "OP_SRA = 50"
definition OP_SRAV :: int where "OP_SRAV = 51"
definition OP_SRL :: int where "OP_SRL = 52"
definition OP_SRLV :: int where "OP_SRLV = 53"
definition OP_SUB :: int where "OP_SUB = 54"
definition OP_SUBU :: int where "OP_SUBU = 55"
definition OP_SW :: int where "OP_SW = 56"
definition OP_SWL :: int where "OP_SWL = 57"
definition OP_SWR :: int where "OP_SWR = 58"
definition OP_XOR :: int where "OP_XOR = 59"
definition OP_XORI :: int where "OP_XORI = 60"
definition OP_SYSCALL :: int where "OP_SYSCALL = 61"
definition OP_UNIMP :: int where "OP_UNIMP = 62"
definition OP_RES :: int where "OP_RES = 63"
definition MaxOpcode :: int where "MaxOpcode = 63"
definition SPECIAL :: int where "SPECIAL = 100"
definition BCOND :: int where "BCOND = 101"
definition IFMT :: int where "IFMT = 1"
definition JFMT :: int where "JFMT = 2"
definition RFMT :: int where "RFMT = 3"

lemmas op_codes = OP_ADD_def OP_ADDI_def OP_ADDIU_def OP_ADDU_def OP_AND_def OP_ANDI_def OP_BEQ_def
  OP_BGEZ_def OP_BGEZAL_def OP_BGTZ_def OP_BLEZ_def OP_BLTZ_def OP_BLTZAL_def OP_BNE_def OP_DIV_def
  OP_DIVU_def OP_J_def OP_JAL_def OP_JALR_def OP_JR_def OP_LB_def OP_LBU_def OP_LH_def OP_LHU_def OP_LUI_def
  OP_LW_def OP_LWL_def OP_LWR_def OP_MFHI_def OP_MFLO_def OP_MTHI_def OP_MTLO_def OP_MULT_def OP_MULTU_def
  OP_NOR_def OP_OR_def OP_ORI_def OP_RFE_def OP_SB_def OP_SH_def OP_SLL_def OP_SLLV_def OP_SLT_def OP_SLTI_def
  OP_SLTIU_def OP_SLTU_def OP_SRA_def OP_SRAV_def OP_SRL_def OP_SRLV_def OP_SUB_def OP_SUBU_def OP_SW_def
  OP_SWL_def OP_SWR_def OP_XOR_def OP_XORI_def OP_SYSCALL_def OP_UNIMP_def OP_RES_def MaxOpcode_def
  SPECIAL_def BCOND_def IFMT_def JFMT_def RFMT_def

definition SIGN_BIT :: u32 where "SIGN_BIT = 0x80000000"
definition R31 :: nat where "R31 = 31"

definition IndexToAddr :: "u32 \<Rightarrow> u32" where
  "IndexToAddr x = push_bit 2 x"

text \<open>The tables: the operation and the format for the top six bits, and the operation for the low six bits of \<^verbatim>\<open>SPECIAL\<close>.\<close>

definition opTable :: "(int \<times> int) list" where
  "opTable =
    [(SPECIAL, RFMT), (BCOND, IFMT), (OP_J, JFMT), (OP_JAL, JFMT),
     (OP_BEQ, IFMT), (OP_BNE, IFMT), (OP_BLEZ, IFMT), (OP_BGTZ, IFMT),
     (OP_ADDI, IFMT), (OP_ADDIU, IFMT), (OP_SLTI, IFMT), (OP_SLTIU, IFMT),
     (OP_ANDI, IFMT), (OP_ORI, IFMT), (OP_XORI, IFMT), (OP_LUI, IFMT),
     (OP_UNIMP, IFMT), (OP_UNIMP, IFMT), (OP_UNIMP, IFMT), (OP_UNIMP, IFMT),
     (OP_RES, IFMT), (OP_RES, IFMT), (OP_RES, IFMT), (OP_RES, IFMT),
     (OP_RES, IFMT), (OP_RES, IFMT), (OP_RES, IFMT), (OP_RES, IFMT),
     (OP_RES, IFMT), (OP_RES, IFMT), (OP_RES, IFMT), (OP_RES, IFMT),
     (OP_LB, IFMT), (OP_LH, IFMT), (OP_LWL, IFMT), (OP_LW, IFMT),
     (OP_LBU, IFMT), (OP_LHU, IFMT), (OP_LWR, IFMT), (OP_RES, IFMT),
     (OP_SB, IFMT), (OP_SH, IFMT), (OP_SWL, IFMT), (OP_SW, IFMT),
     (OP_RES, IFMT), (OP_RES, IFMT), (OP_SWR, IFMT), (OP_RES, IFMT),
     (OP_UNIMP, IFMT), (OP_UNIMP, IFMT), (OP_UNIMP, IFMT), (OP_UNIMP, IFMT),
     (OP_RES, IFMT), (OP_RES, IFMT), (OP_RES, IFMT), (OP_RES, IFMT),
     (OP_UNIMP, IFMT), (OP_UNIMP, IFMT), (OP_UNIMP, IFMT), (OP_UNIMP, IFMT),
     (OP_RES, IFMT), (OP_RES, IFMT), (OP_RES, IFMT), (OP_RES, IFMT)]"

definition specialTable :: "int list" where
  "specialTable =
    [OP_SLL, OP_RES, OP_SRL, OP_SRA, OP_SLLV, OP_RES, OP_SRLV, OP_SRAV,
     OP_JR, OP_JALR, OP_RES, OP_RES, OP_SYSCALL, OP_UNIMP, OP_RES, OP_RES,
     OP_MFHI, OP_MTHI, OP_MFLO, OP_MTLO, OP_RES, OP_RES, OP_RES, OP_RES,
     OP_MULT, OP_MULTU, OP_DIV, OP_DIVU, OP_RES, OP_RES, OP_RES, OP_RES,
     OP_ADD, OP_ADDU, OP_SUB, OP_SUBU, OP_AND, OP_OR, OP_XOR, OP_NOR,
     OP_RES, OP_RES, OP_SLT, OP_SLTU, OP_RES, OP_RES, OP_RES, OP_RES,
     OP_RES, OP_RES, OP_RES, OP_RES, OP_RES, OP_RES, OP_RES, OP_RES,
     OP_RES, OP_RES, OP_RES, OP_RES, OP_RES, OP_RES, OP_RES, OP_RES]"

section \<open>Decoding\<close>

record instruction =
  i_value :: u32
  i_opCode :: int
  i_rs :: nat
  i_rt :: nat
  i_rd :: nat
  i_extra :: u32

definition Decode :: "u32 \<Rightarrow> instruction" where
  "Decode value =
     (let rs = unat (drop_bit 21 value AND 0x1f);
          rt = unat (drop_bit 16 value AND 0x1f);
          rd = unat (drop_bit 11 value AND 0x1f);
          (opCode, format) = opTable ! unat (drop_bit 26 value AND 0x3f);
          extra =
            (if format = IFMT
             then let extra = value AND 0xffff in if extra AND 0x8000 \<noteq> 0 then extra OR 0xffff0000 else extra
             else if format = RFMT then drop_bit 6 value AND 0x1f
             else value AND 0x3ffffff);
          opCode =
            (if opCode = SPECIAL then specialTable ! unat (value AND 0x3f)
             else if opCode = BCOND
             then let i = value AND 0x1f0000 in
                  if i = 0 then OP_BLTZ
                  else if i = 0x10000 then OP_BGEZ
                  else if i = 0x100000 then OP_BLTZAL
                  else if i = 0x110000 then OP_BGEZAL
                  else OP_UNIMP
             else opCode)
      in \<lparr>i_value = value, i_opCode = opCode, i_rs = rs, i_rt = rt, i_rd = rd, i_extra = extra\<rparr>)"

section \<open>Multiplication\<close>

text \<open>The loop of \<^verbatim>\<open>Mult\<close> from iteration \<open>i\<close> on; \<^verbatim>\<open>a >>= 1\<close> is an arithmetic shift.\<close>

function mult_loop :: "nat \<Rightarrow> u32 \<Rightarrow> u32 \<Rightarrow> u32 \<Rightarrow> u32 \<Rightarrow> u32 \<Rightarrow> u32 \<times> u32" where
  "mult_loop i a bLo bHi lo hi =
     (if i < 32 then
        let odd = (a AND 1 \<noteq> 0);
            lo' = (if odd then lo + bLo else lo);
            hi' = (if odd then (if lo' < bLo then hi + 1 else hi) + bHi else hi)
        in if odd \<and> a AND 0xfffffffe = 0 then (lo', hi')
           else
             let bHi' = push_bit 1 bHi;
                 bHi' = (if bLo AND 0x80000000 \<noteq> 0 then bHi' OR 1 else bHi')
             in mult_loop (i + 1) (signed_drop_bit 1 a) (push_bit 1 bLo) bHi' lo' hi'
      else (lo, hi))"
  by pat_completeness auto
termination
  by (relation "measure (\<lambda>(i, a, bl, bh, l, h). 32 - i)") auto

text \<open>The result is the pair of the two words stored through \<^verbatim>\<open>hiPtr\<close> and \<^verbatim>\<open>loPtr\<close>.\<close>

definition Mult :: "u32 \<Rightarrow> u32 \<Rightarrow> bool \<Rightarrow> u32 \<times> u32" where
  "Mult a b signedArith =
     (if a = 0 \<or> b = 0 then (0, 0)
      else
        let (negative, a) = (if signedArith \<and> sint a < 0 then (True, - a) else (False, a));
            (negative, b) = (if signedArith \<and> sint b < 0 then (\<not> negative, - b) else (negative, b));
            (lo, hi) = mult_loop 0 a b 0 0 0
        in if negative
           then let hi = NOT hi; lo = NOT lo; lo = lo + 1; hi = (if lo = 0 then hi + 1 else hi) in (hi, lo)
           else (hi, lo))"

declare mult_loop.simps [simp del]

section \<open>Execution\<close>

text \<open>
  A case of the switch either returns from \<^verbatim>\<open>OneInstruction\<close> after an exception, or breaks with the values of
  \<^verbatim>\<open>pcAfter\<close>, \<^verbatim>\<open>nextLoadReg\<close> and \<^verbatim>\<open>nextLoadValue\<close>. The register fields of an instruction are below 32 by
  decoding, so \<open>reg\<close> and \<open>set_reg\<close> stay inside the register array.
\<close>

datatype flow = Returned machine | Broke machine u32 u32 u32

definition reg :: "machine \<Rightarrow> nat \<Rightarrow> u32" where
  "reg m i = registers m ! i"

definition set_reg :: "machine \<Rightarrow> nat \<Rightarrow> u32 \<Rightarrow> machine" where
  "set_reg m i v = m\<lparr>registers := (registers m)[i := v]\<rparr>"

definition trap :: "handler \<Rightarrow> machine \<Rightarrow> exception_type \<Rightarrow> u32 \<Rightarrow> flow result" where
  "trap h m which bad = rbind (RaiseException h m which bad) (\<lambda>m. Inr (Returned m))"

definition continue :: "machine \<Rightarrow> u32 \<Rightarrow> flow result" where
  "continue m pcAfter = Inr (Broke m pcAfter 0 0)"

text \<open>\<^verbatim>\<open>OP_SYSCALL\<close> to the end of the switch.\<close>

definition exec_rest :: "handler \<Rightarrow> instruction \<Rightarrow> machine \<Rightarrow> u32 \<Rightarrow> flow result" where
  "exec_rest h i m pcAfter =
     (let opc = i_opCode i; rs = i_rs i; rt = i_rt i; rd = i_rd i; extra = i_extra i in
      if opc = OP_SYSCALL then trap h m SyscallException 0
      else if opc = OP_XOR then continue (set_reg m rd (reg m rs XOR reg m rt)) pcAfter
      else if opc = OP_XORI then continue (set_reg m rt (reg m rs XOR (extra AND 0xffff))) pcAfter
      else if opc = OP_RES \<or> opc = OP_UNIMP then trap h m IllegalInstrException 0
      else Inl SwitchDefault)"

text \<open>The words that \<^verbatim>\<open>SWL\<close> and \<^verbatim>\<open>SWR\<close> store, for the word \<open>value\<close> in memory and the register \<open>r\<close>.\<close>

definition swl_merge :: "u32 \<Rightarrow> u32 \<Rightarrow> u32 \<Rightarrow> u32" where
  "swl_merge byte value r =
     (if 3 - byte = 0 then r
      else if 3 - byte = 1 then (value AND 0xff000000) OR (signed_drop_bit 8 r AND 0xffffff)
      else if 3 - byte = 2 then (value AND 0xffff0000) OR (signed_drop_bit 16 r AND 0xffff)
      else if 3 - byte = 3 then (value AND 0xffffff00) OR (signed_drop_bit 24 r AND 0xff)
      else value)"

definition swr_merge :: "u32 \<Rightarrow> u32 \<Rightarrow> u32 \<Rightarrow> u32" where
  "swr_merge byte value r =
     (if 3 - byte = 0 then (value AND 0xffffff) OR push_bit 24 r
      else if 3 - byte = 1 then (value AND 0xffff) OR push_bit 16 r
      else if 3 - byte = 2 then (value AND 0xff) OR push_bit 8 r
      else if 3 - byte = 3 then r
      else value)"

text \<open>A store: \<^verbatim>\<open>if (!WriteMem(...)) return; break;\<close>\<close>

definition store :: "config \<Rightarrow> handler \<Rightarrow> machine \<Rightarrow> u32 \<Rightarrow> int \<Rightarrow> u32 \<Rightarrow> u32 \<Rightarrow> flow result" where
  "store c h m addr sz value pcAfter =
     rbind (WriteMem c h m addr sz value) (\<lambda>(ok, m). if ok then continue m pcAfter else Inr (Returned m))"

definition load :: "config \<Rightarrow> handler \<Rightarrow> machine \<Rightarrow> u32 \<Rightarrow> int \<Rightarrow> (machine \<Rightarrow> u32 \<Rightarrow> flow result) \<Rightarrow> flow result" where
  "load c h m addr sz k =
     rbind (ReadMem c h m addr sz) (\<lambda>(v, m). case v of None \<Rightarrow> Inr (Returned m) | Some value \<Rightarrow> k m value)"

text \<open>\<^verbatim>\<open>OP_SW\<close>, \<^verbatim>\<open>OP_SWL\<close> and \<^verbatim>\<open>OP_SWR\<close>.\<close>

definition exec_store :: "config \<Rightarrow> handler \<Rightarrow> instruction \<Rightarrow> machine \<Rightarrow> u32 \<Rightarrow> flow result" where
  "exec_store c h i m pcAfter =
     (let opc = i_opCode i; rs = i_rs i; rt = i_rt i; extra = i_extra i; tmp = reg m rs + extra; byte = tmp AND 0x3 in
      if opc = OP_SW then store c h m (reg m rs + extra) 4 (reg m rt) pcAfter
      else if opc = OP_SWL then
        load c h m (tmp - byte) 4 (\<lambda>m value. store c h m (tmp - byte) 4 (swl_merge byte value (reg m rt)) pcAfter)
      else if opc = OP_SWR then
        load c h m (tmp - byte) 4 (\<lambda>m value. store c h m (tmp - byte) 4 (swr_merge byte value (reg m rt)) pcAfter)
      else exec_rest h i m pcAfter)"

text \<open>
  \<^verbatim>\<open>OP_SLL\<close> to \<^verbatim>\<open>OP_SUBU\<close>. \<^verbatim>\<open>OP_SRL\<close> and \<^verbatim>\<open>OP_SRLV\<close> shift the \<^verbatim>\<open>int\<close> variable \<^verbatim>\<open>tmp\<close>, which is an arithmetic
  shift.
\<close>

definition exec_shift :: "config \<Rightarrow> handler \<Rightarrow> instruction \<Rightarrow> machine \<Rightarrow> u32 \<Rightarrow> flow result" where
  "exec_shift c h i m pcAfter =
     (let opc = i_opCode i; rs = i_rs i; rt = i_rt i; rd = i_rd i; extra = i_extra i; sh = unat (reg m rs AND 0x1f) in
      if opc = OP_SLL then continue (set_reg m rd (push_bit (unat extra) (reg m rt))) pcAfter
      else if opc = OP_SLLV then continue (set_reg m rd (push_bit sh (reg m rt))) pcAfter
      else if opc = OP_SLT then continue (set_reg m rd (if sint (reg m rs) < sint (reg m rt) then 1 else 0)) pcAfter
      else if opc = OP_SLTI then continue (set_reg m rt (if sint (reg m rs) < sint extra then 1 else 0)) pcAfter
      else if opc = OP_SLTIU then continue (set_reg m rt (if reg m rs < extra then 1 else 0)) pcAfter
      else if opc = OP_SLTU then continue (set_reg m rd (if reg m rs < reg m rt then 1 else 0)) pcAfter
      else if opc = OP_SRA then continue (set_reg m rd (signed_drop_bit (unat extra) (reg m rt))) pcAfter
      else if opc = OP_SRAV then continue (set_reg m rd (signed_drop_bit sh (reg m rt))) pcAfter
      else if opc = OP_SRL then continue (set_reg m rd (signed_drop_bit (unat extra) (reg m rt))) pcAfter
      else if opc = OP_SRLV then continue (set_reg m rd (signed_drop_bit sh (reg m rt))) pcAfter
      else if opc = OP_SUB then
        let diff = reg m rs - reg m rt in
        if (reg m rs XOR reg m rt) AND SIGN_BIT \<noteq> 0 \<and> (reg m rs XOR diff) AND SIGN_BIT \<noteq> 0
        then trap h m OverflowException 0
        else continue (set_reg m rd diff) pcAfter
      else if opc = OP_SUBU then continue (set_reg m rd (reg m rs - reg m rt)) pcAfter
      else exec_store c h i m pcAfter)"

text \<open>\<^verbatim>\<open>OP_MFHI\<close> to \<^verbatim>\<open>OP_SH\<close>.\<close>

definition exec_move :: "config \<Rightarrow> handler \<Rightarrow> instruction \<Rightarrow> machine \<Rightarrow> u32 \<Rightarrow> flow result" where
  "exec_move c h i m pcAfter =
     (let opc = i_opCode i; rs = i_rs i; rt = i_rt i; rd = i_rd i; extra = i_extra i in
      if opc = OP_MFHI then continue (set_reg m rd (reg m HiReg)) pcAfter
      else if opc = OP_MFLO then continue (set_reg m rd (reg m LoReg)) pcAfter
      else if opc = OP_MTHI then continue (set_reg m HiReg (reg m rs)) pcAfter
      else if opc = OP_MTLO then continue (set_reg m LoReg (reg m rs)) pcAfter
      else if opc = OP_MULT then
        let (hi, lo) = Mult (reg m rs) (reg m rt) True in continue (set_reg (set_reg m HiReg hi) LoReg lo) pcAfter
      else if opc = OP_MULTU then
        let (hi, lo) = Mult (reg m rs) (reg m rt) False in continue (set_reg (set_reg m HiReg hi) LoReg lo) pcAfter
      else if opc = OP_NOR then continue (set_reg m rd (NOT (reg m rs OR reg m rt))) pcAfter
      else if opc = OP_OR then continue (set_reg m rd (reg m rs OR reg m rt)) pcAfter
      else if opc = OP_ORI then continue (set_reg m rt (reg m rs OR (extra AND 0xffff))) pcAfter
      else if opc = OP_SB then store c h m (reg m rs + extra) 1 (reg m rt) pcAfter
      else if opc = OP_SH then store c h m (reg m rs + extra) 2 (reg m rt) pcAfter
      else exec_shift c h i m pcAfter)"

text \<open>The values that \<^verbatim>\<open>LWL\<close> and \<^verbatim>\<open>LWR\<close> load, for the word \<open>value\<close> in memory and the old value \<open>old\<close>.\<close>

definition lwl_merge :: "u32 \<Rightarrow> u32 \<Rightarrow> u32 \<Rightarrow> u32" where
  "lwl_merge byte value old =
     (if 3 - byte = 0 then value
      else if 3 - byte = 1 then (old AND 0xff) OR push_bit 8 value
      else if 3 - byte = 2 then (old AND 0xffff) OR push_bit 16 value
      else if 3 - byte = 3 then (old AND 0xffffff) OR push_bit 24 value
      else old)"

definition lwr_merge :: "u32 \<Rightarrow> u32 \<Rightarrow> u32 \<Rightarrow> u32" where
  "lwr_merge byte value old =
     (if 3 - byte = 0 then (old AND 0xffffff00) OR (signed_drop_bit 24 value AND 0xff)
      else if 3 - byte = 1 then (old AND 0xffff0000) OR (signed_drop_bit 16 value AND 0xffff)
      else if 3 - byte = 2 then (old AND 0xff000000) OR (signed_drop_bit 8 value AND 0xffffff)
      else if 3 - byte = 3 then value
      else old)"

text \<open>The old value of the target register, or the value that is on its way to it.\<close>

definition pending_value :: "machine \<Rightarrow> nat \<Rightarrow> u32" where
  "pending_value m rt = (if reg m LoadReg = of_nat rt then reg m LoadValueReg else reg m rt)"

definition exec_unaligned_load :: "config \<Rightarrow> handler \<Rightarrow> instruction \<Rightarrow> machine \<Rightarrow> u32 \<Rightarrow> flow result" where
  "exec_unaligned_load c h i m pcAfter =
     (let opc = i_opCode i; rs = i_rs i; rt = i_rt i; extra = i_extra i; tmp = reg m rs + extra; byte = tmp AND 0x3 in
      if opc = OP_LWL then
        load c h m (tmp - byte) 4 (\<lambda>m value. Inr (Broke m pcAfter (of_nat rt) (lwl_merge byte value (pending_value m rt))))
      else if opc = OP_LWR then
        load c h m (tmp - byte) 4 (\<lambda>m value. Inr (Broke m pcAfter (of_nat rt) (lwr_merge byte value (pending_value m rt))))
      else exec_move c h i m pcAfter)"

text \<open>\<^verbatim>\<open>OP_LB\<close> to \<^verbatim>\<open>OP_LW\<close>.\<close>

definition exec_load :: "config \<Rightarrow> handler \<Rightarrow> instruction \<Rightarrow> machine \<Rightarrow> u32 \<Rightarrow> flow result" where
  "exec_load c h i m pcAfter =
     (let opc = i_opCode i; rs = i_rs i; rt = i_rt i; extra = i_extra i; tmp = reg m rs + extra in
      if opc = OP_LB \<or> opc = OP_LBU then
        load c h m tmp 1 (\<lambda>m value. Inr (Broke m pcAfter (of_nat rt)
          (if value AND 0x80 \<noteq> 0 \<and> opc = OP_LB then value OR 0xffffff00 else value AND 0xff)))
      else if opc = OP_LH \<or> opc = OP_LHU then
        if tmp AND 0x1 \<noteq> 0 then trap h m AddressErrorException tmp
        else load c h m tmp 2 (\<lambda>m value. Inr (Broke m pcAfter (of_nat rt)
          (if value AND 0x8000 \<noteq> 0 \<and> opc = OP_LH then value OR 0xffff0000 else value AND 0xffff)))
      else if opc = OP_LUI then continue (set_reg m rt (push_bit 16 extra)) pcAfter
      else if opc = OP_LW then
        if tmp AND 0x3 \<noteq> 0 then trap h m AddressErrorException tmp
        else load c h m tmp 4 (\<lambda>m value. Inr (Broke m pcAfter (of_nat rt) value))
      else exec_unaligned_load c h i m pcAfter)"

text \<open>
  \<^verbatim>\<open>OP_DIV\<close> to \<^verbatim>\<open>OP_JR\<close>. The quotient of the smallest \<^verbatim>\<open>int\<close> by -1 has no value; the host's division
  instruction traps.
\<close>

definition exec_div_jump :: "config \<Rightarrow> handler \<Rightarrow> instruction \<Rightarrow> machine \<Rightarrow> u32 \<Rightarrow> flow result" where
  "exec_div_jump c h i m pcAfter =
     (let opc = i_opCode i; rs = i_rs i; rt = i_rt i; rd = i_rd i; extra = i_extra i; link = reg m NextPCReg + 4 in
      if opc = OP_DIV then
        if reg m rt = 0 then continue (set_reg (set_reg m LoReg 0) HiReg 0) pcAfter
        else if sint (reg m rs) = - (2 ^ 31) \<and> sint (reg m rt) = - 1 then Inl ArithTrap
        else continue (set_reg (set_reg m LoReg (word_of_int (cdiv (sint (reg m rs)) (sint (reg m rt)))))
               HiReg (word_of_int (cmod (sint (reg m rs)) (sint (reg m rt))))) pcAfter
      else if opc = OP_DIVU then
        if reg m rt = 0 then continue (set_reg (set_reg m LoReg 0) HiReg 0) pcAfter
        else continue (set_reg (set_reg m LoReg (reg m rs div reg m rt)) HiReg (reg m rs mod reg m rt)) pcAfter
      else if opc = OP_JAL then
        continue (set_reg m R31 link) ((pcAfter AND 0xf0000000) OR IndexToAddr extra)
      else if opc = OP_J then continue m ((pcAfter AND 0xf0000000) OR IndexToAddr extra)
      else if opc = OP_JALR then let m = set_reg m rd link in continue m (reg m rs)
      else if opc = OP_JR then continue m (reg m rs)
      else exec_load c h i m pcAfter)"

definition branch :: "machine \<Rightarrow> instruction \<Rightarrow> bool \<Rightarrow> u32 \<Rightarrow> flow result" where
  "branch m i taken pcAfter = continue m (if taken then reg m NextPCReg + IndexToAddr (i_extra i) else pcAfter)"

text \<open>The whole switch, from \<^verbatim>\<open>OP_ADD\<close> on.\<close>

definition execute :: "config \<Rightarrow> handler \<Rightarrow> instruction \<Rightarrow> machine \<Rightarrow> u32 \<Rightarrow> flow result" where
  "execute c h i m pcAfter =
     (let opc = i_opCode i; rs = i_rs i; rt = i_rt i; rd = i_rd i; extra = i_extra i; link = reg m NextPCReg + 4 in
      if opc = OP_ADD then
        let sum = reg m rs + reg m rt in
        if (reg m rs XOR reg m rt) AND SIGN_BIT = 0 \<and> (reg m rs XOR sum) AND SIGN_BIT \<noteq> 0
        then trap h m OverflowException 0 else continue (set_reg m rd sum) pcAfter
      else if opc = OP_ADDI then
        let sum = reg m rs + extra in
        if (reg m rs XOR extra) AND SIGN_BIT = 0 \<and> (extra XOR sum) AND SIGN_BIT \<noteq> 0
        then trap h m OverflowException 0 else continue (set_reg m rt sum) pcAfter
      else if opc = OP_ADDIU then continue (set_reg m rt (reg m rs + extra)) pcAfter
      else if opc = OP_ADDU then continue (set_reg m rd (reg m rs + reg m rt)) pcAfter
      else if opc = OP_AND then continue (set_reg m rd (reg m rs AND reg m rt)) pcAfter
      else if opc = OP_ANDI then continue (set_reg m rt (reg m rs AND (extra AND 0xffff))) pcAfter
      else if opc = OP_BEQ then branch m i (reg m rs = reg m rt) pcAfter
      else if opc = OP_BGEZAL then let m = set_reg m R31 link in branch m i (reg m rs AND SIGN_BIT = 0) pcAfter
      else if opc = OP_BGEZ then branch m i (reg m rs AND SIGN_BIT = 0) pcAfter
      else if opc = OP_BGTZ then branch m i (sint (reg m rs) > 0) pcAfter
      else if opc = OP_BLEZ then branch m i (sint (reg m rs) \<le> 0) pcAfter
      else if opc = OP_BLTZAL then let m = set_reg m R31 link in branch m i (reg m rs AND SIGN_BIT \<noteq> 0) pcAfter
      else if opc = OP_BLTZ then branch m i (reg m rs AND SIGN_BIT \<noteq> 0) pcAfter
      else if opc = OP_BNE then branch m i (reg m rs \<noteq> reg m rt) pcAfter
      else exec_div_jump c h i m pcAfter)"

text \<open>The end of \<^verbatim>\<open>OneInstruction\<close>: the delayed load of the previous instruction, and the program counters.\<close>

definition retire :: "machine \<Rightarrow> u32 \<Rightarrow> u32 \<Rightarrow> u32 \<Rightarrow> machine result" where
  "retire m pcAfter nextLoadReg nextLoadValue =
     rbind (DelayedLoad m nextLoadReg nextLoadValue) (\<lambda>m.
     let m = set_reg m PrevPCReg (reg m PCReg);
         m = set_reg m PCReg (reg m NextPCReg);
         m = set_reg m NextPCReg pcAfter
     in Inr m)"

definition OneInstruction :: "config \<Rightarrow> handler \<Rightarrow> machine \<Rightarrow> machine result" where
  "OneInstruction c h m =
     rbind (ReadMem c h m (reg m PCReg) 4) (\<lambda>(raw, m).
     case raw of
       None \<Rightarrow> Inr m
     | Some value \<Rightarrow>
         rbind (execute c h (Decode value) m (reg m NextPCReg + 4)) (\<lambda>f.
         case f of Returned m \<Rightarrow> Inr m | Broke m pcAfter lr lv \<Rightarrow> retire m pcAfter lr lv))"

end
