(* ===== verification/User_Prog.thy ===== *)
theory User_Prog
  imports Thread_Sched Mips_Sim
begin

text \<open>
  User programs: object files and address spaces (\<^verbatim>\<open>userprog/addrspace.cc\<close>, \<^verbatim>\<open>userprog/noff.h\<close>), the loading of a page into a
  frame and the saving of a thread's pages to a file (\<^verbatim>\<open>threads/thread.cc\<close>, \<^verbatim>\<open>threads/scheduler.cc\<close>), and the handling of system calls, page
  faults and TLB misses (\<^verbatim>\<open>userprog/exception.cc\<close>, \<^verbatim>\<open>userprog/ksyscall.h\<close>). Files are those of the stub file system, which the build
  uses: a file is its contents. The sizes in a header are integers; the build includes the segment of read-only data.
\<close>

section \<open>Object files\<close>

definition NOFFMAGIC :: int where "NOFFMAGIC = 0xbadfad"
definition UserStackSize :: int where "UserStackSize = 1024"

text \<open>\<^verbatim>\<open>sizeof(NoffHeader)\<close>, and the structure in 52 bytes of memory.\<close>

definition sizeof_NoffHeader :: nat where "sizeof_NoffHeader = 52"

definition int_at :: "byte list \<Rightarrow> nat \<Rightarrow> int" where
  "int_at bs i = sint (un_le32 (take 4 (drop (4 * i) bs)))"

definition segment_at :: "byte list \<Rightarrow> nat \<Rightarrow> segment" where
  "segment_at bs i = \<lparr>virtualAddr = int_at bs i, inFileAddr = int_at bs (i + 1), seg_size = int_at bs (i + 2)\<rparr>"

definition header_at :: "byte list \<Rightarrow> noff_header" where
  "header_at bs = \<lparr>noffMagic = int_at bs 0, seg_code = segment_at bs 1, initData = segment_at bs 4,
     readonlyData = segment_at bs 7, uninitData = segment_at bs 10\<rparr>"

definition word_to_host :: "int \<Rightarrow> int" where
  "word_to_host i = sint (WordToHost (word_of_int i))"

definition swap_segment :: "segment \<Rightarrow> segment" where
  "swap_segment s = \<lparr>virtualAddr = word_to_host (virtualAddr s), inFileAddr = word_to_host (inFileAddr s), seg_size = word_to_host (seg_size s)\<rparr>"

definition SwapHeader :: "noff_header \<Rightarrow> noff_header" where
  "SwapHeader h = \<lparr>noffMagic = word_to_host (noffMagic h), seg_code = swap_segment (seg_code h), initData = swap_segment (initData h),
     readonlyData = swap_segment (readonlyData h), uninitData = swap_segment (uninitData h)\<rparr>"

text \<open>The header of an executable, as \<^verbatim>\<open>AddrSpace\<close> and \<^verbatim>\<open>Load\<close> read it into the uninitialised variable \<open>buf\<close>.\<close>

definition read_header :: "byte list \<Rightarrow> byte list \<Rightarrow> noff_header result" where
  "read_header executable buf =
     rbind (stub_ReadAt executable sizeof_NoffHeader 0) (\<lambda>bs.
     let h = header_at (bs @ drop (length bs) buf);
         h = (if noffMagic h \<noteq> NOFFMAGIC \<and> word_to_host (noffMagic h) = NOFFMAGIC then SwapHeader h else h) in
     rassert (noffMagic h = NOFFMAGIC) (Inr h))"

definition program_size :: "noff_header \<Rightarrow> int" where
  "program_size h = seg_size (seg_code h) + seg_size (readonlyData h) + seg_size (initData h) + seg_size (uninitData h) + UserStackSize"

section \<open>Address spaces\<close>

text \<open>
  The constructor, on the uninitialised object \<open>sp\<close> and the uninitialised entries \<open>pt0\<close>. When the file cannot be opened, the object stays as
  it is. \<^verbatim>\<open>Create\<close> of the stub file system makes an empty swap file.
\<close>

definition AddrSpace :: "config \<Rightarrow> addrspace \<Rightarrow> byte list option \<Rightarrow> byte list \<Rightarrow> (nat \<Rightarrow> tentry) \<Rightarrow> addrspace result" where
  "AddrSpace c sp executable buf pt0 =
     (case executable of None \<Rightarrow> Inr sp
      | Some exe \<Rightarrow>
          rbind (read_header exe buf) (\<lambda>noffH.
          let numPages = divRoundUp (program_size noffH) PageSize;
              sp = sp\<lparr>as_numPages := numPages, as_openedFile := Some exe, as_noffHeader := noffH\<rparr> in
          if USE_RPT c then Inr (sp\<lparr>as_pt := None\<rparr>)
          else Inr (sp\<lparr>as_vmFile := Some [], as_pt := Some (map (\<lambda>i. te_reset (pt0 i)) [0..<nat numPages])\<rparr>)))"

text \<open>\<^verbatim>\<open>Load\<close>: the segments are copied to the physical addresses that equal their virtual addresses.\<close>

definition load_segment :: "byte list \<Rightarrow> segment \<Rightarrow> byte list \<Rightarrow> byte list result" where
  "load_segment exe s mem =
     (if seg_size s > 0
      then rbind (stub_ReadAt exe (nat (seg_size s)) (inFileAddr s)) (\<lambda>bs. bcopy_to mem (virtualAddr s) bs)
      else Inr mem)"

definition Load :: "addrspace \<Rightarrow> machine \<Rightarrow> byte list option \<Rightarrow> byte list \<Rightarrow> (bool \<times> addrspace \<times> machine) result" where
  "Load sp m executable buf =
     (case executable of None \<Rightarrow> Inr (False, sp, m)
      | Some exe \<Rightarrow>
          rbind (read_header exe buf) (\<lambda>noffH.
          rbind (load_segment exe (seg_code noffH) (mainMemory m)) (\<lambda>mem.
          rbind (load_segment exe (initData noffH) mem) (\<lambda>mem.
          rbind (load_segment exe (readonlyData noffH) mem) (\<lambda>mem.
          Inr (True, sp\<lparr>as_numPages := divRoundUp (program_size noffH) PageSize\<rparr>, m\<lparr>mainMemory := mem\<rparr>))))))"

fun write_zeros :: "machine \<Rightarrow> nat list \<Rightarrow> machine result" where
  "write_zeros m [] = Inr m"
| "write_zeros m (i # is) = rbind (WriteRegister m (int i) 0) (\<lambda>m. write_zeros m is)"

definition InitRegisters :: "machine \<Rightarrow> int \<Rightarrow> machine result" where
  "InitRegisters m numPages =
     rbind (write_zeros m [0..<NumTotalRegs]) (\<lambda>m.
     rbind (WriteRegister m (int PCReg) 0) (\<lambda>m.
     rbind (WriteRegister m (int NextPCReg) 4) (\<lambda>m.
     WriteRegister m (int StackReg) (word_of_int (numPages * PageSize - 16)))))"

text \<open>
  \<^verbatim>\<open>Execute\<close> makes the machine ready and calls \<^verbatim>\<open>Machine::Run\<close>, which enters user mode; its loop is the frame
  \<open>UserRun\<close>.
\<close>

definition Execute :: "config \<Rightarrow> kernel \<Rightarrow> addrspace \<Rightarrow> kernel result" where
  "Execute c k sp =
     rbind (upd_thread k (k_current k) (\<lambda>t. t\<lparr>t_space := Some sp\<rparr>)) (\<lambda>k.
     rbind (InitRegisters (k_machine k) (as_numPages sp)) (\<lambda>m.
     Inr (setStatus (k\<lparr>k_machine := as_RestoreState c (m\<lparr>m_vmFile := as_vmFile sp\<rparr>) sp\<rparr>) UserMode)))"

definition as_Translate :: "addrspace \<Rightarrow> u32 \<Rightarrow> bool \<Rightarrow> ((exception_type + u32) \<times> addrspace) result" where
  "as_Translate sp vaddr isReadWrite =
     (let vpn = int (unat vaddr) div PageSize; offset = int (unat vaddr) mod PageSize in
      if vpn \<ge> int (unat (word_of_int (as_numPages sp) :: u32)) then Inr (Inl AddressErrorException, sp)
      else case as_pt sp of None \<Rightarrow> Inl NullDeref
        | Some t \<Rightarrow>
            rbind (aread t vpn) (\<lambda>pte.
            if isReadWrite \<and> te_readOnly pte then Inr (Inl ReadOnlyException, sp)
            else
              let pfn = te_ppn pte in
              if pfn \<ge> NumPhysPages then Inr (Inl BusErrorException, sp)
              else
                let pte = pte\<lparr>te_use := True, te_dirty := te_dirty pte \<or> isReadWrite\<rparr>;
                    paddr = word_of_int (pfn * PageSize + offset) in
                rbind (awrite t vpn pte) (\<lambda>t.
                rassert (int (unat (paddr :: u32)) < MemorySize) (Inr (Inr paddr, sp\<lparr>as_pt := Some t\<rparr>)))))"

definition setPT :: "addrspace \<Rightarrow> tentry list \<Rightarrow> addrspace result" where
  "setPT sp p =
     (case as_pt sp of None \<Rightarrow> Inl NullDeref
      | Some t \<Rightarrow> rbind (aread p 0) (\<lambda>e. rbind (awrite t 0 e) (\<lambda>t. Inr (sp\<lparr>as_pt := Some t\<rparr>))))"

section \<open>Loading a page\<close>

text \<open>
  \<^verbatim>\<open>Thread::loadPageFrame\<close> for the thread with the number \<open>tid\<close>, whose page table is \<open>t\<close>: the inverted table of the machine, or the table of its
  address space.
\<close>

definition loadPageFrame ::
    "config \<Rightarrow> machine \<Rightarrow> int \<Rightarrow> tentry list \<Rightarrow> int \<Rightarrow> int \<Rightarrow> int \<Rightarrow> byte list \<Rightarrow> (tentry list \<times> machine) result" where
  "loadPageFrame c m tid t vpn ppn fileAddr f =
     rbind (if USE_RPT c
            then rbind (aread t ppn) (\<lambda>e.
                 rbind (awrite t ppn (e\<lparr>te_tID := tid, te_vpn := vpn, te_valid := True, te_ppn := ppn\<rparr>)) (\<lambda>t.
                 rbind (if FIFO_REPLACE c then updateFIFOFlag t ppn NumPhysPages else Inr t) (\<lambda>t. Inr (t, m))))
            else rbind (aread t vpn) (\<lambda>e.
                 rbind (awrite t vpn (e\<lparr>te_vpn := vpn, te_ppn := ppn, te_valid := True\<rparr>)) (\<lambda>t.
                 rbind (if FIFO_REPLACE c then updateFIFOFlag t vpn (pageTableSize m) else Inr t) (\<lambda>t.
                 rbind (aread t vpn) (\<lambda>e.
                 if te_dirty e
                 then case m_vmFile m of None \<Rightarrow> Inl NullDeref
                      | Some exec \<Rightarrow>
                          rbind (bcopy_from (mainMemory m) (ppn * PageSize) PageSize) (\<lambda>bs.
                          rbind (stub_WriteAt exec bs (vpn * PageSize)) (\<lambda>exec. Inr (t, m\<lparr>m_vmFile := Some exec\<rparr>)))
                 else Inr (t, m)))))) (\<lambda>(t, m).
     rbind (stub_ReadAt f (nat PageSize) fileAddr) (\<lambda>bs.
     rbind (bcopy_to (mainMemory m) (ppn * PageSize) bs) (\<lambda>mem. Inr (t, m\<lparr>mainMemory := mem\<rparr>))))"

section \<open>System calls and exceptions\<close>

definition SC_Halt :: u32 where "SC_Halt = 0"
definition SC_Exit :: u32 where "SC_Exit = 1"
definition SC_Add :: u32 where "SC_Add = 42"

text \<open>How the handler ends: it returns to the program, the machine halts, or the thread finishes.\<close>

datatype outcome = Resumed machine | Halted machine | Finished machine

definition SysAdd :: "u32 \<Rightarrow> u32 \<Rightarrow> u32" where
  "SysAdd op1 op2 = op1 + op2"

definition sys_Add :: "machine \<Rightarrow> machine result" where
  "sys_Add m =
     rbind (ReadRegister m 4) (\<lambda>op1.
     rbind (ReadRegister m 5) (\<lambda>op2.
     rbind (WriteRegister m 2 (SysAdd op1 op2)) (\<lambda>m.
     rbind (ReadRegister m (int PCReg)) (\<lambda>pc.
     rbind (WriteRegister m (int PrevPCReg) pc) (\<lambda>m.
     rbind (ReadRegister m (int PCReg)) (\<lambda>pc.
     rbind (WriteRegister m (int PCReg) (pc + 4)) (\<lambda>m.
     rbind (ReadRegister m (int PCReg)) (\<lambda>pc.
     WriteRegister m (int NextPCReg) (pc + 4)))))))))"

text \<open>The loops of \<^verbatim>\<open>Exit\<close> over the inverted page table, the linear page table and the TLB.\<close>

fun free_rpt :: "int \<Rightarrow> tentry list \<Rightarrow> bitmap \<Rightarrow> nat list \<Rightarrow> (tentry list \<times> bitmap) result" where
  "free_rpt tid t b [] = Inr (t, b)"
| "free_rpt tid t b (i # is) =
     rbind (aread t (int i)) (\<lambda>e.
     if te_tID e = tid
     then rbind (bm_Clear b (int i)) (\<lambda>b. rbind (awrite t (int i) (te_reset e)) (\<lambda>t. free_rpt tid t b is))
     else free_rpt tid t b is)"

fun free_linear :: "tentry list \<Rightarrow> bitmap \<Rightarrow> nat list \<Rightarrow> bitmap result" where
  "free_linear t b [] = Inr b"
| "free_linear t b (i # is) =
     rbind (aread t (int i)) (\<lambda>e.
     if te_valid e then rbind (bm_Clear b (te_ppn e)) (\<lambda>b. free_linear t b is) else free_linear t b is)"

text \<open>\<open>space\<close> is the number of pages of the address space of the current thread, if it has one.\<close>

definition sys_Exit :: "config \<Rightarrow> int option \<Rightarrow> machine \<Rightarrow> machine result" where
  "sys_Exit c space m =
     (if USE_RPT c
      then case pt m of None \<Rightarrow> Inl NullDeref
           | Some t \<Rightarrow>
               rbind (free_rpt (m_tID m) t (mmBitmap m) [0..<nat NumPhysPages]) (\<lambda>(t, b).
               Inr (m\<lparr>pt := Some t, mmBitmap := b, tlb := map_option (map (\<lambda>e. if te_tID e = m_tID m then te_reset e else e)) (tlb m)\<rparr>))
      else
        rbind (case space of None \<Rightarrow> Inr m
               | Some numPages \<Rightarrow>
                   rbind (if numPages > 0 then case pt m of None \<Rightarrow> Inl NullDeref | Some t \<Rightarrow> free_linear t (mmBitmap m) [0..<nat numPages]
                          else Inr (mmBitmap m)) (\<lambda>b.
                   Inr (m\<lparr>m_vmFile := None, mmBitmap := b\<rparr>))) (\<lambda>m.
        Inr (m\<lparr>tlb := map_option (map te_reset) (tlb m)\<rparr>)))"

definition handle_syscall :: "config \<Rightarrow> int option \<Rightarrow> machine \<Rightarrow> outcome result" where
  "handle_syscall c space m =
     rbind (ReadRegister m 2) (\<lambda>type.
     if type = SC_Halt then Inr (Halted m)
     else if type = SC_Exit then rbind (sys_Exit c space m) (\<lambda>m. Inr (Finished m))
     else if type = SC_Add then rbind (sys_Add m) (\<lambda>m. Inr (Resumed m))
     else Inl AssertFailed)"

text \<open>
  The open file and the header of the address space of the current thread are those that \<^verbatim>\<open>RestoreState\<close> has put into the machine, and
  the table of the address space is the machine's.
\<close>

definition handle_page_fault :: "config \<Rightarrow> machine \<Rightarrow> outcome result" where
  "handle_page_fault c m0 =
     (let m = m0\<lparr>m_stats := (m_stats m0)\<lparr>numPageFaults := numPageFaults (m_stats m0) + 1\<rparr>\<rparr> in
      rbind (ReadRegister m (int BadVAddrReg)) (\<lambda>bad.
      let vpn = cdiv (sint bad) PageSize in
      rbind (findAvailablePageFrame m) (\<lambda>(frame, m).
      case pt m of None \<Rightarrow> Inl NullDeref
      | Some t \<Rightarrow>
          rbind (if frame = - 1 then findOneToReplace c m t False else Inr frame) (\<lambda>frame.
          case currentOpenedFile m of None \<Rightarrow> Inl NullDeref
          | Some f \<Rightarrow>
              rbind (loadPageFrame c m (m_tID m) t vpn frame (inFileAddr (seg_code (currentNoffHeader m)) + vpn * PageSize) f) (\<lambda>(t, m).
              Inr (Resumed (m\<lparr>pt := Some t\<rparr>)))))))"

text \<open>
  \<^verbatim>\<open>ExceptionHandler\<close>. The call of itself for a TLB miss is for the exception of the page table, which is never a TLB miss.
\<close>

definition handle_table_exception :: "config \<Rightarrow> int option \<Rightarrow> exception_type \<Rightarrow> machine \<Rightarrow> outcome result" where
  "handle_table_exception c space which m =
     rbind (ReadRegister m 2) (\<lambda>_.
     if which = SyscallException then handle_syscall c space m
     else if which = PageFaultException then handle_page_fault c m
     else Inl AssertFailed)"

definition ExceptionHandler :: "config \<Rightarrow> int option \<Rightarrow> exception_type \<Rightarrow> machine \<Rightarrow> outcome result" where
  "ExceptionHandler c space which m0 =
     rbind (ReadRegister m0 2) (\<lambda>_.
     if which = TLBMissException
     then
       let m = m0\<lparr>m_stats := (m_stats m0)\<lparr>numTLBMiss := numTLBMiss (m_stats m0) + 1\<rparr>\<rparr> in
       rbind (ReadRegister m (int BadVAddrReg)) (\<lambda>bad.
       let vpn = cdiv (sint bad) PageSize in
       rbind (pageTableTranslation c m vpn) (\<lambda>(r, m).
       case r of
         Inl e \<Rightarrow> handle_table_exception c space e m
       | Inr (ppn, entry) \<Rightarrow>
           (case tlb m of None \<Rightarrow> Inl NullDeref
            | Some t \<Rightarrow> rbind (updateTLB c m t entry) (\<lambda>t. Inr (Resumed (m\<lparr>tlb := Some t\<rparr>))))))
     else handle_table_exception c space which m0)"

text \<open>
  The handler as the machine calls it. When it has called \<^verbatim>\<open>Halt\<close> or \<^verbatim>\<open>Finish\<close>, it does not come back, and the machine does nothing more:
  \<open>OneInstruction\<close> returns at once after an exception, and \<open>exec_UserRun\<close> continues with the call.
\<close>

definition user_handler :: "config \<Rightarrow> int option \<Rightarrow> handler" where
  "user_handler c space which m =
     rbind (ExceptionHandler c space which m) (\<lambda>out.
     case out of Resumed m \<Rightarrow> Inr m | Halted m \<Rightarrow> Inr (m\<lparr>m_control := CalledHalt\<rparr>) | Finished m \<Rightarrow> Inr (m\<lparr>m_control := CalledFinish\<rparr>))"

text \<open>
  One iteration of the loop of \<^verbatim>\<open>Machine::Run\<close>, without the demonstration that \<^verbatim>\<open>debugThreadStatusChanging\<close> selects and without
  single-stepping.
\<close>

definition exec_UserRun :: "devices \<Rightarrow> config \<Rightarrow> kernel \<Rightarrow> kernel result" where
  "exec_UserRun D c k =
     rbind (get_thread k (k_current k)) (\<lambda>t.
     rbind (OneInstruction c (user_handler c (map_option as_numPages (t_space t))) (k_machine k)) (\<lambda>m.
     case m_control m of
       InProgram \<Rightarrow> rbind (push [UserRun] (k\<lparr>k_machine := m\<rparr>)) (OneTick D)
     | CalledHalt \<Rightarrow> Inr (k\<lparr>k_machine := m\<lparr>m_status := SystemMode\<rparr>, k_halted := True\<rparr>)
     | CalledFinish \<Rightarrow> exec_Finish (k\<lparr>k_machine := m\<lparr>m_status := SystemMode, m_control := InProgram\<rparr>\<rparr>)))"

section \<open>Saving a thread to a file\<close>

text \<open>\<^verbatim>\<open>sprintf(buf, "%d", n)\<close> and \<^verbatim>\<open>atoi(buf)\<close> on a buffer of bytes.\<close>

fun decimal :: "nat \<Rightarrow> byte list" where
  "decimal n = (if n < 10 then [word_of_nat (48 + n)] else decimal (n div 10) @ [word_of_nat (48 + n mod 10)])"

definition sprintf_d :: "byte list \<Rightarrow> int \<Rightarrow> byte list result" where
  "sprintf_d buf n =
     (let s = (if n < 0 then 45 # decimal (nat (- n)) else decimal (nat n)) @ [0] in
      if length s \<le> length buf then Inr (s @ drop (length s) buf) else Inl OutOfBounds)"

definition byte_digit :: "byte \<Rightarrow> bool" where
  "byte_digit b \<longleftrightarrow> 48 \<le> b \<and> b \<le> 57"

fun atoi_bytes :: "byte list \<Rightarrow> int \<Rightarrow> int result" where
  "atoi_bytes [] n = Inl OutOfBounds"
| "atoi_bytes (b # bs) n = (if byte_digit b then atoi_bytes bs (10 * n + (int (unat b) - 48)) else Inr n)"

fun atoi_buf :: "byte list \<Rightarrow> int result" where
  "atoi_buf [] = Inl OutOfBounds"
| "atoi_buf (b # bs) =
     (if b = 32 \<or> 9 \<le> b \<and> b \<le> 13 then atoi_buf bs
      else if b = 45 then rbind (atoi_bytes bs 0) (\<lambda>n. Inr (- n))
      else if b = 43 then atoi_bytes bs 0
      else atoi_bytes (b # bs) 0)"

definition sizeof_int :: int where "sizeof_int = 4"

text \<open>
  The pages that the loops visit: those entries of the inverted table that belong to the thread, or the valid entries of its
  own table. For each the page number and the frame.
\<close>

definition saved_pages :: "config \<Rightarrow> int \<Rightarrow> tentry list \<Rightarrow> nat list \<Rightarrow> (nat \<times> int \<times> int) list" where
  "saved_pages c tid t is =
     (if USE_RPT c
      then map (\<lambda>i. (i, te_vpn (t ! i), int i)) (filter (\<lambda>i. te_tID (t ! i) = tid \<and> te_valid (t ! i)) is)
      else map (\<lambda>i. (i, int i, te_ppn (t ! i))) (filter (\<lambda>i. te_valid (t ! i)) is))"

fun save_pages ::
    "machine \<Rightarrow> tentry list \<Rightarrow> byte list \<Rightarrow> byte list \<Rightarrow> int \<Rightarrow> (nat \<times> int \<times> int) list \<Rightarrow> (machine \<times> tentry list \<times> byte list) result" where
  "save_pages m t f buf offset [] = Inr (m, t, f)"
| "save_pages m t f buf offset ((i, vpn, ppn) # ps) =
     rbind (aread t (int i)) (\<lambda>e.
     rbind (awrite t (int i) (e\<lparr>te_valid := False\<rparr>)) (\<lambda>t.
     rbind (bm_Clear (mmBitmap m) ppn) (\<lambda>b.
     rbind (sprintf_d buf vpn) (\<lambda>buf.
     rbind (stub_WriteAt f (take (nat sizeof_int) buf) offset) (\<lambda>f.
     rbind (bcopy_from (mainMemory m) (ppn * PageSize) PageSize) (\<lambda>bs.
     rbind (stub_WriteAt f bs (offset + sizeof_int)) (\<lambda>f.
     save_pages (m\<lparr>mmBitmap := b\<rparr>) t f buf (offset + sizeof_int + PageSize) ps)))))))"

text \<open>\<open>f\<close> is the file, if \<^verbatim>\<open>Open\<close> finds it; \<open>n\<close> is the length of the table and \<open>buf\<close> the uninitialised buffer of 100 bytes.\<close>

definition SaveAThread ::
    "config \<Rightarrow> machine \<Rightarrow> int \<Rightarrow> tentry list \<Rightarrow> int \<Rightarrow> byte list option \<Rightarrow> byte list \<Rightarrow> (machine \<times> tentry list \<times> byte list) result" where
  "SaveAThread c m tid t n f buf =
     (case f of None \<Rightarrow> Inl AssertFailed
      | Some f \<Rightarrow>
          if int (length t) < n then Inl OutOfBounds
          else
            let ps = saved_pages c tid t [0..<nat n] in
            rbind (sprintf_d buf (int (length ps))) (\<lambda>buf.
            rbind (stub_WriteAt f (take (nat sizeof_int) buf) 0) (\<lambda>f.
            save_pages m t f buf sizeof_int ps)))"

fun load_pages ::
    "config \<Rightarrow> machine \<Rightarrow> int \<Rightarrow> tentry list \<Rightarrow> byte list \<Rightarrow> byte list \<Rightarrow> int \<Rightarrow> nat \<Rightarrow> (machine \<times> tentry list) result" where
  "load_pages c m tid t f buf offset 0 = Inr (m, t)"
| "load_pages c m tid t f buf offset (Suc n) =
     rbind (stub_ReadAt f (nat sizeof_int) offset) (\<lambda>bs.
     let buf = bs @ drop (length bs) buf in
     rbind (atoi_buf buf) (\<lambda>vpn.
     rbind (findAvailablePageFrame m) (\<lambda>(frame, m).
     rbind (if frame = - 1 then case pt m of None \<Rightarrow> Inl NullDeref | Some mt \<Rightarrow> findOneToReplace c m mt False else Inr frame) (\<lambda>frame.
     rbind (loadPageFrame c m tid t vpn frame (offset + sizeof_int) f) (\<lambda>(t, m).
     load_pages c m tid t f buf (offset + sizeof_int + PageSize) n)))))"

definition LoadAThread ::
    "config \<Rightarrow> machine \<Rightarrow> int \<Rightarrow> tentry list \<Rightarrow> byte list option \<Rightarrow> byte list \<Rightarrow> (machine \<times> tentry list) result" where
  "LoadAThread c m tid t f buf =
     (case f of None \<Rightarrow> Inl AssertFailed
      | Some f \<Rightarrow>
          rbind (stub_ReadAt f (nat sizeof_int) 0) (\<lambda>bs.
          let buf = bs @ drop (length bs) buf in
          rbind (atoi_buf buf) (\<lambda>numPages. load_pages c m tid t f buf sizeof_int (nat numPages))))"

section \<open>Suspended threads\<close>

text \<open>
  \<^verbatim>\<open>Scheduler::suspendAThread\<close> and \<^verbatim>\<open>restoreAThread\<close> of the system built with \<^verbatim>\<open>FILESYS_STUB\<close>; without it no file is opened and the
  assertion of \<open>SaveAThread\<close> fails. The result has the contents of the file \<^verbatim>\<open>thread<id>\<close>, which \<^verbatim>\<open>Create\<close> makes empty, and restoring takes them;
  the name of the file is removed afterwards. \<open>buf\<close> is the uninitialised buffer. The table of the thread is the inverted table or that of its address space.
\<close>

definition thread_table :: "config \<Rightarrow> kernel \<Rightarrow> thread \<Rightarrow> (tentry list \<times> int) result" where
  "thread_table c k t =
     (if USE_RPT c then case pt (k_machine k) of None \<Rightarrow> Inl NullDeref | Some tb \<Rightarrow> Inr (tb, NumPhysPages)
      else case t_space t of None \<Rightarrow> Inl NullDeref
        | Some sp \<Rightarrow> (case as_pt sp of None \<Rightarrow> Inl NullDeref | Some tb \<Rightarrow> Inr (tb, as_numPages sp)))"

definition put_table :: "config \<Rightarrow> kernel \<Rightarrow> addr \<Rightarrow> machine \<Rightarrow> tentry list \<Rightarrow> kernel result" where
  "put_table c k a m tb =
     (if USE_RPT c then Inr (k\<lparr>k_machine := m\<lparr>pt := Some tb\<rparr>\<rparr>)
      else upd_thread (k\<lparr>k_machine := m\<rparr>) a (\<lambda>t. t\<lparr>t_space := map_option (\<lambda>sp. sp\<lparr>as_pt := Some tb\<rparr>) (t_space t)\<rparr>))"

definition suspendAThread :: "config \<Rightarrow> kernel \<Rightarrow> byte list \<Rightarrow> (kernel \<times> byte list) result" where
  "suspendAThread c k buf =
     rbind (al_RemoveFront (k_blockList k)) (\<lambda>(a, b).
     rbind (get_thread k a) (\<lambda>t.
     rbind (al_Append (k_suspendList k) a) (\<lambda>q.
     rbind (thread_table c k t) (\<lambda>(tb, n).
     rbind (SaveAThread c (k_machine k) (t_threadID t) tb n (Some []) buf) (\<lambda>(m, tb, f).
     rbind (put_table c (k\<lparr>k_blockList := b, k_suspendList := q\<rparr>) a m tb) (\<lambda>k.
     rbind (upd_thread k a (\<lambda>t. t\<lparr>t_status := SUSPENDED\<rparr>)) (\<lambda>k. Inr (k, f))))))))"

definition restoreAThread :: "config \<Rightarrow> kernel \<Rightarrow> byte list option \<Rightarrow> byte list \<Rightarrow> kernel result" where
  "restoreAThread c k f buf =
     rbind (al_RemoveFront (k_suspendList k)) (\<lambda>(a, q).
     rbind (get_thread k a) (\<lambda>t.
     rbind (thread_table c k t) (\<lambda>(tb, n).
     rbind (LoadAThread c (k_machine k) (t_threadID t) tb f buf) (\<lambda>(m, tb).
     rbind (put_table c (k\<lparr>k_suspendList := q\<rparr>) a m tb) (\<lambda>k.
     rbind (al_Append (k_readyList k) a) (\<lambda>r.
     upd_thread (k\<lparr>k_readyList := r\<rparr>) a (\<lambda>t. t\<lparr>t_status := READY\<rparr>)))))))"

declare decimal.simps [simp del]

end
