(* ===== verification/Client_Calls.thy ===== *)
theory Client_Calls
  imports User_Prog
begin

text \<open>
  The routines built on threads and synchronisation: \<^verbatim>\<open>threads/synchlist.cc\<close>, the console (\<^verbatim>\<open>machine/console.cc\<close>,
  \<^verbatim>\<open>userprog/synchconsole.cc\<close>), the network and the post office (\<^verbatim>\<open>machine/network.cc\<close>, \<^verbatim>\<open>network/post.cc\<close>), and the tests of
  \<^verbatim>\<open>threads/kernel.cc\<close>, \<^verbatim>\<open>threads/thread.cc\<close>, \<^verbatim>\<open>threads/synch.cc\<close> and \<^verbatim>\<open>threads/main.cc\<close>. \<open>client_step\<close> executes a piece of such a
  routine up to the next calls, which are returned as frames. Loops with a fixed number of iterations are unrolled.
\<close>

definition upd_data :: "(client_data \<Rightarrow> client_data) \<Rightarrow> kernel \<Rightarrow> kernel" where
  "upd_data f k = k\<lparr>k_data := f (k_data k)\<rparr>"

definition get_result :: "kernel \<Rightarrow> int result" where
  "get_result k = rbind (get_thread k (k_current k)) (\<lambda>t. Inr (t_result t))"

definition set_result :: "int \<Rightarrow> kernel \<Rightarrow> kernel result" where
  "set_result x k = upd_thread k (k_current k) (\<lambda>t. t\<lparr>t_result := x\<rparr>)"

text \<open>A step that only makes calls.\<close>

abbreviation calls :: "frame list \<Rightarrow> kernel \<Rightarrow> (frame list \<times> kernel) result" where
  "calls fs k \<equiv> Inr (fs, k)"

section \<open>Synchronised lists\<close>

text \<open>The constructor, with addresses for the lock, the semaphore of the lock and the condition variable.\<close>

definition SynchList :: "kernel \<Rightarrow> addr \<Rightarrow> addr \<Rightarrow> addr \<Rightarrow> addr \<Rightarrow> kernel" where
  "SynchList k sl l s cv =
     upd_data (\<lambda>d. d\<lparr>d_lists := (d_lists d)(sl \<mapsto> \<lparr>sl_list = [], sl_lock = l, sl_listEmpty = cv\<rparr>)\<rparr>)
       (put_cond (put_lock (put_sem k s \<lparr>s_value = 1, s_queue = []\<rparr>) l \<lparr>l_semaphore = s, l_lockHolder = None\<rparr>) cv \<lparr>c_waitQueue = [], c_barrierNum = 0\<rparr>)"

definition get_synchlist :: "kernel \<Rightarrow> addr \<Rightarrow> synchlist result" where
  "get_synchlist k sl = (case d_lists (k_data k) sl of None \<Rightarrow> Inl NullDeref | Some x \<Rightarrow> Inr x)"

definition put_list :: "addr \<Rightarrow> synchlist \<Rightarrow> int list \<Rightarrow> kernel \<Rightarrow> kernel" where
  "put_list sl x xs = upd_data (\<lambda>d. d\<lparr>d_lists := (d_lists d)(sl \<mapsto> x\<lparr>sl_list := xs\<rparr>)\<rparr>)"

definition SynchList_Append_step :: "addr \<Rightarrow> int \<Rightarrow> kernel \<Rightarrow> (frame list \<times> kernel) result" where
  "SynchList_Append_step sl item k =
     rbind (get_synchlist k sl) (\<lambda>x.
     calls [Acquire (sl_lock x), Client (SynchList_Append_locked sl item), Signal (sl_listEmpty x) (sl_lock x), Release (sl_lock x)] k)"

definition SynchList_Append_locked_step :: "addr \<Rightarrow> int \<Rightarrow> kernel \<Rightarrow> (frame list \<times> kernel) result" where
  "SynchList_Append_locked_step sl item k =
     rbind (get_synchlist k sl) (\<lambda>x. rbind (al_Append (sl_list x) item) (\<lambda>xs. calls [] (put_list sl x xs k)))"

definition SynchList_RemoveFront_step :: "addr \<Rightarrow> kernel \<Rightarrow> (frame list \<times> kernel) result" where
  "SynchList_RemoveFront_step sl k =
     rbind (get_synchlist k sl) (\<lambda>x. calls [Acquire (sl_lock x), Client (SynchList_RemoveFront_locked sl)] k)"

text \<open>The loop, the removal, and the value that the routine returns after \<^verbatim>\<open>Release\<close>.\<close>

definition SynchList_RemoveFront_locked_step :: "addr \<Rightarrow> kernel \<Rightarrow> (frame list \<times> kernel) result" where
  "SynchList_RemoveFront_locked_step sl k =
     rbind (get_synchlist k sl) (\<lambda>x.
     if sl_list x = [] then calls [Wait (sl_listEmpty x) (sl_lock x), Client (SynchList_RemoveFront_locked sl)] k
     else rbind (al_RemoveFront (sl_list x)) (\<lambda>(item, xs).
          rbind (set_result item (put_list sl x xs k)) (\<lambda>k. calls [Release (sl_lock x)] k)))"

definition SynchList_RemoveSpecificOne_step :: "addr \<Rightarrow> int \<Rightarrow> kernel \<Rightarrow> (frame list \<times> kernel) result" where
  "SynchList_RemoveSpecificOne_step sl i k =
     rbind (get_synchlist k sl) (\<lambda>x. calls [Acquire (sl_lock x), Client (SynchList_Remove_locked sl i), Release (sl_lock x)] k)"

definition SynchList_Remove_locked_step :: "addr \<Rightarrow> int \<Rightarrow> kernel \<Rightarrow> (frame list \<times> kernel) result" where
  "SynchList_Remove_locked_step sl i k =
     rbind (get_synchlist k sl) (\<lambda>x. rbind (al_Remove (sl_list x) i) (\<lambda>xs. calls [] (put_list sl x xs k)))"

definition SynchList_Append_result_step :: "addr \<Rightarrow> kernel \<Rightarrow> (frame list \<times> kernel) result" where
  "SynchList_Append_result_step sl k = rbind (get_result k) (\<lambda>x. calls [Client (SynchList_Append sl x)] k)"

definition SynchList_assert_empty_step :: "addr \<Rightarrow> kernel \<Rightarrow> (frame list \<times> kernel) result" where
  "SynchList_assert_empty_step sl k = rbind (get_synchlist k sl) (\<lambda>x. rassert (sl_list x = []) (calls [] k))"

definition assert_result_step :: "int \<Rightarrow> kernel \<Rightarrow> (frame list \<times> kernel) result" where
  "assert_result_step val k = rbind (get_result k) (\<lambda>x. rassert (val = x) (calls [] k))"

definition delete_SynchList_step :: "addr \<Rightarrow> kernel \<Rightarrow> (frame list \<times> kernel) result" where
  "delete_SynchList_step sl k =
     rbind (get_synchlist k sl) (\<lambda>x.
     rbind (get_lock k (sl_lock x)) (\<lambda>l.
     calls [delete_Semaphore (l_semaphore l)]
       (upd_data (\<lambda>d. d\<lparr>d_lists := (d_lists d)(sl := None)\<rparr>)
         (k\<lparr>k_conds := (k_conds k)(sl_listEmpty x := None), k_locks := (k_locks k)(sl_lock x := None)\<rparr>))))"

definition SynchList_SelfTestHelper :: "addr \<Rightarrow> addr \<Rightarrow> frame list" where
  "SynchList_SelfTestHelper this selfTestPing =
     concat (replicate 10 [Client (SynchList_RemoveFront selfTestPing), Client (SynchList_Append_result this)])"

text \<open>\<open>selfTestPing\<close> is the new list and \<open>helper\<close> the new thread, with the uninitialised fields \<open>prio\<close> and \<open>remain\<close>.\<close>

definition SynchList_SelfTest :: "addr \<Rightarrow> addr \<Rightarrow> addr \<Rightarrow> int \<Rightarrow> int \<Rightarrow> int \<Rightarrow> frame list" where
  "SynchList_SelfTest this selfTestPing helper prio remain val =
     [NewThread helper prio remain, Client (SynchList_assert_empty this), Fork helper (SynchList_SelfTestHelper this selfTestPing)]
     @ concat (replicate 10 [Client (SynchList_Append selfTestPing val), Client (SynchList_RemoveFront this), Client (assert_result val)])
     @ [Client (delete_SynchList selfTestPing)]"


section \<open>The console\<close>

definition Console_GetChar_step :: "kernel \<Rightarrow> (frame list \<times> kernel) result" where
  "Console_GetChar_step k =
     (let ci = d_consoleIn (k_data k) in
      calls [Acquire (ci_lock ci), sem_P (ci_waitFor ci), Client Console_GetChar_locked, Release (ci_lock ci)] k)"

text \<open>\<^verbatim>\<open>ConsoleInput::GetChar\<close>. The input device is number 0, the output device number 1.\<close>

definition Console_GetChar_locked_step :: "kernel \<Rightarrow> (frame list \<times> kernel) result" where
  "Console_GetChar_locked_step k =
     (let ch = ci_incoming (d_consoleIn (k_data k)) in
      rbind (if ch \<noteq> EOF then Schedule k (Device 0) ConsoleTime ConsoleReadInt else Inr k) (\<lambda>k.
      rbind (set_result ch (upd_data (\<lambda>d. d\<lparr>d_consoleIn := (d_consoleIn d)\<lparr>ci_incoming := EOF\<rparr>\<rparr>) k)) (calls [])))"

definition Console_PutChar_step :: "int \<Rightarrow> kernel \<Rightarrow> (frame list \<times> kernel) result" where
  "Console_PutChar_step ch k =
     (let co = d_consoleOut (k_data k) in
      calls [Acquire (co_lock co), Client (Console_PutChar_locked ch), sem_P (co_waitFor co), Release (co_lock co)] k)"

text \<open>\<^verbatim>\<open>ConsoleOutput::PutChar\<close>.\<close>

definition Console_PutChar_locked_step :: "int \<Rightarrow> kernel \<Rightarrow> (frame list \<times> kernel) result" where
  "Console_PutChar_locked_step ch k =
     rassert (\<not> co_putBusy (d_consoleOut (k_data k)))
      (rbind (Schedule (upd_data (\<lambda>d. d\<lparr>d_consoleOut := (d_consoleOut d)\<lparr>co_written := co_written (d_consoleOut d) @ [word_of_int ch], co_putBusy := True\<rparr>\<rparr>) k)
          (Device 1) ConsoleTime ConsoleWriteInt) (calls []))"

text \<open>An iteration of the loop of \<^verbatim>\<open>ConsoleTest\<close>.\<close>

definition ConsoleTest_step :: "kernel \<Rightarrow> (frame list \<times> kernel) result" where
  "ConsoleTest_step k = calls [Client Console_GetChar, Client ConsoleTest_echo] k"

definition ConsoleTest_echo_step :: "kernel \<Rightarrow> (frame list \<times> kernel) result" where
  "ConsoleTest_echo_step k =
     rbind (get_result k) (\<lambda>ch. calls (if ch \<noteq> EOF then [Client (Console_PutChar ch), Client ConsoleTest] else []) k)"

text \<open>The interrupt handlers: the devices and the synchronised console that waits for them.\<close>

definition ConsoleInput_CallBack :: "kernel \<Rightarrow> kernel result" where
  "ConsoleInput_CallBack k =
     (let ci = d_consoleIn (k_data k) in
      rassert (ci_incoming ci = EOF)
       (case ci_polls ci of
          [] \<Rightarrow> V_body k (ci_waitFor ci)
        | None # ps \<Rightarrow> Schedule (upd_data (\<lambda>d. d\<lparr>d_consoleIn := ci\<lparr>ci_polls := ps\<rparr>\<rparr>) k) (Device 0) ConsoleTime ConsoleReadInt
        | Some ch # ps \<Rightarrow>
            V_body (set_stats (upd_data (\<lambda>d. d\<lparr>d_consoleIn := ci\<lparr>ci_polls := ps, ci_incoming := sint ch\<rparr>\<rparr>) k)
                ((k_stats k)\<lparr>numConsoleCharsRead := numConsoleCharsRead (k_stats k) + 1\<rparr>)) (ci_waitFor ci)))"

definition ConsoleOutput_CallBack :: "kernel \<Rightarrow> kernel result" where
  "ConsoleOutput_CallBack k =
     V_body (set_stats (upd_data (\<lambda>d. d\<lparr>d_consoleOut := (d_consoleOut d)\<lparr>co_putBusy := False\<rparr>\<rparr>) k)
         ((k_stats k)\<lparr>numConsoleCharsWritten := numConsoleCharsWritten (k_stats k) + 1\<rparr>)) (co_waitFor (d_consoleOut (k_data k)))"

text \<open>The constructors, with the addresses of the lock, its semaphore and the semaphore \<^verbatim>\<open>waitFor\<close>.\<close>

definition SynchConsoleInput :: "kernel \<Rightarrow> byte option list \<Rightarrow> addr \<Rightarrow> addr \<Rightarrow> addr \<Rightarrow> kernel result" where
  "SynchConsoleInput k polls l s w =
     rbind (Schedule k (Device 0) ConsoleTime ConsoleReadInt) (\<lambda>k.
     Inr (upd_data (\<lambda>d. d\<lparr>d_consoleIn := \<lparr>ci_polls = polls, ci_incoming = EOF, ci_lock = l, ci_waitFor = w\<rparr>\<rparr>)
       (put_sem (put_lock (put_sem k s \<lparr>s_value = 1, s_queue = []\<rparr>) l \<lparr>l_semaphore = s, l_lockHolder = None\<rparr>) w \<lparr>s_value = 0, s_queue = []\<rparr>)))"

definition SynchConsoleOutput :: "kernel \<Rightarrow> addr \<Rightarrow> addr \<Rightarrow> addr \<Rightarrow> kernel" where
  "SynchConsoleOutput k l s w =
     upd_data (\<lambda>d. d\<lparr>d_consoleOut := \<lparr>co_written = [], co_putBusy = False, co_lock = l, co_waitFor = w\<rparr>\<rparr>)
       (put_sem (put_lock (put_sem k s \<lparr>s_value = 1, s_queue = []\<rparr>) l \<lparr>l_semaphore = s, l_lockHolder = None\<rparr>) w \<lparr>s_value = 0, s_queue = []\<rparr>)"

section \<open>The network\<close>

text \<open>Headers as they are in memory: two signed integers and the unsigned length.\<close>

definition header_bytes :: "int \<Rightarrow> int \<Rightarrow> int \<Rightarrow> byte list" where
  "header_bytes to from len = le32 (word_of_int to) @ le32 (word_of_int from) @ le32 (word_of_int len)"

definition uint_at :: "byte list \<Rightarrow> nat \<Rightarrow> int" where
  "uint_at bs i = uint (un_le32 (take 4 (drop (4 * i) bs)))"

definition PacketHeader_bytes :: "packet_header \<Rightarrow> byte list" where
  "PacketHeader_bytes h = header_bytes (pkt_to h) (pkt_from h) (pkt_length h)"

definition PacketHeader_at :: "byte list \<Rightarrow> packet_header" where
  "PacketHeader_at bs = \<lparr>pkt_to = int_at bs 0, pkt_from = int_at bs 1, pkt_length = uint_at bs 2\<rparr>"

definition MailHeader_bytes :: "mail_header \<Rightarrow> byte list" where
  "MailHeader_bytes h = header_bytes (mail_to h) (mail_from h) (mail_length h)"

definition MailHeader_at :: "byte list \<Rightarrow> mail_header" where
  "MailHeader_at bs = \<lparr>mail_to = int_at bs 0, mail_from = int_at bs 1, mail_length = uint_at bs 2\<rparr>"

text \<open>The input device is number 2, the output device number 3.\<close>

definition NetworkInput_CallBack :: "kernel \<Rightarrow> kernel result" where
  "NetworkInput_CallBack k =
     rbind (Schedule k (Device 2) NetworkTime NetworkRecvInt) (\<lambda>k.
     let ni = d_networkIn (k_data k) in
     if pkt_length (ni_inHdr ni) \<noteq> 0 then Inr k
     else
       case ni_polls ni of
         [] \<Rightarrow> Inr k
       | None # ps \<Rightarrow> Inr (upd_data (\<lambda>d. d\<lparr>d_networkIn := ni\<lparr>ni_polls := ps\<rparr>\<rparr>) k)
       | Some buffer # ps \<Rightarrow>
           rassert (int (length buffer) = MaxWireSize)
            (let hdr = PacketHeader_at buffer in
             rassert (pkt_to hdr = d_hostName (k_data k) \<and> pkt_length hdr \<le> MaxPacketSize)
              (rbind (bcopy_from buffer sizeof_PacketHeader (pkt_length hdr)) (\<lambda>bs.
               rbind (bcopy_to (ni_inbox ni) 0 bs) (\<lambda>inbox.
               V_body (set_stats (upd_data (\<lambda>d. d\<lparr>d_networkIn := ni\<lparr>ni_polls := ps, ni_inHdr := hdr, ni_inbox := inbox\<rparr>\<rparr>) k)
                  ((k_stats k)\<lparr>numPacketsRecvd := numPacketsRecvd (k_stats k) + 1\<rparr>)) (ni_messageAvailable ni))))))"

definition NetworkInput_Receive :: "network_input \<Rightarrow> byte list \<Rightarrow> (packet_header \<times> byte list \<times> network_input) result" where
  "NetworkInput_Receive ni data =
     (let hdr = ni_inHdr ni; ni = ni\<lparr>ni_inHdr := hdr\<lparr>pkt_length := 0\<rparr>\<rparr> in
      if pkt_length hdr \<noteq> 0
      then rbind (bcopy_from (ni_inbox ni) 0 (pkt_length hdr)) (\<lambda>bs. rbind (bcopy_to data 0 bs) (\<lambda>data. Inr (hdr, data, ni)))
      else Inr (hdr, data, ni))"

definition NetworkOutput_CallBack :: "kernel \<Rightarrow> kernel result" where
  "NetworkOutput_CallBack k =
     V_body (set_stats (upd_data (\<lambda>d. d\<lparr>d_networkOut := (d_networkOut d)\<lparr>no_sendBusy := False\<rparr>\<rparr>) k)
         ((k_stats k)\<lparr>numPacketsSent := numPacketsSent (k_stats k) + 1\<rparr>)) (no_messageSent (d_networkOut (k_data k)))"

definition Network_Send_step :: "packet_header \<Rightarrow> byte list \<Rightarrow> kernel \<Rightarrow> (frame list \<times> kernel) result" where
  "Network_Send_step hdr data k =
     (let no = d_networkOut (k_data k) in
      rassert (\<not> no_sendBusy no \<and> pkt_length hdr > 0 \<and> pkt_length hdr \<le> MaxPacketSize \<and> pkt_from hdr = d_hostName (k_data k))
       (rbind (Schedule k (Device 3) NetworkTime NetworkSendInt) (\<lambda>k.
        let r = k_random k 0; k = k\<lparr>k_random := (\<lambda>n. k_random k (Suc n))\<rparr> in
        if r mod 100 \<ge> no_chance no then calls [] k
        else
          rbind (bcopy_from data 0 (pkt_length hdr)) (\<lambda>bs.
          rbind (bcopy_to (no_new no) 0 (PacketHeader_bytes hdr)) (\<lambda>buffer.
          rbind (bcopy_to buffer sizeof_PacketHeader bs) (\<lambda>buffer.
          calls [] (upd_data (\<lambda>d. d\<lparr>d_networkOut := no\<lparr>no_sent := no_sent no @ [(pkt_to hdr, buffer)]\<rparr>\<rparr>) k)))))))"

section \<open>The post office\<close>

definition Mail :: "packet_header \<Rightarrow> mail_header \<Rightarrow> byte list \<Rightarrow> mail result" where
  "Mail pktH mailH msgData =
     rassert (mail_length mailH \<le> MaxMailSize)
      (rbind (bcopy_from msgData 0 (mail_length mailH)) (\<lambda>bs. Inr \<lparr>ml_pktHdr = pktH, ml_mailHdr = mailH, ml_data = bs\<rparr>))"

text \<open>The loop of the postal worker, from the call of \<^verbatim>\<open>P\<close> and from there to the call of \<^verbatim>\<open>Append\<close> in \<^verbatim>\<open>MailBox::Put\<close>.\<close>

definition PostalDelivery_step :: "kernel \<Rightarrow> (frame list \<times> kernel) result" where
  "PostalDelivery_step k = calls [sem_P (ni_messageAvailable (d_networkIn (k_data k))), Client PostalDelivery_receive] k"

definition PostalDelivery_receive_step :: "kernel \<Rightarrow> (frame list \<times> kernel) result" where
  "PostalDelivery_receive_step k =
     (let po = d_post (k_data k) in
      rbind (NetworkInput_Receive (d_networkIn (k_data k)) (po_buffer po)) (\<lambda>(pktHdr, buffer, ni).
      let mailHdr = MailHeader_at buffer in
      rassert (0 \<le> mail_to mailHdr \<and> mail_to mailHdr < int (length (po_boxes po)))
       (rassert (mail_length mailHdr \<le> MaxMailSize)
         (rbind (Mail pktHdr mailHdr (drop (nat sizeof_MailHeader) buffer)) (\<lambda>m.
          calls [Client (SynchList_Append (po_boxes po ! nat (mail_to mailHdr)) (po_fresh po)), Client PostalDelivery]
            (upd_data (\<lambda>d. d\<lparr>d_networkIn := ni,
               d_post := po\<lparr>po_buffer := buffer, po_mails := (po_mails po)(po_fresh po \<mapsto> m), po_fresh := po_fresh po + 1\<rparr>\<rparr>) k))))))"

definition Post_Receive_step :: "int \<Rightarrow> kernel \<Rightarrow> (frame list \<times> kernel) result" where
  "Post_Receive_step box k =
     rassert (0 \<le> box \<and> box < int (length (po_boxes (d_post (k_data k)))))
      (calls [Client (SynchList_RemoveFront (po_boxes (d_post (k_data k)) ! nat box)), Client MailBox_Get] k)"

text \<open>The rest of \<^verbatim>\<open>MailBox::Get\<close> and of \<^verbatim>\<open>Receive\<close>: the message is copied to the caller and deleted.\<close>

definition MailBox_Get_step :: "kernel \<Rightarrow> (frame list \<times> kernel) result" where
  "MailBox_Get_step k =
     (let po = d_post (k_data k) in
      rbind (get_result k) (\<lambda>x.
      case po_mails po x of None \<Rightarrow> Inl NullDeref
      | Some m \<Rightarrow>
          rassert (mail_length (ml_mailHdr m) \<le> MaxMailSize)
           (calls [] (upd_data (\<lambda>d. d\<lparr>d_post := po\<lparr>po_got := (po_got po)(k_current k \<mapsto> m), po_mails := (po_mails po)(x := None)\<rparr>\<rparr>) k))))"

definition Post_Send_step :: "packet_header \<Rightarrow> mail_header \<Rightarrow> byte list \<Rightarrow> kernel \<Rightarrow> (frame list \<times> kernel) result" where
  "Post_Send_step pktHdr mailHdr data k =
     rassert (mail_length mailHdr \<le> MaxMailSize)
      (rassert (0 \<le> mail_to mailHdr)
        (let no = d_networkOut (k_data k);
             pktHdr = pktHdr\<lparr>pkt_from := d_hostName (k_data k), pkt_length := mail_length mailHdr + sizeof_MailHeader\<rparr> in
         rbind (bcopy_from data 0 (mail_length mailHdr)) (\<lambda>bs.
         calls [Acquire (no_sendLock no), Client (Network_Send pktHdr (MailHeader_bytes mailHdr @ bs)), sem_P (no_messageSent no),
           Release (no_sendLock no)] k)))"

text \<open>\<^verbatim>\<open>NetworkTest\<close>. \<open>out\<close> is the uninitialised packet header.\<close>

definition hello :: "byte list" where
  "hello = [72, 101, 108, 108, 111, 32, 116, 104, 101, 114, 101, 33, 0]"

definition got_it :: "byte list" where
  "got_it = [71, 111, 116, 32, 105, 116, 33, 0]"

definition NetworkTest :: "int \<Rightarrow> packet_header \<Rightarrow> frame list" where
  "NetworkTest hostName out =
     (if hostName = 0 \<or> hostName = 1
      then [Client (Post_Send (out\<lparr>pkt_to := if hostName = 0 then 1 else 0\<rparr>) \<lparr>mail_to = 0, mail_from = 1, mail_length = int (length hello)\<rparr> hello),
            Client (Post_Receive 0), Client NetworkTest_ack, Client (Post_Receive 1)]
      else [])"

definition NetworkTest_ack_step :: "kernel \<Rightarrow> (frame list \<times> kernel) result" where
  "NetworkTest_ack_step k =
     (case po_got (d_post (k_data k)) (k_current k) of None \<Rightarrow> Inl NullDeref
      | Some m \<Rightarrow>
          calls [Client (Post_Send ((ml_pktHdr m)\<lparr>pkt_to := pkt_from (ml_pktHdr m)\<rparr>)
            \<lparr>mail_to = mail_from (ml_mailHdr m), mail_from = 1, mail_length = int (length got_it)\<rparr> got_it)] k)"

section \<open>The tests\<close>

text \<open>\<^verbatim>\<open>while(!kernel->scheduler->isReadyListEmpty()) kernel->currentThread->Yield();\<close>\<close>

definition while_ready_step :: "kernel \<Rightarrow> (frame list \<times> kernel) result" where
  "while_ready_step k = calls (if isReadyListEmpty k then [] else [Yield, Client while_ready]) k"

text \<open>Threads with the addresses \<open>as\<close> are created and forked one after the other; \<open>prio\<close> and \<open>remain\<close> are their uninitialised fields.\<close>

definition fork_all :: "int \<Rightarrow> int \<Rightarrow> addr list \<Rightarrow> (int \<Rightarrow> frame list) \<Rightarrow> frame list" where
  "fork_all prio remain as body = concat (map (\<lambda>(i, a). [NewThread a prio remain, Fork a (body (int i))]) (enumerate 0 as))"

definition MAX_PRODUCE_ARRAY_NUM :: int where "MAX_PRODUCE_ARRAY_NUM = 50"
definition PRODUCER_NUM :: nat where "PRODUCER_NUM = 1"
definition CONSUMER_NUM :: nat where "CONSUMER_NUM = 2"
definition PRODUCE_TIMES :: int where "PRODUCE_TIMES = 50"
definition CONSUME_TIMES :: nat where "CONSUME_TIMES = 25"
definition TEST_THREAD_NUM :: nat where "TEST_THREAD_NUM = 5"
definition READER_NUM :: nat where "READER_NUM = 5"
definition WRITER_NUM :: nat where "WRITER_NUM = 3"
definition READ_CONTENT_SIZE :: int where "READ_CONTENT_SIZE = 100"

lemmas test_consts = MAX_PRODUCE_ARRAY_NUM_def PRODUCER_NUM_def CONSUMER_NUM_def PRODUCE_TIMES_def CONSUME_TIMES_def
  TEST_THREAD_NUM_def READER_NUM_def WRITER_NUM_def READ_CONTENT_SIZE_def

text \<open>Producers and consumers with semaphores. \<close>

definition produce_item_step :: "int \<Rightarrow> kernel \<Rightarrow> (frame list \<times> kernel) result" where
  "produce_item_step i k =
     rbind (awrite (d_produceArray (k_data k)) (d_high (k_data k)) i) (\<lambda>arr.
     calls [] (upd_data (\<lambda>d. d\<lparr>d_produceArray := arr, d_high := d_high d + 1\<rparr>) k))"

definition consume_item_step :: "kernel \<Rightarrow> (frame list \<times> kernel) result" where
  "consume_item_step k =
     rbind (aread (d_produceArray (k_data k)) (d_low (k_data k) + 1)) (\<lambda>x.
     calls [] (upd_data (\<lambda>d. d\<lparr>d_low := d_low d + 1, d_consumed := d_consumed d @ [x]\<rparr>) k))"

definition Produce :: "addr \<Rightarrow> addr \<Rightarrow> addr \<Rightarrow> frame list" where
  "Produce isFull isEmpty produceArrayLock =
     concat (map (\<lambda>i. [sem_P isEmpty, Acquire produceArrayLock, Client (produce_item i), Release produceArrayLock, sem_V isFull]) [0..PRODUCE_TIMES - 1])"

definition Consume :: "addr \<Rightarrow> addr \<Rightarrow> addr \<Rightarrow> frame list" where
  "Consume isFull isEmpty produceArrayLock =
     concat (replicate CONSUME_TIMES [sem_P isFull, Acquire produceArrayLock, Client consume_item, Release produceArrayLock, sem_V isEmpty])"

definition MyProducerConsumer1_objects :: "kernel \<Rightarrow> addr \<Rightarrow> addr \<Rightarrow> addr \<Rightarrow> addr \<Rightarrow> kernel" where
  "MyProducerConsumer1_objects k isFull isEmpty l s =
     upd_data (\<lambda>d. d\<lparr>d_high := 0, d_low := - 1, d_produceArray := replicate (nat MAX_PRODUCE_ARRAY_NUM) (- 1)\<rparr>)
       (put_lock (put_sem (put_sem (put_sem k isFull \<lparr>s_value = 0, s_queue = []\<rparr>) isEmpty \<lparr>s_value = MAX_PRODUCE_ARRAY_NUM, s_queue = []\<rparr>)
          s \<lparr>s_value = 1, s_queue = []\<rparr>) l \<lparr>l_semaphore = s, l_lockHolder = None\<rparr>)"

definition MyProducerConsumer1 :: "int \<Rightarrow> int \<Rightarrow> addr list \<Rightarrow> addr list \<Rightarrow> addr \<Rightarrow> addr \<Rightarrow> addr \<Rightarrow> frame list" where
  "MyProducerConsumer1 prio remain producers consumers isFull isEmpty l =
     fork_all prio remain (take PRODUCER_NUM producers) (\<lambda>i. Produce isFull isEmpty l)
     @ fork_all prio remain (take CONSUMER_NUM consumers) (\<lambda>i. Consume isFull isEmpty l) @ [Client while_ready]"

text \<open>Producers and consumers with a synchronised list.\<close>

definition Produce1 :: "addr \<Rightarrow> frame list" where
  "Produce1 produceList = map (\<lambda>i. Client (SynchList_Append produceList i)) [0..PRODUCE_TIMES - 1]"

definition Consume1 :: "addr \<Rightarrow> frame list" where
  "Consume1 produceList = concat (replicate CONSUME_TIMES [Client (SynchList_RemoveFront produceList), Client show_result])"

definition show_result_step :: "kernel \<Rightarrow> (frame list \<times> kernel) result" where
  "show_result_step k = rbind (get_result k) (\<lambda>x. calls [] (upd_data (\<lambda>d. d\<lparr>d_shown := d_shown d @ [x]\<rparr>) k))"

definition MyProducerConsumer2 :: "int \<Rightarrow> int \<Rightarrow> addr list \<Rightarrow> addr list \<Rightarrow> addr \<Rightarrow> frame list" where
  "MyProducerConsumer2 prio remain producers consumers produceList =
     fork_all prio remain (take PRODUCER_NUM producers) (\<lambda>i. Produce1 produceList)
     @ fork_all prio remain (take CONSUMER_NUM consumers) (\<lambda>i. Consume1 produceList) @ [Client while_ready]"

definition testBarrier :: "addr \<Rightarrow> addr \<Rightarrow> frame list" where
  "testBarrier barrier barrierMutex = [Acquire barrierMutex, Barrier barrier barrierMutex, Release barrierMutex]"

definition MyBarrier :: "int \<Rightarrow> int \<Rightarrow> addr list \<Rightarrow> addr \<Rightarrow> addr \<Rightarrow> frame list" where
  "MyBarrier prio remain test barrier barrierMutex =
     fork_all prio remain (take TEST_THREAD_NUM test) (\<lambda>i. testBarrier barrier barrierMutex) @ [Client while_ready]"

text \<open>Readers and writers.\<close>

definition reader_enter_step :: "addr \<Rightarrow> kernel \<Rightarrow> (frame list \<times> kernel) result" where
  "reader_enter_step wLock k =
     (let n = d_readerCount (k_data k) + 1 in calls (if n = 1 then [Acquire wLock] else []) (upd_data (\<lambda>d. d\<lparr>d_readerCount := n\<rparr>) k))"

definition read_item_step :: "int \<Rightarrow> kernel \<Rightarrow> (frame list \<times> kernel) result" where
  "read_item_step i k =
     rbind (aread (d_readContent (k_data k)) i) (\<lambda>x. calls [] (upd_data (\<lambda>d. d\<lparr>d_seen := d_seen d @ [x]\<rparr>) k))"

definition reader_leave_step :: "addr \<Rightarrow> kernel \<Rightarrow> (frame list \<times> kernel) result" where
  "reader_leave_step wLock k =
     (let n = d_readerCount (k_data k) - 1 in calls (if n = 0 then [Release wLock] else []) (upd_data (\<lambda>d. d\<lparr>d_readerCount := n\<rparr>) k))"

definition write_item_step :: "int \<Rightarrow> kernel \<Rightarrow> (frame list \<times> kernel) result" where
  "write_item_step i k =
     rbind (awrite (d_readContent (k_data k)) i (i * 2 + 1)) (\<lambda>xs. calls [] (upd_data (\<lambda>d. d\<lparr>d_readContent := xs\<rparr>) k))"

definition MyReader :: "addr \<Rightarrow> addr \<Rightarrow> int \<Rightarrow> frame list" where
  "MyReader wLock rwMutex which =
     concat (map (\<lambda>i. [Acquire rwMutex, Client (reader_enter wLock), Release rwMutex, Client (read_item i),
        Acquire rwMutex, Client (reader_leave wLock), Release rwMutex]) [which..which + 9])"

definition MyWriter :: "addr \<Rightarrow> int \<Rightarrow> frame list" where
  "MyWriter wLock which = concat (map (\<lambda>i. [Acquire wLock, Client (write_item i), Release wLock]) [which..which + 9])"

definition MyReaderWriter_objects :: "kernel \<Rightarrow> addr \<Rightarrow> addr \<Rightarrow> addr \<Rightarrow> addr \<Rightarrow> kernel" where
  "MyReaderWriter_objects k wLock s rwMutex s' =
     upd_data (\<lambda>d. d\<lparr>d_readerCount := 0, d_readContent := [1..READ_CONTENT_SIZE]\<rparr>)
       (put_lock (put_sem (put_lock (put_sem k s \<lparr>s_value = 1, s_queue = []\<rparr>) wLock \<lparr>l_semaphore = s, l_lockHolder = None\<rparr>)
          s' \<lparr>s_value = 1, s_queue = []\<rparr>) rwMutex \<lparr>l_semaphore = s', l_lockHolder = None\<rparr>)"

definition MyReaderWriter :: "int \<Rightarrow> int \<Rightarrow> addr list \<Rightarrow> addr list \<Rightarrow> addr \<Rightarrow> addr \<Rightarrow> frame list" where
  "MyReaderWriter prio remain readers writers wLock rwMutex =
     fork_all prio remain (take READER_NUM readers) (MyReader wLock rwMutex)
     @ fork_all prio remain (take WRITER_NUM writers) (MyWriter wLock) @ [Client while_ready]"

text \<open>The self test of semaphores: \<open>ping\<close> is the new semaphore and \<open>helper\<close> the new thread.\<close>

definition assert_value_step :: "addr \<Rightarrow> kernel \<Rightarrow> (frame list \<times> kernel) result" where
  "assert_value_step s k = rbind (get_sem k s) (\<lambda>x. rassert (s_value x = 0) (calls [] k))"

definition SelfTestHelper :: "addr \<Rightarrow> addr \<Rightarrow> frame list" where
  "SelfTestHelper ping pong = concat (replicate 10 [sem_P ping, sem_V pong])"

definition Semaphore_SelfTest :: "addr \<Rightarrow> addr \<Rightarrow> addr \<Rightarrow> int \<Rightarrow> int \<Rightarrow> frame list" where
  "Semaphore_SelfTest this ping helper prio remain =
     [NewThread helper prio remain, Client (assert_value this), Fork helper (SelfTestHelper ping this)]
     @ concat (replicate 10 [sem_V ping, sem_P this]) @ [delete_Semaphore ping]"

text \<open>\<^verbatim>\<open>SimpleThread\<close> and the tests of threads. \<open>t2\<close> and \<open>t3\<close> are the addresses of the new threads.\<close>

definition SimpleThread_loop_step :: "nat \<Rightarrow> kernel \<Rightarrow> (frame list \<times> kernel) result" where
  "SimpleThread_loop_step n k =
     calls (case n of 0 \<Rightarrow> [] | Suc m \<Rightarrow> [SetLevel IntOff, SetLevel (k_level k), Client (SimpleThread_loop m)]) k"

definition SimpleThread_iterations :: "int \<Rightarrow> int \<Rightarrow> nat" where
  "SimpleThread_iterations typeno which =
     (if typeno = 0 \<or> typeno = 1 then 5 else if typeno = 2 then 100
      else if typeno = 3 then (if which = 1 then 500 else if which = 2 then 100 else if which = 3 then 20 else 0)
      else 0)"

definition SimpleThread_rest :: "int \<Rightarrow> int \<Rightarrow> frame list" where
  "SimpleThread_rest typeno which = [Client (SimpleThread_loop (SimpleThread_iterations typeno which))]"

definition SimpleThread_2 :: "int \<Rightarrow> int \<Rightarrow> int \<Rightarrow> addr \<Rightarrow> frame list" where
  "SimpleThread_2 typeno prio remain t3 =
     (if typeno \<noteq> 0
      then [NewThread t3 prio remain] @ (if typeno = 1 then [SetPriority t3 7] else []) @ [Fork t3 (SimpleThread_rest typeno 3)]
      else []) @ SimpleThread_rest typeno 2"

definition SimpleThread :: "int \<Rightarrow> int \<Rightarrow> int \<Rightarrow> addr \<Rightarrow> addr \<Rightarrow> int \<Rightarrow> frame list" where
  "SimpleThread typeno prio remain t2 t3 which =
     (if which = 2 then SimpleThread_2 typeno prio remain t3
      else (if typeno \<noteq> 0 \<and> which = 1
            then [NewThread t2 prio remain] @ (if typeno = 1 then [SetPriority t2 4] else [])
              @ [Fork t2 (SimpleThread_2 typeno prio remain t3)]
            else []) @ SimpleThread_rest typeno which)"

definition Thread_SelfTest :: "int \<Rightarrow> int \<Rightarrow> int \<Rightarrow> addr \<Rightarrow> addr \<Rightarrow> addr \<Rightarrow> frame list" where
  "Thread_SelfTest typeno prio remain t t2 t3 =
     [NewThread t prio remain, Fork t (SimpleThread typeno prio remain t2 t3 1), Yield] @ SimpleThread typeno prio remain t2 t3 0"

text \<open>The loop of \<^verbatim>\<open>MyThreadTest\<close> for the first policy; the thread \<^verbatim>\<open>t[i]\<close> is at the address \<open>base + i\<close>. The arrays have
  \<^verbatim>\<open>MaxThreadNum+5\<close> elements.\<close>

definition MyThreadTest_loop_step :: "addr \<Rightarrow> int \<Rightarrow> int \<Rightarrow> nat \<Rightarrow> kernel \<Rightarrow> (frame list \<times> kernel) result" where
  "MyThreadTest_loop_step base prio remain i k =
     (if int i < MaxThreadNum + 5
      then calls [NewThread (base + i) prio remain, Fork (base + i) (SimpleThread_rest 0 (int i)), Client (MyThreadTest_loop base prio remain (Suc i))] k
      else Inl OutOfBounds)"

definition MyThreadTest :: "int \<Rightarrow> int \<Rightarrow> int \<Rightarrow> addr \<Rightarrow> addr \<Rightarrow> addr \<Rightarrow> frame list" where
  "MyThreadTest typeno prio remain base t2 t3 =
     (if typeno = 0 then [Client (MyThreadTest_loop base prio remain 1)]
      else if 1 \<le> typeno \<and> typeno \<le> 3
      then [NewThread base prio remain] @ (if typeno = 1 then [SetPriority base 7] else [])
        @ [Fork base (SimpleThread typeno prio remain t2 t3 1), Client while_ready]
      else [])"

section \<open>The main program\<close>

definition bzero_memory_step :: "kernel \<Rightarrow> (frame list \<times> kernel) result" where
  "bzero_memory_step k = calls [] (k\<lparr>k_machine := (k_machine k)\<lparr>mainMemory := map (\<lambda>_. 0) (mainMemory (k_machine k))\<rparr>\<rparr>)"

definition SimpleUserThread_step ::
    "config \<Rightarrow> byte list option \<Rightarrow> addrspace \<Rightarrow> byte list \<Rightarrow> (nat \<Rightarrow> tentry) \<Rightarrow> kernel \<Rightarrow> (frame list \<times> kernel) result" where
  "SimpleUserThread_step c executable sp buf pt0 k =
     rbind (AddrSpace c sp executable buf pt0) (\<lambda>sp. rbind (Execute c k sp) (calls [UserRun]))"

definition Halt_step :: "kernel \<Rightarrow> (frame list \<times> kernel) result" where
  "Halt_step k = calls [] (k\<lparr>k_halted := True\<rparr>)"

text \<open>The last part of \<^verbatim>\<open>main\<close>: three threads run the same program.\<close>

definition main_user :: "int \<Rightarrow> int \<Rightarrow> addr list \<Rightarrow> byte list option \<Rightarrow> addrspace \<Rightarrow> byte list \<Rightarrow> (nat \<Rightarrow> tentry) \<Rightarrow> frame list" where
  "main_user prio remain ts executable sp buf pt0 =
     Client bzero_memory # fork_all prio remain (take 3 ts) (\<lambda>i. [Client (SimpleUserThread executable sp buf pt0)]) @ [Client while_ready, Client Halt]"

section \<open>Every routine\<close>

definition client_step :: "config \<Rightarrow> client \<Rightarrow> kernel \<Rightarrow> (frame list \<times> kernel) result" where
  "client_step c op =
     (case op of
        SynchList_Append sl x \<Rightarrow> SynchList_Append_step sl x
      | SynchList_Append_locked sl x \<Rightarrow> SynchList_Append_locked_step sl x
      | SynchList_Append_result sl \<Rightarrow> SynchList_Append_result_step sl
      | SynchList_RemoveFront sl \<Rightarrow> SynchList_RemoveFront_step sl
      | SynchList_RemoveFront_locked sl \<Rightarrow> SynchList_RemoveFront_locked_step sl
      | SynchList_RemoveSpecificOne sl x \<Rightarrow> SynchList_RemoveSpecificOne_step sl x
      | SynchList_Remove_locked sl x \<Rightarrow> SynchList_Remove_locked_step sl x
      | SynchList_assert_empty sl \<Rightarrow> SynchList_assert_empty_step sl
      | assert_result x \<Rightarrow> assert_result_step x
      | assert_value s \<Rightarrow> assert_value_step s
      | delete_SynchList sl \<Rightarrow> delete_SynchList_step sl
      | Console_GetChar \<Rightarrow> Console_GetChar_step
      | Console_GetChar_locked \<Rightarrow> Console_GetChar_locked_step
      | Console_PutChar ch \<Rightarrow> Console_PutChar_step ch
      | Console_PutChar_locked ch \<Rightarrow> Console_PutChar_locked_step ch
      | ConsoleTest \<Rightarrow> ConsoleTest_step
      | ConsoleTest_echo \<Rightarrow> ConsoleTest_echo_step
      | PostalDelivery \<Rightarrow> PostalDelivery_step
      | PostalDelivery_receive \<Rightarrow> PostalDelivery_receive_step
      | Post_Receive box \<Rightarrow> Post_Receive_step box
      | MailBox_Get \<Rightarrow> MailBox_Get_step
      | Post_Send pktHdr mailHdr bs \<Rightarrow> Post_Send_step pktHdr mailHdr bs
      | Network_Send hdr bs \<Rightarrow> Network_Send_step hdr bs
      | NetworkTest_ack \<Rightarrow> NetworkTest_ack_step
      | while_ready \<Rightarrow> while_ready_step
      | produce_item i \<Rightarrow> produce_item_step i
      | consume_item \<Rightarrow> consume_item_step
      | show_result \<Rightarrow> show_result_step
      | reader_enter l \<Rightarrow> reader_enter_step l
      | read_item i \<Rightarrow> read_item_step i
      | reader_leave l \<Rightarrow> reader_leave_step l
      | write_item i \<Rightarrow> write_item_step i
      | SimpleThread_loop n \<Rightarrow> SimpleThread_loop_step n
      | MyThreadTest_loop base prio remain i \<Rightarrow> MyThreadTest_loop_step base prio remain i
      | bzero_memory \<Rightarrow> bzero_memory_step
      | SimpleUserThread executable sp buf pt0 \<Rightarrow> SimpleUserThread_step c executable sp buf pt0
      | Halt \<Rightarrow> Halt_step)"

definition exec_Client :: "config \<Rightarrow> kernel \<Rightarrow> client \<Rightarrow> kernel result" where
  "exec_Client c k op = rbind (client_step c op k) (\<lambda>(fs, k). push fs k)"

text \<open>
  The interrupt handlers: those of the console and the network by the numbers of the devices. That of the synchronous disk, like those of
  any other device \<open>n\<close>, wakes the thread that waits at the semaphore \<open>W n\<close>.
\<close>

definition signal_device :: "(nat \<Rightarrow> addr option) \<Rightarrow> devices" where
  "signal_device W n k = (case W n of None \<Rightarrow> Inr k | Some s \<Rightarrow> V_body k s)"

definition kernel_devices :: "(nat \<Rightarrow> addr option) \<Rightarrow> devices" where
  "kernel_devices W n =
     (if n = 0 then ConsoleInput_CallBack else if n = 1 then ConsoleOutput_CallBack
      else if n = 2 then NetworkInput_CallBack else if n = 3 then NetworkOutput_CallBack
      else signal_device W n)"

end
