(* ===== verification/Kernel_Run.thy ===== *)
theory Kernel_Run
  imports Client_Calls
begin

text \<open>
  The system as a whole: \<open>kernel_step\<close> makes the next call of the current thread, and \<open>Kernel_Initialize\<close> starts the system.
\<close>

section \<open>The system\<close>

definition exec_frame :: "devices \<Rightarrow> config \<Rightarrow> kernel \<Rightarrow> frame \<Rightarrow> kernel result" where
  "exec_frame D c k f =
     (case f of
        sem_P s \<Rightarrow> exec_P k s
      | sem_V s \<Rightarrow> exec_V k s
      | Acquire l \<Rightarrow> exec_Acquire k l
      | Release l \<Rightarrow> exec_Release k l
      | Wait cv l \<Rightarrow> exec_Wait k cv l
      | Signal cv l \<Rightarrow> exec_Signal k cv l
      | Broadcast cv l \<Rightarrow> exec_Broadcast k cv l
      | Barrier cv l \<Rightarrow> exec_Barrier k cv l
      | Yield \<Rightarrow> exec_Yield D c k
      | SetLevel now \<Rightarrow> exec_SetLevel D k now
      | NewThread a prio remain \<Rightarrow> Thread_new k a prio remain
      | SetPriority a p \<Rightarrow> upd_thread k a (\<lambda>t. t\<lparr>t_priority := p\<rparr>)
      | Fork a body \<Rightarrow> exec_Fork k a body
      | Finish \<Rightarrow> exec_Finish k
      | P_loop s old \<Rightarrow> exec_P_loop k s old
      | Sleep_loop fin \<Rightarrow> exec_Sleep_loop D c k fin
      | after_SWITCH \<Rightarrow> exec_after_SWITCH c k
      | set_status st \<Rightarrow> Inr (setStatus k st)
      | Fork_check \<Rightarrow> exec_Fork_check k
      | set_lockHolder l \<Rightarrow> exec_set_lockHolder k l
      | delete_Semaphore s \<Rightarrow> Inr (k\<lparr>k_sems := (k_sems k)(s := None)\<rparr>)
      | ThreadBegin \<Rightarrow> exec_ThreadBegin k
      | Client op \<Rightarrow> exec_Client c k op
      | UserRun \<Rightarrow> exec_UserRun D c k)"

definition pop :: "kernel \<Rightarrow> (frame \<times> kernel) result" where
  "pop k =
     rbind (get_thread k (k_current k)) (\<lambda>t.
     case t_frames t of [] \<Rightarrow> Inl NullDeref
     | f # fs \<Rightarrow> rbind (upd_thread k (k_current k) (\<lambda>t. t\<lparr>t_frames := fs\<rparr>)) (\<lambda>k. Inr (f, k)))"

definition kernel_step :: "devices \<Rightarrow> config \<Rightarrow> kernel \<Rightarrow> kernel result" where
  "kernel_step D c k = (if k_halted k then Inr k else rbind (pop k) (\<lambda>(f, k). exec_frame D c k f))"

fun kernel_run :: "nat \<Rightarrow> devices \<Rightarrow> config \<Rightarrow> kernel \<Rightarrow> kernel result" where
  "kernel_run 0 D c k = Inr k"
| "kernel_run (Suc n) D c k = rbind (kernel_step D c k) (kernel_run n D c)"

section \<open>Constructors and the start of the system\<close>

definition Semaphore :: "int \<Rightarrow> semaphore" where
  "Semaphore initialValue = \<lparr>s_value = initialValue, s_queue = []\<rparr>"

text \<open>A lock and its semaphore, at the address \<open>s\<close>.\<close>

definition Lock :: "kernel \<Rightarrow> addr \<Rightarrow> addr \<Rightarrow> kernel" where
  "Lock k l s = put_lock (put_sem k s (Semaphore 1)) l \<lparr>l_semaphore = s, l_lockHolder = None\<rparr>"

definition Condition :: condition where
  "Condition = \<lparr>c_waitQueue = [], c_barrierNum = 0\<rparr>"

definition Interrupt :: "kernel \<Rightarrow> kernel" where
  "Interrupt k = setStatus (k\<lparr>k_level := IntOff, k_pending := [], k_inHandler := False, k_yieldOnReturn := False\<rparr>) SystemMode"

definition Scheduler :: "kernel \<Rightarrow> kernel" where
  "Scheduler k = k\<lparr>k_readyList := [], k_sortedReadyList := [], k_threadArrQueue := replicate (nat QueueNum) [],
     k_suspendList := [], k_blockList := [], k_toBeDestroyed := None\<rparr>"

definition Timer :: "kernel \<Rightarrow> bool \<Rightarrow> kernel result" where
  "Timer k doRandom = Timer_SetInterrupt (k\<lparr>k_randomize := doRandom, k_timerDisable := False\<rparr>)"

definition Alarm :: "kernel \<Rightarrow> bool \<Rightarrow> kernel result" where
  "Alarm k doRandom = Timer k doRandom"

text \<open>
  \<^verbatim>\<open>Kernel::Initialize\<close> for the kernel object \<open>k\<close>, whose fields may hold anything. The main thread
  is at the address \<open>a\<close>; \<open>prio\<close>, \<open>remain\<close>, \<open>junk\<close>, \<open>tlb0\<close>, \<open>pt0\<close>, \<open>ptsize\<close>, \<open>exe\<close> and \<open>hdr\<close> are the values of fields that the
  constructors leave alone, and \<open>devs\<close> are the interrupts that the constructors of the consoles schedule. The rest of the
  main program is \<open>body\<close>: it starts with \<^verbatim>\<open>interrupt->Enable()\<close>.
\<close>

fun schedule_all :: "kernel \<Rightarrow> (callback \<times> int \<times> int_type) list \<Rightarrow> kernel result" where
  "schedule_all k [] = Inr k"
| "schedule_all k ((obj, fromNow, type) # ds) = rbind (Schedule k obj fromNow type) (\<lambda>k. schedule_all k ds)"

definition Kernel_Initialize ::
    "config \<Rightarrow> kernel \<Rightarrow> bool \<Rightarrow> bool \<Rightarrow> addr \<Rightarrow> int \<Rightarrow> int \<Rightarrow> int \<Rightarrow> tentry list \<Rightarrow> tentry list \<Rightarrow> int \<Rightarrow> byte list option
     \<Rightarrow> noff_header \<Rightarrow> (callback \<times> int \<times> int_type) list \<Rightarrow> frame list \<Rightarrow> kernel result" where
  "Kernel_Initialize c k randomSlice debugUserProg a prio remain junk tlb0 pt0 ptsize exe hdr devs body =
     rbind (Thread_new (k\<lparr>k_threadArray := replicate (nat MaxThreadNum) None\<rparr>) a prio remain) (\<lambda>k.
     let k = k\<lparr>k_current := a\<rparr> in
     rbind (if k_typeno k = 1 then upd_thread k a (\<lambda>t. t\<lparr>t_priority := 8\<rparr>) else Inr k) (\<lambda>k.
     rbind (upd_thread k a (\<lambda>t. t\<lparr>t_status := RUNNING\<rparr>)) (\<lambda>k.
     rbind (Alarm (Scheduler (Interrupt (set_stats k (Statistics junk)))) randomSlice) (\<lambda>k.
     rbind (Machine c tlb0 pt0 ptsize debugUserProg (k_stats k) (getStatus k) 0 None exe hdr) (\<lambda>m.
     rbind (schedule_all (k\<lparr>k_machine := m, k_halted := False\<rparr>) devs) (\<lambda>k.
     rbind (push (SetLevel IntOn # body) k) follow_current))))))"

end
