(* ===== verification/Hash_Lib.thy ===== *)
theory Hash_Lib
  imports List_Lib
begin

text \<open>
  The self-expanding hash table of \<^verbatim>\<open>lib/hash.h\<close> and \<^verbatim>\<open>lib/hash.cc\<close>: an array of buckets,
  each a linked list of \<^verbatim>\<open>lib/list.h\<close>, grown four-fold by \<^verbatim>\<open>ReHash\<close> when there are three
  items per bucket. The two function pointers of the class are fields of the record. A table
  is related to the set of items it holds; the interface \<open>keyed_table\<close> states what lookups
  return after insertions and removals, and is interpreted on the translated operations. The
  counters are unbounded integers: a table of \<open>2^31\<close> buckets exceeds the address space.
\<close>

section \<open>The table and its operations\<close>

definition InitialBuckets :: int where "InitialBuckets = 4"
definition ResizeRatio :: int where "ResizeRatio = 3"
definition IncreaseSizeBy :: int where "IncreaseSizeBy = 4"

record ('k, 'a) hashtable =
  ht_buckets :: "'a nlist list"
  ht_numBuckets :: int
  ht_numItems :: int
  ht_getKey :: "'a \<Rightarrow> 'k"
  ht_hash :: "'k \<Rightarrow> u32"

definition ht_InitBuckets :: "('k, 'a) hashtable \<Rightarrow> int \<Rightarrow> ('k, 'a) hashtable" where
  "ht_InitBuckets t sz = t\<lparr>ht_numBuckets := sz, ht_buckets := replicate (nat sz) List_new\<rparr>"

definition HashTable :: "('a \<Rightarrow> 'k) \<Rightarrow> ('k \<Rightarrow> u32) \<Rightarrow> ('k, 'a) hashtable" where
  "HashTable get hFunc =
     ht_InitBuckets \<lparr>ht_buckets = [], ht_numBuckets = 0, ht_numItems = 0,
                     ht_getKey = get, ht_hash = hFunc\<rparr> InitialBuckets"

definition ht_HashValue :: "('k, 'a) hashtable \<Rightarrow> 'k \<Rightarrow> int result" where
  "ht_HashValue t key =
     (if ht_numBuckets t = 0 then Inl ArithTrap
      else let result = uint (ht_hash t key) mod ht_numBuckets t
           in rassert (result \<ge> 0 \<and> result < ht_numBuckets t) (Inr result))"

definition ht_IsEmpty :: "('k, 'a) hashtable \<Rightarrow> bool" where
  "ht_IsEmpty t = (ht_numItems t = 0)"

text \<open>\<^verbatim>\<open>FindInBucket\<close>: the item found, or \<open>None\<close> where the source returns \<open>FALSE\<close> and \<open>NULL\<close>.\<close>

fun find_bucket_loop ::
    "nat \<Rightarrow> ('a \<Rightarrow> 'k) \<Rightarrow> (nat \<Rightarrow> 'a elem option) \<Rightarrow> nat option \<Rightarrow> 'k \<Rightarrow> 'a option result" where
  "find_bucket_loop 0 getKey h current key = Inl Diverges"
| "find_bucket_loop (Suc n) getKey h current key =
     (case current of None \<Rightarrow> Inr None
      | Some _ \<Rightarrow> rbind (deref h current) (\<lambda>(a, e).
          if key = getKey (el_item e) then Inr (Some (el_item e))
          else find_bucket_loop n getKey h (el_next e) key))"

definition ht_FindInBucket :: "('k, 'a) hashtable \<Rightarrow> int \<Rightarrow> 'k \<Rightarrow> 'a option result" where
  "ht_FindInBucket t bucket key =
     rbind (aread (ht_buckets t) bucket) (\<lambda>l.
       find_bucket_loop (Suc (l_fresh l)) (ht_getKey t) (l_cells l) (l_first l) key)"

definition ht_Find :: "('k, 'a) hashtable \<Rightarrow> 'k \<Rightarrow> 'a option result" where
  "ht_Find t key = rbind (ht_HashValue t key) (\<lambda>bucket. ht_FindInBucket t bucket key)"

definition ht_IsInTable :: "('k, 'a) hashtable \<Rightarrow> 'k \<Rightarrow> bool result" where
  "ht_IsInTable t key = rbind (ht_Find t key) (\<lambda>r. Inr (r \<noteq> None))"

text \<open>\<^verbatim>\<open>SanityCheck\<close>: the loop over the items of bucket \<open>i\<close>, and the loop over the buckets.\<close>

fun bucket_check_loop ::
    "nat \<Rightarrow> ('k, 'a) hashtable \<Rightarrow> int \<Rightarrow> (nat \<Rightarrow> 'a elem option) \<Rightarrow> nat option \<Rightarrow> unit result" where
  "bucket_check_loop 0 t i h current = Inl Diverges"
| "bucket_check_loop (Suc n) t i h current =
     (case current of None \<Rightarrow> Inr ()
      | Some _ \<Rightarrow> rbind (deref h current) (\<lambda>(a, e).
          rbind (ht_HashValue t (ht_getKey t (el_item e))) (\<lambda>v. rassert (i = v)
            (bucket_check_loop n t i h (el_next e)))))"

function ht_sanity_loop :: "('k, 'a) hashtable \<Rightarrow> int \<Rightarrow> int \<Rightarrow> int result" where
  "ht_sanity_loop t i numFound =
     (if i < ht_numBuckets t
      then rbind (aread (ht_buckets t) i) (\<lambda>l.
           rbind (list_SanityCheck l) (\<lambda>_.
           rbind (bucket_check_loop (Suc (l_fresh l)) t i (l_cells l) (l_first l)) (\<lambda>_.
             ht_sanity_loop t (i + 1) (numFound + list_NumInList l))))
      else Inr numFound)"
  by pat_completeness auto
termination
  by (relation "measure (\<lambda>(t, i, n). nat (ht_numBuckets t - i))") auto

definition ht_SanityCheck :: "('k, 'a) hashtable \<Rightarrow> unit result" where
  "ht_SanityCheck t =
     rbind (ht_sanity_loop t 0 0) (\<lambda>numFound. rassert (ht_numItems t = numFound) (Inr ()))"

text \<open>\<^verbatim>\<open>buckets[HashValue(getKey(item))]->Append(item)\<close>\<close>

definition bucket_put :: "('k, 'a) hashtable \<Rightarrow> 'a \<Rightarrow> ('k, 'a) hashtable result" where
  "bucket_put t item =
     rbind (ht_HashValue t (ht_getKey t item)) (\<lambda>i.
     rbind (aread (ht_buckets t) i) (\<lambda>l.
     rbind (list_Append l item) (\<lambda>l'.
     rbind (awrite (ht_buckets t) i l') (\<lambda>bs. Inr (t\<lparr>ht_buckets := bs\<rparr>)))))"

text \<open>
  \<^verbatim>\<open>ReHash\<close>: \<open>rehash_bucket\<close> is the \<^verbatim>\<open>while\<close> loop that empties one old bucket,
  \<open>rehash_loop\<close> the loop over the old table.
\<close>

fun rehash_bucket :: "nat \<Rightarrow> ('k, 'a) hashtable \<Rightarrow> 'a nlist \<Rightarrow> ('k, 'a) hashtable result" where
  "rehash_bucket 0 t l = Inl Diverges"
| "rehash_bucket (Suc n) t l =
     (if list_IsEmpty l then Inr t
      else rbind (list_RemoveFront l) (\<lambda>(item, l').
           rbind (bucket_put t item) (\<lambda>t'. rehash_bucket n t' l')))"

function rehash_loop ::
    "('k, 'a) hashtable \<Rightarrow> 'a nlist list \<Rightarrow> int \<Rightarrow> int \<Rightarrow> ('k, 'a) hashtable result" where
  "rehash_loop t oldTable oldSize i =
     (if i < oldSize
      then rbind (aread oldTable i) (\<lambda>l.
           rbind (rehash_bucket (Suc (l_fresh l)) t l) (\<lambda>t'. rehash_loop t' oldTable oldSize (i + 1)))
      else Inr t)"
  by pat_completeness auto
termination
  by (relation "measure (\<lambda>(t, b, s, i). nat (s - i))") auto

definition ht_ReHash :: "('k, 'a) hashtable \<Rightarrow> ('k, 'a) hashtable result" where
  "ht_ReHash t =
     (let oldTable = ht_buckets t; oldSize = ht_numBuckets t in
      rbind (ht_SanityCheck t) (\<lambda>_.
      rbind (rehash_loop (ht_InitBuckets t (ht_numBuckets t * IncreaseSizeBy)) oldTable oldSize 0) (\<lambda>t'.
      rbind (ht_SanityCheck t') (\<lambda>_. Inr t'))))"

definition ht_Insert :: "('k, 'a) hashtable \<Rightarrow> 'a \<Rightarrow> ('k, 'a) hashtable result" where
  "ht_Insert t item =
     (let key = ht_getKey t item in
      rbind (ht_IsInTable t key) (\<lambda>b. rassert (\<not> b)
     (rbind (if ht_numBuckets t = 0 then Inl ArithTrap
             else if cdiv (ht_numItems t) (ht_numBuckets t) \<ge> ResizeRatio then ht_ReHash t
             else Inr t) (\<lambda>t.
      rbind (bucket_put t item) (\<lambda>t.
      let t = t\<lparr>ht_numItems := ht_numItems t + 1\<rparr> in
      rbind (ht_IsInTable t key) (\<lambda>b. rassert b (Inr t)))))))"

definition ht_Remove :: "('k, 'a) hashtable \<Rightarrow> 'k \<Rightarrow> ('a \<times> ('k, 'a) hashtable) result" where
  "ht_Remove t key =
     rbind (ht_HashValue t key) (\<lambda>bucket.
     rbind (ht_FindInBucket t bucket key) (\<lambda>found.
     case found of None \<Rightarrow> Inl AssertFailed
     | Some item \<Rightarrow>
         rbind (aread (ht_buckets t) bucket) (\<lambda>l.
         rbind (list_Remove l item) (\<lambda>l'.
         rbind (awrite (ht_buckets t) bucket l') (\<lambda>bs.
         let t = t\<lparr>ht_buckets := bs, ht_numItems := ht_numItems t - 1\<rparr> in
         rbind (ht_IsInTable t key) (\<lambda>b. rassert (\<not> b) (Inr (item, t))))))))"

function ht_apply_loop :: "('k, 'a) hashtable \<Rightarrow> int \<Rightarrow> ('a \<Rightarrow> 's \<Rightarrow> 's) \<Rightarrow> 's \<Rightarrow> 's result" where
  "ht_apply_loop t bucket func s =
     (if bucket < ht_numBuckets t
      then rbind (aread (ht_buckets t) bucket) (\<lambda>l.
           rbind (list_Apply l func s) (\<lambda>s'. ht_apply_loop t (bucket + 1) func s'))
      else Inr s)"
  by pat_completeness auto
termination
  by (relation "measure (\<lambda>(t, i, f, s). nat (ht_numBuckets t - i))") auto

definition ht_Apply :: "('k, 'a) hashtable \<Rightarrow> ('a \<Rightarrow> 's \<Rightarrow> 's) \<Rightarrow> 's \<Rightarrow> 's result" where
  "ht_Apply t func s = ht_apply_loop t 0 func s"

function ht_FindNextFullBucket :: "('k, 'a) hashtable \<Rightarrow> int \<Rightarrow> int result" where
  "ht_FindNextFullBucket t bucket =
     (if bucket < ht_numBuckets t
      then rbind (aread (ht_buckets t) bucket) (\<lambda>l.
             if \<not> list_IsEmpty l then Inr bucket else ht_FindNextFullBucket t (bucket + 1))
      else Inr bucket)"
  by pat_completeness auto
termination
  by (relation "measure (\<lambda>(t, i). nat (ht_numBuckets t - i))") auto

text \<open>
  The iterator. \<open>it_current\<close> is the \<^verbatim>\<open>current\<close> pointer of the bucket's \<^verbatim>\<open>ListIterator\<close>; it
  is \<open>None\<close> when \<^verbatim>\<open>bucketIter\<close> is \<open>NULL\<close>, which is when the iteration is done.
\<close>

record hash_iter =
  it_bucket :: int
  it_current :: "nat option"

definition start_bucket :: "('k, 'a) hashtable \<Rightarrow> int \<Rightarrow> hash_iter result" where
  "start_bucket t bucket =
     (if bucket < ht_numBuckets t
      then rbind (aread (ht_buckets t) bucket) (\<lambda>l. Inr \<lparr>it_bucket = bucket, it_current = l_first l\<rparr>)
      else Inr \<lparr>it_bucket = bucket, it_current = None\<rparr>)"

definition HashIterator :: "('k, 'a) hashtable \<Rightarrow> hash_iter result" where
  "HashIterator t = rbind (ht_FindNextFullBucket t 0) (start_bucket t)"

definition it_IsDone :: "('k, 'a) hashtable \<Rightarrow> hash_iter \<Rightarrow> bool" where
  "it_IsDone t it = (it_bucket it = ht_numBuckets t)"

definition it_Item :: "('k, 'a) hashtable \<Rightarrow> hash_iter \<Rightarrow> 'a result" where
  "it_Item t it =
     rassert (\<not> it_IsDone t it)
       (rbind (aread (ht_buckets t) (it_bucket it)) (\<lambda>l.
        rassert (it_current it \<noteq> None)
          (rbind (deref (l_cells l) (it_current it)) (\<lambda>(a, e). Inr (el_item e)))))"

definition it_Next :: "('k, 'a) hashtable \<Rightarrow> hash_iter \<Rightarrow> hash_iter result" where
  "it_Next t it =
     rbind (aread (ht_buckets t) (it_bucket it)) (\<lambda>l.
     rbind (deref (l_cells l) (it_current it)) (\<lambda>(a, e).
       if el_next e = None
       then rbind (ht_FindNextFullBucket t (it_bucket it + 1)) (start_bucket t)
       else Inr (it\<lparr>it_current := el_next e\<rparr>)))"

fun ht_test_insert :: "('k, 'a) hashtable \<Rightarrow> 'a list \<Rightarrow> ('k, 'a) hashtable result" where
  "ht_test_insert t [] = Inr t"
| "ht_test_insert t (x # p) =
     rbind (ht_Insert t x) (\<lambda>t. rbind (ht_IsInTable t (ht_getKey t x)) (\<lambda>b. rassert b
       (rassert (\<not> ht_IsEmpty t) (ht_test_insert t p))))"

fun ht_test_remove :: "('k, 'a) hashtable \<Rightarrow> 'a list \<Rightarrow> ('k, 'a) hashtable result" where
  "ht_test_remove t [] = Inr t"
| "ht_test_remove t (x # p) =
     rbind (ht_Remove t (ht_getKey t x)) (\<lambda>(y, t). rassert (y = x) (ht_test_remove t p))"

definition ht_SelfTest :: "('k, 'a) hashtable \<Rightarrow> 'a list \<Rightarrow> ('k, 'a) hashtable result" where
  "ht_SelfTest t p =
     rbind (HashIterator t) (\<lambda>iterator.
     rbind (ht_SanityCheck t) (\<lambda>_. rassert (ht_IsEmpty t)
    (rassert (it_IsDone t iterator)
    (rbind (ht_test_insert t p) (\<lambda>t.
     rbind (ht_test_remove t p) (\<lambda>t. rassert (ht_IsEmpty t)
    (rbind (ht_SanityCheck t) (\<lambda>_. Inr t))))))))"

declare ht_sanity_loop.simps [simp del] rehash_loop.simps [simp del] ht_apply_loop.simps [simp del]
  ht_FindNextFullBucket.simps [simp del]

section \<open>What a table holds\<close>

lemma set_concat_nth: "set (concat xss) = (\<Union>j < length xss. set (xss ! j))"
  by (simp add: set_conv_nth [of xss]) (auto simp del: nth_mem)

text \<open>
  \<open>ht_part t xss\<close>: bucket \<open>i\<close> of the table represents the sequence \<open>xss ! i\<close>, every item of
  it hashes to \<open>i\<close>, and the keys in it are distinct. \<open>ht_holds t S\<close>: in addition the items
  are those of \<open>S\<close>, \<^verbatim>\<open>numItems\<close> counts them, and there are at most three per bucket.
\<close>

definition bucket_of :: "('k, 'a) hashtable \<Rightarrow> 'k \<Rightarrow> nat" where
  "bucket_of t k = nat (uint (ht_hash t k) mod ht_numBuckets t)"

definition ht_part :: "('k, 'a) hashtable \<Rightarrow> 'a list list \<Rightarrow> bool" where
  "ht_part t xss \<longleftrightarrow> 0 < ht_numBuckets t \<and> length xss = nat (ht_numBuckets t)
     \<and> list_all2 list_abs (ht_buckets t) xss
     \<and> (\<forall>i < length xss. distinct (map (ht_getKey t) (xss ! i))
          \<and> (\<forall>x \<in> set (xss ! i). bucket_of t (ht_getKey t x) = i))"

definition ht_holds :: "('k, 'a) hashtable \<Rightarrow> 'a set \<Rightarrow> bool" where
  "ht_holds t S \<longleftrightarrow> (\<exists>xss. ht_part t xss \<and> S = set (concat xss)
     \<and> ht_numItems t = int (length (concat xss)) \<and> ht_numItems t \<le> ResizeRatio * ht_numBuckets t)"

lemma find_bucket_loop_lseg:
  "lseg h p cs None \<Longrightarrow> length cs < n \<Longrightarrow>
     find_bucket_loop n g h p key = Inr (List.find (\<lambda>x. key = g x) (map snd cs))"
proof (induction cs arbitrary: p n)
  case Nil
  then show ?case by (cases n) auto
next
  case (Cons c cs)
  then show ?case by (cases n; cases c) auto
qed

lemma bucket_check_loop_lseg:
  "lseg h p cs None \<Longrightarrow> length cs < n \<Longrightarrow>
     \<forall>x \<in> snd ` set cs. ht_HashValue t (ht_getKey t x) = Inr i \<Longrightarrow>
     bucket_check_loop n t i h p = Inr ()"
proof (induction cs arbitrary: p n)
  case Nil
  then show ?case by (cases n) auto
next
  case (Cons c cs)
  then show ?case by (cases n; cases c) auto
qed

lemma ht_HashValue_ok: "0 < ht_numBuckets t \<Longrightarrow> ht_HashValue t k = Inr (int (bucket_of t k))"
  by (simp add: ht_HashValue_def bucket_of_def)

lemma part_bucket_less: "ht_part t xss \<Longrightarrow> bucket_of t k < length xss"
  by (simp add: ht_part_def bucket_of_def nat_less_iff zless_nat_conj)

lemma part_lengths:
  "ht_part t xss \<Longrightarrow> length (ht_buckets t) = length xss \<and> int (length xss) = ht_numBuckets t"
  by (auto simp: ht_part_def dest: list_all2_lengthD)

lemma part_bucket: "ht_part t xss \<Longrightarrow> i < length xss \<Longrightarrow> list_abs (ht_buckets t ! i) (xss ! i)"
  by (auto simp: ht_part_def list_all2_conv_all_nth)

lemma part_aread:
  "ht_part t xss \<Longrightarrow> i < length xss \<Longrightarrow> aread (ht_buckets t) (int i) = Inr (ht_buckets t ! i)"
  using part_lengths [of t xss] by simp

lemma part_HashValue: "ht_part t xss \<Longrightarrow> ht_HashValue t k = Inr (int (bucket_of t k))"
  by (simp add: ht_HashValue_ok ht_part_def)

lemma find_distinct:
  "distinct (map f xs) \<Longrightarrow> x \<in> set xs \<Longrightarrow> List.find (\<lambda>y. f x = f y) xs = Some x"
  by (induction xs) (auto simp: rev_image_eqI)

lemma part_FindInBucket:
  assumes p: "ht_part t xss" and i: "i < length xss"
  shows "ht_FindInBucket t (int i) k = Inr (List.find (\<lambda>x. k = ht_getKey t x) (xss ! i))"
proof -
  obtain cs where cs: "list_rep (ht_buckets t ! i) cs" "xss ! i = map snd cs"
    using part_bucket [OF p i] by (auto simp: list_abs_def)
  have "length cs < Suc (l_fresh (ht_buckets t ! i))" using list_rep_length [OF cs(1)] by simp
  then show ?thesis
    using find_bucket_loop_lseg [of "l_cells (ht_buckets t ! i)" "l_first (ht_buckets t ! i)" cs] cs
      part_aread [OF p i]
    by (simp add: ht_FindInBucket_def list_rep_def del: find_bucket_loop.simps)
qed

lemma part_in_bucket:
  "ht_part t xss \<Longrightarrow> x \<in> set (concat xss) \<longleftrightarrow> x \<in> set (xss ! bucket_of t (ht_getKey t x))"
  using part_bucket_less [of t xss "ht_getKey t x"] unfolding set_concat_nth
  by (auto simp: ht_part_def)

lemma part_FindInBucket_hit:
  assumes "ht_part t xss" and "x \<in> set (concat xss)"
  shows "ht_FindInBucket t (int (bucket_of t (ht_getKey t x))) (ht_getKey t x) = Inr (Some x)"
  using part_FindInBucket [OF assms(1) part_bucket_less [OF assms(1)]] assms
    part_in_bucket [OF assms(1)] part_bucket_less [OF assms(1)]
  by (simp add: find_distinct ht_part_def)

lemma part_FindInBucket_miss:
  assumes "ht_part t xss" and "k \<notin> ht_getKey t ` set (concat xss)"
  shows "ht_FindInBucket t (int (bucket_of t k)) k = Inr None"
proof -
  have "xss ! bucket_of t k \<in> set xss" using part_bucket_less [OF assms(1)] by simp
  then have "List.find (\<lambda>x. k = ht_getKey t x) (xss ! bucket_of t k) = None"
    using assms(2) by (auto simp: find_None_iff)
  then show ?thesis by (simp add: part_FindInBucket [OF assms(1) part_bucket_less [OF assms(1)]])
qed

lemma part_Find:
  assumes "ht_part t xss"
  shows "x \<in> set (concat xss) \<Longrightarrow> ht_Find t (ht_getKey t x) = Inr (Some x)"
    and "k \<notin> ht_getKey t ` set (concat xss) \<Longrightarrow> ht_Find t k = Inr None"
    and "ht_IsInTable t k = Inr (k \<in> ht_getKey t ` set (concat xss))"
proof -
  show a: "x \<in> set (concat xss) \<Longrightarrow> ht_Find t (ht_getKey t x) = Inr (Some x)" for x
    using part_FindInBucket_hit [OF assms, of x] part_HashValue [OF assms] by (simp add: ht_Find_def)
  show b: "k \<notin> ht_getKey t ` set (concat xss) \<Longrightarrow> ht_Find t k = Inr None"
    using part_FindInBucket_miss [OF assms, of k] part_HashValue [OF assms] by (simp add: ht_Find_def)
  show "ht_IsInTable t k = Inr (k \<in> ht_getKey t ` set (concat xss))"
    using a b by (cases "k \<in> ht_getKey t ` set (concat xss)") (fastforce simp: ht_IsInTable_def)+
qed

lemma nth_update_if: "j < length xs \<Longrightarrow> xs[i := x] ! j = (if i = j then x else xs ! j)"
  by simp

text \<open>Replacing the sequence of one bucket by another that is legal for it.\<close>

lemma part_update:
  assumes p: "ht_part t xss" and l: "list_abs l' ys"
    and ys: "distinct (map (ht_getKey t) ys)" "\<forall>x \<in> set ys. bucket_of t (ht_getKey t x) = i"
  shows "ht_part (t\<lparr>ht_buckets := (ht_buckets t)[i := l']\<rparr>) (xss[i := ys])"
proof -
  have b: "bucket_of (t\<lparr>ht_buckets := bs\<rparr>) = bucket_of t" for bs
    by (simp add: bucket_of_def fun_eq_iff)
  show ?thesis
    using assms by (auto simp: ht_part_def b nth_update_if list_all2_conv_all_nth split: if_splits)
qed

lemma length_concat_update:
  "i < length xss \<Longrightarrow> length (concat (xss[i := ys])) + length (xss ! i) = length (concat xss) + length ys"
  by (induction xss arbitrary: i) (auto split: nat.split)

lemma set_concat_update:
  "i < length xss \<Longrightarrow> set (concat (xss[i := ys])) = set ys \<union> (\<Union>j \<in> {..<length xss} - {i}. set (xss ! j))"
  unfolding set_concat_nth by (auto simp: nth_list_update split: if_splits)

lemma set_concat_split:
  "i < length xss \<Longrightarrow> set (concat xss) = set (xss ! i) \<union> (\<Union>j \<in> {..<length xss} - {i}. set (xss ! j))"
  using set_concat_update [of i xss "xss ! i"] by simp

lemma part_put:
  assumes p: "ht_part t xss" and k: "ht_getKey t x \<notin> ht_getKey t ` set (concat xss)"
  shows "\<exists>bs yss. bucket_put t x = Inr (t\<lparr>ht_buckets := bs\<rparr>) \<and> ht_part (t\<lparr>ht_buckets := bs\<rparr>) yss
    \<and> set (concat yss) = insert x (set (concat xss)) \<and> length (concat yss) = Suc (length (concat xss))"
proof -
  let ?i = "bucket_of t (ht_getKey t x)"
  have i: "?i < length xss" by (rule part_bucket_less [OF p])
  have sub: "set (xss ! ?i) \<subseteq> set (concat xss)" using i unfolding set_concat_nth by auto
  then have x: "x \<notin> set (xss ! ?i)" using k by auto
  obtain l where l: "list_Append (ht_buckets t ! ?i) x = Inr l" "list_abs l (xss ! ?i @ [x])"
    using ll.append_new [OF part_bucket [OF p i] x] by auto
  let ?yss = "xss[?i := xss ! ?i @ [x]]"
  have "ht_part (t\<lparr>ht_buckets := (ht_buckets t)[?i := l]\<rparr>) ?yss"
  proof (rule part_update [OF p l(2)])
    show "distinct (map (ht_getKey t) (xss ! ?i @ [x]))"
      using p i k sub by (auto simp: ht_part_def simp del: set_concat)
    show "\<forall>y \<in> set (xss ! ?i @ [x]). bucket_of t (ht_getKey t y) = ?i"
      using p i by (auto simp: ht_part_def)
  qed
  moreover have "set (concat ?yss) = insert x (set (concat xss))"
    using set_concat_split [OF i] set_concat_update [OF i, of "xss ! ?i @ [x]"]
    by (simp del: set_concat)
  moreover have "length (concat ?yss) = Suc (length (concat xss))"
    using length_concat_update [OF i, of "xss ! ?i @ [x]"] by simp
  moreover have "bucket_put t x = Inr (t\<lparr>ht_buckets := (ht_buckets t)[?i := l]\<rparr>)"
    using l(1) i part_lengths [OF p]
    by (simp add: bucket_put_def part_HashValue [OF p])
  ultimately show ?thesis by blast
qed


section \<open>Growing the table\<close>

lemma rehash_bucket_ok:
  assumes "ht_part t xss" and "list_abs l ys" and "length ys < n"
    and "inj_on (ht_getKey t) (set (concat xss) \<union> set ys)" and "set ys \<inter> set (concat xss) = {}"
  shows "\<exists>bs yss. rehash_bucket n t l = Inr (t\<lparr>ht_buckets := bs\<rparr>) \<and> ht_part (t\<lparr>ht_buckets := bs\<rparr>) yss
    \<and> set (concat yss) = set (concat xss) \<union> set ys
    \<and> length (concat yss) = length (concat xss) + length ys"
  using assms
proof (induction ys arbitrary: t xss l n)
  case Nil
  then obtain m where "n = Suc m" by (cases n) auto
  then have "rehash_bucket n t l = Inr (t\<lparr>ht_buckets := ht_buckets t\<rparr>)"
    using ll.is_empty_law [OF Nil.prems(2)] by simp
  then show ?case using Nil.prems(1) by (intro exI [of _ "ht_buckets t"] exI [of _ xss]) simp
next
  case (Cons y ys)
  obtain m where n: "n = Suc m" using Cons.prems(3) by (cases n) auto
  obtain l1 where l1: "list_RemoveFront l = Inr (y, l1)" "list_abs l1 ys"
    using ll.remove_front_Cons [OF Cons.prems(2)] by auto
  have k: "ht_getKey t y \<notin> ht_getKey t ` set (concat xss)"
    using Cons.prems(4,5) by (auto simp: inj_on_def)
  obtain bs zss where put: "bucket_put t y = Inr (t\<lparr>ht_buckets := bs\<rparr>)" "ht_part (t\<lparr>ht_buckets := bs\<rparr>) zss"
    "set (concat zss) = insert y (set (concat xss))" "length (concat zss) = Suc (length (concat xss))"
    using part_put [OF Cons.prems(1) k] by blast
  have y: "y \<notin> set ys" using ll.abs_distinct [OF Cons.prems(2)] by simp
  have "\<exists>bs' yss. rehash_bucket m (t\<lparr>ht_buckets := bs\<rparr>) l1 = Inr (t\<lparr>ht_buckets := bs\<rparr>\<lparr>ht_buckets := bs'\<rparr>)
    \<and> ht_part (t\<lparr>ht_buckets := bs\<rparr>\<lparr>ht_buckets := bs'\<rparr>) yss
    \<and> set (concat yss) = set (concat zss) \<union> set ys
    \<and> length (concat yss) = length (concat zss) + length ys"
    by (rule Cons.IH [OF put(2) l1(2)]) (use Cons.prems(3-5) n y put(3) in auto)
  then show ?case
    using put n l1 ll.is_empty_law [OF Cons.prems(2)] by auto
qed

lemma rehash_loop_ok:
  assumes "ht_part t xss" and old: "list_all2 list_abs old yss" and "m \<le> length yss"
    and "inj_on (ht_getKey t) (set (concat xss) \<union> set (concat (drop m yss)))"
    and "set (concat (drop m yss)) \<inter> set (concat xss) = {}"
    and "\<forall>i < length yss. \<forall>j < length yss. i \<noteq> j \<longrightarrow> set (yss ! i) \<inter> set (yss ! j) = {}"
  shows "\<exists>bs zss. rehash_loop t old (int (length yss)) (int m) = Inr (t\<lparr>ht_buckets := bs\<rparr>)
    \<and> ht_part (t\<lparr>ht_buckets := bs\<rparr>) zss
    \<and> set (concat zss) = set (concat xss) \<union> set (concat (drop m yss))
    \<and> length (concat zss) = length (concat xss) + length (concat (drop m yss))"
  using assms(1,3-)
proof (induction "length yss - m" arbitrary: t xss m)
  case 0
  then have "m = length yss" by simp
  then have "rehash_loop t old (int (length yss)) (int m) = Inr (t\<lparr>ht_buckets := ht_buckets t\<rparr>)"
    by (simp add: rehash_loop.simps)
  then show ?case using 0 by (intro exI [of _ "ht_buckets t"] exI [of _ xss]) simp
next
  case (Suc d)
  have m: "m < length yss" "m < length old" using Suc.hyps(2) list_all2_lengthD [OF old] by simp_all
  then have l: "list_abs (old ! m) (yss ! m)" using old by (simp add: list_all2_conv_all_nth)
  have dr: "drop m yss = yss ! m # drop (Suc m) yss" using m by (simp add: Cons_nth_drop_Suc)
  have disj: "set (yss ! m) \<inter> set (concat (drop (Suc m) yss)) = {}"
  proof -
    have "set (yss ! m) \<inter> set (yss ! Suc (m + j)) = {}" if "j < length yss - Suc m" for j
      using Suc.prems(5) m(1) that by auto
    then show ?thesis unfolding set_concat_nth [of "drop (Suc m) yss"] by auto
  qed
  obtain cs where "list_rep (old ! m) cs" "yss ! m = map snd cs" using l by (auto simp: list_abs_def)
  then have f: "length (yss ! m) < Suc (l_fresh (old ! m))" using list_rep_length by fastforce
  have inj: "inj_on (ht_getKey t) (set (concat xss) \<union> set (yss ! m))"
    by (rule inj_on_subset [OF Suc.prems(3)]) (auto simp: dr)
  have d: "set (yss ! m) \<inter> set (concat xss) = {}" using Suc.prems(4) dr by auto
  obtain bs zss where r: "rehash_bucket (Suc (l_fresh (old ! m))) t (old ! m) = Inr (t\<lparr>ht_buckets := bs\<rparr>)"
    "ht_part (t\<lparr>ht_buckets := bs\<rparr>) zss" "set (concat zss) = set (concat xss) \<union> set (yss ! m)"
    "length (concat zss) = length (concat xss) + length (yss ! m)"
    using rehash_bucket_ok [OF Suc.prems(1) l f inj d] by blast
  have "\<exists>bs' uss. rehash_loop (t\<lparr>ht_buckets := bs\<rparr>) old (int (length yss)) (int (Suc m))
      = Inr (t\<lparr>ht_buckets := bs\<rparr>\<lparr>ht_buckets := bs'\<rparr>)
    \<and> ht_part (t\<lparr>ht_buckets := bs\<rparr>\<lparr>ht_buckets := bs'\<rparr>) uss
    \<and> set (concat uss) = set (concat zss) \<union> set (concat (drop (Suc m) yss))
    \<and> length (concat uss) = length (concat zss) + length (concat (drop (Suc m) yss))"
    by (rule Suc.hyps(1) [OF _ r(2)])
       (use Suc.hyps(2) Suc.prems(3-5) m dr r(3) disj in \<open>auto simp: Un_assoc\<close>)
  then obtain bs' uss where u: "rehash_loop (t\<lparr>ht_buckets := bs\<rparr>) old (int (length yss)) (int (Suc m))
      = Inr (t\<lparr>ht_buckets := bs'\<rparr>)" "ht_part (t\<lparr>ht_buckets := bs'\<rparr>) uss"
    "set (concat uss) = set (concat zss) \<union> set (concat (drop (Suc m) yss))"
    "length (concat uss) = length (concat zss) + length (concat (drop (Suc m) yss))" by auto
  have "rehash_loop t old (int (length yss)) (int m) = Inr (t\<lparr>ht_buckets := bs'\<rparr>)"
    using m r(1) u(1) by (subst rehash_loop.simps) (simp add: ac_simps del: rehash_bucket.simps)
  then show ?case using u(2-4) r(3,4) dr by (intro exI [of _ bs'] exI [of _ uss]) auto
qed

lemma ht_sanity_loop_ok:
  assumes p: "ht_part t xss" and "m \<le> length xss"
  shows "ht_sanity_loop t (int m) c = Inr (c + int (length (concat (drop m xss))))"
  using assms(2)
proof (induction "length xss - m" arbitrary: m c)
  case 0
  then show ?case using part_lengths [OF p] by (simp add: ht_sanity_loop.simps)
next
  case (Suc d)
  then have m: "m < length xss" by simp
  have dr: "drop m xss = xss ! m # drop (Suc m) xss" using m by (simp add: Cons_nth_drop_Suc)
  obtain cs where cs: "list_rep (ht_buckets t ! m) cs" "xss ! m = map snd cs"
    using part_bucket [OF p m] by (auto simp: list_abs_def)
  have "bucket_check_loop (Suc (l_fresh (ht_buckets t ! m))) t (int m) (l_cells (ht_buckets t ! m))
      (l_first (ht_buckets t ! m)) = Inr ()"
  proof (rule bucket_check_loop_lseg [of _ _ cs])
    show "\<forall>x \<in> snd ` set cs. ht_HashValue t (ht_getKey t x) = Inr (int m)"
      using p m cs(2) part_HashValue [OF p] by (auto simp: ht_part_def)
  qed (use cs(1) list_rep_length [OF cs(1)] in \<open>auto simp: list_rep_def\<close>)
  moreover have "list_NumInList (ht_buckets t ! m) = int (length (xss ! m))"
    using cs by (simp add: list_NumInList_def list_rep_def)
  moreover have "ht_sanity_loop t (int (Suc m)) (c + int (length (xss ! m)))
      = Inr (c + int (length (xss ! m)) + int (length (concat (drop (Suc m) xss))))"
    by (rule Suc.hyps(1)) (use Suc.hyps(2) m in simp_all)
  ultimately show ?case
    using m dr part_lengths [OF p] part_aread [OF p m] list_SanityCheck_rep [OF cs(1)]
    by (subst ht_sanity_loop.simps) (simp add: ac_simps del: bucket_check_loop.simps)
qed

lemma part_SanityCheck:
  "ht_part t xss \<Longrightarrow> ht_numItems t = int (length (concat xss)) \<Longrightarrow> ht_SanityCheck t = Inr ()"
  using ht_sanity_loop_ok [of t xss 0 0] by (simp add: ht_SanityCheck_def)

lemma part_inj: "ht_part t xss \<Longrightarrow> inj_on (ht_getKey t) (set (concat xss))"
  using part_Find(1) [of t xss] by (intro inj_onI) (metis option.inject sum.inject(2))

lemma part_disjoint:
  "ht_part t xss \<Longrightarrow> i < length xss \<Longrightarrow> j < length xss \<Longrightarrow> i \<noteq> j \<Longrightarrow> set (xss ! i) \<inter> set (xss ! j) = {}"
  unfolding ht_part_def by (metis disjoint_iff)

lemma part_distinct:
  assumes p: "ht_part t xss"
  shows "distinct (concat xss)"
proof -
  have "distinct (concat (drop (length xss - n) xss))" if "n \<le> length xss" for n
    using that
  proof (induction n)
    case (Suc n)
    let ?m = "length xss - Suc n"
    have m: "?m < length xss" "Suc ?m = length xss - n" using Suc.prems by auto
    have "set (xss ! ?m) \<inter> set (xss ! Suc (?m + j)) = {}" if "j < length xss - Suc ?m" for j
      by (rule part_disjoint [OF p]) (use that m in auto)
    then have "set (xss ! ?m) \<inter> set (concat (drop (Suc ?m) xss)) = {}"
      unfolding set_concat_nth [of "drop (Suc ?m) xss"] by auto
    moreover have "drop ?m xss = xss ! ?m # drop (Suc ?m) xss"
      using Cons_nth_drop_Suc [OF m(1)] by simp
    ultimately show ?case
      using Suc.IH Suc.prems m(2) ll.abs_distinct [OF part_bucket [OF p m(1)]] by simp
  qed simp
  from this [of "length xss"] show ?thesis by simp
qed

lemma list_abs_new: "list_abs List_new []"
  by (rule ll.empty_law)

lemma part_InitBuckets: "0 < sz \<Longrightarrow> ht_part (ht_InitBuckets t sz) (replicate (nat sz) [])"
  by (simp add: ht_part_def ht_InitBuckets_def list_all2_conv_all_nth list_abs_new)

lemma part_ReHash:
  assumes p: "ht_part t xss" and n: "ht_numItems t = int (length (concat xss))"
  shows "\<exists>t' yss. ht_ReHash t = Inr t' \<and> ht_part t' yss \<and> set (concat yss) = set (concat xss)
    \<and> length (concat yss) = length (concat xss) \<and> ht_numItems t' = ht_numItems t
    \<and> ht_getKey t' = ht_getKey t \<and> ht_hash t' = ht_hash t \<and> ht_numBuckets t' = 4 * ht_numBuckets t"
proof -
  let ?t = "ht_InitBuckets t (ht_numBuckets t * IncreaseSizeBy)"
  let ?zss = "replicate (nat (ht_numBuckets t * IncreaseSizeBy)) ([] :: 'b list)"
  have pos: "0 < ht_numBuckets t" and old: "list_all2 list_abs (ht_buckets t) xss"
    using p by (simp_all add: ht_part_def)
  have e: "set (concat ?zss) = {}" by simp
  have p0: "ht_part ?t ?zss" by (rule part_InitBuckets) (use pos in \<open>simp add: IncreaseSizeBy_def\<close>)
  have "\<exists>bs yss. rehash_loop ?t (ht_buckets t) (int (length xss)) (int 0) = Inr (?t\<lparr>ht_buckets := bs\<rparr>)
    \<and> ht_part (?t\<lparr>ht_buckets := bs\<rparr>) yss
    \<and> set (concat yss) = set (concat ?zss) \<union> set (concat (drop 0 xss))
    \<and> length (concat yss) = length (concat ?zss) + length (concat (drop 0 xss))"
    by (rule rehash_loop_ok [OF p0 old])
       (use part_inj [OF p] part_disjoint [OF p] in \<open>simp_all add: e ht_InitBuckets_def\<close>)
  then obtain bs yss where r: "rehash_loop ?t (ht_buckets t) (ht_numBuckets t) 0 = Inr (?t\<lparr>ht_buckets := bs\<rparr>)"
    "ht_part (?t\<lparr>ht_buckets := bs\<rparr>) yss" "set (concat yss) = set (concat xss)"
    "length (concat yss) = length (concat xss)"
    using part_lengths [OF p] by auto
  moreover have "ht_SanityCheck (?t\<lparr>ht_buckets := bs\<rparr>) = Inr ()"
    by (rule part_SanityCheck [OF r(2)]) (use n r(4) in \<open>simp add: ht_InitBuckets_def\<close>)
  ultimately show ?thesis
    using part_SanityCheck [OF p n]
    by (intro exI [of _ "?t\<lparr>ht_buckets := bs\<rparr>"] exI [of _ yss])
       (simp add: ht_ReHash_def ht_InitBuckets_def IncreaseSizeBy_def del: set_concat)
qed

section \<open>Insertion and removal\<close>

lemma part_numItems:
  "ht_part (t\<lparr>ht_numItems := n\<rparr>) xss = ht_part t xss"
  by (simp add: ht_part_def bucket_of_def)

lemma holds_Insert:
  assumes h: "ht_holds t S" and k: "ht_getKey t x \<notin> ht_getKey t ` S"
  shows "\<exists>t'. ht_Insert t x = Inr t' \<and> ht_holds t' (insert x S)
    \<and> ht_getKey t' = ht_getKey t \<and> ht_hash t' = ht_hash t"
proof -
  obtain xss where p: "ht_part t xss" and S: "S = set (concat xss)"
    and n: "ht_numItems t = int (length (concat xss))" "ht_numItems t \<le> 3 * ht_numBuckets t"
    using h by (auto simp: ht_holds_def ResizeRatio_def)
  have pos: "0 < ht_numBuckets t" using p by (simp add: ht_part_def)
  let ?grow = "if cdiv (ht_numItems t) (ht_numBuckets t) \<ge> ResizeRatio then ht_ReHash t else Inr t"
  have "\<exists>t1 yss. ?grow = Inr t1 \<and> ht_part t1 yss \<and> set (concat yss) = S
    \<and> length (concat yss) = length (concat xss) \<and> ht_numItems t1 = ht_numItems t
    \<and> ht_getKey t1 = ht_getKey t \<and> ht_hash t1 = ht_hash t \<and> ht_numItems t < 3 * ht_numBuckets t1"
  proof (cases "cdiv (ht_numItems t) (ht_numBuckets t) \<ge> ResizeRatio")
    case True
    then show ?thesis using part_ReHash [OF p n(1)] S n(2) pos by (auto simp del: set_concat)
  next
    case False
    then have "ht_numItems t div ht_numBuckets t < 3" using n(1) pos by (simp add: ResizeRatio_def)
    then have "ht_numItems t < 3 * ht_numBuckets t"
      using pos n(2) by (metis div_pos_geq le_less mult.commute nonzero_mult_div_cancel_left
          order_less_irrefl)
    then show ?thesis using False p S by auto
  qed
  then obtain t1 yss where g: "?grow = Inr t1" "ht_part t1 yss" "set (concat yss) = S"
    "length (concat yss) = length (concat xss)" "ht_numItems t1 = ht_numItems t"
    "ht_getKey t1 = ht_getKey t" "ht_hash t1 = ht_hash t" "ht_numItems t < 3 * ht_numBuckets t1" by blast
  have "ht_getKey t1 x \<notin> ht_getKey t1 ` set (concat yss)" using k g(3,6) by simp
  from part_put [OF g(2) this] obtain bs zss where q: "bucket_put t1 x = Inr (t1\<lparr>ht_buckets := bs\<rparr>)"
    "ht_part (t1\<lparr>ht_buckets := bs\<rparr>) zss" "set (concat zss) = insert x S"
    "length (concat zss) = Suc (length (concat xss))" using g(3,4) by auto
  let ?t = "t1\<lparr>ht_buckets := bs, ht_numItems := ht_numItems t + 1\<rparr>"
  have pt: "ht_part ?t zss" using q(2) part_numItems [where t = "t1\<lparr>ht_buckets := bs\<rparr>"] by simp
  have "ht_holds ?t (insert x S)"
    unfolding ht_holds_def
    by (intro exI [of _ zss]) (use pt q(3,4) n(1) g(8) in \<open>simp add: ResizeRatio_def del: set_concat\<close>)
  moreover have "ht_Insert t x = Inr ?t"
    using part_Find(3) [OF p, of "ht_getKey t x"] part_Find(3) [OF pt, of "ht_getKey t x"] k S g(1,5,6)
      q(1,3) pos
    by (simp add: ht_Insert_def Let_def del: set_concat)
  ultimately show ?thesis using g(6,7) by auto
qed

lemma holds_Remove:
  assumes h: "ht_holds t S" and x: "x \<in> S"
  shows "\<exists>t'. ht_Remove t (ht_getKey t x) = Inr (x, t') \<and> ht_holds t' (S - {x})
    \<and> ht_getKey t' = ht_getKey t \<and> ht_hash t' = ht_hash t"
proof -
  obtain xss where p: "ht_part t xss" and S: "S = set (concat xss)"
    and n: "ht_numItems t = int (length (concat xss))" "ht_numItems t \<le> 3 * ht_numBuckets t"
    using h by (auto simp: ht_holds_def ResizeRatio_def)
  let ?i = "bucket_of t (ht_getKey t x)"
  have i: "?i < length xss" by (rule part_bucket_less [OF p])
  have xi: "x \<in> set (xss ! ?i)" using part_in_bucket [OF p] x S by (simp del: set_concat)
  have d: "distinct (xss ! ?i)" using ll.abs_distinct [OF part_bucket [OF p i]] .
  obtain l where l: "list_Remove (ht_buckets t ! ?i) x = Inr l" "list_abs l (remove1 x (xss ! ?i))"
    using ll.remove_present [OF part_bucket [OF p i] xi] by auto
  let ?ys = "remove1 x (xss ! ?i)" and ?bs = "(ht_buckets t)[?i := l]"
  let ?t = "t\<lparr>ht_buckets := ?bs, ht_numItems := ht_numItems t - 1\<rparr>"
  have "ht_part (t\<lparr>ht_buckets := ?bs\<rparr>) (xss[?i := ?ys])"
  proof (rule part_update [OF p l(2)])
    show "distinct (map (ht_getKey t) ?ys)"
      using p i d by (auto simp: ht_part_def distinct_map intro: inj_on_diff)
    show "\<forall>y \<in> set ?ys. bucket_of t (ht_getKey t y) = ?i"
      using p i d by (auto simp: ht_part_def)
  qed
  then have pt: "ht_part ?t (xss[?i := ?ys])"
    using part_numItems [where t = "t\<lparr>ht_buckets := ?bs\<rparr>"] by simp
  have "x \<notin> set (xss ! j)" if "j < length xss" "j \<noteq> ?i" for j
    using part_disjoint [OF p i that(1)] that(2) xi by auto
  then have "(\<Union>j \<in> {..<length xss} - {?i}. set (xss ! j)) - {x} = (\<Union>j \<in> {..<length xss} - {?i}. set (xss ! j))"
    by auto
  then have set': "set (concat (xss[?i := ?ys])) = S - {x}"
    using set_concat_split [OF i] set_concat_update [OF i, of ?ys] S d by (simp del: set_concat) blast
  have "length ?ys + 1 = length (xss ! ?i)" using xi length_pos_if_in_set [OF xi] by (simp add: length_remove1)
  then have len: "length (concat (xss[?i := ?ys])) + 1 = length (concat xss)"
    using length_concat_update [OF i, of ?ys] by simp
  have "ht_holds ?t (S - {x})"
    unfolding ht_holds_def
    by (intro exI [of _ "xss[?i := ?ys]"])
       (use pt set' len n in \<open>simp add: ResizeRatio_def del: set_concat\<close>)
  moreover have "ht_getKey t x \<notin> ht_getKey t ` (S - {x})"
    using part_inj [OF p] x S by (auto simp: inj_on_def simp del: set_concat)
  then have "ht_IsInTable ?t (ht_getKey t x) = Inr False"
    using part_Find(3) [OF pt, of "ht_getKey t x"] set' by (simp del: set_concat)
  then have "ht_Remove t (ht_getKey t x) = Inr (x, ?t)"
    using part_FindInBucket_hit [OF p] x S l(1) i part_lengths [OF p]
    by (simp add: ht_Remove_def part_HashValue [OF p] Let_def del: set_concat)
  ultimately show ?thesis by auto
qed

section \<open>The interface of a keyed table\<close>

locale keyed_table =
  fixes abs :: "'t \<Rightarrow> 'a set \<Rightarrow> bool"
    and empty :: 't
    and key :: "'a \<Rightarrow> 'k"
    and ins :: "'t \<Rightarrow> 'a \<Rightarrow> 't result"
    and del :: "'t \<Rightarrow> 'k \<Rightarrow> ('a \<times> 't) result"
    and lookup :: "'t \<Rightarrow> 'k \<Rightarrow> 'a option result"
  assumes empty_law: "abs empty {}"
    and inj_law: "abs t S \<Longrightarrow> inj_on key S"
    and lookup_hit: "abs t S \<Longrightarrow> x \<in> S \<Longrightarrow> lookup t (key x) = Inr (Some x)"
    and lookup_miss: "abs t S \<Longrightarrow> k \<notin> key ` S \<Longrightarrow> lookup t k = Inr None"
    and ins_law: "abs t S \<Longrightarrow> key x \<notin> key ` S \<Longrightarrow> \<exists>t'. ins t x = Inr t' \<and> abs t' (insert x S)"
    and ins_dup: "abs t S \<Longrightarrow> key x \<in> key ` S \<Longrightarrow> ins t x = Inl AssertFailed"
    and del_law: "abs t S \<Longrightarrow> x \<in> S \<Longrightarrow> \<exists>t'. del t (key x) = Inr (x, t') \<and> abs t' (S - {x})"
    and del_absent: "abs t S \<Longrightarrow> k \<notin> key ` S \<Longrightarrow> del t k = Inl AssertFailed"
begin

lemma put_all_ins:
  "abs t S \<Longrightarrow> distinct (map key xs) \<Longrightarrow> key ` set xs \<inter> key ` S = {} \<Longrightarrow>
     \<exists>t'. put_all ins t xs = Inr t' \<and> abs t' (S \<union> set xs)"
proof (induction xs arbitrary: t S)
  case (Cons x xs)
  obtain t1 where "ins t x = Inr t1" "abs t1 (insert x S)"
    using ins_law [OF Cons.prems(1), of x] Cons.prems by auto
  then show ?case using Cons.IH [of t1 "insert x S"] Cons.prems by auto
qed auto

text \<open>Removing the items of a table by their keys, in any order, returns those items.\<close>

lemma take_all_del:
  "abs t S \<Longrightarrow> distinct xs \<Longrightarrow> set xs \<subseteq> S \<Longrightarrow>
     \<exists>t'. put_all (\<lambda>t x. rbind (del t (key x)) (\<lambda>(y, t'). rassert (y = x) (Inr t'))) t xs = Inr t'
       \<and> abs t' (S - set xs)"
proof (induction xs arbitrary: t S)
  case (Cons x xs)
  obtain t1 where t1: "del t (key x) = Inr (x, t1)" "abs t1 (S - {x})"
    using del_law [OF Cons.prems(1), of x] Cons.prems by auto
  have "S - set (x # xs) = S - {x} - set xs" by auto
  moreover have "\<exists>t'. put_all (\<lambda>t x. rbind (del t (key x)) (\<lambda>(y, t'). rassert (y = x) (Inr t'))) t1 xs = Inr t'
       \<and> abs t' (S - {x} - set xs)"
    by (rule Cons.IH [OF t1(2)]) (use Cons.prems in auto)
  ultimately show ?case using t1 by auto
qed auto

end

definition ht_abs :: "('a \<Rightarrow> 'k) \<Rightarrow> ('k \<Rightarrow> u32) \<Rightarrow> ('k, 'a) hashtable \<Rightarrow> 'a set \<Rightarrow> bool" where
  "ht_abs get hFunc t S \<longleftrightarrow> ht_getKey t = get \<and> ht_hash t = hFunc \<and> ht_holds t S"

lemma ht_abs_part:
  assumes "ht_abs g hf t S"
  obtains xss where "ht_part t xss" "S = set (concat xss)" "ht_numItems t = int (length (concat xss))"
    "ht_getKey t = g"
  using assms by (auto simp: ht_abs_def ht_holds_def)

interpretation ht: keyed_table "ht_abs g hf" "HashTable g hf" g ht_Insert ht_Remove ht_Find
  for g :: "'a \<Rightarrow> 'k" and hf :: "'k \<Rightarrow> u32"
proof unfold_locales
  have "ht_part (HashTable g hf) (replicate (nat InitialBuckets) [])"
    unfolding HashTable_def by (rule part_InitBuckets) (simp add: InitialBuckets_def)
  moreover have "set (concat (replicate (nat InitialBuckets) ([] :: 'a list))) = {}"
    "length (concat (replicate (nat InitialBuckets) ([] :: 'a list))) = 0" by simp_all
  ultimately show "ht_abs g hf (HashTable g hf) {}"
    by (force simp: ht_abs_def ht_holds_def HashTable_def ht_InitBuckets_def InitialBuckets_def
        ResizeRatio_def simp del: set_concat length_concat)
next
  fix t S and x :: 'a and k :: 'k
  assume a: "ht_abs g hf t S"
  obtain xss where p: "ht_part t xss" and S: "S = set (concat xss)" and g: "ht_getKey t = g"
    using ht_abs_part [OF a] by metis
  show "inj_on g S" using part_inj [OF p] S g by (simp del: set_concat)
  show "x \<in> S \<Longrightarrow> ht_Find t (g x) = Inr (Some x)"
    using part_Find(1) [OF p, of x] S g by simp
  show "k \<notin> g ` S \<Longrightarrow> ht_Find t k = Inr None" using part_Find(2) [OF p, of k] S g by simp
  show "g x \<notin> g ` S \<Longrightarrow> \<exists>t'. ht_Insert t x = Inr t' \<and> ht_abs g hf t' (insert x S)"
    using holds_Insert [of t S x] a by (auto simp: ht_abs_def)
  show "g x \<in> g ` S \<Longrightarrow> ht_Insert t x = Inl AssertFailed"
    using part_Find(3) [OF p, of "g x"] S g by (simp add: ht_Insert_def del: set_concat)
  show "x \<in> S \<Longrightarrow> \<exists>t'. ht_Remove t (g x) = Inr (x, t') \<and> ht_abs g hf t' (S - {x})"
    using holds_Remove [of t S x] a by (auto simp: ht_abs_def)
  show "k \<notin> g ` S \<Longrightarrow> ht_Remove t k = Inl AssertFailed"
    using part_FindInBucket_miss [OF p, of k] part_HashValue [OF p] S g
    by (simp add: ht_Remove_def del: set_concat)
qed

lemma ht_abs_IsEmpty: "ht_abs g hf t S \<Longrightarrow> ht_IsEmpty t = (S = {})"
  by (erule ht_abs_part) (simp only: ht_IsEmpty_def set_empty of_nat_eq_0_iff length_0_conv)

lemma ht_abs_IsInTable: "ht_abs g hf t S \<Longrightarrow> ht_IsInTable t k = Inr (k \<in> g ` S)"
  using part_Find(3) by (auto simp: ht_abs_def ht_holds_def simp del: set_concat)

lemma ht_abs_SanityCheck: "ht_abs g hf t S \<Longrightarrow> ht_SanityCheck t = Inr ()"
  by (erule ht_abs_part) (rule part_SanityCheck)

section \<open>Iteration and the self test\<close>

text \<open>The loop \<^verbatim>\<open>for (; !iter->IsDone(); iter->Next())\<close> that collects \<^verbatim>\<open>iter->Item()\<close>.\<close>

fun iter_collect :: "nat \<Rightarrow> ('k, 'a) hashtable \<Rightarrow> hash_iter \<Rightarrow> 'a list result" where
  "iter_collect 0 t it = Inl Diverges"
| "iter_collect (Suc n) t it =
     (if it_IsDone t it then Inr []
      else rbind (it_Item t it) (\<lambda>x. rbind (it_Next t it) (\<lambda>it'.
           rbind (iter_collect n t it') (\<lambda>xs. Inr (x # xs)))))"

lemma ht_FindNextFullBucket_ok:
  assumes p: "ht_part t xss" and "m \<le> length xss"
  shows "\<exists>j. ht_FindNextFullBucket t (int m) = Inr (int j) \<and> j \<le> length xss
    \<and> concat (drop m xss) = concat (drop j xss) \<and> (j < length xss \<longrightarrow> xss ! j \<noteq> [])"
  using assms(2)
proof (induction "length xss - m" arbitrary: m)
  case 0
  then show ?case using part_lengths [OF p]
    by (intro exI [of _ m]) (simp add: ht_FindNextFullBucket.simps)
next
  case (Suc d)
  then have m: "m < length xss" by simp
  note e = ll.is_empty_law [OF part_bucket [OF p m]]
  show ?case
  proof (cases "xss ! m = []")
    case True
    then have "concat (drop m xss) = concat (drop (Suc m) xss)" using m
      by (metis Cons_nth_drop_Suc append_Nil concat.simps(2))
    moreover have "ht_FindNextFullBucket t (int m) = ht_FindNextFullBucket t (int (Suc m))"
      using True e m part_aread [OF p m] part_lengths [OF p]
      by (subst ht_FindNextFullBucket.simps) (simp add: ac_simps)
    ultimately show ?thesis using Suc.hyps(1) [of "Suc m"] Suc.hyps(2) m by auto
  next
    case False
    then have "ht_FindNextFullBucket t (int m) = Inr (int m)"
      using e m part_aread [OF p m] part_lengths [OF p]
      by (subst ht_FindNextFullBucket.simps) simp
    then show ?thesis using False m by auto
  qed
qed

lemma start_bucket_ok:
  assumes p: "ht_part t xss" and m: "m \<le> length xss"
  shows "\<exists>j it. rbind (ht_FindNextFullBucket t (int m)) (start_bucket t) = Inr it
    \<and> it_bucket it = int j \<and> j \<le> length xss \<and> concat (drop m xss) = concat (drop j xss)
    \<and> (j < length xss \<longrightarrow> xss ! j \<noteq> [] \<and> it_current it = l_first (ht_buckets t ! j))"
proof -
  obtain j where j: "ht_FindNextFullBucket t (int m) = Inr (int j)" "j \<le> length xss"
    "concat (drop m xss) = concat (drop j xss)" "j < length xss \<longrightarrow> xss ! j \<noteq> []"
    using ht_FindNextFullBucket_ok [OF p m] by blast
  let ?it = "\<lparr>it_bucket = int j, it_current = (if j < length xss then l_first (ht_buckets t ! j) else None)\<rparr>"
  have "start_bucket t (int j) = Inr ?it"
    using part_lengths [OF p] part_aread [OF p, of j] j(2)
    by (cases "j < length xss") (simp_all add: start_bucket_def)
  then show ?thesis using j by (intro exI [of _ j] exI [of _ ?it]) simp
qed

lemma iter_collect_ok:
  assumes p: "ht_part t xss"
  shows "it_bucket it = int i \<Longrightarrow> i < length xss \<Longrightarrow> list_rep (ht_buckets t ! i) (cs @ (a, x) # ds) \<Longrightarrow>
    map snd (cs @ (a, x) # ds) = xss ! i \<Longrightarrow> it_current it = Some a \<Longrightarrow>
    Suc (length ds) + length (concat (drop (Suc i) xss)) < n \<Longrightarrow>
    iter_collect n t it = Inr (x # map snd ds @ concat (drop (Suc i) xss))"
proof (induction n arbitrary: it i cs a x ds)
  case (Suc n)
  note i = Suc.prems(2) and len = part_lengths [OF p]
  have c: "l_cells (ht_buckets t ! i) a = Some \<lparr>el_item = x, el_next = next_of ds\<rparr>"
    using Suc.prems(3) by (auto simp: list_rep_def dest: lseg_next_of)
  have item: "it_IsDone t it = False" "it_Item t it = Inr x"
    using Suc.prems(1,5) i len part_aread [OF p i] c by (simp_all add: it_IsDone_def it_Item_def)
  show ?case
  proof (cases ds)
    case (Cons d es)
    obtain b y where d: "d = (b, y)" by force
    have "it_Next t it = Inr (it\<lparr>it_current := Some b\<rparr>)"
      using Suc.prems(1,5) part_aread [OF p i] c Cons d by (simp add: it_Next_def)
    moreover have "iter_collect n t (it\<lparr>it_current := Some b\<rparr>) = Inr (y # map snd es @ concat (drop (Suc i) xss))"
      by (rule Suc.IH [where cs = "cs @ [(a, x)]"]) (use Suc.prems Cons d in auto)
    ultimately show ?thesis using item Cons d by simp
  next
    case Nil
    obtain j it' where j: "rbind (ht_FindNextFullBucket t (int (Suc i))) (start_bucket t) = Inr it'"
      "it_bucket it' = int j" "j \<le> length xss" "concat (drop (Suc i) xss) = concat (drop j xss)"
      "j < length xss \<longrightarrow> xss ! j \<noteq> [] \<and> it_current it' = l_first (ht_buckets t ! j)"
      using start_bucket_ok [OF p, of "Suc i"] i by auto
    have n: "it_Next t it = Inr it'"
      using Suc.prems(1,5) part_aread [OF p i] c Nil j(1) by (simp add: it_Next_def ac_simps)
    have "iter_collect n t it' = Inr (concat (drop j xss))"
    proof (cases "j < length xss")
      case True
      then obtain es where es: "list_rep (ht_buckets t ! j) es" "xss ! j = map snd es" "es \<noteq> []"
        using part_bucket [OF p True] j(5) by (auto simp: list_abs_def)
      then obtain b y fs where e: "es = (b, y) # fs" by (cases es) auto
      have dj: "concat (drop j xss) = xss ! j @ concat (drop (Suc j) xss)"
        using True by (metis Cons_nth_drop_Suc concat.simps(2))
      have "it_current it' = Some b" using True j(5) es(1) e by (auto simp: list_rep_def)
      moreover have "Suc (length fs) + length (concat (drop (Suc j) xss)) < n"
        using Suc.prems(6) Nil j(4) dj es(2) e by (simp del: length_concat)
      ultimately have "iter_collect n t it' = Inr (y # map snd fs @ concat (drop (Suc j) xss))"
        using Suc.IH [OF j(2) True, of "[]" b y fs] es e by simp
      then show ?thesis using dj es(2) e by simp
    next
      case False
      then have "it_IsDone t it'" using j(2,3) len by (simp add: it_IsDone_def)
      moreover obtain k where "n = Suc k" using Suc.prems(6) by (cases n) auto
      ultimately show ?thesis using False by simp
    qed
    then show ?thesis using item n Nil j(4) by simp
  qed
qed simp

lemma iterator_visits_all:
  assumes p: "ht_part t xss"
  shows "rbind (HashIterator t) (iter_collect (length (concat xss) + 1) t) = Inr (concat xss)"
proof -
  obtain j it where j: "rbind (ht_FindNextFullBucket t (int 0)) (start_bucket t) = Inr it"
      "it_bucket it = int j" "j \<le> length xss" "concat xss = concat (drop j xss)"
      "j < length xss \<longrightarrow> xss ! j \<noteq> [] \<and> it_current it = l_first (ht_buckets t ! j)"
    using start_bucket_ok [OF p, of 0] by auto
  show ?thesis
  proof (cases "j < length xss")
    case True
    then obtain es where es: "list_rep (ht_buckets t ! j) es" "xss ! j = map snd es" "es \<noteq> []"
      using part_bucket [OF p True] j(5) by (auto simp: list_abs_def)
    then obtain b y fs where e: "es = (b, y) # fs" by (cases es) auto
    have dj: "concat xss = xss ! j @ concat (drop (Suc j) xss)"
      using True j(4) by (metis Cons_nth_drop_Suc concat.simps(2))
    have "it_current it = Some b" using True j(5) es(1) e by (auto simp: list_rep_def)
    moreover have "Suc (length fs) + length (concat (drop (Suc j) xss)) < length (concat xss) + 1"
      using dj es(2) e by (simp del: length_concat)
    ultimately have "iter_collect (length (concat xss) + 1) t it = Inr (y # map snd fs @ concat (drop (Suc j) xss))"
      using iter_collect_ok [OF p j(2) True, of "[]" b y fs] es e by (simp del: iter_collect.simps)
    then show ?thesis using dj es(2) e j(1) by (simp add: HashIterator_def del: iter_collect.simps)
  next
    case False
    then show ?thesis using j part_lengths [OF p] by (simp add: HashIterator_def it_IsDone_def)
  qed
qed

lemma HashIterator_empty:
  assumes "ht_abs g hf t {}"
  shows "\<exists>it. HashIterator t = Inr it \<and> it_IsDone t it"
proof -
  obtain xss where p: "ht_part t xss" "{} = set (concat xss)" using ht_abs_part [OF assms] by metis
  then obtain j where "ht_FindNextFullBucket t (int 0) = Inr (int j)" "j = length xss"
    using ht_FindNextFullBucket_ok [OF p(1), of 0] by fastforce
  then have "ht_FindNextFullBucket t (int 0) = Inr (ht_numBuckets t)"
    using part_lengths [OF p(1)] by simp
  then show ?thesis by (simp add: HashIterator_def start_bucket_def it_IsDone_def)
qed

lemma ht_test_insert_ok:
  "ht_abs g hf t S \<Longrightarrow> distinct (map g p) \<Longrightarrow> g ` set p \<inter> g ` S = {} \<Longrightarrow>
     \<exists>t'. ht_test_insert t p = Inr t' \<and> ht_abs g hf t' (S \<union> set p)"
proof (induction p arbitrary: t S)
  case (Cons x p)
  obtain t1 where t1: "ht_Insert t x = Inr t1" "ht_abs g hf t1 (insert x S)"
    using ht.ins_law [OF Cons.prems(1), of x] Cons.prems by auto
  have "\<exists>t'. ht_test_insert t1 p = Inr t' \<and> ht_abs g hf t' (insert x S \<union> set p)"
    by (rule Cons.IH [OF t1(2)]) (use Cons.prems in auto)
  moreover have "ht_getKey t1 = g" using t1(2) by (simp add: ht_abs_def)
  ultimately show ?case
    using t1 ht_abs_IsInTable [OF t1(2)] ht_abs_IsEmpty [OF t1(2)] by auto
qed auto

lemma ht_test_remove_ok:
  "ht_abs g hf t S \<Longrightarrow> distinct p \<Longrightarrow> set p \<subseteq> S \<Longrightarrow>
     \<exists>t'. ht_test_remove t p = Inr t' \<and> ht_abs g hf t' (S - set p)"
proof (induction p arbitrary: t S)
  case (Cons x p)
  obtain t1 where t1: "ht_Remove t (g x) = Inr (x, t1)" "ht_abs g hf t1 (S - {x})"
    using ht.del_law [OF Cons.prems(1), of x] Cons.prems by auto
  have "\<exists>t'. ht_test_remove t1 p = Inr t' \<and> ht_abs g hf t' (S - {x} - set p)"
    by (rule Cons.IH [OF t1(2)]) (use Cons.prems in auto)
  moreover have "ht_getKey t = g" using Cons.prems(1) by (simp add: ht_abs_def)
  moreover have "S - set (x # p) = S - {x} - set p" by auto
  ultimately show ?case using t1 by auto
qed auto

lemma ht_SelfTest_ok:
  assumes "ht_abs g hf t {}" and "distinct (map g p)"
  shows "\<exists>t'. ht_SelfTest t p = Inr t' \<and> ht_abs g hf t' {}"
proof -
  obtain it where it: "HashIterator t = Inr it" "it_IsDone t it"
    using HashIterator_empty [OF assms(1)] by auto
  obtain t1 where t1: "ht_test_insert t p = Inr t1" "ht_abs g hf t1 (set p)"
    using ht_test_insert_ok [OF assms] by auto
  obtain t2 where t2: "ht_test_remove t1 p = Inr t2" "ht_abs g hf t2 {}"
    using ht_test_remove_ok [OF t1(2), of p] assms(2) by (auto simp: distinct_map)
  then show ?thesis
    using it t1 ht_abs_SanityCheck [OF assms(1)] ht_abs_SanityCheck [OF t2(2)]
      ht_abs_IsEmpty [OF assms(1)] ht_abs_IsEmpty [OF t2(2)]
    by (simp add: ht_SelfTest_def)
qed

section \<open>The promises of the hash table\<close>

text \<open>
  C25: the hash table implements a finite set of items with distinct keys. On a table that
  holds the items \<open>S\<close>, \<^verbatim>\<open>Find\<close> returns the item with a key of \<open>S\<close> and nothing for any other
  key; \<^verbatim>\<open>Insert\<close> of an item with a new key succeeds, growing the table when it has three
  items per bucket, and the table then holds \<open>insert x S\<close>; \<^verbatim>\<open>Remove\<close> returns the item and
  leaves \<open>S - {x}\<close>; a duplicate insertion and the removal of an absent key fail their
  assertions; \<^verbatim>\<open>SanityCheck\<close> passes and an iterator visits every item once.
\<close>

theorem hash_table_refines:
  assumes "ht_abs g hf t S"
  shows "(\<forall>x \<in> S. ht_Find t (g x) = Inr (Some x)) \<and> (\<forall>k. k \<notin> g ` S \<longrightarrow> ht_Find t k = Inr None)
    \<and> (if g y \<in> g ` S then ht_Insert t y = Inl AssertFailed
       else \<exists>t'. ht_Insert t y = Inr t' \<and> ht_abs g hf t' (insert y S))
    \<and> (\<forall>x \<in> S. \<exists>t'. ht_Remove t (g x) = Inr (x, t') \<and> ht_abs g hf t' (S - {x}))
    \<and> (\<forall>k. k \<notin> g ` S \<longrightarrow> ht_Remove t k = Inl AssertFailed)
    \<and> ht_IsEmpty t = (S = {}) \<and> ht_SanityCheck t = Inr ()
    \<and> (\<exists>xs n. rbind (HashIterator t) (iter_collect n t) = Inr xs \<and> mset xs = mset_set S)"
proof -
  obtain xss where p: "ht_part t xss" "S = set (concat xss)" "ht_getKey t = g"
    using ht_abs_part [OF assms] by metis
  have "distinct (concat xss)"
    by (rule part_distinct [OF p(1)])
  then have "mset (concat xss) = mset_set S" using p(2) by (simp only: mset_set_set)
  then have "\<exists>xs n. rbind (HashIterator t) (iter_collect n t) = Inr xs \<and> mset xs = mset_set S"
    using iterator_visits_all [OF p(1)] by blast
  then show ?thesis
    using ht.lookup_hit [OF assms] ht.lookup_miss [OF assms] ht.ins_law [OF assms]
      ht.ins_dup [OF assms] ht.del_law [OF assms] ht.del_absent [OF assms]
      ht_abs_IsEmpty [OF assms] ht_abs_SanityCheck [OF assms] by simp
qed

lemma hash_table_refines_witness:
  "\<exists>t. ht_Insert (HashTable (\<lambda>x. x mod 10) word_of_int) (27::int) = Inr t
     \<and> ht_Find t 7 = Inr (Some 27) \<and> ht_Insert t 37 = Inl AssertFailed
     \<and> ht_Find t 5 = Inr None"
proof -
  let ?g = "\<lambda>x :: int. x mod 10" and ?h = "word_of_int :: int \<Rightarrow> u32"
  obtain t where t: "ht_Insert (HashTable ?g ?h) 27 = Inr t" "ht_abs ?g ?h t {27}"
    using hash_table_refines [OF ht.empty_law [of ?g ?h], of 27] by auto
  then show ?thesis using hash_table_refines [OF t(2), of 37] by auto
qed

text \<open>
  Inserting items with distinct keys into a new table, however often it has to grow, and
  removing them again by key returns each of them and leaves the table empty.
\<close>

theorem hash_table_roundtrip:
  assumes "distinct (map g xs)"
  shows "\<exists>t t'. put_all ht_Insert (HashTable g hf) xs = Inr t \<and> ht_abs g hf t (set xs)
    \<and> put_all (\<lambda>t x. rbind (ht_Remove t (g x)) (\<lambda>(y, t'). rassert (y = x) (Inr t'))) t xs = Inr t'
    \<and> ht_IsEmpty t'"
proof -
  obtain t where t: "put_all ht_Insert (HashTable g hf) xs = Inr t" "ht_abs g hf t (set xs)"
    using ht.put_all_ins [OF ht.empty_law assms] by auto
  obtain t' where "put_all (\<lambda>t x. rbind (ht_Remove t (g x)) (\<lambda>(y, t'). rassert (y = x) (Inr t'))) t xs = Inr t'"
    "ht_abs g hf t' {}"
    using ht.take_all_del [OF t(2), of xs] assms by (auto simp: distinct_map)
  then show ?thesis using t ht_abs_IsEmpty by fastforce
qed

lemma hash_table_roundtrip_witness:
  "\<exists>t t'. put_all ht_Insert (HashTable (\<lambda>x. x) word_of_int) [4, 8, 15, 16, 23, 42::int] = Inr t
    \<and> ht_abs (\<lambda>x. x) word_of_int t (set [4, 8, 15, 16, 23, 42])
    \<and> put_all (\<lambda>t x. rbind (ht_Remove t x) (\<lambda>(y, t'). rassert (y = x) (Inr t'))) t [4, 8, 15, 16, 23, 42] = Inr t'
    \<and> ht_IsEmpty t'"
  using hash_table_roundtrip [of "\<lambda>x. x" "[4, 8, 15, 16, 23, 42::int]"] by simp

end
