(* ===== verification/Lib_Test.thy ===== *)
theory Lib_Test
  imports Bitmap_Lib Hash_Lib
begin

text \<open>
  \<^verbatim>\<open>LibSelfTest\<close> of \<^verbatim>\<open>lib/libtest.cc\<close>, the driver that runs the self tests of the bitmap, the
  list, the sorted list and the hash table on the fixed test vectors. The items of the hash
  table are C strings; their distinct literals are modelled as the strings they point to.
\<close>

definition HashInt :: "int \<Rightarrow> u32" where
  "HashInt key = word_of_int key"

text \<open>\<^verbatim>\<open>atoi\<close>: blanks, an optional sign, then decimal digits up to the first other character.\<close>

definition is_digit :: "char \<Rightarrow> bool" where
  "is_digit c = (48 \<le> (of_char c :: nat) \<and> (of_char c :: nat) \<le> 57)"

definition atoi_digits :: "string \<Rightarrow> int" where
  "atoi_digits s = foldl (\<lambda>n c. 10 * n + (of_char c - 48)) 0 (takeWhile is_digit s)"

definition atoi :: "string \<Rightarrow> int" where
  "atoi s =
     (case dropWhile (\<lambda>c. (of_char c :: nat) = 32 \<or> (of_char c :: nat) \<in> {9..13}) s of
        [] \<Rightarrow> 0
      | c # r \<Rightarrow> if c = CHR ''-'' then - atoi_digits r
                 else if c = CHR ''+'' then atoi_digits r else atoi_digits (c # r))"

definition HashKey :: "string \<Rightarrow> int" where
  "HashKey str = atoi str"

definition listTestVector :: "int list" where
  "listTestVector = [9, 5, 7]"

definition hashTestVector :: "string list" where
  "hashTestVector = [''0'', ''1'', ''2'', ''3'', ''4'', ''5'', ''6'',
     ''7'', ''8'', ''9'', ''10'', ''11'', ''12'', ''13'', ''14'']"

definition LibSelfTest :: "unit result" where
  "LibSelfTest =
     rbind (Bitmap 200) (\<lambda>map.
     rbind (bm_SelfTest map) (\<lambda>_.
     rbind (list_SelfTest list_Append list_SanityCheck List_new listTestVector) (\<lambda>_.
     rbind (sorted_SelfTest IntCompare List_new listTestVector) (\<lambda>_.
     rbind (ht_SelfTest (HashTable HashKey HashInt) hashTestVector) (\<lambda>t.
     rassert (ht_IsEmpty t) (Inr ()))))))"

lemma IntCompare_less: "IntCompare x y < 0 \<longleftrightarrow> x < y"
  by (simp add: IntCompare_def)

lemma IntCompare_le: "IntCompare x y \<le> 0 \<longleftrightarrow> x \<le> y"
  by (auto simp: IntCompare_def)

lemma HashKey_test_vector: "distinct (map HashKey hashTestVector)"
  by (simp add: hashTestVector_def HashKey_def atoi_def atoi_digits_def is_digit_def)

text \<open>
  The library's self test passes: no assertion of \<^verbatim>\<open>LibSelfTest\<close>, of the four self tests
  or of any operation they call fails on the test vectors. (The hash table grows once on
  the way.)
\<close>

theorem lib_self_test: "LibSelfTest = Inr ()"
proof -
  obtain m where m: "Bitmap 200 = Inr m" "bm_wf m" "numBits m = 200" "bm_set m = {}"
    using Bitmap_ok [of 200] by auto
  obtain m' where "bm_SelfTest m = Inr m'" using bm_SelfTest_ok [OF m(2) _ m(4)] m(3) by auto
  moreover obtain l where "list_SelfTest list_Append list_SanityCheck List_new listTestVector = Inr l"
    using list_SelfTest_empty [of listTestVector] by (auto simp: listTestVector_def)
  moreover obtain s where "sorted_SelfTest IntCompare List_new listTestVector = Inr s"
    using sorted_SelfTest_ok [of IntCompare "\<lambda>x. x", OF IntCompare_less IntCompare_le ll.empty_law, of listTestVector]
    by (auto simp: listTestVector_def)
  moreover obtain t where t: "ht_SelfTest (HashTable HashKey HashInt) hashTestVector = Inr t"
    "ht_abs HashKey HashInt t {}"
    using ht_SelfTest_ok [OF ht.empty_law HashKey_test_vector] by auto
  ultimately show ?thesis using m(1) ht_abs_IsEmpty [OF t(2)] by (simp add: LibSelfTest_def)
qed

end
