(* ===== verification/Kernel_Main.thy ===== *)
theory Kernel_Main
  imports Kernel_Run Lib_Test
begin

text \<open>
  The main program (\<^verbatim>\<open>threads/main.cc\<close>): the command line, which \<^verbatim>\<open>main\<close> and the constructor of \<^verbatim>\<open>Kernel\<close>
  (\<^verbatim>\<open>threads/kernel.cc\<close>) both read, the selection of debugging messages (\<^verbatim>\<open>lib/debug.cc\<close>), the tests that it can start, and the construction of
  the network and the post office (\<^verbatim>\<open>machine/network.cc\<close>, \<^verbatim>\<open>network/post.cc\<close>). \<open>stub\<close> says whether the system is built with
  \<^verbatim>\<open>FILESYS_STUB\<close>.
\<close>

section \<open>Debugging messages\<close>

text \<open>\<^verbatim>\<open>strchr\<close> also finds the NUL at the end of a string.\<close>

definition strchr_found :: "string \<Rightarrow> char \<Rightarrow> bool" where
  "strchr_found s c \<longleftrightarrow> c \<in> set s \<or> c = CHR 0x00"

definition IsEnabled :: "string option \<Rightarrow> char \<Rightarrow> bool" where
  "IsEnabled enableFlags flag =
     (case enableFlags of None \<Rightarrow> False | Some s \<Rightarrow> strchr_found s flag \<or> strchr_found s (CHR ''+''))"

section \<open>The command line\<close>

text \<open>
  The flags of the kernel. \<open>f_seed\<close> is the argument of \<^verbatim>\<open>RandomInit\<close> and \<open>f_reliability\<close> that of \<^verbatim>\<open>atof\<close>; without the option the
  reliability is 1.
\<close>

record kernel_flags =
  f_randomSlice :: bool
  f_seed :: "int option"
  f_debugUserProg :: bool
  f_consoleIn :: "string option"
  f_consoleOut :: "string option"
  f_formatFlag :: bool
  f_reliability :: "string option"
  f_hostName :: int

definition kernel_defaults :: kernel_flags where
  "kernel_defaults = \<lparr>f_randomSlice = False, f_seed = None, f_debugUserProg = False, f_consoleIn = None, f_consoleOut = None,
     f_formatFlag = False, f_reliability = None, f_hostName = 0\<rparr>"

fun kernel_args :: "bool \<Rightarrow> string list \<Rightarrow> kernel_flags \<Rightarrow> kernel_flags result" where
  "kernel_args stub [] fl = Inr fl"
| "kernel_args stub (arg # argv) fl =
     (if arg = ''-rs'' then (case argv of [] \<Rightarrow> Inl AssertFailed | x # argv \<Rightarrow> kernel_args stub argv (fl\<lparr>f_seed := Some (atoi x), f_randomSlice := True\<rparr>))
      else if arg = ''-s'' then kernel_args stub argv (fl\<lparr>f_debugUserProg := True\<rparr>)
      else if arg = ''-ci'' then (case argv of [] \<Rightarrow> Inl AssertFailed | x # argv \<Rightarrow> kernel_args stub argv (fl\<lparr>f_consoleIn := Some x\<rparr>))
      else if arg = ''-co'' then (case argv of [] \<Rightarrow> Inl AssertFailed | x # argv \<Rightarrow> kernel_args stub argv (fl\<lparr>f_consoleOut := Some x\<rparr>))
      else if \<not> stub \<and> arg = ''-f'' then kernel_args stub argv (fl\<lparr>f_formatFlag := True\<rparr>)
      else if arg = ''-n'' then (case argv of [] \<Rightarrow> Inl AssertFailed | x # argv \<Rightarrow> kernel_args stub argv (fl\<lparr>f_reliability := Some x\<rparr>))
      else if arg = ''-m'' then (case argv of [] \<Rightarrow> Inl AssertFailed | x # argv \<Rightarrow> kernel_args stub argv (fl\<lparr>f_hostName := atoi x\<rparr>))
      else kernel_args stub argv fl)"

definition Kernel :: "bool \<Rightarrow> string list \<Rightarrow> kernel_flags result" where
  "Kernel stub argv = kernel_args stub (tl argv) kernel_defaults"

text \<open>The variables of \<^verbatim>\<open>main\<close>, and the two global variables that options set.\<close>

record main_opts =
  o_debugArg :: string
  o_userProgName :: "string option"
  o_threadTestFlag :: bool
  o_consoleTestFlag :: bool
  o_networkTestFlag :: bool
  o_syncTestFlag :: int
  o_copyUnixFileName :: "string option"
  o_copyNachosFileName :: "string option"
  o_printFileName :: "string option"
  o_removeFileName :: "string option"
  o_dirListFlag :: bool
  o_dumpFlag :: bool
  o_typeno :: int
  o_debugThreadStatusChanging :: bool

definition main_defaults :: main_opts where
  "main_defaults = \<lparr>o_debugArg = '''', o_userProgName = None, o_threadTestFlag = False, o_consoleTestFlag = False, o_networkTestFlag = False,
     o_syncTestFlag = - 1, o_copyUnixFileName = None, o_copyNachosFileName = None, o_printFileName = None, o_removeFileName = None,
     o_dirListFlag = False, o_dumpFlag = False, o_typeno = 2, o_debugThreadStatusChanging = False\<rparr>"

fun main_args :: "bool \<Rightarrow> string list \<Rightarrow> main_opts \<Rightarrow> main_opts result" where
  "main_args stub [] m = Inr m"
| "main_args stub (arg # argv) m =
     (if arg = ''-d'' then (case argv of [] \<Rightarrow> Inl AssertFailed | x # argv \<Rightarrow> main_args stub argv (m\<lparr>o_debugArg := x\<rparr>))
      else if arg = ''-x''
      then (case argv of [] \<Rightarrow> Inl AssertFailed
            | x # argv \<Rightarrow>
                (case argv of [] \<Rightarrow> main_args stub argv (m\<lparr>o_userProgName := Some x\<rparr>)
                 | y # argv' \<Rightarrow>
                     if y = ''-dt'' then main_args stub argv' (m\<lparr>o_userProgName := Some x, o_debugThreadStatusChanging := True\<rparr>)
                     else main_args stub argv (m\<lparr>o_userProgName := Some x\<rparr>)))
      else if arg = ''-K'' then (case argv of [] \<Rightarrow> Inl AssertFailed | x # argv \<Rightarrow> main_args stub argv (m\<lparr>o_threadTestFlag := True, o_typeno := atoi x\<rparr>))
      else if arg = ''-C'' then main_args stub argv (m\<lparr>o_consoleTestFlag := True\<rparr>)
      else if arg = ''-N'' then main_args stub argv (m\<lparr>o_networkTestFlag := True\<rparr>)
      else if \<not> stub \<and> arg = ''-cp''
      then (case argv of x # y # argv \<Rightarrow> main_args stub argv (m\<lparr>o_copyUnixFileName := Some x, o_copyNachosFileName := Some y\<rparr>)
            | _ \<Rightarrow> Inl AssertFailed)
      else if \<not> stub \<and> arg = ''-p'' then (case argv of [] \<Rightarrow> Inl AssertFailed | x # argv \<Rightarrow> main_args stub argv (m\<lparr>o_printFileName := Some x\<rparr>))
      else if \<not> stub \<and> arg = ''-r'' then (case argv of [] \<Rightarrow> Inl AssertFailed | x # argv \<Rightarrow> main_args stub argv (m\<lparr>o_removeFileName := Some x\<rparr>))
      else if \<not> stub \<and> arg = ''-l'' then main_args stub argv (m\<lparr>o_dirListFlag := True\<rparr>)
      else if \<not> stub \<and> arg = ''-D'' then main_args stub argv (m\<lparr>o_dumpFlag := True\<rparr>)
      else if arg = ''-st'' then (case argv of [] \<Rightarrow> Inl AssertFailed | x # argv \<Rightarrow> main_args stub argv (m\<lparr>o_syncTestFlag := atoi x\<rparr>))
      else main_args stub argv m)"

section \<open>What the main program does\<close>

text \<open>
  \<^verbatim>\<open>Kernel::SyncTest\<close>. The addresses of the objects of the tests are in a record; \<open>prio\<close> and \<open>remain\<close> are the uninitialised fields of new
  threads.
\<close>

record test_objects =
  to_isFull :: addr
  to_isEmpty :: addr
  to_lock :: addr
  to_lock_sem :: addr
  to_produceList :: addr
  to_barrier :: addr
  to_rwMutex :: addr
  to_rwMutex_sem :: addr
  to_threads :: "addr list"
  to_more_threads :: "addr list"

definition SyncTest_objects :: "kernel \<Rightarrow> test_objects \<Rightarrow> int \<Rightarrow> kernel" where
  "SyncTest_objects k T type =
     (if type = 0 then MyProducerConsumer1_objects k (to_isFull T) (to_isEmpty T) (to_lock T) (to_lock_sem T)
      else if type = 1 then SynchList k (to_produceList T) (to_lock T) (to_lock_sem T) (to_barrier T)
      else if type = 2 then Lock (put_cond k (to_barrier T) Condition) (to_lock T) (to_lock_sem T)
      else if type = 3 then MyReaderWriter_objects k (to_lock T) (to_lock_sem T) (to_rwMutex T) (to_rwMutex_sem T)
      else k)"

definition SyncTest :: "int \<Rightarrow> int \<Rightarrow> test_objects \<Rightarrow> int \<Rightarrow> frame list" where
  "SyncTest prio remain T type =
     (if type = 0 then MyProducerConsumer1 prio remain (to_threads T) (to_more_threads T) (to_isFull T) (to_isEmpty T) (to_lock T)
      else if type = 1 then MyProducerConsumer2 prio remain (to_threads T) (to_more_threads T) (to_produceList T)
      else if type = 2 then MyBarrier prio remain (to_threads T) (to_barrier T) (to_lock T)
      else if type = 3 then MyReaderWriter prio remain (to_threads T) (to_more_threads T) (to_lock T) (to_rwMutex T)
      else [])"

text \<open>
  What \<^verbatim>\<open>main\<close> does after \<^verbatim>\<open>Initialize\<close> in a system that is built with \<^verbatim>\<open>FILESYS_STUB\<close>: the tests that the options select, the user program and
  \<^verbatim>\<open>Halt\<close>. \<open>executables\<close> is the UNIX directory; \<open>ts\<close> are addresses of threads, \<open>sp\<close>, \<open>buf\<close> and \<open>pt0\<close> uninitialised memory.
\<close>

definition main_body :: "main_opts \<Rightarrow> kernel_flags \<Rightarrow> int \<Rightarrow> int \<Rightarrow> test_objects \<Rightarrow> packet_header \<Rightarrow> (nat \<Rightarrow> addr) \<Rightarrow> (string \<Rightarrow> byte list option)
    \<Rightarrow> addrspace \<Rightarrow> byte list \<Rightarrow> (nat \<Rightarrow> tentry) \<Rightarrow> frame list" where
  "main_body m fl prio remain T out ts executables sp buf pt0 =
     (if o_threadTestFlag m then MyThreadTest (o_typeno m) prio remain (ts 0) (ts 1) (ts 2) else [])
     @ (if o_consoleTestFlag m then [Client ConsoleTest] else [])
     @ (if o_networkTestFlag m then NetworkTest (f_hostName fl) out else [])
     @ (if o_syncTestFlag m \<noteq> - 1 then SyncTest prio remain T (o_syncTestFlag m) else [])
     @ (case o_userProgName m of None \<Rightarrow> [Client Halt] | Some name \<Rightarrow> main_user prio remain (map ts [3, 4, 5]) (executables name) sp buf pt0)"

section \<open>Construction of the network and the post office\<close>

text \<open>
  \<open>hdr\<close>, \<open>inbox\<close> and \<open>new\<close> are uninitialised memory, \<open>polls\<close> what the socket will deliver, and \<open>percent\<close> is the reliability in percent,
  rounded up.
\<close>

definition NetworkInput :: "kernel \<Rightarrow> packet_header \<Rightarrow> byte list \<Rightarrow> byte list option list \<Rightarrow> addr \<Rightarrow> kernel result" where
  "NetworkInput k hdr inbox polls messageAvailable =
     Schedule (upd_data (\<lambda>d. d\<lparr>d_networkIn := \<lparr>ni_inHdr = hdr\<lparr>pkt_length := 0\<rparr>, ni_inbox = inbox, ni_polls = polls, ni_messageAvailable = messageAvailable\<rparr>\<rparr>) k)
       (Device 2) NetworkTime NetworkRecvInt"

definition NetworkOutput :: "kernel \<Rightarrow> int \<Rightarrow> byte list \<Rightarrow> addr \<Rightarrow> addr \<Rightarrow> kernel" where
  "NetworkOutput k percent new messageSent sendLock =
     upd_data (\<lambda>d. d\<lparr>d_networkOut := \<lparr>no_sendBusy = False, no_chance = (if percent < 0 then 0 else if percent > 100 then 100 else percent), no_new = new,
       no_sent = [], no_messageSent = messageSent, no_sendLock = sendLock\<rparr>\<rparr>) k"

text \<open>The addresses of a mailbox: the list, its lock, the semaphore of the lock and the condition variable.\<close>

fun MailBoxes :: "kernel \<Rightarrow> (addr \<times> addr \<times> addr \<times> addr) list \<Rightarrow> kernel" where
  "MailBoxes k [] = k"
| "MailBoxes k ((sl, l, s, cv) # bs) = MailBoxes (SynchList k sl l s cv) bs"

definition PostOfficeInput :: "kernel \<Rightarrow> (addr \<times> addr \<times> addr \<times> addr) list \<Rightarrow> packet_header \<Rightarrow> byte list \<Rightarrow> byte list option list \<Rightarrow> addr \<Rightarrow> byte list \<Rightarrow> kernel result" where
  "PostOfficeInput k boxes hdr inbox polls messageAvailable buffer =
     NetworkInput (upd_data (\<lambda>d. d\<lparr>d_post := (d_post d)\<lparr>po_boxes := map fst boxes, po_buffer := buffer\<rparr>\<rparr>)
       (MailBoxes (put_sem k messageAvailable (Semaphore 0)) boxes)) hdr inbox polls messageAvailable"

definition PostOfficeInput_calls :: "addr \<Rightarrow> int \<Rightarrow> int \<Rightarrow> frame list" where
  "PostOfficeInput_calls t prio remain = [NewThread t prio remain, Fork t [Client PostalDelivery]]"

definition PostOfficeOutput :: "kernel \<Rightarrow> int \<Rightarrow> byte list \<Rightarrow> addr \<Rightarrow> addr \<Rightarrow> addr \<Rightarrow> kernel" where
  "PostOfficeOutput k percent new messageSent sendLock s =
     NetworkOutput (Lock (put_sem k messageSent (Semaphore 0)) sendLock s) percent new messageSent sendLock"

section \<open>What the options mean\<close>







declare kernel_args.simps(2) [simp del] main_args.simps(2) [simp del]


text \<open>One step of the two loops for each option.\<close>

lemmas kernel_steps = kernel_args.simps(1) kernel_args.simps(2) [where arg = "''-rs''"] kernel_args.simps(2) [where arg = "''-s''"]
  kernel_args.simps(2) [where arg = "''-ci''"] kernel_args.simps(2) [where arg = "''-co''"] kernel_args.simps(2) [where arg = "''-f''"]
  kernel_args.simps(2) [where arg = "''-n''"] kernel_args.simps(2) [where arg = "''-m''"] kernel_args.simps(2) [where arg = "''-u''"]
  kernel_args.simps(2) [where arg = "''-d''"] kernel_args.simps(2) [where arg = "''-z''"] kernel_args.simps(2) [where arg = "''-x''"]
  kernel_args.simps(2) [where arg = "''-K''"] kernel_args.simps(2) [where arg = "''-C''"] kernel_args.simps(2) [where arg = "''-N''"]
  kernel_args.simps(2) [where arg = "''-cp''"] kernel_args.simps(2) [where arg = "''-p''"] kernel_args.simps(2) [where arg = "''-r''"]
  kernel_args.simps(2) [where arg = "''-l''"] kernel_args.simps(2) [where arg = "''-D''"] kernel_args.simps(2) [where arg = "''-st''"]

lemmas main_steps = main_args.simps(1) main_args.simps(2) [where arg = "''-rs''"] main_args.simps(2) [where arg = "''-s''"] main_args.simps(2) [where
  arg = "''-ci''"] main_args.simps(2) [where arg = "''-co''"] main_args.simps(2) [where arg = "''-f''"] main_args.simps(2) [where arg = "''-n''"]
  main_args.simps(2) [where arg = "''-m''"] main_args.simps(2) [where arg = "''-u''"] main_args.simps(2) [where arg = "''-d''"] main_args.simps(2)
  [where arg = "''-z''"] main_args.simps(2) [where arg = "''-x''"] main_args.simps(2) [where arg = "''-K''"] main_args.simps(2) [where arg = "''-C''"]
  main_args.simps(2) [where arg = "''-N''"] main_args.simps(2) [where arg = "''-cp''"] main_args.simps(2) [where arg = "''-p''"] main_args.simps(2)
  [where arg = "''-r''"] main_args.simps(2) [where arg = "''-l''"] main_args.simps(2) [where arg = "''-D''"] main_args.simps(2) [where arg =
  "''-st''"]











text \<open>
  Both loops look at every word that is not an argument of an option of their own, so that the arguments of the other's options are read as options:
  asking to print the file named \<^verbatim>\<open>-f\<close> formats the disk.
\<close>

lemma print_option_formats:
  "Kernel False [''nachos'', ''-p'', ''-f''] = Inr (kernel_defaults\<lparr>f_formatFlag := True\<rparr>)"
  "main_args False [''-p'', ''-f''] main_defaults = Inr (main_defaults\<lparr>o_printFileName := Some ''-f''\<rparr>)"
  by (simp_all add: Kernel_def kernel_steps main_steps)

end
