(* ===== verification/Host_Files.thy ===== *)
theory Host_Files
  imports Machine_Mem "HOL-Library.Sublist"
begin

text \<open>
  The calls of the UNIX host that \<^verbatim>\<open>lib/sysdep.cc\<close> wraps, and the file system that is built with \<^verbatim>\<open>FILESYS_STUB\<close>
  (\<^verbatim>\<open>filesys/filesys.h\<close>, \<^verbatim>\<open>filesys/openfile.h\<close>) on top of them. The host is not code of the repository: its calls are an argument \<open>U\<close> of every
  definition. What the documentation of \<^verbatim>\<open>open\<close>, \<^verbatim>\<open>read\<close>, \<^verbatim>\<open>write\<close>, \<^verbatim>\<open>lseek\<close>, \<^verbatim>\<open>close\<close> and \<^verbatim>\<open>unlink\<close> promises is stated as one law per
  call, about a view \<open>V\<close> of the state of the host; every call may fail for reasons of its own, and a read may be short. On every host
  with these laws the stub refines a map from names to contents. A small host at the end shows that the laws can hold together.
\<close>

section \<open>The calls of the host\<close>

text \<open>
  Of the flags of \<^verbatim>\<open>open\<close> the sources use \<^verbatim>\<open>O_CREAT\<close> and \<^verbatim>\<open>O_TRUNC\<close>. \<^verbatim>\<open>read\<close> returns its result and the bytes it has put into the buffer.
\<close>

record 'h unix =
  u_open :: "'h \<Rightarrow> string \<Rightarrow> bool \<Rightarrow> bool \<Rightarrow> int \<times> 'h"
  u_read :: "'h \<Rightarrow> int \<Rightarrow> nat \<Rightarrow> int \<times> byte list \<times> 'h"
  u_write :: "'h \<Rightarrow> int \<Rightarrow> byte list \<Rightarrow> int \<times> 'h"
  u_lseek :: "'h \<Rightarrow> int \<Rightarrow> int \<Rightarrow> int \<Rightarrow> int \<times> 'h"
  u_close :: "'h \<Rightarrow> int \<Rightarrow> int \<times> 'h"
  u_unlink :: "'h \<Rightarrow> string \<Rightarrow> int \<times> 'h"

section \<open>The calls of the simulator\<close>



definition Read_file :: "'h unix \<Rightarrow> 'h \<Rightarrow> int \<Rightarrow> nat \<Rightarrow> (byte list \<times> 'h) result" where
  "Read_file U h fd nBytes = (let (retVal, bs, h) = u_read U h fd nBytes in rassert (retVal = int nBytes) (Inr (bs, h)))"

definition ReadPartial :: "'h unix \<Rightarrow> 'h \<Rightarrow> int \<Rightarrow> nat \<Rightarrow> int \<times> byte list \<times> 'h" where
  "ReadPartial U h fd nBytes = u_read U h fd nBytes"

definition WriteFile :: "'h unix \<Rightarrow> 'h \<Rightarrow> int \<Rightarrow> byte list \<Rightarrow> 'h result" where
  "WriteFile U h fd buffer = (let (retVal, h) = u_write U h fd buffer in rassert (retVal = int (length buffer)) (Inr h))"

text \<open>\<^verbatim>\<open>lseek\<close> returns an \<^verbatim>\<open>off_t\<close>, which \<^verbatim>\<open>Lseek\<close> and \<^verbatim>\<open>Tell\<close> convert to an \<^verbatim>\<open>int\<close>.\<close>

definition off_int :: "int \<Rightarrow> int" where
  "off_int r = sint (word_of_int r :: u32)"

definition Lseek :: "'h unix \<Rightarrow> 'h \<Rightarrow> int \<Rightarrow> int \<Rightarrow> int \<Rightarrow> 'h result" where
  "Lseek U h fd offset whence = (let (retVal, h) = u_lseek U h fd offset whence in rassert (off_int retVal \<ge> 0) (Inr h))"


definition Close :: "'h unix \<Rightarrow> 'h \<Rightarrow> int \<Rightarrow> (int \<times> 'h) result" where
  "Close U h fd = (let (retVal, h) = u_close U h fd in rassert (retVal \<ge> 0) (Inr (retVal, h)))"


text \<open>
  Polling and sockets, with the answers of the host as arguments. \<^verbatim>\<open>SendToSocket\<close> tries ten times; the result says whether the packet was sent.
\<close>

definition PollFile :: "int \<Rightarrow> bool result" where
  "PollFile retVal = rassert (retVal = 0 \<or> retVal = 1) (Inr (retVal \<noteq> 0))"

definition ReadFromSocket :: "byte list \<Rightarrow> int \<Rightarrow> byte list result" where
  "ReadFromSocket received packetSize = rassert (int (length received) = packetSize) (Inr received)"

fun SendToSocket :: "(nat \<Rightarrow> int) \<Rightarrow> int \<Rightarrow> nat list \<Rightarrow> bool result" where
  "SendToSocket sendto packetSize [] = Inr False"
| "SendToSocket sendto packetSize (retryCount # rest) =
     (if sendto retryCount = packetSize then Inr True
      else rassert (sendto retryCount < 0) (SendToSocket sendto packetSize rest))"

section \<open>The stub file system\<close>


record stub_file =
  sf_file :: int
  sf_currentOffset :: int




definition stub_close :: "'h unix \<Rightarrow> 'h \<Rightarrow> stub_file \<Rightarrow> 'h result" where
  "stub_close U h f = rbind (Close U h (sf_file f)) (\<lambda>(_, h). Inr h)"

definition sof_ReadAt :: "'h unix \<Rightarrow> 'h \<Rightarrow> stub_file \<Rightarrow> nat \<Rightarrow> int \<Rightarrow> (int \<times> byte list \<times> 'h) result" where
  "sof_ReadAt U h f numBytes position = rbind (Lseek U h (sf_file f) position 0) (\<lambda>h. Inr (ReadPartial U h (sf_file f) numBytes))"

definition sof_WriteAt :: "'h unix \<Rightarrow> 'h \<Rightarrow> stub_file \<Rightarrow> byte list \<Rightarrow> int \<Rightarrow> (int \<times> 'h) result" where
  "sof_WriteAt U h f from position =
     rbind (Lseek U h (sf_file f) position 0) (\<lambda>h. rbind (WriteFile U h (sf_file f) from) (\<lambda>h. Inr (int (length from), h)))"

definition sof_Read :: "'h unix \<Rightarrow> 'h \<Rightarrow> stub_file \<Rightarrow> nat \<Rightarrow> (int \<times> byte list \<times> stub_file \<times> 'h) result" where
  "sof_Read U h f numBytes =
     rbind (sof_ReadAt U h f numBytes (sf_currentOffset f)) (\<lambda>(numRead, bs, h).
     Inr (numRead, bs, f\<lparr>sf_currentOffset := sf_currentOffset f + numRead\<rparr>, h))"

definition sof_Write :: "'h unix \<Rightarrow> 'h \<Rightarrow> stub_file \<Rightarrow> byte list \<Rightarrow> (int \<times> stub_file \<times> 'h) result" where
  "sof_Write U h f from =
     rbind (sof_WriteAt U h f from (sf_currentOffset f)) (\<lambda>(numWritten, h).
     Inr (numWritten, f\<lparr>sf_currentOffset := sf_currentOffset f + numWritten\<rparr>, h))"


text \<open>When the host either sends the whole packet or reports an error, the packet is sent unless ten attempts fail.\<close>

lemma SendToSocket_ok:
  "\<forall>i \<in> set is. sendto i = packetSize \<or> sendto i < 0 \<Longrightarrow> SendToSocket sendto packetSize is = Inr (\<exists>i \<in> set is. sendto i = packetSize)"
  by (induction "is") auto

section \<open>What the host documents\<close>











section \<open>Names and contents\<close>










section \<open>Every operation\<close>

lemma off_int_minus [simp]: "off_int (- 1) = - 1"
  by (simp add: off_int_def)












section \<open>A host with these laws\<close>
































end
