(* ===== verification/File_System.thy ===== *)
theory File_System
  imports File_Store "HOL-Library.Multiset"
begin

text \<open>
  Directories (\<^verbatim>\<open>filesys/directory.cc\<close>) and the file system (\<^verbatim>\<open>filesys/filesys.cc\<close>, compiled without
  \<^verbatim>\<open>FILESYS_STUB\<close>). A directory entry lives on the disk as the 20 bytes of its C++ object,
  padding included. The invariant \<open>fs_inv\<close> ties the free map and the directory stored on the
  disk to the headers and data sectors of the files: no sector has two owners, and the free map
  marks exactly the owned ones. Under it, the operations implement a partial map from file
  names, cut to nine characters as the code compares them, to byte strings.
\<close>

section \<open>Directories\<close>

definition FileNameMaxLen :: nat where "FileNameMaxLen = 9"

record dirent =
  de_inUse :: bool
  de_pad1 :: "byte list"
  de_sector :: int
  de_name :: "byte list"
  de_pad2 :: "byte list"

definition de_bytes :: "dirent \<Rightarrow> byte list" where
  "de_bytes e = (if de_inUse e then 1 else 0) # de_pad1 e @ int_bytes (de_sector e) @ de_name e @ de_pad2 e"

definition de_of_bytes :: "byte list \<Rightarrow> dirent" where
  "de_of_bytes bs = \<lparr>de_inUse = (hd bs \<noteq> 0), de_pad1 = take 3 (drop 1 bs),
     de_sector = bytes_int (take 4 (drop 4 bs)), de_name = take 10 (drop 8 bs), de_pad2 = take 2 (drop 18 bs)\<rparr>"

record directory =
  dir_tableSize :: int
  dir_table :: "dirent list"

text \<open>The constructor, on the uninitialised entries \<open>junk\<close> that \<^verbatim>\<open>new\<close> returns.\<close>

definition Directory :: "dirent list \<Rightarrow> int \<Rightarrow> directory" where
  "Directory junk sz =
     \<lparr>dir_tableSize = sz, dir_table = map (\<lambda>e. e\<lparr>de_inUse := False\<rparr>) (take (nat sz) junk)\<rparr>"

definition dir_bytes :: "dirent list \<Rightarrow> byte list" where
  "dir_bytes t = concat (map de_bytes t)"

definition dir_FetchFrom :: "synchdisk \<Rightarrow> directory \<Rightarrow> openfile \<Rightarrow> (directory \<times> synchdisk) result" where
  "dir_FetchFrom s d file =
     rbind (of_ReadAt s file (dir_tableSize d * 20) 0) (\<lambda>(bs, s).
       let image = overlay (dir_bytes (dir_table d)) 0 bs
       in Inr (d\<lparr>dir_table := map (\<lambda>k. de_of_bytes (chunk 20 image k)) [0..<length (dir_table d)]\<rparr>, s))"

definition dir_WriteBack :: "(nat \<Rightarrow> byte) \<Rightarrow> synchdisk \<Rightarrow> directory \<Rightarrow> openfile \<Rightarrow> synchdisk result" where
  "dir_WriteBack junk s d file =
     rbind (of_WriteAt junk s file (dir_bytes (dir_table d)) (dir_tableSize d * 20) 0) (\<lambda>(n, s). Inr s)"

text \<open>
  C strings: a string ends at the first zero byte. \<^verbatim>\<open>strncmp(a, b, n) == 0\<close> compares at most \<open>n\<close>
  bytes of both; \<^verbatim>\<open>strncpy\<close> pads with zeros up to \<open>n\<close> bytes and leaves the rest of the target.
\<close>

definition cstr :: "byte list \<Rightarrow> byte list" where
  "cstr bs = takeWhile (\<lambda>b. b \<noteq> 0) bs"

definition strncmp_eq :: "byte list \<Rightarrow> byte list \<Rightarrow> nat \<Rightarrow> bool" where
  "strncmp_eq a b n = (take n (cstr a) = take n (cstr b))"

definition strncpy :: "byte list \<Rightarrow> byte list \<Rightarrow> nat \<Rightarrow> byte list" where
  "strncpy dst src n = take n (cstr src @ replicate n 0) @ drop n dst"

function dir_find_loop :: "directory \<Rightarrow> byte list \<Rightarrow> int \<Rightarrow> int result" where
  "dir_find_loop d name i =
     (if i < dir_tableSize d
      then rbind (aread (dir_table d) i) (\<lambda>e.
             if de_inUse e \<and> strncmp_eq (de_name e) name FileNameMaxLen then Inr i
             else dir_find_loop d name (i + 1))
      else Inr (- 1))"
  by pat_completeness auto
termination
  by (relation "measure (\<lambda>(d, n, i). nat (dir_tableSize d - i))") auto

definition dir_FindIndex :: "directory \<Rightarrow> byte list \<Rightarrow> int result" where
  "dir_FindIndex d name = dir_find_loop d name 0"

definition dir_Find :: "directory \<Rightarrow> byte list \<Rightarrow> int result" where
  "dir_Find d name =
     rbind (dir_FindIndex d name) (\<lambda>i.
       if i \<noteq> - 1 then rbind (aread (dir_table d) i) (\<lambda>e. Inr (de_sector e)) else Inr (- 1))"

function dir_add_loop :: "directory \<Rightarrow> byte list \<Rightarrow> int \<Rightarrow> int \<Rightarrow> (bool \<times> directory) result" where
  "dir_add_loop d name newSector i =
     (if i < dir_tableSize d
      then rbind (aread (dir_table d) i) (\<lambda>e.
             if \<not> de_inUse e
             then rbind (awrite (dir_table d) i
                    (e\<lparr>de_inUse := True, de_name := strncpy (de_name e) name FileNameMaxLen,
                       de_sector := newSector\<rparr>)) (\<lambda>t. Inr (True, d\<lparr>dir_table := t\<rparr>))
             else dir_add_loop d name newSector (i + 1))
      else Inr (False, d))"
  by pat_completeness auto
termination
  by (relation "measure (\<lambda>(d, n, s, i). nat (dir_tableSize d - i))") auto

definition dir_Add :: "directory \<Rightarrow> byte list \<Rightarrow> int \<Rightarrow> (bool \<times> directory) result" where
  "dir_Add d name newSector =
     rbind (dir_FindIndex d name) (\<lambda>i.
       if i \<noteq> - 1 then Inr (False, d) else dir_add_loop d name newSector 0)"

definition dir_Remove :: "directory \<Rightarrow> byte list \<Rightarrow> (bool \<times> directory) result" where
  "dir_Remove d name =
     rbind (dir_FindIndex d name) (\<lambda>i.
       if i = - 1 then Inr (False, d)
       else rbind (aread (dir_table d) i) (\<lambda>e.
            rbind (awrite (dir_table d) i (e\<lparr>de_inUse := False\<rparr>)) (\<lambda>t.
            Inr (True, d\<lparr>dir_table := t\<rparr>))))"

section \<open>The file system\<close>

definition FreeMapSector :: int where "FreeMapSector = 0"
definition DirectorySector :: int where "DirectorySector = 1"
definition FreeMapFileSize :: int where "FreeMapFileSize = NumSectors div BitsInByte"
definition NumDirEntries :: int where "NumDirEntries = 10"
definition DirectoryFileSize :: int where "DirectoryFileSize = 20 * NumDirEntries"

record filesystem =
  fs_freeMapFile :: openfile
  fs_directoryFile :: openfile

text \<open>
  The uninitialised memory that one operation obtains: the entries of a new directory, two new
  headers, and the buffers of its calls of \<^verbatim>\<open>WriteAt\<close>, numbered.
\<close>

record fresh_memory =
  j_dir :: "dirent list"
  j_hdr :: "nat \<Rightarrow> filehdr"
  j_buf :: "nat \<Rightarrow> nat \<Rightarrow> byte"

definition fs_open_files :: "synchdisk \<Rightarrow> (filesystem \<times> synchdisk) result" where
  "fs_open_files s =
     rbind (OpenFile s FreeMapSector) (\<lambda>(freeMapFile, s).
     rbind (OpenFile s DirectorySector) (\<lambda>(directoryFile, s).
     Inr (\<lparr>fs_freeMapFile = freeMapFile, fs_directoryFile = directoryFile\<rparr>, s)))"

definition FileSystem :: "fresh_memory \<Rightarrow> synchdisk \<Rightarrow> bool \<Rightarrow> (filesystem \<times> synchdisk) result" where
  "FileSystem J s format =
     (if format then
        rbind (Bitmap NumSectors) (\<lambda>freeMap.
        let directory = Directory (j_dir J) NumDirEntries in
        rbind (bm_Mark freeMap FreeMapSector) (\<lambda>freeMap.
        rbind (bm_Mark freeMap DirectorySector) (\<lambda>freeMap.
        rbind (fh_Allocate (j_hdr J 0) freeMap FreeMapFileSize) (\<lambda>(ok, mapHdr, freeMap). rassert ok
       (rbind (fh_Allocate (j_hdr J 1) freeMap DirectoryFileSize) (\<lambda>(ok, dirHdr, freeMap). rassert ok
       (rbind (fh_WriteBack s mapHdr FreeMapSector) (\<lambda>s.
        rbind (fh_WriteBack s dirHdr DirectorySector) (\<lambda>s.
        rbind (fs_open_files s) (\<lambda>(fs, s).
        rbind (pbm_WriteBack (j_buf J 0) s (fs_freeMapFile fs) freeMap) (\<lambda>s.
        rbind (dir_WriteBack (j_buf J 1) s directory (fs_directoryFile fs)) (\<lambda>s.
        Inr (fs, s)))))))))))))
      else fs_open_files s)"

text \<open>\<^verbatim>\<open>Create\<close>; \<open>fs_create_new\<close> is its branch for a name that is not in the directory yet.\<close>

definition fs_create_new ::
    "fresh_memory \<Rightarrow> filesystem \<Rightarrow> synchdisk \<Rightarrow> directory \<Rightarrow> byte list \<Rightarrow> int \<Rightarrow> (bool \<times> synchdisk) result" where
  "fs_create_new J fs s directory name initialSize =
     rbind (PersistentBitmap s (fs_freeMapFile fs) NumSectors) (\<lambda>(freeMap, s).
     rbind (bm_FindAndSet freeMap) (\<lambda>(sector, freeMap).
     if sector = - 1 then Inr (False, s)
     else
       rbind (dir_Add directory name sector) (\<lambda>(added, directory).
       if \<not> added then Inr (False, s)
       else
         rbind (fh_Allocate (j_hdr J 0) freeMap initialSize) (\<lambda>(ok, hdr, freeMap).
         if \<not> ok then Inr (False, s)
         else
           rbind (fh_WriteBack s hdr sector) (\<lambda>s.
           rbind (dir_WriteBack (j_buf J 0) s directory (fs_directoryFile fs)) (\<lambda>s.
           rbind (pbm_WriteBack (j_buf J 1) s (fs_freeMapFile fs) freeMap) (\<lambda>s.
           Inr (True, s))))))))"

definition fs_Create ::
    "fresh_memory \<Rightarrow> filesystem \<Rightarrow> synchdisk \<Rightarrow> byte list \<Rightarrow> int \<Rightarrow> (bool \<times> synchdisk) result" where
  "fs_Create J fs s name initialSize =
     rbind (dir_FetchFrom s (Directory (j_dir J) NumDirEntries) (fs_directoryFile fs)) (\<lambda>(directory, s).
     rbind (dir_Find directory name) (\<lambda>k.
     if k \<noteq> - 1 then Inr (False, s) else fs_create_new J fs s directory name initialSize))"

definition fs_Open ::
    "fresh_memory \<Rightarrow> filesystem \<Rightarrow> synchdisk \<Rightarrow> byte list \<Rightarrow> (openfile option \<times> synchdisk) result" where
  "fs_Open J fs s name =
     rbind (dir_FetchFrom s (Directory (j_dir J) NumDirEntries) (fs_directoryFile fs)) (\<lambda>(directory, s).
     rbind (dir_Find directory name) (\<lambda>sector.
     if sector \<ge> 0 then rbind (OpenFile s sector) (\<lambda>(f, s). Inr (Some f, s)) else Inr (None, s)))"

definition fs_Remove ::
    "fresh_memory \<Rightarrow> filesystem \<Rightarrow> synchdisk \<Rightarrow> byte list \<Rightarrow> (bool \<times> synchdisk) result" where
  "fs_Remove J fs s name =
     rbind (dir_FetchFrom s (Directory (j_dir J) NumDirEntries) (fs_directoryFile fs)) (\<lambda>(directory, s).
     rbind (dir_Find directory name) (\<lambda>sector.
     if sector = - 1 then Inr (False, s)
     else
       rbind (fh_FetchFrom s sector) (\<lambda>(fileHdr, s).
       rbind (PersistentBitmap s (fs_freeMapFile fs) NumSectors) (\<lambda>(freeMap, s).
       rbind (fh_Deallocate fileHdr freeMap) (\<lambda>freeMap.
       rbind (bm_Clear freeMap sector) (\<lambda>freeMap.
       rbind (dir_Remove directory name) (\<lambda>(_, directory).
       rbind (pbm_WriteBack (j_buf J 0) s (fs_freeMapFile fs) freeMap) (\<lambda>s.
       rbind (dir_WriteBack (j_buf J 1) s directory (fs_directoryFile fs)) (\<lambda>s.
       Inr (True, s))))))))))"

text \<open>
  \<^verbatim>\<open>List\<close>: what \<^verbatim>\<open>printf("%s", table[i].name)\<close> prints for each entry in use. It reads on past the
  name, through the rest of the table, up to the first zero byte; running out of the table is an
  error.
\<close>

definition print_name :: "dirent list \<Rightarrow> nat \<Rightarrow> byte list result" where
  "print_name t i =
     (let rest = drop (20 * i + 8) (dir_bytes t)
      in if 0 \<in> set rest then Inr (cstr rest) else Inl OutOfBounds)"

function dir_list_loop :: "directory \<Rightarrow> int \<Rightarrow> byte list list result" where
  "dir_list_loop d i =
     (if i < dir_tableSize d
      then rbind (aread (dir_table d) i) (\<lambda>e.
             if de_inUse e
             then rbind (print_name (dir_table d) (nat i)) (\<lambda>n.
                  rbind (dir_list_loop d (i + 1)) (\<lambda>ns. Inr (n # ns)))
             else dir_list_loop d (i + 1))
      else Inr [])"
  by pat_completeness auto
termination
  by (relation "measure (\<lambda>(d, i). nat (dir_tableSize d - i))") auto

definition dir_List :: "directory \<Rightarrow> byte list list result" where
  "dir_List d = dir_list_loop d 0"

definition fs_List ::
    "fresh_memory \<Rightarrow> filesystem \<Rightarrow> synchdisk \<Rightarrow> (byte list list \<times> synchdisk) result" where
  "fs_List J fs s =
     rbind (dir_FetchFrom s (Directory (j_dir J) NumDirEntries) (fs_directoryFile fs)) (\<lambda>(directory, s).
     rbind (dir_List directory) (\<lambda>names. Inr (names, s)))"

declare dir_find_loop.simps [simp del] dir_add_loop.simps [simp del] dir_list_loop.simps [simp del]

section \<open>What a directory holds\<close>

definition de_ok :: "dirent \<Rightarrow> bool" where
  "de_ok e \<longleftrightarrow> length (de_pad1 e) = 3 \<and> is_int32 (de_sector e) \<and> length (de_name e) = 10 \<and> length (de_pad2 e) = 2"

definition fkey :: "byte list \<Rightarrow> byte list" where
  "fkey name = take FileNameMaxLen (cstr name)"

definition in_use :: "dirent list \<Rightarrow> dirent list" where
  "in_use t = filter de_inUse t"

definition dir_map :: "dirent list \<Rightarrow> byte list \<rightharpoonup> int" where
  "dir_map t = map_of (map (\<lambda>e. (fkey (de_name e), de_sector e)) (in_use t))"

definition dir_ok :: "dirent list \<Rightarrow> bool" where
  "dir_ok t \<longleftrightarrow> (\<forall>e \<in> set t. de_ok e) \<and> distinct (map (\<lambda>e. fkey (de_name e)) (in_use t))"

lemma length_de_bytes: "de_ok e \<Longrightarrow> length (de_bytes e) = 20"
  by (simp add: de_bytes_def de_ok_def)

lemma de_of_bytes_bytes: "de_ok e \<Longrightarrow> de_of_bytes (de_bytes e) = e"
  by (cases e) (simp add: de_ok_def de_of_bytes_def de_bytes_def drop_Cons')

lemma cstr_append: "0 \<notin> set a \<Longrightarrow> cstr (a @ b) = a @ cstr b"
  unfolding cstr_def by (induction a) auto

lemma cstr_no_zero: "0 \<notin> set (cstr a)"
  unfolding cstr_def by (auto dest: set_takeWhileD)

lemma fkey_strncpy: "fkey (strncpy dst name FileNameMaxLen) = fkey name"
proof (cases "9 \<le> length (cstr name)")
  case True
  moreover have "0 \<notin> set (take 9 (cstr name))" using cstr_no_zero [of name] by (meson in_set_takeD)
  ultimately show ?thesis by (simp add: fkey_def strncpy_def FileNameMaxLen_def cstr_append)
next
  case False
  then obtain n where n: "9 - length (cstr name) = Suc n" by (metis Suc_diff_Suc not_le)
  have "cstr (cstr name @ 0 # r) = cstr name" for r
    using cstr_append [OF cstr_no_zero] by (simp add: cstr_def [of "0 # r"])
  then show ?thesis using False n by (simp add: fkey_def strncpy_def FileNameMaxLen_def)
qed

lemma length_strncpy: "n \<le> length dst \<Longrightarrow> length (strncpy dst src n) = length dst"
  by (simp add: strncpy_def)

lemma dir_map_Some:
  "dir_ok t \<Longrightarrow> dir_map t k = Some sec \<longleftrightarrow> (\<exists>e \<in> set t. de_inUse e \<and> fkey (de_name e) = k \<and> de_sector e = sec)"
  by (auto simp: dir_map_def dir_ok_def in_use_def comp_def map_of_eq_Some_iff)

lemma dir_map_None: "dir_map t k = None \<longleftrightarrow> (\<forall>e \<in> set t. de_inUse e \<longrightarrow> fkey (de_name e) \<noteq> k)"
  by (auto simp: dir_map_def in_use_def map_of_eq_None_iff image_iff)

definition names_entry :: "byte list \<Rightarrow> dirent \<Rightarrow> bool" where
  "names_entry name e \<longleftrightarrow> de_inUse e \<and> fkey (de_name e) = fkey name"

lemma dir_find_loop_eq:
  assumes "dir_tableSize d = int (length (dir_table d))" and "i \<le> length (dir_table d)"
  shows "(\<exists>j. i \<le> j \<and> j < length (dir_table d) \<and> names_entry name (dir_table d ! j) \<and> dir_find_loop d name (int i) = Inr (int j))
    \<or> (\<forall>j. i \<le> j \<longrightarrow> j < length (dir_table d) \<longrightarrow> \<not> names_entry name (dir_table d ! j)) \<and> dir_find_loop d name (int i) = Inr (- 1)"
  using assms(2)
proof (induction "length (dir_table d) - i" arbitrary: i)
  case 0
  then show ?case using assms(1) by (simp add: dir_find_loop.simps)
next
  case (Suc n)
  then have i: "i < length (dir_table d)" by simp
  have m: "names_entry name e = (de_inUse e \<and> strncmp_eq (de_name e) name FileNameMaxLen)" for e
    by (simp add: names_entry_def strncmp_eq_def fkey_def)
  show ?case
  proof (cases "names_entry name (dir_table d ! i)")
    case True
    then have "dir_find_loop d name (int i) = Inr (int i)"
      using i assms(1) m by (subst dir_find_loop.simps) simp
    then show ?thesis using True i by blast
  next
    case False
    then have "dir_find_loop d name (int i) = dir_find_loop d name (int (Suc i))"
      using i assms(1) m by (subst dir_find_loop.simps) (auto simp: ac_simps)
    moreover have "n = length (dir_table d) - Suc i" "Suc i \<le> length (dir_table d)"
      using Suc.hyps(2) i by simp_all
    note Suc.hyps(1) [OF this]
    moreover have "i \<le> j \<longleftrightarrow> j = i \<or> Suc i \<le> j" for j by auto
    ultimately show ?thesis using False by auto
  qed
qed

lemma dir_FindIndex_cases:
  assumes "dir_tableSize d = int (length (dir_table d))"
  obtains (found) j where "j < length (dir_table d)" "names_entry name (dir_table d ! j)" "dir_FindIndex d name = Inr (int j)"
  | (missing) "\<forall>e \<in> set (dir_table d). \<not> names_entry name e" "dir_FindIndex d name = Inr (- 1)"
  using dir_find_loop_eq [OF assms, of 0 name] by (auto simp: dir_FindIndex_def all_set_conv_all_nth)

lemma dir_Find_ok:
  assumes "dir_tableSize d = int (length (dir_table d))" and ok: "dir_ok (dir_table d)"
  shows "dir_Find d name = Inr (case dir_map (dir_table d) (fkey name) of None \<Rightarrow> - 1 | Some k \<Rightarrow> k)"
  using assms(1)
proof (cases rule: dir_FindIndex_cases [of d name])
  case (found j)
  then have "dir_map (dir_table d) (fkey name) = Some (de_sector (dir_table d ! j))"
    using dir_map_Some [OF ok] by (auto simp: names_entry_def)
  then show ?thesis using found by (simp add: dir_Find_def)
next
  case missing
  then have "dir_map (dir_table d) (fkey name) = None" by (simp add: dir_map_None names_entry_def)
  then show ?thesis using missing by (simp add: dir_Find_def)
qed

lemma dir_add_loop_eq:
  assumes "dir_tableSize d = int (length (dir_table d))" and "i \<le> length (dir_table d)"
  shows "(\<exists>j. i \<le> j \<and> j < length (dir_table d) \<and> \<not> de_inUse (dir_table d ! j)
      \<and> dir_add_loop d name k (int i) = Inr (True, d\<lparr>dir_table := (dir_table d)[j := (dir_table d ! j)\<lparr>de_inUse := True,
            de_name := strncpy (de_name (dir_table d ! j)) name FileNameMaxLen, de_sector := k\<rparr>]\<rparr>))
    \<or> (\<forall>j. i \<le> j \<longrightarrow> j < length (dir_table d) \<longrightarrow> de_inUse (dir_table d ! j)) \<and> dir_add_loop d name k (int i) = Inr (False, d)"
  using assms(2)
proof (induction "length (dir_table d) - i" arbitrary: i)
  case 0
  then show ?case using assms(1) by (simp add: dir_add_loop.simps)
next
  case (Suc n)
  then have i: "i < length (dir_table d)" by simp
  show ?case
  proof (cases "de_inUse (dir_table d ! i)")
    case False
    then have "dir_add_loop d name k (int i) = Inr (True, d\<lparr>dir_table := (dir_table d)[i := (dir_table d ! i)\<lparr>de_inUse := True,
            de_name := strncpy (de_name (dir_table d ! i)) name FileNameMaxLen, de_sector := k\<rparr>]\<rparr>)"
      using i assms(1) by (subst dir_add_loop.simps) simp
    then show ?thesis using False i by blast
  next
    case True
    then have "dir_add_loop d name k (int i) = dir_add_loop d name k (int (Suc i))"
      using i assms(1) by (subst dir_add_loop.simps) (simp add: ac_simps)
    moreover have "n = length (dir_table d) - Suc i" "Suc i \<le> length (dir_table d)"
      using Suc.hyps(2) i by simp_all
    note Suc.hyps(1) [OF this]
    moreover have "i \<le> j \<longleftrightarrow> j = i \<or> Suc i \<le> j" for j by auto
    ultimately show ?thesis using True by auto
  qed
qed

definition new_entry :: "dirent \<Rightarrow> byte list \<Rightarrow> int \<Rightarrow> dirent" where
  "new_entry e name k =
     e\<lparr>de_inUse := True, de_name := strncpy (de_name e) name FileNameMaxLen, de_sector := k\<rparr>"

lemma dir_Add_cases:
  assumes "dir_tableSize d = int (length (dir_table d))" and ok: "dir_ok (dir_table d)"
    and new: "dir_map (dir_table d) (fkey name) = None"
  obtains (added) j where "j < length (dir_table d)" "\<not> de_inUse (dir_table d ! j)"
      "dir_Add d name k = Inr (True, d\<lparr>dir_table := (dir_table d)[j := new_entry (dir_table d ! j) name k]\<rparr>)"
  | (full) "\<forall>e \<in> set (dir_table d). de_inUse e" "dir_Add d name k = Inr (False, d)"
proof -
  have "dir_FindIndex d name = Inr (- 1)"
    using assms(1)
  proof (cases rule: dir_FindIndex_cases [of d name])
    case (found j)
    then show ?thesis using new by (auto simp: dir_map_None names_entry_def)
  qed simp
  then have "dir_Add d name k = dir_add_loop d name k (int 0)" by (simp add: dir_Add_def)
  then show ?thesis
    using dir_add_loop_eq [OF assms(1), of 0 name k] that
    by (auto simp: new_entry_def all_set_conv_all_nth)
qed

lemma in_use_update:
  assumes "j < length t"
  shows "in_use (t[j := e]) = in_use (take j t) @ (if de_inUse e then [e] else []) @ in_use (drop (Suc j) t)"
    and "in_use t = in_use (take j t) @ (if de_inUse (t ! j) then [t ! j] else []) @ in_use (drop (Suc j) t)"
proof -
  show "in_use (t[j := e]) = in_use (take j t) @ (if de_inUse e then [e] else []) @ in_use (drop (Suc j) t)"
    using assms by (simp add: in_use_def upd_conv_take_nth_drop)
  have "t = take j t @ t ! j # drop (Suc j) t" using assms by (rule id_take_nth_drop)
  then have "in_use t = in_use (take j t @ t ! j # drop (Suc j) t)" by simp
  then show "in_use t = in_use (take j t) @ (if de_inUse (t ! j) then [t ! j] else []) @ in_use (drop (Suc j) t)"
    by (simp add: in_use_def)
qed

lemma new_entry_simps [simp]:
  "de_inUse (new_entry e name k)" "de_sector (new_entry e name k) = k"
  "fkey (de_name (new_entry e name k)) = fkey name"
  by (simp_all add: new_entry_def fkey_strncpy)

lemma de_ok_new_entry: "de_ok e \<Longrightarrow> is_int32 k \<Longrightarrow> de_ok (new_entry e name k)"
  by (simp add: de_ok_def new_entry_def length_strncpy FileNameMaxLen_def)

lemma map_of_mid:
  assumes "k \<notin> fst ` set A" and "k \<notin> fst ` set B"
  shows "map_of (A @ (k, v) # B) = (map_of (A @ B))(k \<mapsto> v)"
    and "map_of (A @ B) = (map_of (A @ (k, v) # B))(k := None)"
proof -
  have "map_of A k = None" "map_of B k = None" using assms by (simp_all add: map_of_eq_None_iff)
  then show "map_of (A @ (k, v) # B) = (map_of (A @ B))(k \<mapsto> v)"
    and "map_of (A @ B) = (map_of (A @ (k, v) # B))(k := None)"
    by (auto simp: fun_eq_iff map_add_def split: option.split)
qed

lemma dir_add_entry:
  assumes ok: "dir_ok t" and j: "j < length t" "\<not> de_inUse (t ! j)"
    and new: "dir_map t (fkey name) = None" and k: "is_int32 k"
  shows "dir_ok (t[j := new_entry (t ! j) name k])"
    and "dir_map (t[j := new_entry (t ! j) name k]) = (dir_map t)(fkey name \<mapsto> k)"
proof -
  let ?e = "new_entry (t ! j) name k"
  have u: "in_use (t[j := ?e]) = in_use (take j t) @ ?e # in_use (drop (Suc j) t)"
    "in_use t = in_use (take j t) @ in_use (drop (Suc j) t)"
    using in_use_update [OF j(1)] j(2) by simp_all
  have "fkey name \<notin> (\<lambda>e. fkey (de_name e)) ` set (in_use t)"
    using new by (auto simp: dir_map_None in_use_def)
  then have n: "fkey name \<notin> (\<lambda>e. fkey (de_name e)) ` (set (in_use (take j t)) \<union> set (in_use (drop (Suc j) t)))"
    unfolding u(2) by simp
  have d: "distinct (map (\<lambda>e. fkey (de_name e)) (in_use t))" using ok by (simp add: dir_ok_def)
  have "de_ok ?e" using ok j(1) k by (simp add: dir_ok_def de_ok_new_entry)
  then have "\<forall>e \<in> set (t[j := ?e]). de_ok e" using ok by (auto simp: dir_ok_def dest!: set_update_subset_insert [THEN subsetD])
  then show "dir_ok (t[j := ?e])" using n d unfolding dir_ok_def u by auto
  let ?A = "map (\<lambda>e. (fkey (de_name e), de_sector e)) (in_use (take j t))"
  let ?B = "map (\<lambda>e. (fkey (de_name e), de_sector e)) (in_use (drop (Suc j) t))"
  have nab: "fkey name \<notin> fst ` set ?A" "fkey name \<notin> fst ` set ?B" using n by (auto simp: image_image)
  show "dir_map (t[j := ?e]) = (dir_map t)(fkey name \<mapsto> k)"
    using map_of_mid(1) [OF nab, of k] unfolding dir_map_def u by simp
qed

lemma dir_remove_entry:
  assumes ok: "dir_ok t" and j: "j < length t" "names_entry name (t ! j)"
  shows "dir_ok (t[j := (t ! j)\<lparr>de_inUse := False\<rparr>])"
    and "dir_map (t[j := (t ! j)\<lparr>de_inUse := False\<rparr>]) = (dir_map t)(fkey name := None)"
proof -
  let ?e = "(t ! j)\<lparr>de_inUse := False\<rparr>"
  have u: "in_use (t[j := ?e]) = in_use (take j t) @ in_use (drop (Suc j) t)"
    "in_use t = in_use (take j t) @ t ! j # in_use (drop (Suc j) t)"
    using in_use_update [OF j(1)] j(2) by (simp_all add: names_entry_def)
  have d: "distinct (map (\<lambda>e. fkey (de_name e)) (in_use t))" using ok by (simp add: dir_ok_def)
  have "de_ok (t ! j)" using ok j(1) by (simp add: dir_ok_def)
  then have "de_ok ?e" by (simp add: de_ok_def)
  then have "\<forall>e \<in> set (t[j := ?e]). de_ok e" using ok by (auto simp: dir_ok_def dest!: set_update_subset_insert [THEN subsetD])
  then show "dir_ok (t[j := ?e])" using d unfolding dir_ok_def u by auto
  have k: "fkey (de_name (t ! j)) = fkey name" using j(2) by (simp add: names_entry_def)
  have n: "fkey name \<notin> (\<lambda>e. fkey (de_name e)) ` (set (in_use (take j t)) \<union> set (in_use (drop (Suc j) t)))"
    using d unfolding u(2) k [symmetric] by auto
  let ?A = "map (\<lambda>e. (fkey (de_name e), de_sector e)) (in_use (take j t))"
  let ?B = "map (\<lambda>e. (fkey (de_name e), de_sector e)) (in_use (drop (Suc j) t))"
  have nab: "fkey name \<notin> fst ` set ?A" "fkey name \<notin> fst ` set ?B" using n by (auto simp: image_image)
  show "dir_map (t[j := ?e]) = (dir_map t)(fkey name := None)"
    using map_of_mid(2) [OF nab, of "de_sector (t ! j)"] k unfolding dir_map_def u by simp
qed

section \<open>Directories on disk\<close>

lemma length_dir_bytes: "\<forall>e \<in> set t. de_ok e \<Longrightarrow> length (dir_bytes t) = 20 * length t"
  unfolding dir_bytes_def by (rule length_concat_chunks) (simp add: length_de_bytes)

definition mem_ok :: "fresh_memory \<Rightarrow> bool" where
  "mem_ok J \<longleftrightarrow> length (j_dir J) = nat NumDirEntries \<and> (\<forall>e \<in> set (j_dir J). de_ok e)
     \<and> (\<forall>i. length (fh_dataSectors (j_hdr J i)) = nat NumDirect \<and> (\<forall>k \<in> set (fh_dataSectors (j_hdr J i)). is_int32 k))"

definition dir_of :: "dirent list \<Rightarrow> directory" where
  "dir_of t = \<lparr>dir_tableSize = NumDirEntries, dir_table = t\<rparr>"

lemma dir_FetchFrom_ok:
  assumes r: "sd_ready s" and wf: "fh_wf (of_hdr f)" and J: "mem_ok J"
    and t: "length t = nat NumDirEntries" "\<forall>e \<in> set t. de_ok e" and fd: "file_data s (of_hdr f) = dir_bytes t"
  shows "\<exists>s'. dir_FetchFrom s (Directory (j_dir J) NumDirEntries) f = Inr (dir_of t, s')
    \<and> sd_ready s' \<and> sector_of s' = sector_of s"
proof -
  let ?t0 = "map (\<lambda>e. e\<lparr>de_inUse := False\<rparr>) (j_dir J)"
  have l: "length (dir_bytes t) = 200" "length (dir_bytes ?t0) = 200" "length t = 10" "length (j_dir J) = 10"
    using t J by (simp_all add: length_dir_bytes mem_ok_def NumDirEntries_def de_ok_def)
  have "chunk 20 (dir_bytes t) k = de_bytes (t ! k)" if "k < 10" for k
    unfolding dir_bytes_def by (rule chunk_concat) (use t(2) l that length_de_bytes in auto)
  then have "map (\<lambda>k. de_of_bytes (chunk 20 (dir_bytes t) k)) [0..<10] = t"
    by (intro nth_equalityI) (use l t(2) de_of_bytes_bytes in auto)
  moreover obtain s' where "of_ReadAt s f 200 0 = Inr (dir_bytes t, s')" "sd_ready s'" "sector_of s' = sector_of s"
    using of_ReadAt_ok [OF r wf _ end_fits_small [OF wf], of 0 200] fd l(1) by auto
  ultimately show ?thesis
    using l by (simp add: dir_FetchFrom_def Directory_def dir_of_def overlay_all NumDirEntries_def)
qed

lemma dir_WriteBack_ok:
  assumes r: "sd_ready s" and wf: "fh_wf (of_hdr f)" and n: "fh_numBytes (of_hdr f) = DirectoryFileSize"
    and t: "length t = nat NumDirEntries" "\<forall>e \<in> set t. de_ok e"
  shows "\<exists>s'. dir_WriteBack junk s (dir_of t) f = Inr s' \<and> sd_ready s' \<and> file_data s' (of_hdr f) = dir_bytes t
    \<and> (\<forall>j. valid_sector j \<longrightarrow> j \<notin> set (fh_sectors (of_hdr f)) \<longrightarrow> sector_of s' j = sector_of s j)"
proof -
  have l: "length (dir_bytes t) = 200" "fh_numBytes (of_hdr f) = 200"
    using t n by (simp_all add: length_dir_bytes NumDirEntries_def DirectoryFileSize_def)
  have c: "clipped (of_hdr f) 200 0 = 200" using l by (simp add: clipped_def)
  have "overlay (file_data s (of_hdr f)) 0 (take 200 (dir_bytes t)) = dir_bytes t"
    using length_file_data [OF r wf] l by (simp add: overlay_all)
  then show ?thesis
    using of_WriteAt_ok [OF r wf _ _ end_fits_small [OF wf], of 0 200 "dir_bytes t" junk] l
    unfolding c by (auto simp: dir_WriteBack_def dir_of_def NumDirEntries_def)
qed

section \<open>The invariant of the file system\<close>

definition hdr_at :: "synchdisk \<Rightarrow> int \<Rightarrow> filehdr" where
  "hdr_at s k = fh_of_bytes (sector_of s k)"

definition entry_region :: "synchdisk \<Rightarrow> dirent \<Rightarrow> int list" where
  "entry_region s e = de_sector e # fh_sectors (hdr_at s (de_sector e))"

text \<open>The sectors in use, each by one owner: the two fixed files, and every file of the directory.\<close>

definition owned :: "synchdisk \<Rightarrow> dirent list \<Rightarrow> int list" where
  "owned s t = FreeMapSector # DirectorySector # fh_sectors (hdr_at s FreeMapSector)
     @ fh_sectors (hdr_at s DirectorySector) @ concat (map (entry_region s) (in_use t))"

definition fs_inv :: "filesystem \<Rightarrow> synchdisk \<Rightarrow> bitmap \<Rightarrow> dirent list \<Rightarrow> bool" where
  "fs_inv fs s m t \<longleftrightarrow> sd_ready s
     \<and> of_hdr (fs_freeMapFile fs) = hdr_at s FreeMapSector \<and> of_hdr (fs_directoryFile fs) = hdr_at s DirectorySector
     \<and> fh_wf (hdr_at s FreeMapSector) \<and> fh_numBytes (hdr_at s FreeMapSector) = FreeMapFileSize
     \<and> fh_wf (hdr_at s DirectorySector) \<and> fh_numBytes (hdr_at s DirectorySector) = DirectoryFileSize
     \<and> file_data s (hdr_at s FreeMapSector) = pbm_bytes m \<and> bm_wf m \<and> numBits m = NumSectors
     \<and> file_data s (hdr_at s DirectorySector) = dir_bytes t \<and> length t = nat NumDirEntries \<and> dir_ok t
     \<and> (\<forall>e \<in> set (in_use t). fh_wf (hdr_at s (de_sector e)))
     \<and> distinct (owned s t) \<and> set (owned s t) = bm_set m"

text \<open>The file system as a map from names, cut to nine characters, to contents.\<close>

definition fs_files :: "synchdisk \<Rightarrow> dirent list \<Rightarrow> byte list \<rightharpoonup> byte list" where
  "fs_files s t k = map_option (\<lambda>sector. file_data s (hdr_at s sector)) (dir_map t k)"

definition fs_abs :: "filesystem \<Rightarrow> synchdisk \<Rightarrow> (byte list \<rightharpoonup> byte list) \<Rightarrow> bool" where
  "fs_abs fs s F \<longleftrightarrow> (\<exists>m t. fs_inv fs s m t \<and> F = fs_files s t)"

lemma same_sectors:
  assumes "sector_of s' = sector_of s"
  shows "hdr_at s' = hdr_at s" and "file_data s' = file_data s" and "owned s' t = owned s t" and "fs_files s' t = fs_files s t"
  unfolding hdr_at_def [abs_def] file_data_def [abs_def] raw_data_def [abs_def] owned_def
    entry_region_def [abs_def] fs_files_def [abs_def] assms by (rule refl)+

lemma fs_inv_same: "fs_inv fs s m t \<Longrightarrow> sd_ready s' \<Longrightarrow> sector_of s' = sector_of s \<Longrightarrow> fs_inv fs s' m t"
  by (simp add: fs_inv_def same_sectors [of s' s])

lemma hdr_at_cong: "sector_of s' k = sector_of s k \<Longrightarrow> hdr_at s' k = hdr_at s k"
  by (simp add: hdr_at_def)

lemma file_data_cong: "\<forall>k \<in> set (fh_sectors h). sector_of s' k = sector_of s k \<Longrightarrow> file_data s' h = file_data s h"
  unfolding file_data_def raw_data_def by (metis (mono_tags, lifting) map_eq_conv)

lemma bitmap_words: "bm_wf m \<Longrightarrow> numBits m = NumSectors \<Longrightarrow> 4 * numWords m = FreeMapFileSize"
  by (simp add: bm_wf_def divRoundUp_def disk_consts FreeMapFileSize_def BitsInByte_def)

lemma marked_valid: "numBits m = NumSectors \<Longrightarrow> k \<in> bm_set m \<Longrightarrow> valid_sector k"
  using bm_set_bounds [of m] by (auto simp: valid_sector_def)

lemma fs_inv_owners:
  assumes "fs_inv fs s m t"
  defines "M \<equiv> set (fh_sectors (hdr_at s FreeMapSector))" and "D \<equiv> set (fh_sectors (hdr_at s DirectorySector))"
  shows "FreeMapSector \<in> bm_set m - M - D" and "DirectorySector \<in> bm_set m - M - D"
    and "FreeMapSector \<noteq> DirectorySector" and "M \<inter> D = {}" and "M \<subseteq> bm_set m" and "D \<subseteq> bm_set m"
    and "\<forall>e \<in> set (in_use t). set (entry_region s e) \<subseteq> bm_set m - M - D - {FreeMapSector, DirectorySector}"
    and "\<forall>k \<in> bm_set m. valid_sector k"
proof -
  have d: "distinct (owned s t)" and b: "set (owned s t) = bm_set m" and n: "numBits m = NumSectors"
    using assms(1) by (simp_all add: fs_inv_def)
  show "\<forall>k \<in> bm_set m. valid_sector k" using marked_valid [OF n] by blast
  show "FreeMapSector \<in> bm_set m - M - D" "DirectorySector \<in> bm_set m - M - D"
    "FreeMapSector \<noteq> DirectorySector" "M \<inter> D = {}" "M \<subseteq> bm_set m" "D \<subseteq> bm_set m"
    using d b by (auto simp: owned_def M_def D_def)
  show "\<forall>e \<in> set (in_use t). set (entry_region s e) \<subseteq> bm_set m - M - D - {FreeMapSector, DirectorySector}"
    using d b by (auto simp: owned_def M_def D_def)
qed

text \<open>Storing a new free map and a new directory, in either order.\<close>

definition stored :: "filesystem \<Rightarrow> synchdisk \<Rightarrow> synchdisk \<Rightarrow> bitmap \<Rightarrow> dirent list \<Rightarrow> bool" where
  "stored fs s s' m t \<longleftrightarrow> sd_ready s'
     \<and> file_data s' (of_hdr (fs_freeMapFile fs)) = pbm_bytes m
     \<and> file_data s' (of_hdr (fs_directoryFile fs)) = dir_bytes t
     \<and> (\<forall>j. valid_sector j \<longrightarrow> j \<notin> set (fh_sectors (of_hdr (fs_freeMapFile fs))) \<longrightarrow>
          j \<notin> set (fh_sectors (of_hdr (fs_directoryFile fs))) \<longrightarrow> sector_of s' j = sector_of s j)"

definition fs_files_ok :: "filesystem \<Rightarrow> bool" where
  "fs_files_ok fs \<longleftrightarrow> fh_wf (of_hdr (fs_freeMapFile fs)) \<and> fh_wf (of_hdr (fs_directoryFile fs))
     \<and> fh_numBytes (of_hdr (fs_freeMapFile fs)) = FreeMapFileSize
     \<and> fh_numBytes (of_hdr (fs_directoryFile fs)) = DirectoryFileSize
     \<and> set (fh_sectors (of_hdr (fs_freeMapFile fs))) \<inter> set (fh_sectors (of_hdr (fs_directoryFile fs))) = {}"

lemma fh_wf_valid: "fh_wf h \<Longrightarrow> k \<in> set (fh_sectors h) \<Longrightarrow> valid_sector k"
  by (simp add: fh_wf_def)

lemma store_dir_map:
  assumes ok: "fs_files_ok fs" and r: "sd_ready s" and m: "bm_wf m" "numBits m = NumSectors"
    and t: "length t = nat NumDirEntries" "\<forall>e \<in> set t. de_ok e"
  shows "\<exists>s1 s2. dir_WriteBack b1 s (dir_of t) (fs_directoryFile fs) = Inr s1
    \<and> pbm_WriteBack b2 s1 (fs_freeMapFile fs) m = Inr s2 \<and> stored fs s s2 m t"
proof -
  let ?M = "of_hdr (fs_freeMapFile fs)" and ?D = "of_hdr (fs_directoryFile fs)"
  have o: "fh_wf ?M" "fh_wf ?D" "fh_numBytes ?M = 4 * numWords m" "fh_numBytes ?D = DirectoryFileSize"
    "set (fh_sectors ?M) \<inter> set (fh_sectors ?D) = {}"
    using ok bitmap_words [OF m] by (simp_all add: fs_files_ok_def)
  obtain s1 where s1: "dir_WriteBack b1 s (dir_of t) (fs_directoryFile fs) = Inr s1" "sd_ready s1"
    "file_data s1 ?D = dir_bytes t" "\<forall>j. valid_sector j \<longrightarrow> j \<notin> set (fh_sectors ?D) \<longrightarrow> sector_of s1 j = sector_of s j"
    using dir_WriteBack_ok [OF r o(2,4) t] by blast
  obtain s2 where s2: "pbm_WriteBack b2 s1 (fs_freeMapFile fs) m = Inr s2" "sd_ready s2"
    "file_data s2 ?M = pbm_bytes m" "\<forall>j. valid_sector j \<longrightarrow> j \<notin> set (fh_sectors ?M) \<longrightarrow> sector_of s2 j = sector_of s1 j"
    using pbm_WriteBack_ok [OF s1(2) o(1) m(1) o(3)] by blast
  have "file_data s2 ?D = file_data s1 ?D"
    by (rule file_data_cong) (use s2(4) o fh_wf_valid in blast)
  then show ?thesis using s1 s2 by (auto simp: stored_def)
qed

lemma store_map_dir:
  assumes ok: "fs_files_ok fs" and r: "sd_ready s" and m: "bm_wf m" "numBits m = NumSectors"
    and t: "length t = nat NumDirEntries" "\<forall>e \<in> set t. de_ok e"
  shows "\<exists>s1 s2. pbm_WriteBack b1 s (fs_freeMapFile fs) m = Inr s1
    \<and> dir_WriteBack b2 s1 (dir_of t) (fs_directoryFile fs) = Inr s2 \<and> stored fs s s2 m t"
proof -
  let ?M = "of_hdr (fs_freeMapFile fs)" and ?D = "of_hdr (fs_directoryFile fs)"
  have o: "fh_wf ?M" "fh_wf ?D" "fh_numBytes ?M = 4 * numWords m" "fh_numBytes ?D = DirectoryFileSize"
    "set (fh_sectors ?M) \<inter> set (fh_sectors ?D) = {}"
    using ok bitmap_words [OF m] by (simp_all add: fs_files_ok_def)
  obtain s1 where s1: "pbm_WriteBack b1 s (fs_freeMapFile fs) m = Inr s1" "sd_ready s1"
    "file_data s1 ?M = pbm_bytes m" "\<forall>j. valid_sector j \<longrightarrow> j \<notin> set (fh_sectors ?M) \<longrightarrow> sector_of s1 j = sector_of s j"
    using pbm_WriteBack_ok [OF r o(1) m(1) o(3)] by blast
  obtain s2 where s2: "dir_WriteBack b2 s1 (dir_of t) (fs_directoryFile fs) = Inr s2" "sd_ready s2"
    "file_data s2 ?D = dir_bytes t" "\<forall>j. valid_sector j \<longrightarrow> j \<notin> set (fh_sectors ?D) \<longrightarrow> sector_of s2 j = sector_of s1 j"
    using dir_WriteBack_ok [OF s1(2) o(2,4) t] by blast
  have "file_data s2 ?M = file_data s1 ?M"
    by (rule file_data_cong) (use s2(4) o fh_wf_valid in blast)
  then show ?thesis using s1 s2 by (auto simp: stored_def)
qed

lemma fs_inv_files_ok: "fs_inv fs s m t \<Longrightarrow> fs_files_ok fs"
  using fs_inv_owners(4) [of fs s m t] by (simp add: fs_files_ok_def fs_inv_def)

text \<open>
  What is unchanged by a commit that touches only the map, the directory and the sector \<open>k\<close> of a
  new header: the headers and the data of the files that stay.
\<close>

lemma stored_keeps:
  assumes inv: "fs_inv fs s m t" and st: "stored fs s1 s' m' t'"
    and s1: "\<forall>j. valid_sector j \<longrightarrow> j \<noteq> k \<longrightarrow> sector_of s1 j = sector_of s j" and k: "k \<notin> bm_set m \<or> s1 = s"
  shows "hdr_at s' FreeMapSector = hdr_at s FreeMapSector" and "hdr_at s' DirectorySector = hdr_at s DirectorySector"
    and "\<forall>e \<in> set (in_use t). hdr_at s' (de_sector e) = hdr_at s (de_sector e)
      \<and> file_data s' (hdr_at s (de_sector e)) = file_data s (hdr_at s (de_sector e))
      \<and> entry_region s' e = entry_region s e"
proof -
  note o = fs_inv_owners [OF inv]
  have h: "of_hdr (fs_freeMapFile fs) = hdr_at s FreeMapSector" "of_hdr (fs_directoryFile fs) = hdr_at s DirectorySector"
    using inv by (simp_all add: fs_inv_def)
  have keep: "sector_of s' j = sector_of s j"
    if "j \<in> bm_set m - set (fh_sectors (hdr_at s FreeMapSector)) - set (fh_sectors (hdr_at s DirectorySector))" for j
  proof -
    have v: "valid_sector j" "j \<noteq> k \<or> s1 = s" using that o(8) k by auto
    have "sector_of s' j = sector_of s1 j" using st that v(1) unfolding stored_def h by blast
    moreover have "sector_of s1 j = sector_of s j" using v(2) s1 [rule_format, OF v(1)] by blast
    ultimately show ?thesis by (rule trans)
  qed
  show "hdr_at s' FreeMapSector = hdr_at s FreeMapSector" "hdr_at s' DirectorySector = hdr_at s DirectorySector"
    by (rule hdr_at_cong [OF keep [OF o(1)]], rule hdr_at_cong [OF keep [OF o(2)]])
  show "\<forall>e \<in> set (in_use t). hdr_at s' (de_sector e) = hdr_at s (de_sector e)
      \<and> file_data s' (hdr_at s (de_sector e)) = file_data s (hdr_at s (de_sector e))
      \<and> entry_region s' e = entry_region s e"
  proof
    fix e assume "e \<in> set (in_use t)"
    then have "\<forall>j \<in> set (entry_region s e). sector_of s' j = sector_of s j" using o(7) keep by blast
    then have "hdr_at s' (de_sector e) = hdr_at s (de_sector e)"
      "file_data s' (hdr_at s (de_sector e)) = file_data s (hdr_at s (de_sector e))"
      unfolding entry_region_def by (auto intro: hdr_at_cong file_data_cong)
    then show "hdr_at s' (de_sector e) = hdr_at s (de_sector e)
      \<and> file_data s' (hdr_at s (de_sector e)) = file_data s (hdr_at s (de_sector e))
      \<and> entry_region s' e = entry_region s e" by (simp add: entry_region_def)
  qed
qed

lemma owned_mid:
  assumes "in_use t' = A @ e # B" and "in_use t = A @ B"
    and "hdr_at s' FreeMapSector = hdr_at s FreeMapSector" "hdr_at s' DirectorySector = hdr_at s DirectorySector"
    and "\<forall>x \<in> set (A @ B). entry_region s' x = entry_region s x"
  shows "mset (owned s' t') = mset (owned s t) + mset (entry_region s' e)"
proof -
  have e: "map (entry_region s') A = map (entry_region s) A" "map (entry_region s') B = map (entry_region s) B"
    using assms(5) by auto
  show ?thesis unfolding owned_def assms(1-4) map_append list.map e by simp
qed

lemma distinct_mset_eq: "mset xs = mset ys \<Longrightarrow> distinct xs = distinct ys"
  by (metis mset_eq_imp_distinct_iff)

text \<open>The invariant after a commit that adds a file.\<close>

lemma fs_inv_add:
  assumes inv: "fs_inv fs s m t" and st: "stored fs s1 s' m' t'"
    and s1: "\<forall>j. valid_sector j \<longrightarrow> sector_of s1 j = (if j = k then fh_bytes h else sector_of s j)"
    and k: "valid_sector k" "k \<notin> bm_set m" and h: "fh_wf h" "fh_int32 h" "set (fh_sectors h) \<inter> insert k (bm_set m) = {}"
    and m': "bm_wf m'" "numBits m' = NumSectors" "bm_set m' = insert k (bm_set m) \<union> set (fh_sectors h)"
    and t': "length t' = nat NumDirEntries" "dir_ok t'" "dir_map t' = (dir_map t)(key \<mapsto> k)"
    and u: "in_use t' = A @ e # B" "in_use t = A @ B" "de_sector e = k"
  shows "fs_inv fs s' m' t'" and "fs_files s' t' = (fs_files s t)(key \<mapsto> file_data s' h)"
proof -
  have s1': "\<forall>j. valid_sector j \<longrightarrow> j \<noteq> k \<longrightarrow> sector_of s1 j = sector_of s j" using s1 by simp
  note keep = stored_keeps [OF inv st s1' disjI1 [OF k(2)]] and o = fs_inv_owners [OF inv]
  have hd: "of_hdr (fs_freeMapFile fs) = hdr_at s FreeMapSector" "of_hdr (fs_directoryFile fs) = hdr_at s DirectorySector"
    using inv by (simp_all add: fs_inv_def)
  have "k \<notin> set (fh_sectors (hdr_at s FreeMapSector))" "k \<notin> set (fh_sectors (hdr_at s DirectorySector))"
    using o(5,6) k(2) by auto
  then have "sector_of s' k = sector_of s1 k" using st k(1) unfolding stored_def hd by blast
  then have hk: "hdr_at s' k = h" using s1 k(1) fh_of_bytes_bytes [OF h(2)] by (simp add: hdr_at_def)
  have er: "entry_region s' e = k # fh_sectors h" using hk u(3) by (simp add: entry_region_def)
  have ow: "mset (owned s' t') = mset (owned s t @ (k # fh_sectors h))"
    using owned_mid [OF u(1,2) keep(1,2)] keep(3) u(2) er by simp
  have "distinct (owned s t)" "set (owned s t) = bm_set m" using inv by (simp_all add: fs_inv_def)
  then have "distinct (owned s t @ (k # fh_sectors h))" "set (owned s t @ (k # fh_sectors h)) = bm_set m'"
    using h(1,3) k(2) m'(3) by (auto simp: fh_wf_def)
  then have "distinct (owned s' t')" "set (owned s' t') = bm_set m'"
    using distinct_mset_eq [OF ow] mset_eq_setD [OF ow] by simp_all
  moreover have "\<forall>x \<in> set (in_use t'). fh_wf (hdr_at s' (de_sector x))"
    using inv keep(3) hk h(1) u by (auto simp: fs_inv_def)
  ultimately show "fs_inv fs s' m' t'"
    using inv st m'(1,2) t'(1,2) unfolding fs_inv_def stored_def keep(1,2) hd by simp
  have "dir_map t x = Some sec \<Longrightarrow> file_data s' (hdr_at s' sec) = file_data s (hdr_at s sec)" for x sec
    using dir_map_Some [of t x sec] inv keep(3) by (auto simp: fs_inv_def in_use_def)
  then have "fs_files s' t x = fs_files s t x" for x by (cases "dir_map t x") (simp_all add: fs_files_def)
  then show "fs_files s' t' = (fs_files s t)(key \<mapsto> file_data s' h)"
    using t'(3) hk by (auto simp: fun_eq_iff fs_files_def)
qed

text \<open>The invariant after a commit that removes a file.\<close>

lemma fs_inv_del:
  assumes inv: "fs_inv fs s m t" and st: "stored fs s s' m' t'"
    and m': "bm_wf m'" "numBits m' = NumSectors" "bm_set m' = bm_set m - set (entry_region s e)"
    and t': "length t' = nat NumDirEntries" "dir_ok t'" "dir_map t' = (dir_map t)(key := None)"
    and u: "in_use t = A @ e # B" "in_use t' = A @ B"
  shows "fs_inv fs s' m' t'" and "fs_files s' t' = (fs_files s t)(key := None)"
proof -
  note keep = stored_keeps [OF inv st _ disjI2 [OF refl], of 0, simplified] and o = fs_inv_owners [OF inv]
  have hd: "of_hdr (fs_freeMapFile fs) = hdr_at s FreeMapSector" "of_hdr (fs_directoryFile fs) = hdr_at s DirectorySector"
    using inv by (simp_all add: fs_inv_def)
  have ow: "mset (owned s t) = mset (owned s' t') + mset (entry_region s e)"
    using owned_mid [OF u(1,2), of s s'] keep u(1) by simp
  then have ow': "mset (owned s t) = mset (owned s' t' @ entry_region s e)" by simp
  have "distinct (owned s t)" "set (owned s t) = bm_set m" using inv by (simp_all add: fs_inv_def)
  then have "distinct (owned s' t' @ entry_region s e)" "set (owned s' t' @ entry_region s e) = bm_set m"
    using distinct_mset_eq [OF ow'] mset_eq_setD [OF ow'] by simp_all
  then have "distinct (owned s' t')" "set (owned s' t') = bm_set m'" using m'(3) by auto
  moreover have "\<forall>x \<in> set (in_use t'). fh_wf (hdr_at s' (de_sector x))"
    using inv keep(3) u by (auto simp: fs_inv_def)
  ultimately show "fs_inv fs s' m' t'"
    using inv st m'(1,2) t'(1,2) unfolding fs_inv_def stored_def keep(1,2) hd by simp
  have "dir_map t x = Some sec \<Longrightarrow> file_data s' (hdr_at s' sec) = file_data s (hdr_at s sec)" for x sec
    using dir_map_Some [of t x sec] inv keep(3) by (auto simp: fs_inv_def in_use_def)
  then have "fs_files s' t x = fs_files s t x" for x by (cases "dir_map t x") (simp_all add: fs_files_def)
  then show "fs_files s' t' = (fs_files s t)(key := None)"
    using t'(3) by (auto simp: fun_eq_iff fs_files_def)
qed

section \<open>Creating a file\<close>

definition fs_room :: "bitmap \<Rightarrow> dirent list \<Rightarrow> byte list \<Rightarrow> int \<Rightarrow> bool" where
  "fs_room m t name sz \<longleftrightarrow> dir_map t (fkey name) = None \<and> (\<exists>e \<in> set t. \<not> de_inUse e)
     \<and> int (card (bm_set m)) + 1 + divRoundUp sz SectorSize \<le> NumSectors"

lemma sector_int32: "valid_sector k \<Longrightarrow> is_int32 k"
  by (simp add: valid_sector_def is_int32_def disk_consts)

lemma fh_int32_Allocate:
  assumes "fh_wf h" and "set (fh_dataSectors h) \<subseteq> set (fh_dataSectors h0) \<union> set (fh_sectors h)"
    and "\<forall>k \<in> set (fh_dataSectors h0). is_int32 k" and "fh_numBytes h \<le> NumDirect * SectorSize"
  shows "fh_int32 h"
proof -
  have "\<forall>k \<in> set (fh_dataSectors h). is_int32 k"
    using assms(1-3) sector_int32 fh_wf_valid by blast
  then show ?thesis
    using assms(1,4) fh_wf_sectors(2) [OF assms(1)]
    by (auto simp: fh_int32_def fh_wf_def is_int32_def NumDirect_30 SectorSize_def)
qed

lemma fs_fetch:
  assumes inv: "fs_inv fs s m t" and J: "mem_ok J"
  shows "\<exists>s'. dir_FetchFrom s (Directory (j_dir J) NumDirEntries) (fs_directoryFile fs) = Inr (dir_of t, s')
      \<and> fs_inv fs s' m t \<and> sector_of s' = sector_of s"
    and "\<exists>s'. PersistentBitmap s (fs_freeMapFile fs) NumSectors = Inr (m, s')
      \<and> fs_inv fs s' m t \<and> sector_of s' = sector_of s"
    and "dir_Find (dir_of t) name = Inr (case dir_map t (fkey name) of None \<Rightarrow> - 1 | Some k \<Rightarrow> k)"
proof -
  have i: "sd_ready s" "fh_wf (of_hdr (fs_directoryFile fs))" "fh_wf (of_hdr (fs_freeMapFile fs))" "bm_wf m"
    "length t = nat NumDirEntries" "\<forall>e \<in> set t. de_ok e" "file_data s (of_hdr (fs_directoryFile fs)) = dir_bytes t"
    "file_data s (of_hdr (fs_freeMapFile fs)) = pbm_bytes m" "numBits m = NumSectors" "dir_ok t"
    using inv by (simp_all add: fs_inv_def dir_ok_def)
  show "\<exists>s'. dir_FetchFrom s (Directory (j_dir J) NumDirEntries) (fs_directoryFile fs) = Inr (dir_of t, s')
      \<and> fs_inv fs s' m t \<and> sector_of s' = sector_of s"
    using dir_FetchFrom_ok [OF i(1,2) J i(5-7)] fs_inv_same [OF inv] by blast
  show "\<exists>s'. PersistentBitmap s (fs_freeMapFile fs) NumSectors = Inr (m, s')
      \<and> fs_inv fs s' m t \<and> sector_of s' = sector_of s"
    using PersistentBitmap_ok [OF i(1,3,4,8)] fs_inv_same [OF inv] i(9) by metis
  show "dir_Find (dir_of t) name = Inr (case dir_map t (fkey name) of None \<Rightarrow> - 1 | Some k \<Rightarrow> k)"
    using dir_Find_ok [of "dir_of t" name] i(5,10) by (simp add: dir_of_def NumDirEntries_def)
qed

lemma dir_map_valid:
  assumes "fs_inv fs s m t" and "dir_map t k = Some sec"
  shows "valid_sector sec" and "sec \<in> bm_set m" and "fh_wf (hdr_at s sec)" and "set (fh_sectors (hdr_at s sec)) \<subseteq> bm_set m"
proof -
  obtain e where e: "e \<in> set (in_use t)" "de_sector e = sec"
    using dir_map_Some [of t k sec] assms by (auto simp: fs_inv_def in_use_def)
  have "set (entry_region s e) \<subseteq> bm_set m" using fs_inv_owners(7) [OF assms(1)] e(1) by blast
  then show "sec \<in> bm_set m" "set (fh_sectors (hdr_at s sec)) \<subseteq> bm_set m" using e(2) by (auto simp: entry_region_def)
  then show "valid_sector sec" using fs_inv_owners(8) [OF assms(1)] by blast
  show "fh_wf (hdr_at s sec)" using assms(1) e by (auto simp: fs_inv_def)
qed

text \<open>The branches of \<^verbatim>\<open>Create\<close> once the directory and the free map are in memory.\<close>

lemma fs_create_commit:
  assumes inv: "fs_inv fs s m t" and J: "mem_ok J" and sz: "0 \<le> sz" "sz \<le> NumDirect * SectorSize"
    and new: "dir_map t (fkey name) = None"
    and j: "j < length t" "\<not> de_inUse (t ! j)"
    and k: "0 \<le> k" "k < NumSectors" "k \<notin> bm_set m"
    and m1: "bm_wf m1" "numBits m1 = NumSectors" "bm_set m1 = insert k (bm_set m)"
    and room: "divRoundUp sz SectorSize \<le> NumSectors - int (card (bm_set m1))"
  shows "\<exists>h m2 s1 s2 s3 m' t'. fh_Allocate (j_hdr J 0) m1 sz = Inr (True, h, m2) \<and> fh_WriteBack s h k = Inr s1
    \<and> dir_WriteBack (j_buf J 0) s1 (dir_of (t[j := new_entry (t ! j) name k])) (fs_directoryFile fs) = Inr s2
    \<and> pbm_WriteBack (j_buf J 1) s2 (fs_freeMapFile fs) m2 = Inr s3
    \<and> fs_inv fs s3 m' t' \<and> (\<exists>bs. length bs = nat sz \<and> fs_files s3 t' = (fs_files s t)(fkey name \<mapsto> bs))"
proof -
  let ?t = "t[j := new_entry (t ! j) name k]"
  have v: "valid_sector k" using k by (simp add: valid_sector_def)
  have i: "sd_ready s" "dir_ok t" "length t = nat NumDirEntries" using inv by (simp_all add: fs_inv_def)
  have jh: "length (fh_dataSectors (j_hdr J 0)) = nat NumDirect" "\<forall>k \<in> set (fh_dataSectors (j_hdr J 0)). is_int32 k"
    using J by (simp_all add: mem_ok_def)
  obtain h m2 where h: "fh_Allocate (j_hdr J 0) m1 sz = Inr (True, h, m2)" "fh_wf h" "fh_numBytes h = sz"
    "set (fh_sectors h) \<inter> bm_set m1 = {}" "bm_wf m2" "numBits m2 = numBits m1"
    "bm_set m2 = bm_set m1 \<union> set (fh_sectors h)"
    "set (fh_dataSectors h) \<subseteq> set (fh_dataSectors (j_hdr J 0)) \<union> set (fh_sectors h)"
    using fh_Allocate_ok [OF m1(1,2) sz jh(1)] room m1(2) by auto
  have h32: "fh_int32 h" by (rule fh_int32_Allocate [OF h(2,8) jh(2)]) (use h(3) sz in simp)
  obtain s1 where s1: "fh_WriteBack s h k = Inr s1" "sd_ready s1"
    "\<forall>j. valid_sector j \<longrightarrow> sector_of s1 j = (if j = k then fh_bytes h else sector_of s j)"
    using fh_WriteBack_ok [OF i(1) v h32] by blast
  note d = dir_add_entry [OF i(2) j new sector_int32 [OF v]]
  have t: "length ?t = nat NumDirEntries" "\<forall>e \<in> set ?t. de_ok e" using i(3) d(1) by (simp_all add: dir_ok_def)
  have m2: "bm_wf m2" "numBits m2 = NumSectors" "bm_set m2 = insert k (bm_set m) \<union> set (fh_sectors h)"
    using h(5-7) m1(2,3) by simp_all
  obtain s2 s3 where s3: "dir_WriteBack (j_buf J 0) s1 (dir_of ?t) (fs_directoryFile fs) = Inr s2"
    "pbm_WriteBack (j_buf J 1) s2 (fs_freeMapFile fs) m2 = Inr s3" "stored fs s1 s3 m2 ?t"
    using store_dir_map [OF fs_inv_files_ok [OF inv] s1(2) m2(1,2) t] by blast
  have u: "in_use ?t = in_use (take j t) @ new_entry (t ! j) name k # in_use (drop (Suc j) t)"
    "in_use t = in_use (take j t) @ in_use (drop (Suc j) t)"
    using in_use_update [OF j(1)] j(2) by simp_all
  note add = fs_inv_add [OF inv s3(3) s1(3) v k(3) h(2) h32 h(4) [unfolded m1(3)] m2 t(1) d u new_entry_simps(2)]
  have "sd_ready s3" using s3(3) by (simp add: stored_def)
  then have "length (file_data s3 h) = nat sz" using length_file_data [OF _ h(2)] h(3) by simp
  then show ?thesis using h(1) s1(1) s3(1,2) add by blast
qed

text \<open>The result of creating a file: it succeeds if there is room, and then adds the name.\<close>

definition created :: "filesystem \<Rightarrow> synchdisk \<Rightarrow> dirent list \<Rightarrow> bool \<Rightarrow> byte list \<Rightarrow> int \<Rightarrow> (bool \<times> synchdisk) result \<Rightarrow> bool" where
  "created fs s t b name sz r \<longleftrightarrow> (\<exists>s' m' t'. r = Inr (b, s') \<and> fs_inv fs s' m' t'
    \<and> (if b then \<exists>bs. length bs = nat sz \<and> fs_files s' t' = (fs_files s t)(fkey name \<mapsto> bs)
       else fs_files s' t' = fs_files s t))"

lemma created_not:
  "fs_inv fs s' m t \<Longrightarrow> sector_of s' = sector_of s \<Longrightarrow> r = Inr (False, s') \<Longrightarrow> created fs s t False name sz r"
  using same_sectors(4) [of s' s t] by (auto simp: created_def)

lemma created_cong: "sector_of s' = sector_of s \<Longrightarrow> created fs s' t b name sz r = created fs s t b name sz r"
  unfolding created_def by (simp only: same_sectors(4) [of s' s t])

lemma fs_room_iff:
  assumes "dir_map t (fkey name) = None" and "j < length t" "\<not> de_inUse (t ! j)"
    and "k \<notin> bm_set m" and "bm_set m1 = insert k (bm_set m)"
  shows "fs_room m t name sz \<longleftrightarrow> divRoundUp sz SectorSize \<le> NumSectors - int (card (bm_set m1))"
proof -
  have "int (card (bm_set m1)) = int (card (bm_set m)) + 1" using assms(4,5) by simp
  then show ?thesis using assms(1-3) by (auto simp: fs_room_def)
qed

lemma fs_create_new_added:
  assumes inv: "fs_inv fs s m t" and J: "mem_ok J" and sz: "0 \<le> sz" "sz \<le> NumDirect * SectorSize"
    and new: "dir_map t (fkey name) = None" and j: "j < length t" "\<not> de_inUse (t ! j)"
    and m: "PersistentBitmap s0 (fs_freeMapFile fs) NumSectors = Inr (m, s)"
    and k: "bm_FindAndSet m = Inr (k, m1)" "bm_wf m1" "numBits m1 = numBits m" "0 \<le> k" "k < numBits m"
      "k \<notin> bm_set m" "bm_set m1 = insert k (bm_set m)"
    and add: "dir_Add (dir_of t) name k = Inr (True, dir_of (t[j := new_entry (t ! j) name k]))"
  shows "created fs s t (fs_room m t name sz) name sz (fs_create_new J fs s0 (dir_of t) name sz)"
proof -
  have nb: "numBits m = NumSectors" using inv by (simp add: fs_inv_def)
  note room = fs_room_iff [OF new j k(6,7), of sz]
  show ?thesis
  proof (cases "fs_room m t name sz")
    case True
    then have enough: "divRoundUp sz SectorSize \<le> NumSectors - int (card (bm_set m1))" using room by simp
    obtain h m2 s3 s4 s5 m' t' bs where c: "fh_Allocate (j_hdr J 0) m1 sz = Inr (True, h, m2)"
      "fh_WriteBack s h k = Inr s3"
      "dir_WriteBack (j_buf J 0) s3 (dir_of (t[j := new_entry (t ! j) name k])) (fs_directoryFile fs) = Inr s4"
      "pbm_WriteBack (j_buf J 1) s4 (fs_freeMapFile fs) m2 = Inr s5" "fs_inv fs s5 m' t'"
      "length bs = nat sz" "fs_files s5 t' = (fs_files s t)(fkey name \<mapsto> bs)"
      using fs_create_commit [OF inv J sz new j k(4) _ k(6,2) _ k(7) enough] k(3,5) nb by auto
    have "fs_create_new J fs s0 (dir_of t) name sz = Inr (True, s5)"
      using m k(1,4) add c(1-4) by (simp add: fs_create_new_def)
    then show ?thesis using True c(5-7) by (auto simp: created_def)
  next
    case False
    then obtain h where "fh_Allocate (j_hdr J 0) m1 sz = Inr (False, h, m1)"
      using fh_Allocate_full [OF k(2), of sz "j_hdr J 0"] k(3) nb room by auto
    then have "fs_create_new J fs s0 (dir_of t) name sz = Inr (False, s)"
      using m k(1,4) add by (simp add: fs_create_new_def)
    then show ?thesis using False created_not [OF inv refl] by simp
  qed
qed

lemma fs_create_new_ok:
  assumes inv: "fs_inv fs s m t" and J: "mem_ok J" and sz: "0 \<le> sz" "sz \<le> NumDirect * SectorSize"
    and new: "dir_map t (fkey name) = None"
  shows "created fs s t (fs_room m t name sz) name sz (fs_create_new J fs s (dir_of t) name sz)"
proof -
  obtain s2 where s2: "PersistentBitmap s (fs_freeMapFile fs) NumSectors = Inr (m, s2)"
    "fs_inv fs s2 m t" "sector_of s2 = sector_of s"
    using fs_fetch(2) [OF inv J] by auto
  have wf: "bm_wf m" "numBits m = NumSectors" "dir_ok t" "length t = nat NumDirEntries"
    using inv by (simp_all add: fs_inv_def)
  have dt: "dir_tableSize (dir_of t) = int (length (dir_table (dir_of t)))" "dir_table (dir_of t) = t"
    using wf(4) by (simp_all add: dir_of_def NumDirEntries_def)
  have fail: ?thesis if "\<not> fs_room m t name sz" "fs_create_new J fs s (dir_of t) name sz = Inr (False, s2)"
    using that created_not [OF s2(2,3)] by simp
  show ?thesis
  proof (cases "bm_set m = {0..<numBits m}")
    case True
    then have "int (card (bm_set m)) = NumSectors" using wf(2) by (simp add: disk_consts)
    then have "\<not> fs_room m t name sz"
      using divRoundUp_bounds(1) [OF sz(1), of SectorSize] by (simp add: fs_room_def SectorSize_def)
    then show ?thesis
      using s2(1) bm.find_full [OF wf(1) True] by (intro fail) (simp_all add: fs_create_new_def)
  next
    case False
    from bm.find_free [OF wf(1) False] obtain k m1 where k: "bm_FindAndSet m = Inr (k, m1)" "bm_wf m1"
      "numBits m1 = numBits m" "0 \<le> k" "k < numBits m" "k \<notin> bm_set m" "bm_set m1 = insert k (bm_set m)" by blast
    show ?thesis
    proof (cases rule: dir_Add_cases [OF dt(1), of name k, unfolded dt(2), OF wf(3) new, case_names added full])
      case full
      have "\<not> fs_room m t name sz" using full(1) by (simp add: fs_room_def)
      then show ?thesis using s2(1) k(1,4) full(2) by (intro fail) (simp_all add: fs_create_new_def)
    next
      case (added j)
      have "dir_Add (dir_of t) name k = Inr (True, dir_of (t[j := new_entry (t ! j) name k]))"
        using added(3) by (simp add: dir_of_def)
      from fs_create_new_added [OF s2(2) J sz new added(1,2) s2(1) k this]
      show ?thesis by (simp only: created_cong [OF s2(3)])
    qed
  qed
qed

lemma fs_Create_ok:
  assumes inv: "fs_inv fs s m t" and J: "mem_ok J" and sz: "0 \<le> sz" "sz \<le> NumDirect * SectorSize"
  shows "created fs s t (fs_room m t name sz) name sz (fs_Create J fs s name sz)"
proof -
  obtain s1 where s1: "dir_FetchFrom s (Directory (j_dir J) NumDirEntries) (fs_directoryFile fs) = Inr (dir_of t, s1)"
    "fs_inv fs s1 m t" "sector_of s1 = sector_of s"
    using fs_fetch(1) [OF inv J] by blast
  note find = fs_fetch(3) [OF s1(2) J, of name]
  show ?thesis
  proof (cases "dir_map t (fkey name)")
    case (Some k)
    then have "k \<noteq> - 1" using dir_map_valid(1) [OF inv Some] by (auto simp: valid_sector_def)
    then have "fs_Create J fs s name sz = Inr (False, s1)" using s1(1) find Some by (simp add: fs_Create_def)
    then show ?thesis using created_not [OF s1(2,3)] Some by (simp add: fs_room_def)
  next
    case None
    then have "fs_Create J fs s name sz = fs_create_new J fs s1 (dir_of t) name sz"
      using s1(1) find by (simp add: fs_Create_def)
    then show ?thesis
      using fs_create_new_ok [OF s1(2) J sz None] by (simp only: created_cong [OF s1(3)])
  qed
qed

section \<open>Opening and removing a file\<close>

lemma fetch_hdr_at:
  assumes "fs_inv fs s m t" and "valid_sector k"
  shows "\<exists>s'. fh_FetchFrom s k = Inr (hdr_at s k, s') \<and> fs_inv fs s' m t \<and> sector_of s' = sector_of s"
proof -
  have "sd_ready s" using assms(1) by (simp add: fs_inv_def)
  then show ?thesis
    using sd.rd_law [OF _ assms(2), of s] fs_inv_same [OF assms(1)] by (auto simp: fh_FetchFrom_def hdr_at_def)
qed

lemma fs_Open_ok:
  assumes inv: "fs_inv fs s m t" and J: "mem_ok J"
  shows "\<exists>s'. fs_Open J fs s name = Inr (map_option (\<lambda>k. \<lparr>of_hdr = hdr_at s k, of_seekPosition = 0\<rparr>) (dir_map t (fkey name)), s')
    \<and> fs_inv fs s' m t \<and> sector_of s' = sector_of s"
proof -
  obtain s1 where s1: "dir_FetchFrom s (Directory (j_dir J) NumDirEntries) (fs_directoryFile fs) = Inr (dir_of t, s1)"
    "fs_inv fs s1 m t" "sector_of s1 = sector_of s"
    using fs_fetch(1) [OF inv J] by blast
  note find = fs_fetch(3) [OF s1(2) J, of name]
  show ?thesis
  proof (cases "dir_map t (fkey name)")
    case None
    then show ?thesis using s1 find by (simp add: fs_Open_def)
  next
    case (Some k)
    then have k: "0 \<le> k" "valid_sector k" using dir_map_valid(1) [OF inv Some] by (simp_all add: valid_sector_def)
    obtain s2 where "fh_FetchFrom s1 k = Inr (hdr_at s1 k, s2)" "fs_inv fs s2 m t" "sector_of s2 = sector_of s"
      using fetch_hdr_at [OF s1(2) k(2)] s1(3) by auto
    then show ?thesis
      using s1 find Some k(1) same_sectors(1) [OF s1(3)] by (simp add: fs_Open_def OpenFile_def)
  qed
qed

lemma dir_Remove_ok:
  assumes ok: "dir_ok t" "length t = nat NumDirEntries" and sec: "dir_map t (fkey name) = Some sec"
  shows "\<exists>j < length t. names_entry name (t ! j) \<and> de_sector (t ! j) = sec
    \<and> dir_Remove (dir_of t) name = Inr (True, dir_of (t[j := (t ! j)\<lparr>de_inUse := False\<rparr>]))"
proof -
  have dt: "dir_tableSize (dir_of t) = int (length (dir_table (dir_of t)))" "dir_table (dir_of t) = t"
    using ok(2) by (simp_all add: dir_of_def NumDirEntries_def)
  show ?thesis
  proof (cases rule: dir_FindIndex_cases [OF dt(1), of name, unfolded dt(2), case_names found missing])
    case (found j)
    then have "dir_map t (fkey name) = Some (de_sector (t ! j))"
      using dir_map_Some [OF ok(1)] by (auto simp: names_entry_def)
    then show ?thesis using found sec dt(2) by (auto simp: dir_Remove_def dir_of_def)
  next
    case missing
    then have "dir_map t (fkey name) = None" by (simp add: dir_map_None names_entry_def)
    then show ?thesis using sec by simp
  qed
qed

lemma fs_remove_commit:
  assumes inv: "fs_inv fs s m t" and sec: "dir_map t (fkey name) = Some k"
  shows "\<exists>m1 m2 t' s1 s2. fh_Deallocate (hdr_at s k) m = Inr m1 \<and> bm_Clear m1 k = Inr m2
    \<and> dir_Remove (dir_of t) name = Inr (True, dir_of t')
    \<and> pbm_WriteBack b1 s (fs_freeMapFile fs) m2 = Inr s1 \<and> dir_WriteBack b2 s1 (dir_of t') (fs_directoryFile fs) = Inr s2
    \<and> fs_inv fs s2 m2 t' \<and> fs_files s2 t' = (fs_files s t)(fkey name := None)"
proof -
  note dv = dir_map_valid [OF inv sec]
  have i: "bm_wf m" "numBits m = NumSectors" "dir_ok t" "length t = nat NumDirEntries" "sd_ready s"
    using inv by (simp_all add: fs_inv_def)
  obtain m1 where m1: "fh_Deallocate (hdr_at s k) m = Inr m1" "bm_wf m1" "numBits m1 = NumSectors"
    "bm_set m1 = bm_set m - set (fh_sectors (hdr_at s k))"
    using fh_Deallocate_ok [OF i(1) dv(3,4)] i(2) by auto
  obtain m2 where m2: "bm_Clear m1 k = Inr m2" "bm_wf m2" "numBits m2 = NumSectors" "bm_set m2 = bm_set m1 - {k}"
    using bm.clear_law [OF m1(2), of k] dv(1) m1(3) by (auto simp: valid_sector_def)
  obtain j where j: "j < length t" "names_entry name (t ! j)" "de_sector (t ! j) = k"
    "dir_Remove (dir_of t) name = Inr (True, dir_of (t[j := (t ! j)\<lparr>de_inUse := False\<rparr>]))"
    using dir_Remove_ok [OF i(3,4) sec] by blast
  let ?t = "t[j := (t ! j)\<lparr>de_inUse := False\<rparr>]"
  note d = dir_remove_entry [OF i(3) j(1,2)]
  have t: "length ?t = nat NumDirEntries" "\<forall>e \<in> set ?t. de_ok e" using i(4) d(1) by (simp_all add: dir_ok_def)
  obtain s1 s2 where s2: "pbm_WriteBack b1 s (fs_freeMapFile fs) m2 = Inr s1"
    "dir_WriteBack b2 s1 (dir_of ?t) (fs_directoryFile fs) = Inr s2" "stored fs s s2 m2 ?t"
    using store_map_dir [OF fs_inv_files_ok [OF inv] i(5) m2(2,3) t] by blast
  have u: "in_use t = in_use (take j t) @ t ! j # in_use (drop (Suc j) t)"
    "in_use ?t = in_use (take j t) @ in_use (drop (Suc j) t)"
    using in_use_update [OF j(1)] j(2) by (simp_all add: names_entry_def)
  have "bm_set m2 = bm_set m - set (entry_region s (t ! j))"
    using m1(4) m2(4) j(3) by (auto simp: entry_region_def)
  note del = fs_inv_del [OF inv s2(3) m2(2,3) this t(1) d u]
  show ?thesis using m1(1) m2(1) j(4) s2(1,2) del by blast
qed

lemma fs_Remove_ok:
  assumes inv: "fs_inv fs s m t" and J: "mem_ok J"
  shows "\<exists>s' m' t'. fs_Remove J fs s name = Inr (dir_map t (fkey name) \<noteq> None, s') \<and> fs_inv fs s' m' t'
    \<and> fs_files s' t' = (fs_files s t)(fkey name := None)"
proof -
  obtain s1 where s1: "dir_FetchFrom s (Directory (j_dir J) NumDirEntries) (fs_directoryFile fs) = Inr (dir_of t, s1)"
    "fs_inv fs s1 m t" "sector_of s1 = sector_of s"
    using fs_fetch(1) [OF inv J] by blast
  note find = fs_fetch(3) [OF s1(2) J, of name] and files = same_sectors(4) [OF s1(3), of t]
  show ?thesis
  proof (cases "dir_map t (fkey name)")
    case None
    then have "fs_files s t (fkey name) = None" by (simp add: fs_files_def)
    then have "(fs_files s t)(fkey name := None) = fs_files s t" by (simp add: fun_upd_idem)
    moreover have "fs_Remove J fs s name = Inr (False, s1)" using s1(1) find None by (simp add: fs_Remove_def)
    ultimately show ?thesis using s1(2) files None by auto
  next
    case (Some k)
    note dv = dir_map_valid [OF s1(2) Some]
    obtain s2 where s2: "fh_FetchFrom s1 k = Inr (hdr_at s1 k, s2)" "fs_inv fs s2 m t" "sector_of s2 = sector_of s1"
      using fetch_hdr_at [OF s1(2) dv(1)] by auto
    obtain s3 where s3: "PersistentBitmap s2 (fs_freeMapFile fs) NumSectors = Inr (m, s3)" "fs_inv fs s3 m t"
      "sector_of s3 = sector_of s1"
      using fs_fetch(2) [OF s2(2) J] s2(3) by auto
    have h: "hdr_at s1 k = hdr_at s3 k" using same_sectors(1) [OF s3(3)] by simp
    obtain m1 m2 t' s4 s5 where c: "fh_Deallocate (hdr_at s3 k) m = Inr m1" "bm_Clear m1 k = Inr m2"
      "dir_Remove (dir_of t) name = Inr (True, dir_of t')"
      "pbm_WriteBack (j_buf J 0) s3 (fs_freeMapFile fs) m2 = Inr s4"
      "dir_WriteBack (j_buf J 1) s4 (dir_of t') (fs_directoryFile fs) = Inr s5"
      "fs_inv fs s5 m2 t'" "fs_files s5 t' = (fs_files s3 t)(fkey name := None)"
      using fs_remove_commit [OF s3(2) Some] by blast
    have "fs_Remove J fs s name = Inr (True, s5)"
      using s1(1) find Some dv(1) s2(1) s3(1) c(1-5) h by (auto simp: fs_Remove_def valid_sector_def)
    then show ?thesis using c(6,7) Some files same_sectors(4) [OF s3(3), of t] by auto
  qed
qed

section \<open>Writing through an open file\<close>

lemma distinct_concat_disjoint:
  assumes "distinct (concat (map f xs))" and "x \<in> set xs" "y \<in> set xs" "x \<noteq> y"
  shows "set (f x) \<inter> set (f y) = {}"
proof -
  obtain A B where x: "xs = A @ x # B" using split_list [OF assms(2)] by blast
  then have "y \<in> set A \<or> y \<in> set B" using assms(3,4) by auto
  then show ?thesis using assms(1) unfolding x by auto
qed

text \<open>A change of the data sectors of one file leaves the rest of the file system as it is.\<close>

lemma data_write_frame:
  assumes inv: "fs_inv fs s m t" and e: "e \<in> set (in_use t)" "de_sector e = k" and r: "sd_ready s'"
    and frame: "\<forall>j. valid_sector j \<longrightarrow> j \<notin> set (fh_sectors (hdr_at s k)) \<longrightarrow> sector_of s' j = sector_of s j"
  shows "fs_inv fs s' m t" and "hdr_at s' k = hdr_at s k"
    and "\<And>x. x \<in> set (in_use t) \<Longrightarrow> x \<noteq> e \<Longrightarrow> hdr_at s' (de_sector x) = hdr_at s (de_sector x)
          \<and> file_data s' (hdr_at s (de_sector x)) = file_data s (hdr_at s (de_sector x))"
proof -
  note o = fs_inv_owners [OF inv]
  have keep: "sector_of s' j = sector_of s j" if "j \<in> bm_set m" "j \<notin> set (fh_sectors (hdr_at s k))" for j
    using frame that o(8) by blast
  have dr: "distinct (entry_region s e)" "distinct (concat (map (entry_region s) (in_use t)))"
    using inv split_list [OF e(1)] by (auto simp: fs_inv_def owned_def)
  have er: "set (fh_sectors (hdr_at s k)) \<subseteq> set (entry_region s e)" using e(2) by (auto simp: entry_region_def)
  have "k \<in> bm_set m" using o(7) e by (force simp: entry_region_def)
  then show hk: "hdr_at s' k = hdr_at s k"
    by (intro hdr_at_cong keep) (use dr(1) e(2) in \<open>auto simp: entry_region_def\<close>)
  have other: "sector_of s' j = sector_of s j" if "x \<in> set (in_use t)" "x \<noteq> e" "j \<in> set (entry_region s x)" for x j
    using distinct_concat_disjoint [OF dr(2) that(1) e(1) that(2)] that o(7) er by (intro keep) auto
  show hx: "hdr_at s' (de_sector x) = hdr_at s (de_sector x)
      \<and> file_data s' (hdr_at s (de_sector x)) = file_data s (hdr_at s (de_sector x))"
    if "x \<in> set (in_use t)" "x \<noteq> e" for x
    using other [OF that] unfolding entry_region_def by (auto intro: hdr_at_cong file_data_cong)
  have he: "\<forall>x \<in> set (in_use t). hdr_at s' (de_sector x) = hdr_at s (de_sector x)" using hx hk e(2) by metis
  have fixed: "sector_of s' j = sector_of s j"
    if "j \<in> {FreeMapSector, DirectorySector} \<union> set (fh_sectors (hdr_at s FreeMapSector)) \<union> set (fh_sectors (hdr_at s DirectorySector))" for j
    using that o(1,2,5,6,7) e(1) er by (intro keep) blast+
  have h01: "hdr_at s' FreeMapSector = hdr_at s FreeMapSector" "hdr_at s' DirectorySector = hdr_at s DirectorySector"
    by (rule hdr_at_cong, rule fixed, simp)+
  have d01: "file_data s' (hdr_at s FreeMapSector) = file_data s (hdr_at s FreeMapSector)"
    "file_data s' (hdr_at s DirectorySector) = file_data s (hdr_at s DirectorySector)"
    by (rule file_data_cong, use fixed in blast)+
  have mr: "map (entry_region s') (in_use t) = map (entry_region s) (in_use t)"
    using he by (simp add: entry_region_def)
  have "owned s' t = owned s t" unfolding owned_def h01 mr ..
  then show "fs_inv fs s' m t" using inv r he unfolding fs_inv_def h01 d01 by simp
qed

lemma fs_write_file:
  assumes inv: "fs_inv fs s m t" and sec: "dir_map t key = Some k" and f: "of_hdr f = hdr_at s k"
    and p: "0 \<le> position" "n \<le> int (length bs)" and n: "n \<le> 2147479807"
  shows "\<exists>s'. of_WriteAt junk s f bs n position = Inr (int (clipped (hdr_at s k) n position), s') \<and> fs_inv fs s' m t
    \<and> hdr_at s' k = hdr_at s k
    \<and> fs_files s' t = (fs_files s t)(key \<mapsto> (if clipped (hdr_at s k) n position = 0 then file_data s (hdr_at s k)
         else overlay (file_data s (hdr_at s k)) (nat position) (take (clipped (hdr_at s k) n position) bs)))"
proof -
  have r: "sd_ready s" and ok: "dir_ok t" using inv by (simp_all add: fs_inv_def)
  obtain e where e: "e \<in> set (in_use t)" "fkey (de_name e) = key" "de_sector e = k"
    using sec dir_map_Some [OF ok] by (auto simp: in_use_def)
  obtain s' where s': "of_WriteAt junk s f bs n position = Inr (int (clipped (hdr_at s k) n position), s')" "sd_ready s'"
    "file_data s' (hdr_at s k) = (if clipped (hdr_at s k) n position = 0 then file_data s (hdr_at s k)
         else overlay (file_data s (hdr_at s k)) (nat position) (take (clipped (hdr_at s k) n position) bs))"
    "\<forall>j. valid_sector j \<longrightarrow> j \<notin> set (fh_sectors (hdr_at s k)) \<longrightarrow> sector_of s' j = sector_of s j"
    using of_WriteAt_ok [OF r _ p, of f junk] dir_map_valid(3) [OF inv sec] end_fits_small [OF dir_map_valid(3) [OF inv sec] n] unfolding f by blast
  note fr = data_write_frame [OF inv e(1,3) s'(2,4)]
  have "fs_files s' t x = fs_files s t x" if "x \<noteq> key" for x
  proof (cases "dir_map t x")
    case (Some k')
    then obtain e' where e': "e' \<in> set (in_use t)" "fkey (de_name e') = x" "de_sector e' = k'"
      using dir_map_Some [OF ok] by (auto simp: in_use_def)
    moreover have "e' \<noteq> e" using e(2) e'(2) that by auto
    ultimately show ?thesis using fr(3) [OF e'(1)] Some by (simp add: fs_files_def)
  qed (simp add: fs_files_def)
  moreover have "fs_files s' t key = Some (file_data s' (hdr_at s k))" using sec fr(2) by (simp add: fs_files_def)
  ultimately show ?thesis using s'(1,3) fr(1,2) by (auto simp: fun_eq_iff)
qed

section \<open>Formatting\<close>

lemma fs_open_files_ok:
  assumes "sd_ready s"
  shows "\<exists>s'. fs_open_files s = Inr (\<lparr>fs_freeMapFile = \<lparr>of_hdr = hdr_at s FreeMapSector, of_seekPosition = 0\<rparr>,
      fs_directoryFile = \<lparr>of_hdr = hdr_at s DirectorySector, of_seekPosition = 0\<rparr>\<rparr>, s')
    \<and> sd_ready s' \<and> sector_of s' = sector_of s"
proof -
  have v: "valid_sector FreeMapSector" "valid_sector DirectorySector"
    by (simp_all add: valid_sector_def FreeMapSector_def DirectorySector_def disk_consts)
  obtain s1 where s1: "ReadSector s FreeMapSector = Inr (sector_of s FreeMapSector, s1)" "sd_ready s1"
    "sector_of s1 = sector_of s" using sd.rd_law [OF assms v(1)] by auto
  obtain s2 where "ReadSector s1 DirectorySector = Inr (sector_of s1 DirectorySector, s2)" "sd_ready s2"
    "sector_of s2 = sector_of s1" using sd.rd_law [OF s1(2) v(2)] by auto
  then show ?thesis using s1 by (simp add: fs_open_files_def OpenFile_def fh_FetchFrom_def hdr_at_def)
qed

text \<open>Mounting a disk that already holds a file system opens its two files.\<close>

lemma fs_mount:
  assumes "fs_inv fs s m t"
  shows "\<exists>fs' s'. FileSystem J s False = Inr (fs', s') \<and> fs_inv fs' s' m t \<and> fs_files s' t = fs_files s t"
proof -
  have "sd_ready s" using assms by (simp add: fs_inv_def)
  from fs_open_files_ok [OF this] obtain s' where s': "fs_open_files s =
      Inr (\<lparr>fs_freeMapFile = \<lparr>of_hdr = hdr_at s FreeMapSector, of_seekPosition = 0\<rparr>,
      fs_directoryFile = \<lparr>of_hdr = hdr_at s DirectorySector, of_seekPosition = 0\<rparr>\<rparr>, s')" "sd_ready s'"
    "sector_of s' = sector_of s" by blast
  then show ?thesis
    using assms by (auto simp: FileSystem_def fs_inv_def same_sectors [OF s'(3)])
qed

text \<open>The allocations of the constructor: the two header sectors, then the sectors of the two files.\<close>

lemma format_allocate:
  assumes J: "mem_ok J"
  shows "\<exists>m0 m1 m2 hm m3 dh m4. Bitmap NumSectors = Inr m0 \<and> bm_Mark m0 FreeMapSector = Inr m1
    \<and> bm_Mark m1 DirectorySector = Inr m2
    \<and> fh_Allocate (j_hdr J 0) m2 FreeMapFileSize = Inr (True, hm, m3)
    \<and> fh_Allocate (j_hdr J 1) m3 DirectoryFileSize = Inr (True, dh, m4)
    \<and> fh_wf hm \<and> fh_wf dh \<and> fh_int32 hm \<and> fh_int32 dh \<and> fh_numBytes hm = FreeMapFileSize \<and> fh_numBytes dh = DirectoryFileSize
    \<and> bm_wf m4 \<and> numBits m4 = NumSectors
    \<and> distinct (FreeMapSector # DirectorySector # fh_sectors hm @ fh_sectors dh)
    \<and> set (FreeMapSector # DirectorySector # fh_sectors hm @ fh_sectors dh) = bm_set m4"
proof -
  have jh: "length (fh_dataSectors (j_hdr J i)) = nat NumDirect" "\<forall>k \<in> set (fh_dataSectors (j_hdr J i)). is_int32 k" for i
    using J by (simp_all add: mem_ok_def)
  have c: "FreeMapSector = 0" "DirectorySector = 1" "FreeMapFileSize = 128" "DirectoryFileSize = 200" "NumSectors = 1024"
    "NumDirect * SectorSize = 3840" "divRoundUp 128 SectorSize = 1" "divRoundUp 200 SectorSize = 2"
    by (simp_all add: FreeMapSector_def DirectorySector_def FreeMapFileSize_def DirectoryFileSize_def BitsInByte_def
        NumDirEntries_def disk_consts NumDirect_30 divRoundUp_def)
  obtain m0 where m0: "Bitmap NumSectors = Inr m0" "bm_wf m0" "numBits m0 = 1024" "bm_set m0 = {}"
    using Bitmap_ok [of 1024] c(5) by auto
  obtain m1 where m1: "bm_Mark m0 0 = Inr m1" "bm_wf m1" "numBits m1 = 1024" "bm_set m1 = {0}"
    using bm.mark_law [OF m0(2), of 0] m0(3,4) by auto
  obtain m2 where m2: "bm_Mark m1 1 = Inr m2" "bm_wf m2" "numBits m2 = 1024" "bm_set m2 = {0, 1}"
    using bm.mark_law [OF m1(2), of 1] m1(3,4) by auto
  obtain hm m3 where hm: "fh_Allocate (j_hdr J 0) m2 128 = Inr (True, hm, m3)" "fh_wf hm" "fh_numBytes hm = 128"
    "set (fh_sectors hm) \<inter> {0, 1} = {}" "bm_wf m3" "numBits m3 = 1024" "bm_set m3 = {0, 1} \<union> set (fh_sectors hm)"
    "set (fh_dataSectors hm) \<subseteq> set (fh_dataSectors (j_hdr J 0)) \<union> set (fh_sectors hm)"
    using fh_Allocate_ok [OF m2(2) _ _ _ jh(1), of 128 0] m2(3,4) c by auto
  have dm: "distinct (fh_sectors hm)" "length (fh_sectors hm) = 1"
    using hm(2,3) fh_wf_sectors(1) [OF hm(2)] c(7) by (simp_all add: fh_wf_def)
  have "card (bm_set m3) = card {0, 1 :: int} + card (set (fh_sectors hm))"
    unfolding hm(7) by (rule card_Un_disjoint) (use hm(4) in auto)
  then have card3: "card (bm_set m3) = 3" using dm distinct_card [OF dm(1)] by simp
  obtain dh m4 where dh: "fh_Allocate (j_hdr J 1) m3 200 = Inr (True, dh, m4)" "fh_wf dh" "fh_numBytes dh = 200"
    "set (fh_sectors dh) \<inter> bm_set m3 = {}" "bm_wf m4" "numBits m4 = 1024" "bm_set m4 = bm_set m3 \<union> set (fh_sectors dh)"
    "set (fh_dataSectors dh) \<subseteq> set (fh_dataSectors (j_hdr J 1)) \<union> set (fh_sectors dh)"
    using fh_Allocate_ok [OF hm(5) _ _ _ jh(1), of 200 1] hm(6) card3 c by auto
  have dd: "distinct (fh_sectors dh)" using dh(2) by (simp add: fh_wf_def)
  have i32: "fh_int32 hm" "fh_int32 dh"
    using fh_int32_Allocate [OF hm(2,8) jh(2)] fh_int32_Allocate [OF dh(2,8) jh(2)] hm(3) dh(3) c by auto
  have "distinct (0 # 1 # fh_sectors hm @ fh_sectors dh)" "set (0 # 1 # fh_sectors hm @ fh_sectors dh) = bm_set m4"
    using dm(1) dd hm(4,7) dh(4,7) by auto
  then show ?thesis
    using m0(1) [unfolded c(5)] m1(1) m2(1) hm(1-3) dh(1-3) i32 dh(5,6) unfolding c(1-5) by blast
qed

lemma format_commit:
  assumes r: "sd_ready s" and J: "mem_ok J"
    and h: "fh_wf hm" "fh_wf dh" "fh_int32 hm" "fh_int32 dh" "fh_numBytes hm = FreeMapFileSize" "fh_numBytes dh = DirectoryFileSize"
    and m: "bm_wf m" "numBits m = NumSectors"
    and own: "distinct (FreeMapSector # DirectorySector # fh_sectors hm @ fh_sectors dh)"
      "set (FreeMapSector # DirectorySector # fh_sectors hm @ fh_sectors dh) = bm_set m"
    and t: "length t = nat NumDirEntries" "dir_ok t" "in_use t = []"
  shows "\<exists>s1 s2 fs s3 s4 s5. fh_WriteBack s hm FreeMapSector = Inr s1 \<and> fh_WriteBack s1 dh DirectorySector = Inr s2
    \<and> fs_open_files s2 = Inr (fs, s3) \<and> pbm_WriteBack b1 s3 (fs_freeMapFile fs) m = Inr s4
    \<and> dir_WriteBack b2 s4 (dir_of t) (fs_directoryFile fs) = Inr s5 \<and> fs_inv fs s5 m t"
proof -
  have v: "valid_sector FreeMapSector" "valid_sector DirectorySector" and ne: "FreeMapSector \<noteq> DirectorySector"
    by (simp_all add: valid_sector_def FreeMapSector_def DirectorySector_def disk_consts)
  obtain s1 where s1: "fh_WriteBack s hm FreeMapSector = Inr s1" "sd_ready s1"
    "\<forall>j. valid_sector j \<longrightarrow> sector_of s1 j = (if j = FreeMapSector then fh_bytes hm else sector_of s j)"
    using fh_WriteBack_ok [OF r v(1) h(3)] by blast
  obtain s2 where s2: "fh_WriteBack s1 dh DirectorySector = Inr s2" "sd_ready s2"
    "\<forall>j. valid_sector j \<longrightarrow> sector_of s2 j = (if j = DirectorySector then fh_bytes dh else sector_of s1 j)"
    using fh_WriteBack_ok [OF s1(2) v(2) h(4)] by blast
  have at2: "hdr_at s2 FreeMapSector = hm" "hdr_at s2 DirectorySector = dh"
    using s1(3) s2(3) v ne fh_of_bytes_bytes h(3,4) by (simp_all add: hdr_at_def)
  let ?fs = "\<lparr>fs_freeMapFile = \<lparr>of_hdr = hm, of_seekPosition = 0\<rparr>, fs_directoryFile = \<lparr>of_hdr = dh, of_seekPosition = 0\<rparr>\<rparr>"
  obtain s3 where s3: "fs_open_files s2 = Inr (?fs, s3)" "sd_ready s3" "sector_of s3 = sector_of s2"
    using fs_open_files_ok [OF s2(2)] at2 by auto
  have ok: "fs_files_ok ?fs" using h own(1) by (auto simp: fs_files_ok_def)
  have te: "\<forall>e \<in> set t. de_ok e" using t(2) by (simp add: dir_ok_def)
  obtain s4 s5 where s5: "pbm_WriteBack b1 s3 (fs_freeMapFile ?fs) m = Inr s4"
    "dir_WriteBack b2 s4 (dir_of t) (fs_directoryFile ?fs) = Inr s5" "stored ?fs s3 s5 m t"
    using store_map_dir [OF ok s3(2) m t(1) te] by blast
  have "sector_of s5 FreeMapSector = sector_of s2 FreeMapSector" "sector_of s5 DirectorySector = sector_of s2 DirectorySector"
    using s5(3) v own(1) s3(3) by (simp_all add: stored_def)
  then have at5: "hdr_at s5 FreeMapSector = hm" "hdr_at s5 DirectorySector = dh" using at2 by (simp_all add: hdr_at_def)
  have "fs_inv ?fs s5 m t"
    using s5(3) h m own t unfolding fs_inv_def at5 owned_def stored_def by simp
  then show ?thesis using s1(1) s2(1) s3(1) s5(1,2) by blast
qed

lemma fs_format_ok:
  assumes r: "sd_ready s" and J: "mem_ok J"
  shows "\<exists>fs s' m t. FileSystem J s True = Inr (fs, s') \<and> fs_inv fs s' m t \<and> in_use t = []"
proof -
  let ?t = "map (\<lambda>e. e\<lparr>de_inUse := False\<rparr>) (j_dir J)"
  have t: "length ?t = nat NumDirEntries" "in_use ?t = []" "dir_ok ?t"
    "Directory (j_dir J) NumDirEntries = dir_of ?t"
    using J by (auto simp: mem_ok_def in_use_def dir_ok_def de_ok_def Directory_def dir_of_def filter_empty_conv)
  obtain m0 m1 m2 hm m3 dh m where a: "Bitmap NumSectors = Inr m0" "bm_Mark m0 FreeMapSector = Inr m1"
    "bm_Mark m1 DirectorySector = Inr m2" "fh_Allocate (j_hdr J 0) m2 FreeMapFileSize = Inr (True, hm, m3)"
    "fh_Allocate (j_hdr J 1) m3 DirectoryFileSize = Inr (True, dh, m)"
    and h: "fh_wf hm" "fh_wf dh" "fh_int32 hm" "fh_int32 dh" "fh_numBytes hm = FreeMapFileSize" "fh_numBytes dh = DirectoryFileSize"
    and m: "bm_wf m" "numBits m = NumSectors"
    and own: "distinct (FreeMapSector # DirectorySector # fh_sectors hm @ fh_sectors dh)"
      "set (FreeMapSector # DirectorySector # fh_sectors hm @ fh_sectors dh) = bm_set m"
    using format_allocate [OF J] by blast
  obtain s1 s2 fs s3 s4 s5 where c: "fh_WriteBack s hm FreeMapSector = Inr s1" "fh_WriteBack s1 dh DirectorySector = Inr s2"
    "fs_open_files s2 = Inr (fs, s3)" "pbm_WriteBack (j_buf J 0) s3 (fs_freeMapFile fs) m = Inr s4"
    "dir_WriteBack (j_buf J 1) s4 (dir_of ?t) (fs_directoryFile fs) = Inr s5" "fs_inv fs s5 m ?t"
    using format_commit [OF r J h m own t(1,3,2)] by blast
  have "FileSystem J s True = Inr (fs, s5)"
    using a c(1-5) by (simp add: FileSystem_def t(4))
  then show ?thesis using c(6) t(2) by blast
qed

end
