(* ===== verification/File_Tools.thy ===== *)
theory File_Tools
  imports File_System
begin

text \<open>
  The two file commands of \<^verbatim>\<open>threads/main.cc\<close>, \<^verbatim>\<open>Copy\<close> (a UNIX file into the Nachos file system)
  and \<^verbatim>\<open>Print\<close> (a Nachos file to the screen), and what the file system promises its users: the
  interface \<open>named_files\<close>, with sequences of commands as its client, and the theorems about
  creation, removal, opening and copying.
\<close>

section \<open>Copy and Print\<close>

definition TransferSize :: int where "TransferSize = 128"

text \<open>
  The loop of \<^verbatim>\<open>Copy\<close>: \<open>unix\<close> is the rest of the UNIX file, which \<^verbatim>\<open>ReadPartial\<close> returns in pieces
  of \<^verbatim>\<open>TransferSize\<close> bytes; \<open>bufs n\<close> is the memory that the \<open>n\<close>th \<^verbatim>\<open>Write\<close> obtains.
\<close>

function copy_loop ::
    "(nat \<Rightarrow> nat \<Rightarrow> byte) \<Rightarrow> nat \<Rightarrow> synchdisk \<Rightarrow> openfile \<Rightarrow> byte list \<Rightarrow> (openfile \<times> synchdisk) result" where
  "copy_loop bufs n s f unix =
     (let buffer = take (nat TransferSize) unix; amountRead = int (length buffer) in
      if amountRead > 0
      then rbind (of_Write (bufs n) s f buffer amountRead) (\<lambda>(_, f, s).
             copy_loop bufs (Suc n) s f (drop (nat TransferSize) unix))
      else Inr (f, s))"
  by pat_completeness auto
termination
  by (relation "measure (\<lambda>(b, n, s, f, u). length u)") (auto simp: TransferSize_def)

text \<open>\<^verbatim>\<open>Copy\<close>, for the contents of the UNIX file if it can be opened; the result is whether a file was made.\<close>

definition Copy :: "(nat \<Rightarrow> fresh_memory) \<Rightarrow> (nat \<Rightarrow> nat \<Rightarrow> byte) \<Rightarrow> filesystem \<Rightarrow> synchdisk \<Rightarrow> byte list option
    \<Rightarrow> byte list \<Rightarrow> (bool \<times> synchdisk) result" where
  "Copy Js bufs fs s from name =
     (case from of None \<Rightarrow> Inr (False, s)
      | Some unix \<Rightarrow>
          let fileLength = int (length unix) in
          rbind (fs_Create (Js 0) fs s name fileLength) (\<lambda>(ok, s).
          if \<not> ok then Inr (False, s)
          else rbind (fs_Open (Js 1) fs s name) (\<lambda>(openFile, s).
            case openFile of None \<Rightarrow> Inl AssertFailed
            | Some f \<Rightarrow> rbind (copy_loop bufs 0 s f unix) (\<lambda>(f, s). Inr (True, s)))))"

text \<open>A \<^verbatim>\<open>Read\<close> that returns bytes advances the position, which was before the end of the file.\<close>

lemma of_Read_progress:
  assumes "of_Read s f n = Inr (bs, f', s')" and "bs \<noteq> []"
  shows "of_seekPosition f < fh_numBytes (of_hdr f)" and "of_hdr f' = of_hdr f"
    and "of_seekPosition f' = of_seekPosition f + int (length bs)"
  using assms by (auto simp: of_Read_def rbind_Inr_iff of_ReadAt_def fh_FileLength_def Let_def split: if_splits)

function print_loop :: "synchdisk \<Rightarrow> openfile \<Rightarrow> (byte list \<times> synchdisk) result" where
  "print_loop s f =
     rbind (of_Read s f TransferSize) (\<lambda>(buffer, f', s').
       if length buffer > 0
       then rbind (print_loop s' f') (\<lambda>(out, s''). Inr (buffer @ out, s''))
       else Inr ([], s'))"
  by pat_completeness auto
termination
proof (relation "measure (\<lambda>(s, f). nat (fh_numBytes (of_hdr f) - of_seekPosition f))", goal_cases)
  case (2 s f r buffer q f' s')
  then have "of_Read s f TransferSize = Inr (buffer, f', s')" "buffer \<noteq> []" by auto
  from of_Read_progress [OF this] \<open>buffer \<noteq> []\<close> show ?case by (cases buffer) auto
qed simp

definition Print :: "fresh_memory \<Rightarrow> filesystem \<Rightarrow> synchdisk \<Rightarrow> byte list \<Rightarrow> (byte list option \<times> synchdisk) result" where
  "Print J fs s name =
     rbind (fs_Open J fs s name) (\<lambda>(openFile, s).
       case openFile of None \<Rightarrow> Inr (None, s)
       | Some f \<Rightarrow> rbind (print_loop s f) (\<lambda>(out, s). Inr (Some out, s)))"

declare copy_loop.simps [simp del] print_loop.simps [simp del]

lemma overlay_overlay:
  "p + length a + length b \<le> length d \<Longrightarrow> overlay (overlay d p a) (p + length a) b = overlay d p (a @ b)"
  by (cases "a = []") (auto simp: overlay_def min_def ac_simps simp flip: length_greater_0_conv)

lemma take_drop_chunk: "take n (drop p d) @ drop (p + length (take n (drop p d))) d = drop p d"
proof -
  have "drop (length (take n (drop p d))) (drop p d) = drop n (drop p d)"
    by (metis append_eq_conv_conj append_take_drop_id)
  then show ?thesis by (metis add.commute append_take_drop_id drop_drop)
qed

lemma print_loop_ok:
  assumes "sd_ready s" and "fh_wf (of_hdr f)" and "0 \<le> of_seekPosition f"
  shows "\<exists>s'. print_loop s f = Inr (drop (nat (of_seekPosition f)) (file_data s (of_hdr f)), s')
    \<and> sd_ready s' \<and> sector_of s' = sector_of s"
  using assms
proof (induction "nat (fh_numBytes (of_hdr f) - of_seekPosition f)" arbitrary: s f rule: less_induct)
  case less
  let ?p = "nat (of_seekPosition f)" and ?d = "file_data s (of_hdr f)"
  let ?b = "take 128 (drop ?p ?d)"
  obtain s1 where s1: "of_ReadAt s f TransferSize (of_seekPosition f) = Inr (?b, s1)" "sd_ready s1" "sector_of s1 = sector_of s"
    using of_ReadAt_ok [OF less.prems end_fits_small [OF less.prems(2)], of TransferSize] by (auto simp: TransferSize_def)
  let ?f = "f\<lparr>of_seekPosition := of_seekPosition f + int (length ?b)\<rparr>"
  have rd: "of_Read s f TransferSize = Inr (?b, ?f, s1)" using s1(1) by (simp add: of_Read_def)
  show ?case
  proof (cases "?b = []")
    case True
    then show ?thesis using rd s1 by (subst print_loop.simps) auto
  next
    case False
    have lt: "of_seekPosition f < fh_numBytes (of_hdr f)" by (rule of_Read_progress(1) [OF rd False])
    have "nat (fh_numBytes (of_hdr ?f) - of_seekPosition ?f) < nat (fh_numBytes (of_hdr f) - of_seekPosition f)"
      using False lt by (cases ?b) auto
    from less.hyps [OF this s1(2)] less.prems obtain s2 where
      "print_loop s1 ?f = Inr (drop (nat (of_seekPosition ?f)) (file_data s1 (of_hdr ?f)), s2)"
      "sd_ready s2" "sector_of s2 = sector_of s1" by auto
    moreover have "drop (nat (of_seekPosition ?f)) (file_data s1 (of_hdr ?f)) = drop (?p + length ?b) ?d"
      using less.prems(3) same_sectors(2) [OF s1(3)] by (simp add: nat_add_distrib)
    moreover have "?b @ drop (?p + length ?b) ?d = drop ?p ?d"
      by (rule take_drop_chunk)
    ultimately show ?thesis using rd s1(3) False by (subst print_loop.simps) auto
  qed
qed

text \<open>
  The state of a copy: file \<open>key\<close> of the file system has its header in sector \<open>k\<close>, and the loop
  writes the rest of the UNIX file behind position \<open>p\<close>.
\<close>

lemma copy_loop_ok:
  assumes "fs_inv fs s m t" and "dir_map t key = Some k" and "of_hdr f = hdr_at s k"
    and "of_seekPosition f = int p" and "p + length unix \<le> nat (fh_numBytes (hdr_at s k))"
  shows "\<exists>f' s'. copy_loop bufs n s f unix = Inr (f', s') \<and> fs_inv fs s' m t
    \<and> fs_files s' t = (fs_files s t)(key \<mapsto> overlay (file_data s (hdr_at s k)) p unix)"
  using assms
proof (induction "length unix" arbitrary: unix n s f p rule: less_induct)
  case less
  note inv = less.prems(1) and sec = less.prems(2)
  let ?d = "file_data s (hdr_at s k)"
  show ?case
  proof (cases "unix = []")
    case True
    have "fs_files s t key = Some ?d" using sec by (simp add: fs_files_def)
    then have "fs_files s t = (fs_files s t)(key \<mapsto> overlay ?d p [])" by (auto simp: overlay_def fun_eq_iff)
    moreover have "copy_loop bufs n s f unix = Inr (f, s)" using True by (subst copy_loop.simps) simp
    ultimately show ?thesis using inv True by auto
  next
    case False
    let ?c = "take 128 unix" and ?h = "hdr_at s k"
    have nb: "int p + int (length ?c) \<le> fh_numBytes ?h" using less.prems(5) False by (cases unix) auto
    have cl: "clipped ?h (int (length ?c)) (int p) = length ?c" "length ?c \<noteq> 0"
      using nb False by (auto simp: clipped_def)
    have small: "int (length ?c) \<le> 2147479807" by (simp add: min_def)
    obtain s1 where s1: "of_WriteAt (bufs n) s f ?c (int (length ?c)) (int p) = Inr (int (length ?c), s1)"
      "fs_inv fs s1 m t" "hdr_at s1 k = ?h" "fs_files s1 t = (fs_files s t)(key \<mapsto> overlay ?d p ?c)"
      using fs_write_file [OF inv sec less.prems(3) _ _ small, of "int p" ?c "bufs n"]
      unfolding cl(1) if_not_P [OF cl(2)] nat_int take_all [OF order_refl] by auto
    let ?f = "f\<lparr>of_seekPosition := int p + int (length ?c)\<rparr>"
    have w: "of_Write (bufs n) s f ?c (int (length ?c)) = Inr (int (length ?c), ?f, s1)"
      using s1(1) less.prems(4) by (simp add: of_Write_def)
    have d1: "file_data s1 ?h = overlay ?d p ?c"
      using s1(3,4) sec by (auto simp: fs_files_def fun_eq_iff dest: spec [of _ key])
    have "\<exists>f' s'. copy_loop bufs (Suc n) s1 ?f (drop 128 unix) = Inr (f', s') \<and> fs_inv fs s' m t
      \<and> fs_files s' t = (fs_files s1 t)(key \<mapsto> overlay (file_data s1 (hdr_at s1 k)) (p + length ?c) (drop 128 unix))"
      by (rule less.hyps [OF _ s1(2) sec]) (use False less.prems(3,5) s1(3) in auto)
    then obtain f' s' where c: "copy_loop bufs (Suc n) s1 ?f (drop 128 unix) = Inr (f', s')" "fs_inv fs s' m t"
      "fs_files s' t = (fs_files s t)(key \<mapsto> overlay (overlay ?d p ?c) (p + length ?c) (drop 128 unix))"
      using s1(3,4) d1 by auto
    have "length ?d = nat (fh_numBytes ?h)"
      using inv dir_map_valid(3) [OF inv sec] length_file_data by (simp add: fs_inv_def)
    then have "overlay (overlay ?d p ?c) (p + length ?c) (drop 128 unix) = overlay ?d p unix"
      using less.prems(5) by (subst overlay_overlay) auto
    moreover have "copy_loop bufs n s f unix = Inr (f', s')"
      using c(1) w cl(2) by (subst copy_loop.simps) (simp add: TransferSize_def Let_def)
    ultimately show ?thesis using c(2,3) by auto
  qed
qed

lemma Copy_ok:
  assumes inv: "fs_inv fs s m t" and J: "\<forall>i. mem_ok (Js i)" and len: "int (length unix) \<le> NumDirect * SectorSize"
  shows "\<exists>s' m' t'. Copy Js bufs fs s (Some unix) name = Inr (fs_room m t name (int (length unix)), s') \<and> fs_inv fs s' m' t'
    \<and> fs_files s' t' = (if fs_room m t name (int (length unix)) then (fs_files s t)(fkey name \<mapsto> unix) else fs_files s t)"
proof -
  let ?b = "fs_room m t name (int (length unix))"
  have "created fs s t ?b name (int (length unix)) (fs_Create (Js 0) fs s name (int (length unix)))"
    by (rule fs_Create_ok [OF inv J [rule_format, of 0] _ len]) simp
  then obtain s1 m1 t1 where s1: "fs_Create (Js 0) fs s name (int (length unix)) = Inr (?b, s1)" "fs_inv fs s1 m1 t1"
    "if ?b then \<exists>bs. length bs = length unix \<and> fs_files s1 t1 = (fs_files s t)(fkey name \<mapsto> bs) else fs_files s1 t1 = fs_files s t"
    unfolding created_def nat_int by blast
  show ?thesis
  proof (cases ?b)
    case False
    then show ?thesis using s1 by (auto simp: Copy_def)
  next
    case True
    then obtain bs where bs: "length bs = length unix" "fs_files s1 t1 = (fs_files s t)(fkey name \<mapsto> bs)" using s1(3) by auto
    then have "fs_files s1 t1 (fkey name) = Some bs" by simp
    then obtain k where k: "dir_map t1 (fkey name) = Some k" "file_data s1 (hdr_at s1 k) = bs"
      by (auto simp: fs_files_def)
    let ?f = "\<lparr>of_hdr = hdr_at s1 k, of_seekPosition = 0\<rparr>"
    obtain s2 where s2: "fs_Open (Js 1) fs s1 name = Inr (Some ?f, s2)" "fs_inv fs s2 m1 t1" "sector_of s2 = sector_of s1"
      using fs_Open_ok [OF s1(2) J [rule_format, of 1], of name] k(1) by auto
    note same = same_sectors [OF s2(3)]
    have "length bs = nat (fh_numBytes (hdr_at s1 k))"
      using length_file_data [OF _ dir_map_valid(3) [OF s1(2) k(1)]] s1(2) k(2) by (auto simp: fs_inv_def)
    then obtain f' s3 where s3: "copy_loop bufs 0 s2 ?f unix = Inr (f', s3)" "fs_inv fs s3 m1 t1"
      "fs_files s3 t1 = (fs_files s2 t1)(fkey name \<mapsto> overlay bs 0 unix)"
      using copy_loop_ok [OF s2(2) k(1), of ?f 0 unix bufs 0] bs(1) k(2) same by auto
    have "Copy Js bufs fs s (Some unix) name = Inr (True, s3)"
      using s1(1) True s2(1) s3(1) by (simp add: Copy_def)
    then show ?thesis using True s3(2,3) bs same(4) [of t1] by (auto simp: overlay_all)
  qed
qed

lemma Print_ok:
  assumes inv: "fs_inv fs s m t" and J: "mem_ok J"
  shows "\<exists>s'. Print J fs s name = Inr (fs_files s t (fkey name), s') \<and> fs_inv fs s' m t \<and> fs_files s' t = fs_files s t"
proof -
  obtain s1 where s1: "fs_Open J fs s name = Inr (map_option (\<lambda>k. \<lparr>of_hdr = hdr_at s k, of_seekPosition = 0\<rparr>) (dir_map t (fkey name)), s1)"
    "fs_inv fs s1 m t" "sector_of s1 = sector_of s"
    using fs_Open_ok [OF inv J] by blast
  note same = same_sectors [OF s1(3)]
  show ?thesis
  proof (cases "dir_map t (fkey name)")
    case None
    then show ?thesis using s1 same(4) by (auto simp: Print_def fs_files_def)
  next
    case (Some k)
    have "sd_ready s1" using s1(2) by (simp add: fs_inv_def)
    then obtain s2 where s2: "print_loop s1 \<lparr>of_hdr = hdr_at s k, of_seekPosition = 0\<rparr> = Inr (file_data s1 (hdr_at s k), s2)"
      "sd_ready s2" "sector_of s2 = sector_of s1"
      using print_loop_ok [of s1 "\<lparr>of_hdr = hdr_at s k, of_seekPosition = 0\<rparr>"] dir_map_valid(3) [OF inv Some] by auto
    then show ?thesis
      using s1(1) Some same fs_inv_same [OF s1(2) s2(2,3)] same_sectors(4) [OF s2(3), of t]
      by (simp add: Print_def fs_files_def)
  qed
qed

section \<open>The interface of the file system\<close>

datatype fs_command = CreateFile "byte list" int | RemoveFile "byte list"

locale named_files =
  fixes abs :: "'s \<Rightarrow> (byte list \<rightharpoonup> byte list) \<Rightarrow> bool"
    and canon :: "byte list \<Rightarrow> byte list"
    and maxlen :: int
    and create :: "'s \<Rightarrow> byte list \<Rightarrow> int \<Rightarrow> (bool \<times> 's) result"
    and remove :: "'s \<Rightarrow> byte list \<Rightarrow> (bool \<times> 's) result"
    and contents :: "'s \<Rightarrow> byte list \<Rightarrow> (byte list option \<times> 's) result"
  assumes create_law: "abs s F \<Longrightarrow> 0 \<le> n \<Longrightarrow> n \<le> maxlen \<Longrightarrow> \<exists>b s'. create s name n = Inr (b, s')
      \<and> (if b then F (canon name) = None \<and> (\<exists>bs. length bs = nat n \<and> abs s' (F(canon name \<mapsto> bs))) else abs s' F)"
    and remove_law: "abs s F \<Longrightarrow> \<exists>s'. remove s name = Inr (F (canon name) \<noteq> None, s') \<and> abs s' (F(canon name := None))"
    and contents_law: "abs s F \<Longrightarrow> \<exists>s'. contents s name = Inr (F (canon name), s') \<and> abs s' F"

text \<open>A session: a list of requests to create and remove files, with their answers.\<close>

fun run_session ::
    "('s \<Rightarrow> byte list \<Rightarrow> int \<Rightarrow> (bool \<times> 's) result) \<Rightarrow> ('s \<Rightarrow> byte list \<Rightarrow> (bool \<times> 's) result) \<Rightarrow> 's
     \<Rightarrow> fs_command list \<Rightarrow> (bool list \<times> 's) result" where
  "run_session create remove s [] = Inr ([], s)"
| "run_session create remove s (CreateFile name n # cs) =
     rbind (create s name n) (\<lambda>(b, s). rbind (run_session create remove s cs) (\<lambda>(bs, s). Inr (b # bs, s)))"
| "run_session create remove s (RemoveFile name # cs) =
     rbind (remove s name) (\<lambda>(b, s). rbind (run_session create remove s cs) (\<lambda>(bs, s). Inr (b # bs, s)))"

fun command_name :: "fs_command \<Rightarrow> byte list" where
  "command_name (CreateFile name n) = name"
| "command_name (RemoveFile name) = name"

fun command_ok :: "int \<Rightarrow> fs_command \<Rightarrow> bool" where
  "command_ok maxlen (CreateFile name n) = (0 \<le> n \<and> n \<le> maxlen)"
| "command_ok maxlen (RemoveFile name) = True"

context named_files
begin

text \<open>A session never fails, and leaves the files it does not name alone.\<close>

lemma session_frame:
  "abs s F \<Longrightarrow> \<forall>c \<in> set cs. command_ok maxlen c \<Longrightarrow>
     \<exists>bs s' F'. run_session create remove s cs = Inr (bs, s') \<and> length bs = length cs \<and> abs s' F'
       \<and> (\<forall>k. k \<notin> canon ` command_name ` set cs \<longrightarrow> F' k = F k)"
proof (induction cs arbitrary: s F)
  case (Cons c cs)
  have "\<exists>b s1 F1. run_session create remove s (c # cs) =
      rbind (run_session create remove s1 cs) (\<lambda>(bs, s). Inr (b # bs, s)) \<and> abs s1 F1
      \<and> (\<forall>k. k \<noteq> canon (command_name c) \<longrightarrow> F1 k = F k)"
  proof (cases c)
    case (CreateFile name n)
    then obtain b s1 where b: "create s name n = Inr (b, s1)" "if b then F (canon name) = None
        \<and> (\<exists>bs. length bs = nat n \<and> abs s1 (F(canon name \<mapsto> bs))) else abs s1 F"
      using create_law [OF Cons.prems(1), of n name] Cons.prems(2) by auto
    show ?thesis
    proof (cases b)
      case True
      then obtain bs where "abs s1 (F(canon name \<mapsto> bs))" using b(2) by auto
      then show ?thesis using b(1) CreateFile by (intro exI [of _ b] exI [of _ s1] exI [of _ "F(canon name \<mapsto> bs)"]) simp
    next
      case False
      then show ?thesis using b CreateFile by (intro exI [of _ b] exI [of _ s1] exI [of _ F]) simp
    qed
  next
    case (RemoveFile name)
    then obtain s1 where "remove s name = Inr (F (canon name) \<noteq> None, s1)" "abs s1 (F(canon name := None))"
      using remove_law [OF Cons.prems(1)] by blast
    then show ?thesis
      using RemoveFile by (intro exI [of _ "F (canon name) \<noteq> None"] exI [of _ s1] exI [of _ "F(canon name := None)"]) simp
  qed
  then obtain b s1 F1 where h: "run_session create remove s (c # cs) =
      rbind (run_session create remove s1 cs) (\<lambda>(bs, s). Inr (b # bs, s))" "abs s1 F1"
    "\<forall>k. k \<noteq> canon (command_name c) \<longrightarrow> F1 k = F k" by blast
  obtain bs s2 F2 where "run_session create remove s1 cs = Inr (bs, s2)" "length bs = length cs" "abs s2 F2"
    "\<forall>k. k \<notin> canon ` command_name ` set cs \<longrightarrow> F2 k = F1 k"
    using Cons.IH [OF h(2)] Cons.prems(2) by auto
  then show ?case using h by (intro exI [of _ "b # bs"] exI [of _ s2] exI [of _ F2]) simp
qed auto

lemma removed_gone:
  assumes "abs s F"
  shows "\<exists>s1 s2. remove s name = Inr (F (canon name) \<noteq> None, s1) \<and> contents s1 name = Inr (None, s2)"
proof -
  obtain s1 where s1: "remove s name = Inr (F (canon name) \<noteq> None, s1)" "abs s1 (F(canon name := None))"
    using remove_law [OF assms] by blast
  then show ?thesis using contents_law [OF s1(2), of name] by auto
qed

end

lemma fs_room_new: "fs_room m t name n \<Longrightarrow> fs_files s t (fkey name) = None"
  by (simp add: fs_room_def fs_files_def)

interpretation nf: named_files "\<lambda>s F. mem_ok J \<and> fs_abs fs s F" fkey "NumDirect * SectorSize"
  "fs_Create J fs" "fs_Remove J fs" "Print J fs"
  for J fs
proof unfold_locales
  fix s F n name
  assume a: "mem_ok J \<and> fs_abs fs s F" and n: "0 \<le> n" "n \<le> NumDirect * SectorSize"
  obtain m t where inv: "fs_inv fs s m t" "F = fs_files s t" using a by (auto simp: fs_abs_def)
  have "created fs s t (fs_room m t name n) name n (fs_Create J fs s name n)"
    by (rule fs_Create_ok [OF inv(1)]) (use a n in auto)
  then obtain s' m' t' where c: "fs_Create J fs s name n = Inr (fs_room m t name n, s')" "fs_inv fs s' m' t'"
    "if fs_room m t name n then \<exists>bs. length bs = nat n \<and> fs_files s' t' = F(fkey name \<mapsto> bs) else fs_files s' t' = F"
    unfolding created_def inv(2) by blast
  have "fs_room m t name n \<Longrightarrow> F (fkey name) = None" using fs_room_new inv(2) by simp
  moreover have "fs_abs fs s' (fs_files s' t')" using c(2) by (auto simp: fs_abs_def)
  ultimately have "if fs_room m t name n then F (fkey name) = None \<and> (\<exists>bs. length bs = nat n \<and> (mem_ok J \<and> fs_abs fs s' (F(fkey name \<mapsto> bs))))
      else mem_ok J \<and> fs_abs fs s' F"
    using c(3) a by (auto split: if_splits)
  then show "\<exists>b s'. fs_Create J fs s name n = Inr (b, s') \<and>
      (if b then F (fkey name) = None \<and> (\<exists>bs. length bs = nat n \<and> (mem_ok J \<and> fs_abs fs s' (F(fkey name \<mapsto> bs))))
       else mem_ok J \<and> fs_abs fs s' F)"
    using c(1) by blast
next
  fix s F name
  assume a: "mem_ok J \<and> fs_abs fs s F"
  then obtain m t where inv: "fs_inv fs s m t" "F = fs_files s t" by (auto simp: fs_abs_def)
  have d: "(dir_map t (fkey name) \<noteq> None) = (F (fkey name) \<noteq> None)" by (simp add: inv(2) fs_files_def)
  obtain s' m' t' where r: "fs_Remove J fs s name = Inr (F (fkey name) \<noteq> None, s')" "fs_inv fs s' m' t'"
    "fs_files s' t' = F(fkey name := None)"
    using fs_Remove_ok [OF inv(1) conjunct1 [OF a], of name] unfolding d inv(2) [symmetric] by blast
  have "fs_abs fs s' (fs_files s' t')" using r(2) by (auto simp: fs_abs_def)
  then show "\<exists>s'. fs_Remove J fs s name = Inr (F (fkey name) \<noteq> None, s') \<and> mem_ok J \<and> fs_abs fs s' (F(fkey name := None))"
    using r(1,3) a by auto
  obtain s'' where p: "Print J fs s name = Inr (F (fkey name), s'')" "fs_inv fs s'' m t" "fs_files s'' t = F"
    using Print_ok [OF inv(1) conjunct1 [OF a], of name] unfolding inv(2) [symmetric] by blast
  have "fs_abs fs s'' (fs_files s'' t)" using p(2) by (auto simp: fs_abs_def)
  then show "\<exists>s'. Print J fs s name = Inr (F (fkey name), s') \<and> mem_ok J \<and> fs_abs fs s' F"
    using p(1,3) a by auto
qed

section \<open>What the file system promises\<close>

lemma fs_absI: "fs_inv fs s m t \<Longrightarrow> fs_abs fs s (fs_files s t)"
  by (auto simp: fs_abs_def)

definition sample_memory :: fresh_memory where
  "sample_memory = \<lparr>j_dir = replicate 10 \<lparr>de_inUse = False, de_pad1 = [0, 0, 0], de_sector = 0, de_name = replicate 10 0, de_pad2 = [0, 0]\<rparr>,
     j_hdr = (\<lambda>_. \<lparr>fh_numBytes = 0, fh_numSectors = 0, fh_dataSectors = replicate 30 0\<rparr>), j_buf = (\<lambda>_ _. 7)\<rparr>"

lemma sample_memory_ok: "mem_ok sample_memory"
  by (simp add: mem_ok_def sample_memory_def de_ok_def is_int32_def NumDirEntries_def NumDirect_30)

lemma no_files: "in_use t = [] \<Longrightarrow> fs_files s t = Map.empty"
  by (simp add: fun_eq_iff fs_files_def dir_map_def)

lemma fs_abs_exists: "\<exists>fs s. fs_abs fs s Map.empty"
proof -
  obtain s where "sd_ready s" using disk_ready_exists by blast
  from fs_format_ok [OF this sample_memory_ok] obtain fs s' m t where "fs_inv fs s' m t" "in_use t = []" by blast
  then show ?thesis using fs_absI [of fs s' m t] no_files [of t s'] by auto
qed

lemma fs_absE:
  assumes "fs_abs fs s F" obtains m t where "fs_inv fs s m t" and "F = fs_files s t"
  using assms by (auto simp: fs_abs_def)

text \<open>
  C20: Formatting a disk gives an empty file system: whatever the disk and the uninitialised memory
  held, \<^verbatim>\<open>FileSystem(TRUE)\<close> passes its assertions and leaves a consistent disk without files. Mounting
  the result again with \<^verbatim>\<open>FileSystem(FALSE)\<close> finds the same, empty, file system.
\<close>

theorem file_system_format:
  assumes "sd_ready s" and "mem_ok J"
  shows "\<exists>fs s1 fs' s2. FileSystem J s True = Inr (fs, s1) \<and> fs_abs fs s1 Map.empty
    \<and> FileSystem J s1 False = Inr (fs', s2) \<and> fs_abs fs' s2 Map.empty"
proof -
  obtain fs s1 m t where f: "FileSystem J s True = Inr (fs, s1)" "fs_inv fs s1 m t" "in_use t = []"
    using fs_format_ok [OF assms] by blast
  show ?thesis using f(1) fs_absI [OF f(2)] no_files [OF f(3)] fs_mount [OF f(2), of J] fs_absI by fastforce
qed

theorem file_system_format_witness:
  "\<exists>s fs s1. sd_ready s \<and> mem_ok sample_memory \<and> FileSystem sample_memory s True = Inr (fs, s1) \<and> fs_abs fs s1 Map.empty"
proof -
  obtain s where s: "sd_ready s" using disk_ready_exists by blast
  show ?thesis using file_system_format [OF s sample_memory_ok] s sample_memory_ok by blast
qed

text \<open>
  C1: \<^verbatim>\<open>Create\<close> succeeds exactly when no file has the name (cut to nine characters), the
  directory has a free entry, and there are free sectors for the header and for every block of the
  data; it then adds one file of the requested length and leaves every other file as it was. When
  it fails, nothing changes. In both cases the disk is consistent afterwards: no sector belongs to two
  files and the bitmap on disk marks exactly the sectors that belong to one. The size is at
  most the 3840 bytes that a header can address.
\<close>

theorem file_system_create:
  assumes "fs_inv fs s m t" and "mem_ok J" and "0 \<le> n" "n \<le> NumDirect * SectorSize"
  shows "\<exists>s' m' t'. fs_Create J fs s name n = Inr (fs_room m t name n, s') \<and> fs_inv fs s' m' t'
    \<and> (if fs_room m t name n then \<exists>bs. length bs = nat n \<and> fs_files s' t' = (fs_files s t)(fkey name \<mapsto> bs)
       else fs_files s' t' = fs_files s t)"
  using fs_Create_ok [OF assms] unfolding created_def by blast

theorem file_system_create_witness:
  "\<exists>fs s m t b s'. fs_inv fs s m t \<and> mem_ok sample_memory \<and> fs_Create sample_memory fs s [97, 98] 300 = Inr (b, s')"
proof -
  obtain fs s m t where inv: "fs_inv fs s m t" using fs_abs_exists by (auto simp: fs_abs_def)
  from file_system_create [OF inv sample_memory_ok, of 300 "[97, 98]"] show ?thesis
    using inv sample_memory_ok by (simp add: NumDirect_30 disk_consts) blast
qed

text \<open>
  C14: \<^verbatim>\<open>Remove\<close> reports whether the file existed, removes exactly that file, gives its
  sectors back (the disk stays consistent), and a later attempt to print the file does not find it.
\<close>

theorem file_system_remove:
  assumes "fs_abs fs s F" and "mem_ok J"
  shows "\<exists>s1 s2. fs_Remove J fs s name = Inr (F (fkey name) \<noteq> None, s1) \<and> fs_abs fs s1 (F(fkey name := None))
    \<and> Print J fs s1 name = Inr (None, s2)"
proof -
  obtain s1 where s1: "fs_Remove J fs s name = Inr (F (fkey name) \<noteq> None, s1)" "fs_abs fs s1 (F(fkey name := None))"
    using nf.remove_law assms by blast
  then show ?thesis using nf.contents_law [OF conjI [OF assms(2) s1(2)], of name] by auto
qed

theorem file_system_remove_witness:
  "\<exists>fs s s1. fs_abs fs s Map.empty \<and> fs_Remove sample_memory fs s [97] = Inr (False, s1)"
proof -
  obtain fs s where a: "fs_abs fs s Map.empty" using fs_abs_exists by blast
  from file_system_remove [OF this sample_memory_ok, of "[97]"] show ?thesis using a by auto
qed

text \<open>
  C11: Copying a UNIX file into the file system and printing it returns the file, byte for
  byte, in transfers of 128 bytes over unaligned sectors; every other file is left as it was. The copy
  fails, with no change, exactly when there is no room for the file or the name is taken. The UNIX file has at most the 3840 bytes
  that a header can address; for a longer one \<^verbatim>\<open>Create\<close> runs over the table of the header, as \<open>File_Store\<close> shows.
\<close>

theorem copy_print_roundtrip:
  assumes "fs_inv fs s m t" and "\<forall>i. mem_ok (Js i)" and "int (length unix) \<le> NumDirect * SectorSize"
  shows "\<exists>s1 s2. Copy Js bufs fs s (Some unix) name = Inr (fs_room m t name (int (length unix)), s1)
    \<and> (if fs_room m t name (int (length unix))
       then fs_abs fs s1 ((fs_files s t)(fkey name \<mapsto> unix)) \<and> Print (Js 2) fs s1 name = Inr (Some unix, s2)
       else fs_abs fs s1 (fs_files s t))"
proof -
  let ?b = "fs_room m t name (int (length unix))"
  obtain s1 m1 t1 where c: "Copy Js bufs fs s (Some unix) name = Inr (?b, s1)" "fs_inv fs s1 m1 t1"
    "fs_files s1 t1 = (if ?b then (fs_files s t)(fkey name \<mapsto> unix) else fs_files s t)"
    using Copy_ok [OF assms] by blast
  have "\<exists>s2. Print (Js 2) fs s1 name = Inr (fs_files s1 t1 (fkey name), s2)"
    using Print_ok [OF c(2) assms(2) [rule_format, of 2]] by blast
  then show ?thesis using c(1) fs_absI [OF c(2)] unfolding c(3) by (auto split: if_splits)
qed

theorem copy_print_roundtrip_witness:
  "\<exists>fs s m t b s1. fs_inv fs s m t \<and> Copy (\<lambda>_. sample_memory) (\<lambda>_ _. 9) fs s (Some (replicate 200 65)) [97] = Inr (b, s1)"
proof -
  obtain fs s m t where inv: "fs_inv fs s m t" using fs_abs_exists by (auto simp: fs_abs_def)
  have "int (length (replicate 200 (65 :: byte))) \<le> NumDirect * SectorSize" by (simp add: NumDirect_30 disk_consts)
  from copy_print_roundtrip [OF inv _ this, of "\<lambda>_. sample_memory"] show ?thesis using inv sample_memory_ok by blast
qed

text \<open>
  C13: A sequence of requests to create files of at most 3840 bytes each, the size that a header can address, and to remove
  files never runs into an assertion, an access outside an array or a wait that does not end; it answers each request, keeps the disk
  consistent, and leaves every file whose name it does not mention as it was. (A request for a larger file runs over the table of the
  header, as \<open>File_Store\<close> shows.)
\<close>

theorem file_system_session:
  assumes "fs_abs fs s F" and "mem_ok J" and "\<forall>c \<in> set cs. command_ok (NumDirect * SectorSize) c"
  shows "\<exists>bs s' F'. run_session (fs_Create J fs) (fs_Remove J fs) s cs = Inr (bs, s') \<and> length bs = length cs
    \<and> fs_abs fs s' F' \<and> (\<forall>k. k \<notin> fkey ` command_name ` set cs \<longrightarrow> F' k = F k)"
  using nf.session_frame [OF conjI [OF assms(2,1)] assms(3)] by blast

theorem file_system_session_witness:
  "\<exists>fs s bs s'. fs_abs fs s Map.empty
    \<and> run_session (fs_Create sample_memory fs) (fs_Remove sample_memory fs) s [CreateFile [97] 300, RemoveFile [98]] = Inr (bs, s')"
proof -
  obtain fs s where a: "fs_abs fs s Map.empty" using fs_abs_exists by blast
  have "\<forall>c \<in> set [CreateFile [97] 300, RemoveFile [98]]. command_ok (NumDirect * SectorSize) c"
    by (simp add: NumDirect_30 disk_consts)
  from file_system_session [OF a sample_memory_ok this] show ?thesis using a by blast
qed

end
