(* ===== verification/Virtual_Memory.thy ===== *)
theory Virtual_Memory
  imports Address_Translation
begin

text \<open>
  Swapping in \<^verbatim>\<open>pageTableTranslation\<close> of \<^verbatim>\<open>machine/translate.cc\<close>, with linear page tables: a page whose frame
  was given to another page of the same address space is exchanged with it through the swap file. The
  contents of every page, wherever it is, are the same before and after. The theory also has the theorems about
  address translation.
\<close>

section \<open>The pages of an address space\<close>

definition frame_bytes :: "byte list \<Rightarrow> int \<Rightarrow> byte list" where
  "frame_bytes memory f = take 128 (drop (nat (f * PageSize)) memory)"

definition page_in_file :: "byte list \<Rightarrow> nat \<Rightarrow> byte list" where
  "page_in_file file j = take 128 (drop (128 * j) file)"

definition page_bytes :: "byte list \<Rightarrow> byte list \<Rightarrow> tentry list \<Rightarrow> nat \<Rightarrow> byte list" where
  "page_bytes memory file t j =
     (if te_valid (t ! j) then frame_bytes memory (te_ppn (t ! j)) else page_in_file file j)"

text \<open>A page that has been loaded: it is in its frame or in the swap file.\<close>

definition loaded :: "tentry list \<Rightarrow> nat \<Rightarrow> bool" where
  "loaded t j \<longleftrightarrow> te_valid (t ! j) \<or> te_ppn (t ! j) \<noteq> - 1"

definition swap_inv :: "machine \<Rightarrow> tentry list \<Rightarrow> byte list \<Rightarrow> bool" where
  "swap_inv m t file \<longleftrightarrow> pt m = Some t \<and> m_vmFile m = Some file \<and> int (length t) = pageTableSize m
     \<and> length (mainMemory m) = nat MemorySize
     \<and> (\<forall>j < length t. loaded t j \<longrightarrow> 0 \<le> te_ppn (t ! j) \<and> te_ppn (t ! j) < NumPhysPages)
     \<and> (\<forall>i < length t. \<forall>j < length t. te_valid (t ! i) \<and> te_valid (t ! j) \<and> te_ppn (t ! i) = te_ppn (t ! j) \<longrightarrow> i = j)
     \<and> (\<forall>j < length t. \<not> te_valid (t ! j) \<and> te_ppn (t ! j) \<noteq> - 1 \<longrightarrow> 128 * (j + 1) \<le> length file)"

lemma evict_loop_find:
  assumes len: "int (length t) = pageTableSize m" and "j \<le> length t"
  shows "evict_loop m t exec ppn (int j) =
    (case List.find (\<lambda>k. te_valid (t ! k) \<and> te_ppn (t ! k) = ppn) [j..<length t] of
       None \<Rightarrow> Inr (t, exec)
     | Some k \<Rightarrow> rbind (bcopy_from (mainMemory m) (ppn * PageSize) PageSize) (\<lambda>bs.
         rbind (stub_WriteAt exec bs (int k * PageSize)) (\<lambda>exec. Inr (t[k := (t ! k)\<lparr>te_valid := False\<rparr>], exec))))"
  using assms(2)
proof (induction "length t - j" arbitrary: j)
  case 0
  then show ?case using len by (subst evict_loop.simps) simp
next
  case (Suc n)
  have "[j..<length t] = j # [Suc j..<length t]" using Suc by (simp add: upt_conv_Cons)
  moreover have "evict_loop m t exec ppn (int j + 1) = evict_loop m t exec ppn (int (Suc j))" by (simp add: add.commute)
  moreover have "int j < pageTableSize m" "j < length t" using Suc len by auto
  ultimately show ?case
    using Suc.hyps(1) [of "Suc j"] Suc.hyps(2) Suc.prems by (subst evict_loop.simps) (simp add: PageSize_def)
qed

definition file_store :: "byte list \<Rightarrow> nat \<Rightarrow> byte list \<Rightarrow> byte list" where
  "file_store d p bs = take p d @ replicate (p - length d) 0 @ bs @ drop (p + length bs) d"

lemma stub_WriteAt_eq: "0 \<le> p \<Longrightarrow> bs \<noteq> [] \<Longrightarrow> stub_WriteAt d bs p = Inr (file_store d (nat p) bs)"
  by (simp add: stub_WriteAt_def uf_Lseek_def uf_WriteFile_def file_store_def Let_def)

lemma length_page_in_file: "128 * (j + 1) \<le> length d \<Longrightarrow> length (page_in_file d j) = 128"
  by (simp add: page_in_file_def)

lemma file_store_page:
  assumes "length bs = 128"
  shows "page_in_file (file_store d (128 * k) bs) k = bs"
    and "j \<noteq> k \<Longrightarrow> 128 * (j + 1) \<le> length d \<Longrightarrow> page_in_file (file_store d (128 * k) bs) j = page_in_file d j"
    and "128 * (k + 1) \<le> length (file_store d (128 * k) bs)" and "length d \<le> length (file_store d (128 * k) bs)"
proof -
  have pre: "length (take (128 * k) d @ replicate (128 * k - length d) 0) = 128 * k" by simp
  have e: "file_store d (128 * k) bs = (take (128 * k) d @ replicate (128 * k - length d) 0) @ bs @ drop (128 * k + 128) d"
    using assms by (simp add: file_store_def)
  show "page_in_file (file_store d (128 * k) bs) k = bs"
    unfolding page_in_file_def e using assms by (simp add: pre)
  show "128 * (k + 1) \<le> length (file_store d (128 * k) bs)" and ld: "length d \<le> length (file_store d (128 * k) bs)"
    using assms by (auto simp: file_store_def)
  assume j: "j \<noteq> k" "128 * (j + 1) \<le> length d"
  show "page_in_file (file_store d (128 * k) bs) j = page_in_file d j"
  proof (rule nth_equalityI)
    show "length (page_in_file (file_store d (128 * k) bs) j) = length (page_in_file d j)"
      using j(2) ld by (simp add: length_page_in_file)
    fix i assume "i < length (page_in_file (file_store d (128 * k) bs) j)"
    then have i: "i < 128" by (simp add: page_in_file_def)
    consider "j < k" | "k < j" using j(1) by linarith
    then have "file_store d (128 * k) bs ! (128 * j + i) = d ! (128 * j + i)"
      using i j(2) assms by cases (auto simp: file_store_def nth_append)
    then show "page_in_file (file_store d (128 * k) bs) j ! i = page_in_file d j ! i"
      using i j(2) ld by (simp add: page_in_file_def)
  qed
qed

text \<open>Loading a page into a frame leaves the other frames.\<close>

lemma frame_load:
  assumes "length memory = nat MemorySize" "length bs = 128" "0 \<le> f" "f < NumPhysPages"
  shows "frame_bytes (overlay memory (nat (f * PageSize)) bs) f = bs"
    and "length (overlay memory (nat (f * PageSize)) bs) = length memory"
    and "0 \<le> g \<Longrightarrow> g < NumPhysPages \<Longrightarrow> g \<noteq> f \<Longrightarrow> frame_bytes (overlay memory (nat (f * PageSize)) bs) g = frame_bytes memory g"
proof -
  obtain n where n: "f = int n" "n < 128" using assms(3,4) by (auto simp: machine_consts elim: nonneg_int_cases)
  have len: "length memory = 16384" using assms(1) by (simp add: machine_consts)
  have p: "nat (f * PageSize) = 128 * n" by (simp add: n PageSize_def nat_mult_distrib)
  show "frame_bytes (overlay memory (nat (f * PageSize)) bs) f = bs"
    unfolding frame_bytes_def p using n len assms(2) by (simp add: overlay_def)
  show ln: "length (overlay memory (nat (f * PageSize)) bs) = length memory"
    unfolding p using n len assms(2) by (simp add: overlay_def)
  assume g: "0 \<le> g" "g < NumPhysPages" "g \<noteq> f"
  then obtain k where k: "g = int k" "k < 128" by (auto simp: machine_consts elim: nonneg_int_cases)
  have q: "nat (g * PageSize) = 128 * k" by (simp add: k PageSize_def nat_mult_distrib)
  show "frame_bytes (overlay memory (nat (f * PageSize)) bs) g = frame_bytes memory g"
  proof (rule nth_equalityI)
    show "length (frame_bytes (overlay memory (nat (f * PageSize)) bs) g) = length (frame_bytes memory g)"
      by (simp add: frame_bytes_def ln)
    fix i assume "i < length (frame_bytes (overlay memory (nat (f * PageSize)) bs) g)"
    then have i: "i < 128" by (simp add: frame_bytes_def)
    have "n \<noteq> k" using g(3) n(1) k(1) by simp
    then have "\<not> (128 * n \<le> 128 * k + i \<and> 128 * k + i < 128 * n + 128)" using i by linarith
    then have "overlay memory (128 * n) bs ! (128 * k + i) = memory ! (128 * k + i)"
      using i k(2) n(2) len assms(2) by (subst overlay_nth) auto
    then show "frame_bytes (overlay memory (nat (f * PageSize)) bs) g ! i = frame_bytes memory g ! i"
      unfolding frame_bytes_def p q using i k(2) len ln unfolding p by simp
  qed
qed

lemma stub_ReadAt_page: "stub_ReadAt d (nat PageSize) (int j * PageSize) = Inr (page_in_file d j)"
  by (simp add: stub_ReadAt_def uf_Lseek_def page_in_file_def PageSize_def nat_mult_distrib mult.commute)

text \<open>The eviction: the page in the frame, if any, goes to the file.\<close>

lemma evict_ok:
  assumes inv: "swap_inv m t file" and v: "v < length t" "\<not> te_valid (t ! v)" "te_ppn (t ! v) \<noteq> - 1"
  defines "ppn \<equiv> te_ppn (t ! v)"
  shows "\<exists>t' file'. evict_loop m t file ppn 0 = Inr (t', file') \<and> length t' = length t \<and> t' ! v = t ! v
    \<and> (\<forall>j < length t. te_ppn (t' ! j) = te_ppn (t ! j) \<and> (te_valid (t' ! j) \<longleftrightarrow> te_valid (t ! j) \<and> te_ppn (t ! j) \<noteq> ppn))
    \<and> (\<forall>j < length t. loaded t j \<longrightarrow> page_bytes (mainMemory m) file' t' j = page_bytes (mainMemory m) file t j)
    \<and> (\<forall>j < length t. \<not> te_valid (t' ! j) \<and> te_ppn (t' ! j) \<noteq> - 1 \<longrightarrow> 128 * (j + 1) \<le> length file')"
proof -
  have i: "int (length t) = pageTableSize m" "length (mainMemory m) = nat MemorySize"
    "\<forall>j < length t. loaded t j \<longrightarrow> 0 \<le> te_ppn (t ! j) \<and> te_ppn (t ! j) < NumPhysPages"
    "\<forall>i < length t. \<forall>j < length t. te_valid (t ! i) \<and> te_valid (t ! j) \<and> te_ppn (t ! i) = te_ppn (t ! j) \<longrightarrow> i = j"
    "\<forall>j < length t. \<not> te_valid (t ! j) \<and> te_ppn (t ! j) \<noteq> - 1 \<longrightarrow> 128 * (j + 1) \<le> length file"
    using inv by (auto simp: swap_inv_def)
  have p: "0 \<le> ppn" "ppn < NumPhysPages" using i(3) v by (auto simp: loaded_def ppn_def)
  let ?P = "\<lambda>k. te_valid (t ! k) \<and> te_ppn (t ! k) = ppn"
  note loop = evict_loop_find [OF i(1), of 0, where exec = "file" and ppn = ppn, simplified]
  show ?thesis
  proof (cases "List.find ?P [0..<length t]")
    case None
    then have "\<forall>j < length t. \<not> ?P j" by (auto simp: find_None_iff)
    then show ?thesis using loop None i(5) by (intro exI [of _ t] exI [of _ "file"]) auto
  next
    case (Some k)
    then have k: "k < length t" "te_valid (t ! k)" "te_ppn (t ! k) = ppn" by (auto simp: find_Some_iff)
    have kv: "k \<noteq> v" using k(2) v(2) by auto
    let ?bs = "frame_bytes (mainMemory m) ppn"
    let ?t = "t[k := (t ! k)\<lparr>te_valid := False\<rparr>]" and ?file = "file_store file (128 * k) ?bs"
    have bl: "length ?bs = 128" using p i(2) by (auto simp: frame_bytes_def machine_consts)
    have "bcopy_from (mainMemory m) (ppn * PageSize) PageSize = Inr ?bs"
      using p i(2) by (auto simp: bcopy_from_def frame_bytes_def machine_consts)
    moreover have "stub_WriteAt file ?bs (int k * PageSize) = Inr ?file"
      using bl by (subst stub_WriteAt_eq) (auto simp: PageSize_def nat_mult_distrib mult.commute)
    ultimately have run: "evict_loop m t file ppn 0 = Inr (?t, ?file)" using loop Some by simp
    note fs = file_store_page [OF bl, where d = "file" and k = k]
    have only: "?P j \<Longrightarrow> j < length t \<Longrightarrow> j = k" for j using i(4) k by auto
    have pages: "page_bytes (mainMemory m) ?file ?t j = page_bytes (mainMemory m) file t j" if "j < length t" "loaded t j" for j
    proof (cases "j = k")
      case True
      then show ?thesis using k fs(1) by (simp add: page_bytes_def)
    next
      case False
      then show ?thesis using fs(2) [of j] i(5) that by (auto simp: page_bytes_def loaded_def)
    qed
    have room: "128 * (j + 1) \<le> length ?file" if "j < length t" "\<not> te_valid (?t ! j)" "te_ppn (?t ! j) \<noteq> - 1" for j
    proof (cases "j = k")
      case True
      then show ?thesis using fs(3) by simp
    next
      case False
      then show ?thesis using that i(5) fs(4) order_trans by (auto 0 3)
    qed
    have "te_ppn (?t ! j) = te_ppn (t ! j) \<and> (te_valid (?t ! j) \<longleftrightarrow> te_valid (t ! j) \<and> te_ppn (t ! j) \<noteq> ppn)" if "j < length t" for j
      using only [of j] that k by (cases "j = k") auto
    then show ?thesis using run pages room kv by (intro exI [of _ ?t] exI [of _ ?file]) auto
  qed
qed

lemma swap_in_ok:
  assumes inv: "swap_inv m t file" and v: "v < length t" "\<not> te_valid (t ! v)" "te_ppn (t ! v) \<noteq> - 1"
  shows "\<exists>m' t' file'. swap_in m t (int v) (t ! v) = Inr (t', m') \<and> swap_inv m' t' file' \<and> length t' = length t
    \<and> t' ! v = (t ! v)\<lparr>te_valid := True\<rparr> \<and> registers m' = registers m
    \<and> (\<forall>j < length t. loaded t j \<longrightarrow> loaded t' j \<and> page_bytes (mainMemory m') file' t' j = page_bytes (mainMemory m) file t j)"
proof -
  have i: "m_vmFile m = Some file" "length (mainMemory m) = nat MemorySize" "int (length t) = pageTableSize m"
    "\<forall>j < length t. loaded t j \<longrightarrow> 0 \<le> te_ppn (t ! j) \<and> te_ppn (t ! j) < NumPhysPages"
    "\<forall>i < length t. \<forall>j < length t. te_valid (t ! i) \<and> te_valid (t ! j) \<and> te_ppn (t ! i) = te_ppn (t ! j) \<longrightarrow> i = j"
    using inv by (auto simp: swap_inv_def)
  let ?p = "te_ppn (t ! v)"
  have p: "0 \<le> ?p" "?p < NumPhysPages" using i(4) v by (auto simp: loaded_def)
  obtain t1 file1 where e: "evict_loop m t file ?p 0 = Inr (t1, file1)" "length t1 = length t" "t1 ! v = t ! v"
    "\<forall>j < length t. te_ppn (t1 ! j) = te_ppn (t ! j) \<and> (te_valid (t1 ! j) \<longleftrightarrow> te_valid (t ! j) \<and> te_ppn (t ! j) \<noteq> ?p)"
    "\<forall>j < length t. loaded t j \<longrightarrow> page_bytes (mainMemory m) file1 t1 j = page_bytes (mainMemory m) file t j"
    "\<forall>j < length t. \<not> te_valid (t1 ! j) \<and> te_ppn (t1 ! j) \<noteq> - 1 \<longrightarrow> 128 * (j + 1) \<le> length file1"
    using evict_ok [OF inv v] by blast
  let ?t = "t1[v := (t ! v)\<lparr>te_valid := True\<rparr>]" and ?bs = "page_in_file file1 v"
  let ?mem = "overlay (mainMemory m) (nat (?p * PageSize)) ?bs"
  let ?m = "m\<lparr>mainMemory := ?mem, pt := Some ?t, m_vmFile := Some file1\<rparr>"
  have bl: "length ?bs = 128" using e(3,6) v by (intro length_page_in_file) auto
  note fl = frame_load [OF i(2) bl p]
  have "bcopy_to (mainMemory m) (?p * PageSize) ?bs = Inr ?mem"
    using p bl i(2) by (auto simp: bcopy_to_def machine_consts)
  then have run: "swap_in m t (int v) (t ! v) = Inr (?t, ?m)"
    using i(1) e(1-3) v(1) by (simp add: swap_in_def stub_ReadAt_page)
  have at: "?t ! j = (if j = v then (t ! v)\<lparr>te_valid := True\<rparr> else t1 ! j)" if "j < length t" for j
    using that e(2) v(1) by simp
  have ppn: "te_ppn (?t ! j) = te_ppn (t ! j)" if "j < length t" for j
    using at [OF that] e(4) that by simp
  have val: "te_valid (?t ! j) \<longleftrightarrow> j = v \<or> te_valid (t ! j) \<and> te_ppn (t ! j) \<noteq> ?p" if "j < length t" for j
    using at [OF that] e(4) that by simp
  have ld: "loaded ?t j = loaded t j" if "j < length t" for j
    using at [OF that] e(4) that v i(4) by (auto simp: loaded_def)
  have pages: "page_bytes ?mem file1 ?t j = page_bytes (mainMemory m) file t j" if "j < length t" "loaded t j" for j
  proof (cases "j = v")
    case True
    have "page_bytes (mainMemory m) file1 t1 v = ?bs" using e(3) v(2) by (simp add: page_bytes_def)
    then show ?thesis using True fl(1) at [OF v(1)] e(5) v(1) that(2) by (simp add: page_bytes_def)
  next
    case False
    have "page_bytes ?mem file1 ?t j = page_bytes (mainMemory m) file1 t1 j"
      using at [OF that(1)] False e(4) that i(4) fl(3) [of "te_ppn (t ! j)"] by (simp add: page_bytes_def)
    then show ?thesis using e(5) that by simp
  qed
  have "swap_inv ?m ?t file1"
    unfolding swap_inv_def
  proof (intro conjI)
    show "\<forall>j < length ?t. loaded ?t j \<longrightarrow> 0 \<le> te_ppn (?t ! j) \<and> te_ppn (?t ! j) < NumPhysPages"
      unfolding length_list_update e(2) using ld ppn i(4) by simp
    show "\<forall>i < length ?t. \<forall>j < length ?t. te_valid (?t ! i) \<and> te_valid (?t ! j) \<and> te_ppn (?t ! i) = te_ppn (?t ! j) \<longrightarrow> i = j"
      unfolding length_list_update e(2) using val ppn i(5) by simp metis
    show "\<forall>j < length ?t. \<not> te_valid (?t ! j) \<and> te_ppn (?t ! j) \<noteq> - 1 \<longrightarrow> 128 * (j + 1) \<le> length file1"
      unfolding length_list_update e(2) using at e(6) by simp
  qed (use i(2,3) e(2) fl(2) in auto)
  then show ?thesis using run ld pages at [OF v(1)] e(2) by (intro exI [of _ ?m] exI [of _ ?t] exI [of _ file1]) auto
qed

section \<open>What translation guarantees\<close>

lemma short_bytes: "ucast (un_le16 (le16 (ucast (w :: u32)))) = w AND 0xffff"
proof -
  have m: "(0xffff :: u32) = mask 16" by (simp add: mask_eq_exp_minus_1)
  show ?thesis unfolding m by (rule bit_word_eqI) (auto simp: bit_simps le16_def)
qed

text \<open>
  C16: For every well-formed machine, in every configuration, \<^verbatim>\<open>Translate\<close> of a non-negative virtual address in a page that is not swapped out
  computes the mapping that the tables define: it raises the address error for a misaligned access, the TLB miss, page
  fault or address error for an unmapped page, the read-only error for a store to a read-only page, the bus error for a frame outside
  memory, and otherwise returns the address with the same offset in the frame of the page, always inside that
  frame. Registers, memory and the mapping are left as they are. An access to the
  last three bytes of memory fails the assertion at the end of \<^verbatim>\<open>Translate\<close>. (A page is swapped out when there is no TLB and its entry in
  the linear table is not valid but has a frame; \<^verbatim>\<open>Translate\<close> then brings it back, which changes memory and the mapping.)
\<close>

theorem translate_computes_view:
  assumes "machine_wf c m" and "0 \<le> va" and "\<not> swapped c m (va div PageSize)"
  shows "\<exists>m'. view c m' = view c m \<and> machine_wf c m' \<and> mainMemory m' = mainMemory m \<and> registers m' = registers m
    \<and> Translate c m va sz writing =
      (if misaligned va sz then Inr (Inl AddressErrorException, m')
       else case view c m (va div PageSize) of
         None \<Rightarrow> Inr (Inl (fault c m (va div PageSize)), m')
       | Some (f, ro) \<Rightarrow>
           if ro \<and> writing then Inr (Inl ReadOnlyException, m')
           else if f \<ge> NumPhysPages \<or> f < 0 then Inr (Inl BusErrorException, m')
           else let pa = f * PageSize + va mod PageSize in
             if pa + 4 \<le> MemorySize \<and> pa div PageSize = f then Inr (Inr pa, m') else Inl AssertFailed)"
proof -
  have d: "cdiv va PageSize = va div PageSize" "cmod va PageSize = va mod PageSize" using assms(2) by (simp_all add: PageSize_def)
  have "0 \<le> va div PageSize" using assms(2) by (simp add: PageSize_def pos_imp_zdiv_nonneg_iff)
  then have "translates m (xlate c m va sz writing) (Translate c m va sz writing)"
    using Translate_ok [OF assms(1), of va sz writing] assms(3) d by auto
  then obtain m' where m': "same_but_flags m m'" "Translate c m va sz writing = (case xlate c m va sz writing of
      Inl e \<Rightarrow> Inr (Inl e, m') | Inr pa \<Rightarrow> if 0 \<le> pa \<and> pa + 4 \<le> MemorySize then Inr (Inr pa, m') else Inl AssertFailed)"
    unfolding translates_def by blast
  have inframe: "0 \<le> f * PageSize + va mod PageSize \<and> (f * PageSize + va mod PageSize) div PageSize = f" if "\<not> f < 0" for f
    using that by (simp add: PageSize_def)
  show ?thesis
    using m' view_same [OF m'(1)] wf_same [OF m'(1) assms(1)] same_fields(1,2) [OF m'(1)] inframe
    by (intro exI [of _ m']) (auto simp: xlate_def d Let_def split: option.splits prod.splits)
qed

text \<open>
  A machine for the examples: the inverted page table maps page \<open>i\<close> of thread 0 to frame \<open>i\<close>, except
  that pages 0 and 1 are exchanged.
\<close>

definition sample_pt :: "tentry list" where
  "sample_pt = map (\<lambda>j. sample_entry (if j = 0 then 1 else if j = 1 then 0 else int j)) [0..<nat NumPhysPages]"

definition sample_machine :: machine where
  "sample_machine = \<lparr>registers = replicate NumTotalRegs 0, mainMemory = replicate (nat MemorySize) 0,
     tlb = None, pt = Some sample_pt, mmBitmap = \<lparr>numBits = 0, numWords = 0, bmap = []\<rparr>, pageTableSize = 0,
     singleStep = False, m_stats = Statistics 0, m_status = UserMode, m_tID = 0, m_vmFile = None,
     currentOpenedFile = None, currentNoffHeader = zero_header, m_control = InProgram\<rparr>"

definition rpt_config :: config where
  "rpt_config = \<lparr>USE_TLB = False, USE_RPT = True, FIFO_REPLACE = False, LRU_REPLACE = True\<rparr>"

lemma sample_pt_length [simp]: "length sample_pt = 128"
  by (simp only: sample_pt_def length_map length_upt) (simp add: NumPhysPages_def)

lemma sample_pt_nth:
  "j < 128 \<Longrightarrow> sample_pt ! j = sample_entry (if j = 0 then 1 else if j = 1 then 0 else int j)"
  using sample_pt_length by (simp add: sample_pt_def NumPhysPages_def del: upt_rec_numeral sample_pt_length)

lemma sample_wf: "machine_wf rpt_config sample_machine"
  by (simp add: machine_wf_def sample_machine_def rpt_config_def machine_consts)

lemma sample_view_0: "view rpt_config sample_machine 0 = Some (1, False)"
proof -
  have "List.find (\<lambda>j. te_vpn (sample_pt ! j) = 0 \<and> te_tID (sample_pt ! j) = 0) [0..<length sample_pt] = Some 1"
    unfolding find_Some_iff by (intro exI [of _ 1]) (simp add: sample_pt_nth sample_entry_def del: upt_rec_numeral)
  then show ?thesis
    by (simp add: view_def sample_machine_def rpt_config_def sample_pt_nth sample_entry_def del: upt_rec_numeral)
qed

lemma sample_view:
  assumes "view rpt_config sample_machine vpn = Some (f, r)"
  shows "vpn = (if f = 0 then 1 else if f = 1 then 0 else f)"
proof -
  obtain j where j: "List.find (\<lambda>j. te_vpn (sample_pt ! j) = vpn \<and> te_tID (sample_pt ! j) = 0) [0..<length sample_pt] = Some j" "f = int j"
    using assms by (auto simp: view_def sample_machine_def rpt_config_def simp del: upt_rec_numeral)
  then have "j < 128" "te_vpn (sample_pt ! j) = vpn" unfolding find_Some_iff by (auto simp del: upt_rec_numeral)
  then show ?thesis using j(2) by (auto simp: sample_pt_nth sample_entry_def)
qed

lemma sample_vm_ok: "vm_ok rpt_config sample_machine"
  unfolding vm_ok_def no_alias_def
proof (intro conjI allI impI)
  fix p q f r r'
  assume "view rpt_config sample_machine p = Some (f, r) \<and> view rpt_config sample_machine q = Some (f, r')"
  then show "p = q" using sample_view [of p f r] sample_view [of q f r'] by simp
qed (rule sample_wf)

theorem translate_computes_view_witness:
  "\<exists>m'. Translate rpt_config sample_machine 4 4 True = Inr (Inr 132, m')"
proof -
  have "\<not> swapped rpt_config sample_machine (4 div PageSize)" by (simp add: swapped_def rpt_config_def)
  from translate_computes_view [OF sample_wf _ this, of 4 True] show ?thesis
    using sample_view_0 by (auto simp: machine_consts misaligned_def Let_def)
qed

text \<open>
  C17: Memory behaves as memory. After \<^verbatim>\<open>WriteMem\<close> of one, two or four bytes to a writable page, \<^verbatim>\<open>ReadMem\<close>
  of the same address and size returns the value (its low 16 bits for a half word, its low byte
  sign-extended for a byte), and no other byte of the address space has changed.
\<close>

theorem memory_read_after_write:
  assumes "vm_ok c m" and "access_size sz" "sint a mod sz = 0" "0 \<le> sint a"
    and "view c m (sint a div PageSize) = Some (f, False)" "0 \<le> f" "f < NumPhysPages"
    and "f * PageSize + sint a mod PageSize + 4 \<le> MemorySize"
  shows "\<exists>m1 m2. WriteMem c h m a sz w = Inr (True, m1)
    \<and> ReadMem c h m1 a sz = Inr (Some (if sz = 4 then w else if sz = 2 then w AND 0xffff else scast (ucast w :: byte)), m2)
    \<and> (\<forall>x. \<not> (sint a \<le> x \<and> x < sint a + sz) \<longrightarrow> vbyte c m2 x = vbyte c m x)"
proof -
  obtain m1 where m1: "WriteMem c h m a sz w = Inr (True, m1)" "vm_ok c m1" "view c m1 = view c m"
    "vbyte c m1 = (\<lambda>x. if sint a \<le> x \<and> x < sint a + sz then Some (bytes_of sz w ! nat (x - sint a)) else vbyte c m x)"
    using WriteMem_ok [OF assms, where h = h and w = w] by blast
  have wf: "machine_wf c m1" using m1(2) by (simp add: vm_ok_def)
  obtain m2 bs where m2: "ReadMem c h m1 a sz = Inr (Some (value_of sz bs), m2)" "same_but_flags m1 m2" "int (length bs) = sz"
    "\<forall>i < length bs. vbyte c m1 (sint a + int i) = Some (bs ! i)"
    using ReadMem_ok [OF wf assms(2-4) assms(5) [folded m1(3)] assms(6-8), where h = h] by blast
  have "bs = bytes_of sz w"
    by (rule nth_equalityI) (use m1(4) m2(3,4) length_bytes_of [OF assms(2), of w] in auto)
  then have "value_of sz bs = (if sz = 4 then w else if sz = 2 then w AND 0xffff else scast (ucast w :: byte))"
    using assms(2) short_bytes [of w] by (auto simp: access_size_def value_of_def bytes_of_def)
  then show ?thesis using m1(1,4) m2(1) vm_same(1) [OF m2(2)] by auto
qed

theorem memory_read_after_write_witness:
  "\<forall>h. \<exists>m1 m2. WriteMem rpt_config h sample_machine 6 2 0x12345678 = Inr (True, m1)
    \<and> ReadMem rpt_config h m1 6 2 = Inr (Some 0x5678, m2)"
proof
  fix h
  have v: "view rpt_config sample_machine (sint (6 :: u32) div PageSize) = Some (1, False)"
    using sample_view_0 by (simp add: PageSize_def)
  have "\<exists>m1 m2. WriteMem rpt_config h sample_machine 6 2 0x12345678 = Inr (True, m1)
    \<and> ReadMem rpt_config h m1 6 2 = Inr (Some (0x12345678 AND 0xffff), m2)"
    using memory_read_after_write [OF sample_vm_ok _ _ _ v, of 2 h "0x12345678"]
    by (auto simp: access_size_def machine_consts)
  then show "\<exists>m1 m2. WriteMem rpt_config h sample_machine 6 2 0x12345678 = Inr (True, m1)
    \<and> ReadMem rpt_config h m1 6 2 = Inr (Some 0x5678, m2)"
    by simp
qed

text \<open>
  Negative addresses escape the address space. The page number and the offset are computed
  with C's truncating division of the signed address, so an address between -127 and -1 belongs to page 0 with a
  negative offset: \<^verbatim>\<open>Translate\<close> accepts it and returns an address in the frame before the one of page 0, which may
  belong to another program.
\<close>

theorem negative_address_escapes:
  assumes "machine_wf c m" and "view c m 0 = Some (f, False)" and "1 \<le> f" "f < NumPhysPages"
    and "- PageSize < va" "va < 0" "va mod 4 = 0"
  shows "\<exists>m'. Translate c m va 4 writing = Inr (Inr (f * PageSize + va), m') \<and> (f * PageSize + va) div PageSize = f - 1"
proof -
  have d: "cdiv va PageSize = 0" "cmod va PageSize = va"
    using assms(5,6) by (simp_all add: cmod_def cdiv_neg PageSize_def)
  have "translates m (xlate c m va 4 writing) (Translate c m va 4 writing)"
    by (rule Translate_ok [OF assms(1)]) (use assms(2) mapped_not_swapped [of c m 0] d in auto)
  moreover have "xlate c m va 4 writing = Inr (f * PageSize + va)"
    using assms(2-4,7) d by (simp add: xlate_def misaligned_def)
  moreover have "0 \<le> f * PageSize + va" "f * PageSize + va + 4 \<le> MemorySize" "(f * PageSize + va) div PageSize = f - 1"
    using assms(3-7) by (simp_all add: machine_consts)
  ultimately show ?thesis by (auto simp: translates_def)
qed

theorem negative_address_escapes_witness:
  "\<exists>m'. Translate rpt_config sample_machine (- 8) 4 True = Inr (Inr 120, m') \<and> (120 :: int) div PageSize = 0"
  using negative_address_escapes [OF sample_wf sample_view_0, of "- 8" True] by (auto simp: machine_consts)

text \<open>
  C5: Swapping preserves the program's memory. When a page is not in memory but its old frame is known,
  \<^verbatim>\<open>pageTableTranslation\<close> writes the page that now occupies the frame to the swap file and reads the wanted page
  into the frame. Afterwards the wanted page is valid, every loaded page still has the contents it had, wherever it
  now is, no two valid pages share a frame, and every page that is not in memory is in the file.
\<close>

theorem swapping_preserves_pages:
  assumes "swap_inv m t file" and "\<not> USE_RPT c" and "v < length t" "\<not> te_valid (t ! v)" "te_ppn (t ! v) \<noteq> - 1"
  shows "\<exists>m' t' file'. pageTableTranslation c m (int v) = Inr (Inr (te_ppn (t ! v), t' ! v), m') \<and> te_valid (t' ! v)
    \<and> swap_inv m' t' file' \<and> length t' = length t \<and> registers m' = registers m
    \<and> (\<forall>j < length t. loaded t j \<longrightarrow> loaded t' j \<and> page_bytes (mainMemory m') file' t' j = page_bytes (mainMemory m) file t j)"
proof -
  obtain m' t' file' where s: "swap_in m t (int v) (t ! v) = Inr (t', m')" "swap_inv m' t' file'" "length t' = length t"
    "t' ! v = (t ! v)\<lparr>te_valid := True\<rparr>" "registers m' = registers m"
    "\<forall>j < length t. loaded t j \<longrightarrow> loaded t' j \<and> page_bytes (mainMemory m') file' t' j = page_bytes (mainMemory m) file t j"
    using swap_in_ok [OF assms(1,3-5)] by blast
  have "pageTableTranslation c m (int v) = Inr (Inr (te_ppn (t ! v), t' ! v), m')"
    using assms s(1,3,4) by (auto simp: pageTableTranslation_def swap_inv_def)
  then show ?thesis using s by (intro exI [of _ m'] exI [of _ t'] exI [of _ file']) auto
qed

definition swap_sample_pt :: "tentry list" where
  "swap_sample_pt = [(sample_entry 0)\<lparr>te_valid := False, te_ppn := 3\<rparr>, (sample_entry 1)\<lparr>te_ppn := 3\<rparr>]"

definition swap_sample :: machine where
  "swap_sample = sample_machine\<lparr>pt := Some swap_sample_pt, pageTableSize := 2, m_vmFile := Some (replicate 128 7)\<rparr>"

definition linear_config :: config where
  "linear_config = \<lparr>USE_TLB = False, USE_RPT = False, FIFO_REPLACE = True, LRU_REPLACE = False\<rparr>"

theorem swapping_preserves_pages_witness:
  "\<exists>m' e. pageTableTranslation linear_config swap_sample 0 = Inr (Inr (3, e), m') \<and> te_valid e"
proof -
  have "swap_inv swap_sample swap_sample_pt (replicate 128 7)"
    by (auto simp: swap_inv_def swap_sample_def swap_sample_pt_def sample_machine_def sample_entry_def machine_consts loaded_def
      less_Suc_eq numeral_2_eq_2)
  from swapping_preserves_pages [OF this, of linear_config 0] show ?thesis
    by (auto simp: linear_config_def swap_sample_pt_def)
qed

end
