(* ===== verification/Mips_Laws.thy ===== *)
theory Mips_Laws
  imports Mips_Sim Virtual_Memory
begin

text \<open>
  What the instruction simulation of \<^verbatim>\<open>machine/mipssim.cc\<close> computes: the 64-bit product of \<^verbatim>\<open>Mult\<close>, the overflow
  tests, the unaligned loads and stores, and the invariant of the processor state with the restartability of instructions that
  trap.
\<close>

section \<open>Multiplication\<close>

definition double_word :: "u32 \<Rightarrow> u32 \<Rightarrow> 64 word" where
  "double_word hi lo = of_nat (unat hi * 2 ^ 32 + unat lo)"

lemma of_nat_mod_high: "of_nat (n mod 2 ^ 32 * 2 ^ 32) = (of_nat (n * 2 ^ 32) :: 64 word)"
proof -
  have "n mod 2 ^ 32 * 2 ^ 32 mod 2 ^ 64 = n * 2 ^ 32 mod (2 ^ 64 :: nat)"
    by (simp add: mult_mod_left)
  then have "unat (of_nat (n mod 2 ^ 32 * 2 ^ 32) :: 64 word) = unat (of_nat (n * 2 ^ 32) :: 64 word)"
    by (simp only: unat_of_nat) simp
  then show ?thesis by (rule unsigned_word_eqI)
qed

lemma unat_lt32: "unat (x :: u32) < 2 ^ 32"
  using unsigned_less [of x] by simp

lemma double_word_add:
  "double_word (hi + bHi + (if lo + bLo < bLo then 1 else 0)) (lo + bLo) = double_word hi lo + double_word bHi bLo"
proof -
  let ?c = "if lo + bLo < bLo then 1 else (0 :: nat)"
  have u: "unat lo < 2 ^ 32" "unat bLo < 2 ^ 32" by (rule unat_lt32)+
  have lo: "unat (lo + bLo) + ?c * 2 ^ 32 = unat lo + unat bLo"
    using u by (auto simp: unat_word_ariths word_less_nat_alt mod_if split: if_splits)
  have "unat (hi + bHi + (if lo + bLo < bLo then 1 else 0)) = (unat hi + unat bHi + ?c) mod 2 ^ 32"
    by (simp add: unat_word_ariths mod_simps)
  then have "double_word (hi + bHi + (if lo + bLo < bLo then 1 else 0)) (lo + bLo)
      = of_nat ((unat hi + unat bHi + ?c) * 2 ^ 32) + of_nat (unat (lo + bLo))"
    unfolding double_word_def of_nat_add by (simp only: of_nat_mod_high)
  also have "\<dots> = of_nat ((unat hi + unat bHi) * 2 ^ 32 + (unat (lo + bLo) + ?c * 2 ^ 32))"
    by (simp only: of_nat_add [symmetric] add_mult_distrib add.assoc add.commute add.left_commute)
  also have "\<dots> = double_word hi lo + double_word bHi bLo"
    unfolding lo double_word_def by (simp only: of_nat_add [symmetric] add_mult_distrib add.assoc add.commute add.left_commute)
  finally show ?thesis .
qed

lemma push_bit_double: "push_bit 1 x = x + (x :: u32)"
  by (simp add: push_bit_eq_mult)

lemma top_bit_iff: "(x :: u32) AND 0x80000000 \<noteq> 0 \<longleftrightarrow> x + x < x"
proof -
  have "x AND 0x80000000 \<noteq> 0 \<longleftrightarrow> bit x 31"
  proof -
    have e: "(0x80000000 :: u32) = push_bit 31 1" by (simp add: push_bit_eq_mult)
    show ?thesis unfolding e by (simp only: bit_iff_and_push_bit_not_eq_0)
  qed
  also have "\<dots> \<longleftrightarrow> 2 ^ 31 \<le> unat x"
  proof -
    have "bit x 31 \<longleftrightarrow> bit (unat x) 31" by (simp add: bit_unsigned_iff)
    also have "\<dots> \<longleftrightarrow> odd (unat x div 2 ^ 31)" by (rule bit_iff_odd)
    moreover have "unat x div 2 ^ 31 = (if 2 ^ 31 \<le> unat x then 1 else 0)"
      using unat_lt32 [of x] by (auto intro: div_nat_eqI)
    ultimately show ?thesis by simp
  qed
  also have "\<dots> \<longleftrightarrow> x + x < x"
    using unat_lt32 [of x] by (auto simp: word_less_nat_alt unat_word_ariths mod_if)
  finally show ?thesis .
qed

lemma double_word_shift:
  "double_word (if bLo AND 0x80000000 \<noteq> 0 then push_bit 1 bHi OR 1 else push_bit 1 bHi) (push_bit 1 bLo)
   = 2 * double_word bHi bLo"
proof -
  have "push_bit 1 bHi OR 1 = push_bit 1 bHi + (1 :: u32)"
    by (rule disjunctive_add_eq_or [symmetric]) (rule bit_word_eqI, simp add: bit_simps del: push_bit_Suc One_nat_def)
  then have "(if bLo AND 0x80000000 \<noteq> 0 then push_bit 1 bHi OR 1 else push_bit 1 bHi)
      = bHi + bHi + (if bLo + bLo < bLo then 1 else 0)"
    by (simp add: top_bit_iff push_bit_double)
  then show ?thesis using double_word_add [of bHi bHi bLo bLo] by (simp only: push_bit_double mult_2)
qed

text \<open>The bits of the multiplier that are still to be processed in iteration \<open>i\<close>.\<close>

definition rest_bits :: "nat \<Rightarrow> u32 \<Rightarrow> 64 word" where
  "rest_bits i a = ucast (take_bit (32 - i) a)"

lemma rest_bits_step:
  assumes "i < 32"
  shows "rest_bits i a = (if a AND 1 \<noteq> 0 then 1 else 0) + 2 * rest_bits (Suc i) (signed_drop_bit 1 a)"
proof -
  have b: "bit a 0 \<longleftrightarrow> a AND 1 \<noteq> 0" by (simp add: and_one_eq bit_0 odd_iff_mod_2_eq_one)
  have "rest_bits i a = (if bit a 0 then 1 else 0) OR push_bit 1 (rest_bits (Suc i) (signed_drop_bit 1 a))"
  proof (rule bit_word_eqI)
    fix n assume "n < LENGTH(64)"
    show "bit (rest_bits i a) n = bit ((if bit a 0 then 1 else 0) OR push_bit 1 (rest_bits (Suc i) (signed_drop_bit 1 a))) n"
      using assms by (cases n) (auto simp: rest_bits_def bit_simps bit_signed_drop_bit_iff plus_1_eq_Suc simp del: push_bit_Suc One_nat_def)
  qed
  also have "\<dots> = (if bit a 0 then 1 else 0) + push_bit 1 (rest_bits (Suc i) (signed_drop_bit 1 a))"
    by (rule disjunctive_add_eq_or [symmetric]) (rule bit_word_eqI, simp add: bit_simps del: push_bit_Suc One_nat_def)
  finally show ?thesis unfolding b by (simp add: push_bit_eq_mult mult.commute)
qed

lemma rest_bits_one: "i < 32 \<Longrightarrow> a AND 1 \<noteq> 0 \<Longrightarrow> a AND 0xfffffffe = 0 \<Longrightarrow> rest_bits i a = 1"
proof -
  assume i: "i < 32" and a: "a AND 1 \<noteq> 0" "a AND 0xfffffffe = 0"
  have "(0xfffffffe :: u32) = NOT 1" by simp
  then have "a = a AND 1" using a(2) by (metis bit.conj_disj_distrib bit.disj_cancel_right and.right_neutral bit.conj_cancel_right or.left_neutral or.right_neutral or.commute)
  moreover have "a AND 1 = 1" using a(1) by (cases "even a") (simp_all add: and_one_eq mod2_eq_if)
  ultimately have "a = 1" by simp
  then show ?thesis using i by (cases "32 - i") (auto simp: rest_bits_def)
qed

lemma mult_loop_ok:
  "i \<le> 32 \<Longrightarrow> mult_loop i a bLo bHi lo hi = (lo', hi') \<Longrightarrow>
   double_word hi' lo' = double_word hi lo + rest_bits i a * double_word bHi bLo"
proof (induction "32 - i" arbitrary: i a bLo bHi lo hi)
  case 0
  then show ?case by (subst (asm) mult_loop.simps) (simp add: rest_bits_def)
next
  case (Suc n)
  then have i: "i < 32" by simp
  let ?odd = "a AND 1 \<noteq> 0"
  let ?lo = "if ?odd then lo + bLo else lo"
  let ?hi = "if ?odd then (if ?lo < bLo then hi + 1 else hi) + bHi else hi"
  let ?bh = "if bLo AND 0x80000000 \<noteq> 0 then push_bit 1 bHi OR 1 else push_bit 1 bHi"
  have acc: "double_word ?hi ?lo = double_word hi lo + (if ?odd then 1 else 0) * double_word bHi bLo"
  proof (cases ?odd)
    case True
    have "double_word ?hi ?lo = double_word (hi + bHi + (if lo + bLo < bLo then 1 else 0)) (lo + bLo)"
      by (rule arg_cong2 [where f = double_word]) (simp_all add: True)
    then show ?thesis using True double_word_add [of hi bHi lo bLo] by simp
  qed simp
  show ?case
  proof (cases "?odd \<and> a AND 0xfffffffe = 0")
    case True
    then have "(lo', hi') = (?lo, ?hi)" using Suc.prems(2) i by (subst (asm) mult_loop.simps) (auto simp: Let_def)
    then show ?thesis using acc True rest_bits_one [OF i] by simp
  next
    case False
    have "mult_loop (Suc i) (signed_drop_bit 1 a) (push_bit 1 bLo) ?bh ?lo ?hi = (lo', hi')"
      using Suc.prems(2) unfolding mult_loop.simps [of i] Let_def if_P [OF i] if_not_P [OF False] Suc_eq_plus1 .
    then have "double_word hi' lo' = double_word ?hi ?lo + rest_bits (Suc i) (signed_drop_bit 1 a) * double_word ?bh (push_bit 1 bLo)"
      using Suc.hyps(1) [of "Suc i"] Suc.hyps(2) i by simp
    then show ?thesis
      unfolding acc double_word_shift rest_bits_step [OF i, of a] by (simp add: algebra_simps)
  qed
qed


lemma double_word_low: "double_word 0 lo = word_of_int (uint lo)"
  by (simp add: double_word_def)

lemma double_word_neg:
  "double_word (if NOT lo + 1 = 0 then NOT hi + 1 else NOT hi) (NOT lo + 1) = - double_word hi lo"
proof -
  let ?l = "NOT lo + 1" and ?h = "if NOT lo + 1 = 0 then NOT hi + 1 else NOT hi"
  have "lo + ?l = 0" by (simp add: not_eq_complement)
  moreover have "hi + ?h + (if 0 < ?l then 1 else 0) = 0"
    by (cases "?l = 0") (simp_all add: word_gt_0 not_eq_complement)
  ultimately have "double_word hi lo + double_word ?h ?l = double_word 0 0"
    using double_word_add [of hi ?h lo ?l] by simp
  moreover have "double_word 0 0 = 0" by (simp add: double_word_def)
  ultimately show ?thesis by (simp only: minus_unique)
qed

lemma mult_loop_product:
  assumes "mult_loop 0 a b 0 0 0 = (lo, hi)"
  shows "double_word hi lo = word_of_int (uint a * uint b)"
  using mult_loop_ok [OF _ assms]
  by (simp add: rest_bits_def double_word_low double_word_def take_bit_word_eq_self)

text \<open>The magnitude that the routine multiplies, and the final sign.\<close>

lemma uint_abs: "uint (if sint (a :: u32) < 0 then - a else a) = \<bar>sint a\<bar>"
proof -
  have "(if sint a < 0 then - a else a) = word_of_int \<bar>sint a\<bar>" by (simp add: of_int_minus)
  moreover have "\<bar>sint a\<bar> < 2 ^ 32" using sint_greater_eq [of a] sint_less [of a] by simp
  ultimately show ?thesis by (simp add: unsigned_of_int take_bit_int_eq_self)
qed

lemma Mult_product:
  assumes "Mult a b sg = (hi, lo)"
  shows "double_word hi lo = word_of_int (if sg then sint a * sint b else uint a * uint b)"
proof (cases "a = 0 \<or> b = 0")
  case True
  then show ?thesis using assms by (auto simp: Mult_def double_word_def)
next
  case False
  define x y where "x = (if sg \<and> sint a < 0 then - a else a)" and "y = (if sg \<and> sint b < 0 then - b else b)"
  define neg where "neg \<longleftrightarrow> sg \<and> (sint a < 0) \<noteq> (sint b < 0)"
  obtain l k where loop: "mult_loop 0 x y 0 0 0 = (l, k)" by fastforce
  have prod: "double_word k l = word_of_int (uint x * uint y)" by (rule mult_loop_product [OF loop])
  have "(hi, lo) = (if neg then (if NOT l + 1 = 0 then NOT k + 1 else NOT k, NOT l + 1) else (k, l))"
    using assms False loop unfolding Mult_def x_def y_def neg_def by (auto simp: Let_def split: if_splits)
  then have "double_word hi lo = (if neg then - double_word k l else double_word k l)"
    using double_word_neg [of l k] by (auto split: if_splits)
  also have "\<dots> = word_of_int (if neg then - (uint x * uint y) else uint x * uint y)"
    unfolding prod by simp
  also have "(if neg then - (uint x * uint y) else uint x * uint y) = (if sg then sint a * sint b else uint a * uint b)"
    using uint_abs [of a] uint_abs [of b] unfolding x_def y_def neg_def
    by (cases "sint a < 0"; cases "sint b < 0"; cases sg) simp_all
  finally show ?thesis .
qed

section \<open>Overflow\<close>

lemma sint_range: "- (2 ^ 31) \<le> sint (x :: u32)" "sint (x :: u32) < 2 ^ 31"
  using sint_greater_eq [of x] sint_less [of x] by simp_all

lemma sign_bit_iff: "(x :: u32) AND SIGN_BIT = 0 \<longleftrightarrow> 0 \<le> sint x"
proof -
  have e: "SIGN_BIT = push_bit 31 1" by (simp add: SIGN_BIT_def push_bit_eq_mult)
  have "x AND SIGN_BIT = 0 \<longleftrightarrow> \<not> bit x 31" unfolding e by (simp only: bit_iff_and_push_bit_not_eq_0) simp
  then show ?thesis using bit_last_iff [of x] by auto
qed

lemma sign_xor_iff: "((x :: u32) XOR y) AND SIGN_BIT = 0 \<longleftrightarrow> (sint x < 0 \<longleftrightarrow> sint y < 0)"
proof -
  have "bit (x XOR y) 31 \<longleftrightarrow> bit x 31 \<noteq> bit y 31" by (simp add: bit_simps)
  then show ?thesis
    using sign_bit_iff [of "x XOR y"] bit_last_iff [of x] bit_last_iff [of y] bit_last_iff [of "x XOR y"] by auto
qed

lemma sint_of_int32:
  assumes "- (2 ^ 32) \<le> k" "k < 2 ^ 32"
  shows "sint (word_of_int k :: u32) = (if is_int32 k then k else if k < 0 then k + 2 ^ 32 else k - 2 ^ 32)"
proof -
  have e: "sint (word_of_int k :: u32) = (k + 2 ^ 31) mod 2 ^ 32 - 2 ^ 31" by (simp add: int_word_sint)
  consider "is_int32 k" | "k < - (2 ^ 31)" | "2 ^ 31 \<le> k" unfolding is_int32_def by linarith
  then show ?thesis
  proof cases
    case 1
    then show ?thesis unfolding e by (simp add: is_int32_def)
  next
    case 2
    have "(k + 2 ^ 31) mod 2 ^ 32 = (k + 2 ^ 31 + 2 ^ 32) mod 2 ^ 32" by (rule mod_add_self2 [symmetric])
    also have "\<dots> = k + 2 ^ 31 + 2 ^ 32" using 2 assms by (intro mod_pos_pos_trivial) simp_all
    finally show ?thesis unfolding e using 2 by (simp add: is_int32_def)
  next
    case 3
    have "(k + 2 ^ 31) mod 2 ^ 32 = (k + 2 ^ 31 - 2 ^ 32) mod 2 ^ 32" by (rule minus_mod_self2 [symmetric])
    also have "\<dots> = k + 2 ^ 31 - 2 ^ 32" using 3 assms by (intro mod_pos_pos_trivial) simp_all
    finally show ?thesis unfolding e using 3 by (simp add: is_int32_def)
  qed
qed

lemma add_no_overflow_iff:
  "is_int32 (sint x + sint y) \<longleftrightarrow> \<not> ((x XOR y) AND SIGN_BIT = 0 \<and> (x XOR (x + y)) AND SIGN_BIT \<noteq> 0)" for x y :: u32
proof -
  have "x + y = word_of_int (sint x + sint y)" by simp
  then have s: "sint (x + y) = (if is_int32 (sint x + sint y) then sint x + sint y
      else if sint x + sint y < 0 then sint x + sint y + 2 ^ 32 else sint x + sint y - 2 ^ 32)"
    using sint_of_int32 [of "sint x + sint y"] sint_range [of x] sint_range [of y] by simp
  show ?thesis
    unfolding sign_xor_iff s is_int32_def using sint_range [of x] sint_range [of y] by (simp; linarith)
qed

lemma sub_no_overflow_iff:
  "is_int32 (sint x - sint y) \<longleftrightarrow> \<not> ((x XOR y) AND SIGN_BIT \<noteq> 0 \<and> (x XOR (x - y)) AND SIGN_BIT \<noteq> 0)" for x y :: u32
proof -
  have "x - y = word_of_int (sint x - sint y)" by simp
  then have s: "sint (x - y) = (if is_int32 (sint x - sint y) then sint x - sint y
      else if sint x - sint y < 0 then sint x - sint y + 2 ^ 32 else sint x - sint y - 2 ^ 32)"
    using sint_of_int32 [of "sint x - sint y"] sint_range [of x] sint_range [of y] by simp
  show ?thesis
    unfolding sign_xor_iff s is_int32_def using sint_range [of x] sint_range [of y] by (simp; linarith)
qed

section \<open>Registers\<close>

text \<open>No translation touches the registers.\<close>

definition keeps_regs :: "u32 list \<Rightarrow> ('a \<times> machine) result \<Rightarrow> bool" where
  "keeps_regs rs r \<longleftrightarrow> (\<forall>x m'. r = Inr (x, m') \<longrightarrow> registers m' = rs)"

lemma keeps_simps [simp]:
  "keeps_regs rs (Inl e)" "keeps_regs rs (Inr (x, m)) \<longleftrightarrow> registers m = rs"
  by (simp_all add: keeps_regs_def)

lemma keeps_rassert: "(b \<Longrightarrow> keeps_regs rs r) \<Longrightarrow> keeps_regs rs (rassert b r)"
  by (cases b) simp_all

lemma keeps_rbind: "(\<And>y. r = Inr y \<Longrightarrow> keeps_regs rs (f y)) \<Longrightarrow> keeps_regs rs (rbind r f)"
  by (cases r) simp_all

lemma finish_translation_registers: "keeps_regs (registers m) (finish_translation c m slot wr vpn off f e)"
  unfolding finish_translation_def Let_def
  by (auto simp: keeps_regs_def nachos_res split: if_splits option.splits)

lemma swap_in_registers: "keeps_regs (registers m) (swap_in m t vpn e)"
  unfolding swap_in_def by (auto simp: keeps_regs_def nachos_res split: option.splits)

lemma pageTableTranslation_registers: "keeps_regs (registers m) (pageTableTranslation c m vpn)"
proof -
  have "registers m' = registers m" if "swap_in m t vpn e = Inr (t', m')" for t e t' m'
    using swap_in_registers [of m t vpn e] that by (simp add: keeps_regs_def)
  then show ?thesis
    unfolding pageTableTranslation_def by (auto intro!: keeps_rbind simp: nachos_res split: option.split)
qed

lemma Translate_keeps: "keeps_regs (registers m) (Translate c m va sz wr)"
proof -
  define m1 where "m1 = m\<lparr>m_stats := (m_stats m)\<lparr>numAddressTranslation := numAddressTranslation (m_stats m) + 1\<rparr>\<rparr>"
  have r: "registers m = registers m1" by (simp add: m1_def)
  have p: "registers m2 = registers m1" if "pageTableTranslation c m1 vpn = Inr (x, m2)" for vpn x m2
    using pageTableTranslation_registers [of m1 c vpn] that by (simp add: keeps_regs_def)
  show ?thesis
    unfolding Translate_def Let_def m1_def [symmetric] unfolding r
    by (auto intro!: keeps_rbind keeps_rassert finish_translation_registers split: option.split sum.split
      dest!: p) (metis finish_translation_registers)+
qed

lemma Translate_registers: "Translate c m va sz wr = Inr (r, m') \<Longrightarrow> registers m' = registers m"
  using Translate_keeps [of m c va sz wr] by (simp add: keeps_regs_def)

lemma ReadMem_Inr:
  assumes "ReadMem c h m a sz = Inr (v, m')"
  obtains e m1 where "registers m1 = registers m" "v = None" "RaiseException h m1 e a = Inr m'"
  | w where "v = Some w" "registers m' = registers m"
proof -
  obtain r m1 where r: "Translate c m (sint a) sz False = Inr (r, m1)"
    using assms by (auto simp: ReadMem_def rbind_Inr_iff)
  then show thesis
    using assms that Translate_registers [OF r] by (cases r) (auto simp: ReadMem_def nachos_res split: if_splits)
qed

lemma WriteMem_Inr:
  assumes "WriteMem c h m a sz w = Inr (b, m')"
  obtains e m1 where "registers m1 = registers m" "\<not> b" "RaiseException h m1 e a = Inr m'"
  | "b" "registers m' = registers m"
proof -
  obtain r m1 where r: "Translate c m (sint a) sz True = Inr (r, m1)"
    using assms by (auto simp: WriteMem_def rbind_Inr_iff)
  then show thesis
    using assms that Translate_registers [OF r] by (cases r) (auto simp: WriteMem_def nachos_res split: if_splits)
qed

text \<open>The calls of \<^verbatim>\<open>RaiseException\<close> that an instruction starting with registers \<open>rs\<close> can end in.\<close>

definition trapped :: "handler \<Rightarrow> u32 list \<Rightarrow> machine \<Rightarrow> bool" where
  "trapped h rs m' \<longleftrightarrow> (\<exists>m1 e bad. registers m1 = rs \<and> RaiseException h m1 e bad = Inr m')"

text \<open>
  What every case of the switch keeps: it traps with the registers untouched, or it
  breaks with the same program counters and the same load in progress.
\<close>

definition flow_ok :: "handler \<Rightarrow> u32 list \<Rightarrow> flow result \<Rightarrow> bool" where
  "flow_ok h rs f \<longleftrightarrow> (case f of Inl e \<Rightarrow> True | Inr (Returned m') \<Rightarrow> trapped h rs m'
     | Inr (Broke m' pcAfter lr lv) \<Rightarrow> length (registers m') = length rs
         \<and> drop 34 (registers m') = drop 34 rs \<and> unat lr < 32)"

lemma flow_ok_Inl [simp]: "flow_ok h rs (Inl e)"
  by (simp add: flow_ok_def)

lemma flow_ok_trap [simp]: "flow_ok h (registers m) (trap h m e bad)"
  by (cases "RaiseException h m e bad") (auto simp: flow_ok_def trap_def trapped_def)

lemma flow_ok_continue: "flow_ok h (registers m) (continue m pa)"
  by (simp add: flow_ok_def continue_def)

lemma flow_ok_set [simp]: "i < 34 \<Longrightarrow> flow_ok h (registers m) (continue (set_reg m i v) pa)"
  by (simp add: flow_ok_def continue_def set_reg_def drop_update_cancel)

lemma flow_ok_set2 [simp]: "i < 34 \<Longrightarrow> j < 34 \<Longrightarrow> flow_ok h (registers m) (continue (set_reg (set_reg m i v) j w) pa)"
  by (simp add: flow_ok_def continue_def set_reg_def drop_update_cancel)

lemma flow_ok_Broke [simp]: "unat lr < 32 \<Longrightarrow> flow_ok h (registers m) (Inr (Broke m pa lr lv))"
  by (simp add: flow_ok_def)

lemma flow_ok_load:
  assumes "\<And>m1 v. registers m1 = registers m \<Longrightarrow> flow_ok h (registers m1) (k m1 v)"
  shows "flow_ok h (registers m) (load c h m a sz k)"
proof (cases "ReadMem c h m a sz")
  case (Inr x)
  obtain v m1 where x: "x = (v, m1)" by fastforce
  show ?thesis
    using Inr unfolding x
  proof (cases rule: ReadMem_Inr)
    case 1
    then show ?thesis using Inr x by (auto simp: load_def flow_ok_def trapped_def)
  next
    case (2 w)
    then show ?thesis using Inr x assms [OF 2(2), of w] by (simp add: load_def)
  qed
qed (simp add: load_def)

lemma flow_ok_store: "flow_ok h (registers m) (store c h m a sz w pa)"
proof (cases "WriteMem c h m a sz w")
  case (Inr x)
  obtain b m1 where x: "x = (b, m1)" by fastforce
  show ?thesis
    using Inr unfolding x
  proof (cases rule: WriteMem_Inr)
    case 1
    then show ?thesis using Inr x by (auto simp: store_def flow_ok_def trapped_def)
  next
    case 2
    then show ?thesis using Inr x flow_ok_continue [of h m1 pa] by (simp add: store_def)
  qed
qed (simp add: store_def)

lemma flow_ok_if: "(b \<Longrightarrow> flow_ok h rs x) \<Longrightarrow> (\<not> b \<Longrightarrow> flow_ok h rs y) \<Longrightarrow> flow_ok h rs (if b then x else y)"
  by simp

lemma flow_ok_pair: "(\<And>x y. flow_ok h rs (f x y)) \<Longrightarrow> flow_ok h rs (case p of (x, y) \<Rightarrow> f x y)"
  by (cases p) simp

lemmas flow_ok_rules = flow_ok_if flow_ok_pair flow_ok_load flow_ok_store flow_ok_trap flow_ok_set2 flow_ok_set flow_ok_Broke
  flow_ok_continue flow_ok_Inl

text \<open>The register fields of a decoded instruction.\<close>

definition fields_ok :: "instruction \<Rightarrow> bool" where
  "fields_ok i \<longleftrightarrow> i_rs i < 32 \<and> i_rt i < 32 \<and> i_rd i < 32"

lemma field_bounds:
  assumes "fields_ok i"
  shows "i_rs i < 34" "i_rt i < 34" "i_rd i < 34" "HiReg < 34" "LoReg < 34" "R31 < 34" "unat (of_nat (i_rt i) :: u32) < 32"
  using assms by (simp_all add: fields_ok_def HiReg_def LoReg_def R31_def unat_of_nat)

lemma exec_rest_ok: "fields_ok i \<Longrightarrow> flow_ok h (registers m) (exec_rest h i m pa)"
  unfolding exec_rest_def Let_def by (intro flow_ok_rules field_bounds)

lemma exec_store_ok: "fields_ok i \<Longrightarrow> flow_ok h (registers m) (exec_store c h i m pa)"
  unfolding exec_store_def Let_def by (intro flow_ok_rules field_bounds exec_rest_ok)

lemma exec_shift_ok: "fields_ok i \<Longrightarrow> flow_ok h (registers m) (exec_shift c h i m pa)"
  unfolding exec_shift_def Let_def by (intro flow_ok_rules field_bounds exec_store_ok)

lemma exec_move_ok: "fields_ok i \<Longrightarrow> flow_ok h (registers m) (exec_move c h i m pa)"
  unfolding exec_move_def Let_def by (intro flow_ok_rules field_bounds exec_shift_ok)

lemma exec_unaligned_load_ok: "fields_ok i \<Longrightarrow> flow_ok h (registers m) (exec_unaligned_load c h i m pa)"
  unfolding exec_unaligned_load_def Let_def by (intro flow_ok_rules field_bounds exec_move_ok)

lemma exec_load_ok: "fields_ok i \<Longrightarrow> flow_ok h (registers m) (exec_load c h i m pa)"
  unfolding exec_load_def Let_def by (intro flow_ok_rules field_bounds exec_unaligned_load_ok)

lemma exec_div_jump_ok: "fields_ok i \<Longrightarrow> flow_ok h (registers m) (exec_div_jump c h i m pa)"
  unfolding exec_div_jump_def Let_def by (intro flow_ok_rules field_bounds exec_load_ok)

lemma execute_ok: "fields_ok i \<Longrightarrow> flow_ok h (registers m) (execute c h i m pa)"
  unfolding execute_def Let_def branch_def by (intro flow_ok_rules field_bounds exec_div_jump_ok)

section \<open>Decoding\<close>

lemma unat_and_mask: "unat (w AND mask n) < 2 ^ n" for w :: u32
  unfolding take_bit_eq_mask [symmetric] unsigned_take_bit_eq by (rule take_bit_nat_less_exp)

lemma unat_field5: "unat (w AND 0x1f) < 32" for w :: u32
proof -
  have m: "(0x1f :: u32) = mask 5" by (simp add: mask_eq_exp_minus_1)
  show ?thesis unfolding m using unat_and_mask [of w 5] by simp
qed

lemma unat_field6: "unat (w AND 0x3f) < 64" for w :: u32
proof -
  have m: "(0x3f :: u32) = mask 6" by (simp add: mask_eq_exp_minus_1)
  show ?thesis unfolding m using unat_and_mask [of w 6] by simp
qed

lemma Decode_fields: "fields_ok (Decode w)"
  by (simp add: Decode_def fields_ok_def Let_def unat_field5 split: prod.split)

text \<open>The codes that decoding can produce.\<close>

definition decoded_codes :: "int list" where
  "decoded_codes =
     [OP_ADD, OP_ADDI, OP_ADDIU, OP_ADDU, OP_AND, OP_ANDI, OP_BEQ, OP_BGEZAL, OP_BGEZ, OP_BGTZ, OP_BLEZ, OP_BLTZAL, OP_BLTZ,
      OP_BNE, OP_DIV, OP_DIVU, OP_JAL, OP_J, OP_JALR, OP_JR, OP_LB, OP_LBU, OP_LH, OP_LHU, OP_LUI, OP_LW, OP_LWL, OP_LWR,
      OP_MFHI, OP_MFLO, OP_MTHI, OP_MTLO, OP_MULT, OP_MULTU, OP_NOR, OP_OR, OP_ORI, OP_SB, OP_SH, OP_SLL, OP_SLLV, OP_SLT,
      OP_SLTI, OP_SLTIU, OP_SLTU, OP_SRA, OP_SRAV, OP_SRL, OP_SRLV, OP_SUB, OP_SUBU, OP_SW, OP_SWL, OP_SWR, OP_SYSCALL,
      OP_XOR, OP_XORI, OP_RES, OP_UNIMP]"

lemma tables_codes:
  "set (map fst opTable) - {SPECIAL, BCOND} \<subseteq> set decoded_codes" "set specialTable \<subseteq> set decoded_codes"
  "{OP_BLTZ, OP_BGEZ, OP_BLTZAL, OP_BGEZAL, OP_UNIMP} \<subseteq> set decoded_codes"
  by (simp_all add: opTable_def specialTable_def decoded_codes_def op_codes)

lemma Decode_codes: "i_opCode (Decode w) \<in> set decoded_codes"
proof -
  obtain x f where t: "opTable ! unat (drop_bit 26 w AND 0x3f) = (x, f)" by fastforce
  have "length opTable = 64" "length specialTable = 64" by (simp_all add: opTable_def specialTable_def)
  then have x: "x \<in> set (map fst opTable)" "specialTable ! unat (w AND 0x3f) \<in> set specialTable"
    using nth_mem [of "unat (drop_bit 26 w AND 0x3f)" opTable] t unat_field6 by (auto intro: rev_image_eqI)
  then show ?thesis using tables_codes by (auto simp: Decode_def t Let_def)
qed

section \<open>The default of the switch\<close>

text \<open>A result that does not come from the default of the switch.\<close>

definition cased :: "'a result \<Rightarrow> bool" where
  "cased r \<longleftrightarrow> r \<noteq> Inl SwitchDefault"

lemma cased_simps [simp]: "cased (Inr x)" "cased (Inl e) \<longleftrightarrow> e \<noteq> SwitchDefault"
  by (simp_all add: cased_def)

lemma cased_rbind [intro]: "cased r \<Longrightarrow> (\<And>x. r = Inr x \<Longrightarrow> cased (f x)) \<Longrightarrow> cased (rbind r f)"
  by (cases r) simp_all

lemma cased_if: "(b \<Longrightarrow> cased x) \<Longrightarrow> (\<not> b \<Longrightarrow> cased y) \<Longrightarrow> cased (if b then x else y)"
  by simp

lemma cased_pair: "(\<And>x y. cased (f x y)) \<Longrightarrow> cased (case p of (x, y) \<Rightarrow> f x y)"
  by (cases p) simp

lemma cased_option: "(p = None \<Longrightarrow> cased x) \<Longrightarrow> (\<And>y. p = Some y \<Longrightarrow> cased (f y)) \<Longrightarrow> cased (case p of None \<Rightarrow> x | Some y \<Rightarrow> f y)"
  by (cases p) simp_all

lemma cased_sum: "(\<And>x. cased (f x)) \<Longrightarrow> (\<And>y. cased (g y)) \<Longrightarrow> cased (case p of Inl x \<Rightarrow> f x | Inr y \<Rightarrow> g y)"
  by (cases p) simp_all

lemma cased_rassert: "cased r \<Longrightarrow> cased (rassert b r)"
  by (simp add: rassert_def)

lemma cased_access [simp]: "cased (aread xs i)" "cased (awrite xs i v)" "cased (bcopy_from bs off n)" "cased (bcopy_to bs off bs')"
  "cased (stub_ReadAt file k p)" "cased (stub_WriteAt file bs p)"
  by (simp_all add: aread_def awrite_def bcopy_from_def bcopy_to_def stub_ReadAt_def stub_WriteAt_def uf_Lseek_def uf_WriteFile_def rassert_def Let_def)

lemmas cased_rules = cased_rbind cased_if cased_pair cased_option cased_sum cased_rassert cased_access cased_simps(1) cased_simps(2) [THEN iffD2]

lemma cased_loops [simp]:
  "cased (flag_loop flag t pos len k num)" "cased (rpt_loop t vpn tid k)" "cased (evict_loop m t exec ppn k)" "cased (tlb_loop t vpn k)"
proof -
  show "cased (flag_loop flag t pos len k num)"
    by (induction flag t pos len k num rule: flag_loop.induct) (subst flag_loop.simps, auto intro!: cased_rules)
  show "cased (rpt_loop t vpn tid k)"
    by (induction t vpn tid k rule: rpt_loop.induct) (subst rpt_loop.simps, auto intro!: cased_rules)
  show "cased (evict_loop m t exec ppn k)"
    by (induction m t exec ppn k rule: evict_loop.induct) (subst evict_loop.simps, auto intro!: cased_rules)
  show "cased (tlb_loop t vpn k)"
    by (induction t vpn k rule: tlb_loop.induct) (subst tlb_loop.simps, auto intro!: cased_rules)
qed

lemma cased_updateLRUFlag: "cased (updateLRUFlag t pos len)"
  unfolding updateLRUFlag_def by (intro cased_rules cased_loops)

lemma cased_pageTableTranslation: "cased (pageTableTranslation c m vpn)"
  unfolding pageTableTranslation_def swap_in_def by (intro cased_rules cased_loops) simp_all

lemma cased_Translate: "cased (Translate c m va sz writing)"
proof -
  have "cased (finish_translation c m slot wr vpn off f e)" for m slot wr vpn off f e
    unfolding finish_translation_def Let_def by (intro cased_rules cased_updateLRUFlag) simp
  then show ?thesis unfolding Translate_def Let_def by (intro cased_rules cased_loops cased_pageTableTranslation)
qed

text \<open>The handler of exceptions is the kernel's.\<close>

lemma cased_memory:
  assumes "\<And>e m. cased (h e m)"
  shows "cased (RaiseException h m which bad)" "cased (trap h m which bad)" "cased (ReadMem c h m a sz)" "cased (WriteMem c h m a sz v)"
proof -
  have r: "cased (RaiseException h m which bad)" for m which bad
    unfolding RaiseException_def DelayedLoad_def Let_def by (intro cased_rules assms)
  then show "cased (RaiseException h m which bad)" "cased (trap h m which bad)" by (auto simp: trap_def intro!: cased_rules)
  show "cased (ReadMem c h m a sz)" "cased (WriteMem c h m a sz v)"
    unfolding ReadMem_def WriteMem_def by (intro cased_rules cased_Translate r; simp)+
qed

lemma cased_continue: "cased (continue m pa)" "cased (branch m i b pa)"
  by (simp_all add: continue_def branch_def)

lemma cased_load_store:
  assumes "\<And>e m. cased (h e m)"
  shows "cased (store c h m a sz v pa)" "(\<And>m v. cased (k m v)) \<Longrightarrow> cased (load c h m a sz k)"
  unfolding store_def load_def by (intro cased_rules cased_memory cased_continue assms; assumption?)+

lemma execute_cased:
  assumes h: "\<And>e m. cased (h e m)" and i: "i_opCode i \<in> set decoded_codes"
  shows "cased (execute c h i m pa)"
  unfolding execute_def exec_div_jump_def exec_load_def exec_unaligned_load_def exec_move_def exec_shift_def exec_store_def exec_rest_def Let_def
  by (intro cased_if cased_pair cased_continue cased_load_store cased_memory(2) h cased_simps(1)) (use i in \<open>simp_all add: decoded_codes_def\<close>)

lemma OneInstruction_cased:
  assumes "\<And>e m. cased (h e m)"
  shows "cased (OneInstruction c h m)"
proof -
  have "cased (retire m pa lr lv)" for m pa lr lv unfolding retire_def DelayedLoad_def Let_def by (intro cased_rules)
  then show ?thesis
    unfolding OneInstruction_def by (intro cased_rules cased_memory(3) assms execute_cased [OF assms Decode_codes]) (simp split: flow.split)
qed

lemma execute_default:
  assumes "i_opCode i \<in> {SPECIAL, BCOND, OP_RFE}"
  shows "execute c h i m pa = Inl SwitchDefault"
proof -
  have "{SPECIAL, BCOND, OP_RFE} \<inter> set decoded_codes = {}" by (simp add: decoded_codes_def op_codes)
  then have "i_opCode i \<notin> set decoded_codes" using assms by blast
  then show ?thesis
    by (simp add: decoded_codes_def execute_def exec_div_jump_def exec_load_def exec_unaligned_load_def exec_move_def exec_shift_def
      exec_store_def exec_rest_def Let_def)
qed

section \<open>A whole instruction\<close>

definition cpu_ok :: "machine \<Rightarrow> bool" where
  "cpu_ok m \<longleftrightarrow> length (registers m) = NumTotalRegs \<and> unat (reg m LoadReg) < 32 \<and> reg m 0 = 0"

lemma sint_small: "unat (w :: u32) < 32 \<Longrightarrow> sint w = int (unat w)"
proof -
  assume w: "unat w < 32"
  have "w = word_of_int (int (unat w))" by simp
  moreover have "is_int32 (int (unat w))" using w by (simp add: is_int32_def del: of_nat_unat)
  ultimately show ?thesis using sint_word_of_int32 by metis
qed

lemma DelayedLoad_ok:
  assumes "length (registers m) = NumTotalRegs" "unat (reg m LoadReg) < 32" "unat nr < 32"
  obtains r where "DelayedLoad m nr nv = Inr (m\<lparr>registers := r\<rparr>)" "length r = NumTotalRegs" "r ! 0 = 0"
    "r ! LoadReg = nr" "r ! LoadValueReg = nv" "\<forall>i. 34 \<le> i \<and> i < 37 \<longrightarrow> r ! i = registers m ! i"
proof
  let ?r = "(registers m)[unat (reg m LoadReg) := registers m ! LoadValueReg, LoadReg := nr, LoadValueReg := nv, 0 := 0]"
  have "sint (registers m ! LoadReg) = int (unat (reg m LoadReg))" using assms(2) sint_small by (simp add: reg_def)
  then show "DelayedLoad m nr nv = Inr (m\<lparr>registers := ?r\<rparr>)" using assms by (simp add: DelayedLoad_def reg_consts del: of_nat_unat)
  show "length ?r = NumTotalRegs" "?r ! 0 = 0" "?r ! LoadReg = nr" "?r ! LoadValueReg = nv" using assms by (simp_all add: reg_consts)
  show "\<forall>i. 34 \<le> i \<and> i < 37 \<longrightarrow> ?r ! i = registers m ! i" using assms by (auto simp: reg_consts nth_list_update)
qed

lemma retire_ok:
  assumes "length (registers m) = NumTotalRegs" "unat (reg m LoadReg) < 32" "unat lr < 32"
  obtains m' where "retire m pa lr lv = Inr m'" "cpu_ok m'" "reg m' PCReg = reg m NextPCReg" "reg m' PrevPCReg = reg m PCReg"
    "reg m' NextPCReg = pa" "reg m' LoadReg = lr" "reg m' LoadValueReg = lv"
proof -
  obtain r where r: "DelayedLoad m lr lv = Inr (m\<lparr>registers := r\<rparr>)" "length r = NumTotalRegs" "r ! 0 = 0"
    "r ! LoadReg = lr" "r ! LoadValueReg = lv" "\<forall>i. 34 \<le> i \<and> i < 37 \<longrightarrow> r ! i = registers m ! i"
    using DelayedLoad_ok [OF assms, of lv] by blast
  have "r ! PCReg = registers m ! PCReg" "r ! NextPCReg = registers m ! NextPCReg" using r(6) by (simp_all add: reg_consts)
  with r(1-5) show thesis using assms(3)
    by (intro that) (auto simp: retire_def Let_def cpu_ok_def reg_def set_reg_def reg_consts)
qed

lemma OneInstruction_cases:
  assumes "cpu_ok m" "OneInstruction c h m = Inr m'"
  obtains "trapped h (registers m) m'"
  | "cpu_ok m'" "reg m' PCReg = reg m NextPCReg" "reg m' PrevPCReg = reg m PCReg"
proof -
  obtain v m1 where v: "ReadMem c h m (reg m PCReg) 4 = Inr (v, m1)"
    using assms(2) by (auto simp: OneInstruction_def rbind_Inr_iff)
  then show thesis
  proof (cases rule: ReadMem_Inr)
    case 1
    then have "m' = m1" using assms(2) v by (simp add: OneInstruction_def)
    then show thesis using 1 that(1) by (auto simp: trapped_def)
  next
    case (2 w)
    obtain f where f: "execute c h (Decode w) m1 (reg m1 NextPCReg + 4) = Inr f"
      using assms(2) v 2(1) by (auto simp: OneInstruction_def rbind_Inr_iff)
    have ok: "flow_ok h (registers m) (Inr f)" using execute_ok [OF Decode_fields] f 2(2) by metis
    show thesis
    proof (cases f)
      case (Returned m2)
      then show thesis using that(1) ok assms(2) v f 2(1) by (simp add: OneInstruction_def flow_ok_def)
    next
      case (Broke m2 pa lr lv)
      then have b: "length (registers m2) = length (registers m)" "drop 34 (registers m2) = drop 34 (registers m)" "unat lr < 32"
        and m': "retire m2 pa lr lv = Inr m'"
        using ok assms(2) v f 2(1) by (simp_all add: OneInstruction_def flow_ok_def)
      have "registers m2 ! (34 + k) = registers m ! (34 + k)" if "k < 6" for k
        using b assms(1) that nth_drop [of 34 "registers m" k] nth_drop [of 34 "registers m2" k] by (simp add: cpu_ok_def reg_consts)
      from this [of 0] this [of 1] this [of 3] have "reg m2 PCReg = reg m PCReg" "reg m2 NextPCReg = reg m NextPCReg"
        "reg m2 LoadReg = reg m LoadReg" by (simp_all add: reg_def reg_consts)
      moreover obtain m3 where "retire m2 pa lr lv = Inr m3" "cpu_ok m3" "reg m3 PCReg = reg m2 NextPCReg" "reg m3 PrevPCReg = reg m2 PCReg"
        using retire_ok [of m2 lr pa lv] b assms(1) calculation by (auto simp: cpu_ok_def)
      ultimately show thesis using that(2) m' by simp
    qed
  qed
qed

lemma trapped_keeps:
  assumes h: "\<And>e m m'. cpu_ok m \<Longrightarrow> h e m = Inr m' \<Longrightarrow> cpu_ok m'" and m: "cpu_ok m" and t: "trapped h (registers m) m'"
  shows "cpu_ok m'"
proof -
  obtain m1 e bad where m1: "registers m1 = registers m" "RaiseException h m1 e bad = Inr m'"
    using t by (auto simp: trapped_def)
  let ?m = "m1\<lparr>registers := (registers m1)[BadVAddrReg := bad]\<rparr>"
  have c: "length (registers ?m) = NumTotalRegs" "unat (reg ?m LoadReg) < 32" "unat (0 :: u32) < 32"
    using m m1(1) by (simp_all add: cpu_ok_def reg_def reg_consts)
  obtain r where r: "DelayedLoad ?m 0 0 = Inr (?m\<lparr>registers := r\<rparr>)" "length r = NumTotalRegs" "r ! 0 = 0" "r ! LoadReg = 0"
    using DelayedLoad_ok [OF c, of 0] by metis
  then have "cpu_ok (?m\<lparr>registers := r, m_status := SystemMode\<rparr>)" by (simp add: cpu_ok_def reg_def)
  moreover obtain m2 where "h e (?m\<lparr>registers := r, m_status := SystemMode\<rparr>) = Inr m2" "m' = m2\<lparr>m_status := UserMode\<rparr>"
    using m1(2) r(1) by (auto simp: RaiseException_def rbind_Inr_iff)
  ultimately have "cpu_ok m2" using h by blast
  then show ?thesis using \<open>m' = _\<close> by (simp add: cpu_ok_def reg_def)
qed

section \<open>Unaligned words\<close>

text \<open>
  For a word that starts at byte 1, 2 or 3 of an aligned word, \<open>LWR\<close> at its first byte and \<open>LWL\<close> at its last byte
  together give the four bytes.
\<close>

lemma byte_masks:
  "(0xff :: u32) = mask 8" "(0xffff :: u32) = mask 16" "(0xffffff :: u32) = mask 24"
  "(0xffffff00 :: u32) = NOT (mask 8)" "(0xffff0000 :: u32) = NOT (mask 16)" "(0xff000000 :: u32) = NOT (mask 24)"
  by (simp_all add: mask_eq_exp_minus_1)

lemma unaligned_load_bytes:
  "lwl_merge 3 w (lwr_merge 0 w old) = w"
  "lwl_merge 0 (un_le32 [y0, y1, y2, y3]) (lwr_merge 1 (un_le32 [x0, x1, x2, x3]) old) = un_le32 [x1, x2, x3, y0]"
  "lwl_merge 1 (un_le32 [y0, y1, y2, y3]) (lwr_merge 2 (un_le32 [x0, x1, x2, x3]) old) = un_le32 [x2, x3, y0, y1]"
  "lwl_merge 2 (un_le32 [y0, y1, y2, y3]) (lwr_merge 3 (un_le32 [x0, x1, x2, x3]) old) = un_le32 [x3, y0, y1, y2]"
  unfolding lwl_merge_def lwr_merge_def byte_masks
  by ((rule bit_word_eqI)?, (auto simp: bit_simps dest: bit_imp_le_length)[1])+

lemma word_in_vbyte:
  assumes "vbyte c m x \<noteq> None"
  shows "vbyte c m (x - x mod 4) \<noteq> None"
proof -
  have "(x - x mod 4) div PageSize = x div PageSize"
    using access_in_page(1) [of 4 "x - x mod 4" "x mod 4"] by (simp add: access_size_def mod_diff_right_eq)
  then show ?thesis using assms zmod_le_nonneg_dividend [of x 4] by (auto simp: vbyte_def split: option.splits if_splits)
qed

lemma align_down:
  assumes "0 \<le> sint (a :: u32)"
  shows "sint (a - (a AND 3)) = sint a - sint a mod 4" and "a AND 3 = word_of_int (sint a mod 4)"
proof -
  have m: "(3 :: u32) = mask 2" by (simp add: mask_eq_exp_minus_1)
  have "uint a = sint a" using uint_abs [of a] assms by simp
  then have u: "uint (a AND 3) = sint a mod 4"
    unfolding m take_bit_eq_mask [symmetric] by (simp add: unsigned_take_bit_eq take_bit_int_def)
  then show and3: "a AND 3 = word_of_int (sint a mod 4)" using word_of_int_uint [of "a AND 3"] by simp
  have e: "a - (a AND 3) = word_of_int (sint a - sint a mod 4)" unfolding and3 by simp
  have "is_int32 (sint a - sint a mod 4)" 
    using assms sint_range [of a] zmod_le_nonneg_dividend [of "sint a" 4] by (simp add: is_int32_def)
  then show "sint (a - (a AND 3)) = sint a - sint a mod 4" unfolding e by (rule sint_word_of_int32)
qed


text \<open>What \<^verbatim>\<open>OneInstruction\<close> does after the fetch.\<close>

definition instruction_body :: "config \<Rightarrow> handler \<Rightarrow> instruction \<Rightarrow> machine \<Rightarrow> machine result" where
  "instruction_body c h i m =
     rbind (execute c h i m (reg m NextPCReg + 4)) (\<lambda>f.
     case f of Returned m \<Rightarrow> Inr m | Broke m pcAfter lr lv \<Rightarrow> retire m pcAfter lr lv)"

lemma execute_LWR: "i_opCode i = OP_LWR \<Longrightarrow> execute c h i m pa =
    (let tmp = reg m (i_rs i) + i_extra i in
     load c h m (tmp - (tmp AND 3)) 4 (\<lambda>m value. Inr (Broke m pa (of_nat (i_rt i)) (lwr_merge (tmp AND 3) value (pending_value m (i_rt i))))))"
  by (simp add: execute_def exec_div_jump_def exec_load_def exec_unaligned_load_def op_codes Let_def)

lemma execute_LWL: "i_opCode i = OP_LWL \<Longrightarrow> execute c h i m pa =
    (let tmp = reg m (i_rs i) + i_extra i in
     load c h m (tmp - (tmp AND 3)) 4 (\<lambda>m value. Inr (Broke m pa (of_nat (i_rt i)) (lwl_merge (tmp AND 3) value (pending_value m (i_rt i))))))"
  by (simp add: execute_def exec_div_jump_def exec_load_def exec_unaligned_load_def op_codes Let_def)

lemma word_read:
  assumes "vm_ok c m" "0 \<le> sint a" "vbyte c m (sint a) \<noteq> None"
  obtains m' bs where "ReadMem c h m (a - (a AND 3)) 4 = Inr (Some (un_le32 bs), m')" "length bs = 4" "registers m' = registers m"
    "\<forall>i < 4. vbyte c m (sint a - sint a mod 4 + int i) = Some (bs ! i)" "vm_ok c m'" "vbyte c m' = vbyte c m"
    "vwritable c m' = vwritable c m"
proof -
  have a: "0 \<le> sint (a - (a AND 3))" "sint (a - (a AND 3)) mod 4 = 0" "vbyte c m (sint (a - (a AND 3))) \<noteq> None"
    unfolding align_down(1) [OF assms(2)] using assms(2) word_in_vbyte [OF assms(3)] zmod_le_nonneg_dividend [of "sint a" 4]
    by (simp_all add: mod_diff_right_eq)
  obtain m' bs where "ReadMem c h m (a - (a AND 3)) 4 = Inr (Some (un_le32 bs), m')" "length bs = 4"
    "\<forall>i < 4. vbyte c m (sint a - sint a mod 4 + int i) = Some (bs ! i)" "vm_ok c m'" "vbyte c m' = vbyte c m"
    "vwritable c m' = vwritable c m"
    using vm.rd_law [OF assms(1) a, where h = h] unfolding align_down(1) [OF assms(2)] by blast
  then show thesis using that ReadMem_Inr by (metis option.distinct(1))
qed

text \<open>Registers do not matter to the memory.\<close>

lemma vm_registers: "vbyte c (m\<lparr>registers := r\<rparr>) = vbyte c m" "vwritable c (m\<lparr>registers := r\<rparr>) = vwritable c m"
  "length r = NumTotalRegs \<Longrightarrow> vm_ok c m \<Longrightarrow> vm_ok c (m\<lparr>registers := r\<rparr>)"
proof -
  have v: "view c (m\<lparr>registers := r\<rparr>) = view c m" by (rule ext) (simp add: view_def split: option.split)
  show "vbyte c (m\<lparr>registers := r\<rparr>) = vbyte c m" "vwritable c (m\<lparr>registers := r\<rparr>) = vwritable c m"
    by (rule ext, simp add: vbyte_def vwritable_def v split: option.split)+
  show "length r = NumTotalRegs \<Longrightarrow> vm_ok c m \<Longrightarrow> vm_ok c (m\<lparr>registers := r\<rparr>)"
    by (auto simp: vm_ok_def no_alias_def v machine_wf_def)
qed

text \<open>An unaligned load that starts with no load in progress for another register than its target.\<close>

lemma retire_load:
  assumes "length (registers m) = NumTotalRegs" "unat (reg m LoadReg) < 32" "rt < 32"
  obtains r where "retire m pa (of_nat rt) v = Inr (m\<lparr>registers := r\<rparr>)" "length r = NumTotalRegs" "r ! LoadReg = of_nat rt"
    "r ! LoadValueReg = v" "\<forall>i < 32. i \<noteq> 0 \<longrightarrow> i \<noteq> unat (reg m LoadReg) \<longrightarrow> r ! i = reg m i" "r ! 0 = 0"
    "r ! unat (reg m LoadReg) = (if reg m LoadReg = 0 then 0 else reg m LoadValueReg)"
proof
  let ?r = "(registers m)[unat (reg m LoadReg) := reg m LoadValueReg, LoadReg := of_nat rt, LoadValueReg := v, 0 := 0,
    PrevPCReg := reg m PCReg, PCReg := reg m NextPCReg, NextPCReg := pa]"
  have "sint (registers m ! LoadReg) = int (unat (reg m LoadReg))" using assms(2) sint_small by (simp add: reg_def)
  then show "retire m pa (of_nat rt) v = Inr (m\<lparr>registers := ?r\<rparr>)"
    using assms by (simp add: retire_def DelayedLoad_def Let_def set_reg_def reg_def reg_consts del: of_nat_unat)
  show "length ?r = NumTotalRegs" "?r ! LoadReg = of_nat rt" "?r ! LoadValueReg = v" "?r ! 0 = 0"
    using assms by (simp_all add: reg_consts)
  show "\<forall>i < 32. i \<noteq> 0 \<longrightarrow> i \<noteq> unat (reg m LoadReg) \<longrightarrow> ?r ! i = reg m i"
    using assms by (auto simp: reg_consts reg_def nth_list_update)
  show "?r ! unat (reg m LoadReg) = (if reg m LoadReg = 0 then 0 else reg m LoadValueReg)"
    using assms by (auto simp: reg_consts reg_def nth_list_update unat_eq_zero)
qed

lemma unaligned_load_value:
  assumes a: "0 \<le> sint a" "sint a + 3 < 2 ^ 31" and bs: "length bs = 4" "\<forall>k < 4. mem (sint a + int k) = Some (bs ! k)"
    and w0: "length xs = 4" "\<forall>i < 4. mem (sint a - sint a mod 4 + int i) = Some (xs ! i)"
    and w1: "length ys = 4" "\<forall>i < 4. mem (sint (a + 3) - sint (a + 3) mod 4 + int i) = Some (ys ! i)"
  shows "lwl_merge ((a + 3) AND 3) (un_le32 ys) (lwr_merge (a AND 3) (un_le32 xs) old) = un_le32 bs"
proof -
  have a3: "sint (a + 3) = sint a + 3"
  proof -
    have "is_int32 (sint a + 3)" using a by (simp add: is_int32_def)
    moreover have "a + 3 = word_of_int (sint a + 3)" by simp
    ultimately show ?thesis by (metis sint_word_of_int32)
  qed
  obtain x0 x1 x2 x3 y0 y1 y2 y3 b0 b1 b2 b3 where l: "xs = [x0, x1, x2, x3]" "ys = [y0, y1, y2, y3]" "bs = [b0, b1, b2, b3]"
    using w0(1) w1(1) bs(1) by (auto simp: length_Suc_conv numeral_eq_Suc)
  define A where "A = sint a - sint a mod 4"
  have bsk: "mem (sint a) = Some b0" "mem (sint a + 1) = Some b1" "mem (sint a + 2) = Some b2" "mem (sint a + 3) = Some b3"
    using bs(2) unfolding l by (auto simp: numeral_eq_Suc less_Suc_eq)
  have xsk: "mem A = Some x0" "mem (A + 1) = Some x1" "mem (A + 2) = Some x2" "mem (A + 3) = Some x3"
    using w0(2) unfolding l A_def by (auto simp: numeral_eq_Suc less_Suc_eq)
  define q where "q = sint a mod 4"
  have A: "A mod 4 = 0" "sint a = A + q" by (simp_all add: A_def q_def mod_diff_right_eq)
  have m3: "sint (a + 3) mod 4 = (q + 3) mod 4" unfolding a3 q_def by presburger
  have "sint a + 3 - (q + 3) mod 4 = A + q + 3 - (q + 3) mod 4" using A(2) by simp
  then have ysk: "mem (A + q + 3 - (q + 3) mod 4) = Some y0" "mem (A + q + 4 - (q + 3) mod 4) = Some y1"
    "mem (A + q + 5 - (q + 3) mod 4) = Some y2" "mem (A + q + 6 - (q + 3) mod 4) = Some y3"
    using w1(2) [rule_format, of 0] w1(2) [rule_format, of 1] w1(2) [rule_format, of 2] w1(2) [rule_format, of 3]
    unfolding a3 m3 [unfolded a3] l
    by (simp_all add: algebra_simps)
  have and3: "a AND 3 = word_of_int q" "(a + 3) AND 3 = word_of_int ((q + 3) mod 4)"
    using align_down(2) [of a] align_down(2) [of "a + 3"] a(1) a3 m3 by (simp_all add: q_def)
  have "q = 0 \<or> q = 1 \<or> q = 2 \<or> q = 3" unfolding q_def by presburger
  then show ?thesis
    by (elim disjE) (use bsk xsk ysk A(2) in \<open>simp_all add: l and3 unaligned_load_bytes algebra_simps del: un_le32.simps\<close>)
qed

section \<open>Properties\<close>

text \<open>
  C34: Multiplication. The shift-and-add routine \<^verbatim>\<open>Mult\<close>, with its carry between two 32-bit words, its early exit and its
  sign correction, returns the high and low word of the 64-bit product: of the signed values of its arguments for \<^verbatim>\<open>MULT\<close>,
  and of the unsigned values for \<^verbatim>\<open>MULTU\<close>.
\<close>

theorem mult_computes_product:
  "(case Mult a b True of (hi, lo) \<Rightarrow> sint (double_word hi lo) = sint a * sint b)
   \<and> (case Mult a b False of (hi, lo) \<Rightarrow> uint (double_word hi lo) = uint a * uint b)"
proof
  obtain hi lo where s: "Mult a b True = (hi, lo)" by fastforce
  have "\<bar>sint a\<bar> \<le> 2 ^ 31" "\<bar>sint b\<bar> \<le> 2 ^ 31" using sint_range [of a] sint_range [of b] by auto
  then have "\<bar>sint a\<bar> * \<bar>sint b\<bar> \<le> 2 ^ 31 * 2 ^ 31" by (intro mult_mono) simp_all
  then have "- (2 ^ 63) \<le> sint a * sint b" "sint a * sint b < 2 ^ 63" unfolding abs_mult [symmetric] by simp_all
  then have "sint (word_of_int (sint a * sint b) :: 64 word) = sint a * sint b"
    unfolding sint_sbintrunc' by (intro signed_take_bit_int_eq_self) simp_all
  then show "case Mult a b True of (hi, lo) \<Rightarrow> sint (double_word hi lo) = sint a * sint b"
    using Mult_product [OF s] s by simp
  obtain hi' lo' where u: "Mult a b False = (hi', lo')" by fastforce
  have "uint a < 2 ^ 32" "uint b < 2 ^ 32" using unsigned_less [of a] unsigned_less [of b] by simp_all
  then have "uint a * uint b < 2 ^ 32 * 2 ^ 32" by (intro mult_strict_mono) simp_all
  then have "uint (word_of_int (uint a * uint b) :: 64 word) = uint a * uint b"
    unfolding uint_word_of_int by (intro mod_pos_pos_trivial) simp_all
  then show "case Mult a b False of (hi, lo) \<Rightarrow> uint (double_word hi lo) = uint a * uint b"
    using Mult_product [OF u] u by simp
qed

text \<open>
  C35: Overflow detection. \<^verbatim>\<open>ADD\<close>, \<^verbatim>\<open>ADDI\<close> and \<^verbatim>\<open>SUB\<close> test the sign bits of their operands and of the wrapped result.
  The tests are exact: the instruction raises \<^verbatim>\<open>OverflowException\<close> if and only if the mathematical
  result does not fit in a 32-bit integer, and otherwise stores exactly that result.
\<close>

theorem overflow_detection_exact:
  "execute c h (i\<lparr>i_opCode := OP_ADD\<rparr>) m pa =
     (let r = sint (reg m (i_rs i)) + sint (reg m (i_rt i)) in
      if is_int32 r then continue (set_reg m (i_rd i) (word_of_int r)) pa else trap h m OverflowException 0)
   \<and> execute c h (i\<lparr>i_opCode := OP_ADDI\<rparr>) m pa =
     (let r = sint (reg m (i_rs i)) + sint (i_extra i) in
      if is_int32 r then continue (set_reg m (i_rt i) (word_of_int r)) pa else trap h m OverflowException 0)
   \<and> execute c h (i\<lparr>i_opCode := OP_SUB\<rparr>) m pa =
     (let r = sint (reg m (i_rs i)) - sint (reg m (i_rt i)) in
      if is_int32 r then continue (set_reg m (i_rd i) (word_of_int r)) pa else trap h m OverflowException 0)"
proof -
  have addi: "is_int32 (sint x + sint y) \<longleftrightarrow> \<not> ((x XOR y) AND SIGN_BIT = 0 \<and> (y XOR (x + y)) AND SIGN_BIT \<noteq> 0)" for x y :: u32
    using add_no_overflow_iff [of y x] by (simp add: add.commute xor.commute)
  have "execute c h (i\<lparr>i_opCode := OP_ADD\<rparr>) m pa =
     (if (reg m (i_rs i) XOR reg m (i_rt i)) AND SIGN_BIT = 0 \<and> (reg m (i_rs i) XOR (reg m (i_rs i) + reg m (i_rt i))) AND SIGN_BIT \<noteq> 0
      then trap h m OverflowException 0 else continue (set_reg m (i_rd i) (reg m (i_rs i) + reg m (i_rt i))) pa)"
    by (simp add: execute_def Let_def)
  moreover have "execute c h (i\<lparr>i_opCode := OP_ADDI\<rparr>) m pa =
     (if (reg m (i_rs i) XOR i_extra i) AND SIGN_BIT = 0 \<and> (i_extra i XOR (reg m (i_rs i) + i_extra i)) AND SIGN_BIT \<noteq> 0
      then trap h m OverflowException 0 else continue (set_reg m (i_rt i) (reg m (i_rs i) + i_extra i)) pa)"
    by (simp add: execute_def Let_def op_codes)
  moreover have "execute c h (i\<lparr>i_opCode := OP_SUB\<rparr>) m pa =
     (if (reg m (i_rs i) XOR reg m (i_rt i)) AND SIGN_BIT \<noteq> 0 \<and> (reg m (i_rs i) XOR (reg m (i_rs i) - reg m (i_rt i))) AND SIGN_BIT \<noteq> 0
      then trap h m OverflowException 0 else continue (set_reg m (i_rd i) (reg m (i_rs i) - reg m (i_rt i))) pa)"
    by (simp add: execute_def exec_div_jump_def exec_load_def exec_unaligned_load_def exec_move_def exec_shift_def op_codes Let_def)
  ultimately show ?thesis
    unfolding Let_def addi [of "reg m (i_rs i)" "i_extra i"] add_no_overflow_iff [of "reg m (i_rs i)" "reg m (i_rt i)"]
      sub_no_overflow_iff [of "reg m (i_rs i)" "reg m (i_rt i)"]
    by simp
qed

text \<open>
  C37: Every instruction word is handled. Whatever 32-bit word is fetched, in whatever state of the machine, decoding gives register
  fields below 32 and an operation whose execution does not end in the default of the switch of \<^verbatim>\<open>OneInstruction\<close>, an assertion failure; so
  no instruction ends there. The codes that decoding replaces or never produces, \<^verbatim>\<open>SPECIAL\<close>, \<^verbatim>\<open>BCOND\<close> and \<^verbatim>\<open>OP_RFE\<close>, have no case:
  executing them does end in the default. The handler of exceptions
  must not itself end in this default; \<open>User_Laws.cased_user_handler\<close> shows it for that of the kernel.
\<close>

theorem decode_is_handled:
  assumes "\<forall>e m. h e m \<noteq> Inl SwitchDefault"
  shows "fields_ok (Decode w) \<and> execute c h (Decode w) m pa \<noteq> Inl SwitchDefault \<and> OneInstruction c h m \<noteq> Inl SwitchDefault
    \<and> (i_opCode i \<in> {SPECIAL, BCOND, OP_RFE} \<longrightarrow> execute c h i m pa = Inl SwitchDefault)"
proof (intro conjI impI)
  have h: "cased (h e m)" for e m using assms by (simp add: cased_def)
  show "OneInstruction c h m \<noteq> Inl SwitchDefault" using OneInstruction_cased [OF h] by (simp add: cased_def)
  show "execute c h (Decode w) m pa \<noteq> Inl SwitchDefault" using execute_cased [OF h Decode_codes] by (simp add: cased_def)
qed (simp_all only: Decode_fields execute_default)

text \<open>The word \<^verbatim>\<open>xor $3, $1, $2\<close>.\<close>

theorem decode_is_handled_witness:
  "i_opCode (Decode 0x00221826) = OP_XOR \<and> execute rpt_config (\<lambda>e. Inr) (Decode 0x00221826) sample_machine 8 \<noteq> Inl SwitchDefault
   \<and> OneInstruction rpt_config (\<lambda>e. Inr) sample_machine \<noteq> Inl SwitchDefault"
proof -
  have "i_opCode (Decode 0x00221826) = OP_XOR" by (simp add: Decode_def opTable_def specialTable_def Let_def SPECIAL_def)
  then show ?thesis using decode_is_handled [of "\<lambda>e. Inr" "0x00221826" rpt_config sample_machine 8] by simp
qed

text \<open>
  C36: Unaligned words. The two-instruction sequence \<^verbatim>\<open>LWR rt, n(rs)\<close> and \<^verbatim>\<open>LWL rt, n+3(rs)\<close> loads the four bytes at
  any address, aligned or not, in one or two words of memory and possibly in two pages: with the load of the first in
  progress when the second executes, the value on its way to \<^verbatim>\<open>rt\<close> is the little-endian word at that
  address, and memory is unchanged.
\<close>

theorem unaligned_word_load:
  assumes "vm_ok c m" "cpu_ok m" "reg m LoadReg = 0"
    and "i_opCode lwr = OP_LWR" "i_opCode lwl = OP_LWL" "i_rs lwl = i_rs lwr" "i_rt lwl = i_rt lwr" "i_extra lwl = i_extra lwr + 3"
    and "fields_ok lwr" "a = reg m (i_rs lwr) + i_extra lwr" "0 \<le> sint a" "sint a + 3 < 2 ^ 31"
    and "length bs = 4" "\<forall>k < 4. vbyte c m (sint a + int k) = Some (bs ! k)"
  shows "\<exists>m1 m2. instruction_body c h lwr m = Inr m1 \<and> instruction_body c h lwl m1 = Inr m2
    \<and> reg m2 LoadReg = of_nat (i_rt lwr) \<and> reg m2 LoadValueReg = un_le32 bs \<and> vbyte c m2 = vbyte c m"
proof -
  have b: "vbyte c m (sint a) \<noteq> None" using assms(14) [rule_format, of 0] by simp
  obtain m1 xs where m1: "ReadMem c h m (a - (a AND 3)) 4 = Inr (Some (un_le32 xs), m1)" "length xs = 4" "registers m1 = registers m"
    "\<forall>i < 4. vbyte c m (sint a - sint a mod 4 + int i) = Some (xs ! i)" "vm_ok c m1" "vbyte c m1 = vbyte c m"
    using word_read [OF assms(1,11) b, of h] by metis
  define v where "v = lwr_merge (a AND 3) (un_le32 xs) (pending_value m1 (i_rt lwr))"
  have l1: "length (registers m1) = NumTotalRegs" "unat (reg m1 LoadReg) < 32" "i_rt lwr < 32"
    using assms(2,9) m1(3) by (simp_all add: cpu_ok_def reg_def fields_ok_def)
  obtain r where r: "retire m1 (reg m NextPCReg + 4) (of_nat (i_rt lwr)) v = Inr (m1\<lparr>registers := r\<rparr>)" "length r = NumTotalRegs"
    "r ! LoadReg = of_nat (i_rt lwr)" "r ! LoadValueReg = v" "\<forall>i < 32. i \<noteq> 0 \<longrightarrow> i \<noteq> unat (reg m1 LoadReg) \<longrightarrow> r ! i = reg m1 i" "r ! 0 = 0"
    using retire_load [OF l1, of "reg m NextPCReg + 4" v] by metis
  define m1' where "m1' = m1\<lparr>registers := r\<rparr>"
  have e1: "instruction_body c h lwr m = Inr m1'"
    using m1(1) r(1) assms(4,10) by (simp add: instruction_body_def execute_LWR load_def Let_def v_def m1'_def)
  have rs: "reg m1' (i_rs lwr) = reg m (i_rs lwr)"
    using r(5,6) assms(2,3,9) m1(3) by (cases "i_rs lwr = 0") (simp_all add: m1'_def reg_def cpu_ok_def fields_ok_def)
  have vm1: "vm_ok c m1'" "vbyte c m1' = vbyte c m" using vm_registers r(2) m1(5,6) by (simp_all add: m1'_def)
  have a3: "sint (a + 3) = sint a + 3"
    using assms(11,12) sint_word_of_int32 [of "sint a + 3"] by (simp add: is_int32_def)
  have b3: "vbyte c m1' (sint (a + 3)) \<noteq> None" "0 \<le> sint (a + 3)"
    using assms(11) assms(14) [rule_format, of 3] vm1(2) a3 by simp_all
  obtain m2 ys where m2: "ReadMem c h m1' (a + 3 - ((a + 3) AND 3)) 4 = Inr (Some (un_le32 ys), m2)" "length ys = 4" "registers m2 = registers m1'"
    "\<forall>i < 4. vbyte c m1' (sint (a + 3) - sint (a + 3) mod 4 + int i) = Some (ys ! i)" "vbyte c m2 = vbyte c m1'"
    using word_read [OF vm1(1) b3(2,1), of h] by metis
  have m2r: "registers m2 = r" using m2(3) by (simp add: m1'_def)
  have p: "pending_value m2 (i_rt lwr) = v" using m2r r(3,4) by (simp add: pending_value_def reg_def)
  have val: "lwl_merge ((a + 3) AND 3) (un_le32 ys) v = un_le32 bs"
    unfolding v_def by (rule unaligned_load_value [OF assms(11-14) m1(2,4) m2(2) m2(4) [unfolded vm1(2)]])
  have l2: "length (registers m2) = NumTotalRegs" "unat (reg m2 LoadReg) < 32" "i_rt lwr < 32"
    using r(2,3) m2r l1(3) field_bounds(7) [OF assms(9)] by (simp_all add: reg_def)
  obtain r' where r': "retire m2 (reg m1' NextPCReg + 4) (of_nat (i_rt lwr)) (un_le32 bs) = Inr (m2\<lparr>registers := r'\<rparr>)"
    "r' ! LoadReg = of_nat (i_rt lwr)" "r' ! LoadValueReg = un_le32 bs"
    using retire_load [OF l2, of "reg m1' NextPCReg + 4" "un_le32 bs"] by metis
  have "instruction_body c h lwl m1' = Inr (m2\<lparr>registers := r'\<rparr>)"
    using m2(1) r'(1) assms(5-8,10) rs p val by (simp add: instruction_body_def execute_LWL load_def Let_def add.assoc)
  then show ?thesis using e1 r'(2,3) m2(5) vm1(2) vm_registers by (auto simp: reg_def)
qed


definition sample_load :: "int \<Rightarrow> u32 \<Rightarrow> instruction" where
  "sample_load opc n = \<lparr>i_value = 0, i_opCode = opc, i_rs = 0, i_rt = 7, i_rd = 0, i_extra = n\<rparr>"

theorem unaligned_word_load_witness:
  "\<forall>h. \<exists>m1 m2. instruction_body rpt_config h (sample_load OP_LWR 5) sample_machine = Inr m1
    \<and> instruction_body rpt_config h (sample_load OP_LWL 8) m1 = Inr m2 \<and> reg m2 LoadReg = 7 \<and> reg m2 LoadValueReg = 0"
proof
  fix h
  have b: "\<forall>k < 4. vbyte rpt_config sample_machine (sint (5 :: u32) + int k) = Some ([0, 0, 0, 0] ! k)"
  proof (intro allI impI)
    fix k :: nat assume "k < 4"
    then have "(5 + int k) div 128 = 0" "(5 + int k) mod 128 = 5 + int k" "[0, 0, 0, 0 :: byte] ! k = 0"
      by (auto simp: less_Suc_eq numeral_eq_Suc)
    then show "vbyte rpt_config sample_machine (sint (5 :: u32) + int k) = Some ([0, 0, 0, 0] ! k)"
      using sample_view_0 \<open>k < 4\<close> by (simp add: vbyte_def machine_consts sample_machine_def)
  qed
  have c: "cpu_ok sample_machine" "reg sample_machine LoadReg = 0" "reg sample_machine 0 = 0"
    by (simp_all add: cpu_ok_def sample_machine_def reg_def reg_consts)
  show "\<exists>m1 m2. instruction_body rpt_config h (sample_load OP_LWR 5) sample_machine = Inr m1
    \<and> instruction_body rpt_config h (sample_load OP_LWL 8) m1 = Inr m2 \<and> reg m2 LoadReg = 7 \<and> reg m2 LoadValueReg = 0"
    using unaligned_word_load [OF sample_vm_ok c(1,2), of "sample_load OP_LWR 5" "sample_load OP_LWL 8" 5 "[0, 0, 0, 0]" h] b c(3)
    by (auto simp: sample_load_def fields_ok_def)
qed

text \<open>
  C38: Instructions are restartable, and otherwise complete. When an instruction ends in an exception, during its fetch or
  later, \<^verbatim>\<open>RaiseException\<close> is entered with the registers that the instruction started with, the program counters included,
  so the kernel can resolve the fault and execute it again. Otherwise the program counter has moved to
  the next instruction.
\<close>

theorem instruction_restartable:
  assumes "cpu_ok m" "OneInstruction c h m = Inr m'"
  shows "(\<exists>m1 e bad. registers m1 = registers m \<and> RaiseException h m1 e bad = Inr m')
    \<or> reg m' PCReg = reg m NextPCReg \<and> reg m' PrevPCReg = reg m PCReg"
  using assms by (cases rule: OneInstruction_cases) (auto simp: trapped_def)

text \<open>A machine about to fetch from a misaligned address, with a kernel that does nothing.\<close>

definition trap_sample :: machine where
  "trap_sample = sample_machine\<lparr>registers := (replicate NumTotalRegs 0)[PCReg := 2]\<rparr>"

lemma trap_sample_ok: "cpu_ok trap_sample"
  by (simp add: cpu_ok_def trap_sample_def reg_def reg_consts)

lemma trap_sample_traps: "\<exists>m'. OneInstruction rpt_config (\<lambda>e m. Inr m) trap_sample = Inr m'"
  by (simp add: OneInstruction_def ReadMem_def Translate_def trap_sample_def sample_machine_def reg_def reg_consts RaiseException_def
    DelayedLoad_def Let_def awrite_def)

theorem instruction_restartable_witness:
  "\<exists>m'. OneInstruction rpt_config (\<lambda>e m. Inr m) trap_sample = Inr m'
    \<and> ((\<exists>m1 e bad. registers m1 = registers trap_sample \<and> RaiseException (\<lambda>e m. Inr m) m1 e bad = Inr m')
       \<or> reg m' PCReg = reg trap_sample NextPCReg \<and> reg m' PrevPCReg = reg trap_sample PCReg)"
  using trap_sample_traps instruction_restartable [OF trap_sample_ok] by blast

text \<open>
  C15: The invariant of the processor. Forty registers, a load in progress only to a register below 32, and register 0 equal
  to zero: every instruction keeps this, whether it completes or traps, for every kernel
  that keeps it.
\<close>

theorem instruction_keeps_cpu:
  assumes "\<And>e m m'. cpu_ok m \<Longrightarrow> h e m = Inr m' \<Longrightarrow> cpu_ok m'" "cpu_ok m" "OneInstruction c h m = Inr m'"
  shows "cpu_ok m'"
  using assms(2,3)
proof (cases rule: OneInstruction_cases)
  case 1
  with assms(1,2) show ?thesis by (rule trapped_keeps)
qed

theorem instruction_keeps_cpu_witness:
  "\<exists>m'. OneInstruction rpt_config (\<lambda>e m. Inr m) trap_sample = Inr m' \<and> cpu_ok m'"
  using trap_sample_traps instruction_keeps_cpu [of "\<lambda>e m. Inr m", OF _ trap_sample_ok] by auto

end
