(* ===== verification/Thread_Laws.thy ===== *)
theory Thread_Laws
  imports Kernel_Run
begin

text \<open>
  The invariant of the scheduler and its proof. \<open>kview\<close> is what the invariant speaks about: the
  status and the stack of every thread, the ready threads as a multiset whatever queues the policy keeps them in,
  the blocked list, the current thread, the thread to be destroyed and the queues of the semaphores.
  The operations of \<^verbatim>\<open>scheduler.cc\<close>, \<^verbatim>\<open>thread.cc\<close> and \<^verbatim>\<open>synch.cc\<close> are first characterised by what they do to
  this view.
\<close>

section \<open>The scheduler's view of the kernel\<close>

record view =
  v_st :: "addr \<Rightarrow> thread_status option"
  v_fr :: "addr \<Rightarrow> frame list"
  v_rd :: "addr multiset"
  v_bl :: "addr list"
  v_cur :: addr
  v_tbd :: "addr option"
  v_qs :: "addr \<Rightarrow> addr list"
  v_val :: "addr \<Rightarrow> int"

definition kview :: "kernel \<Rightarrow> view" where
  "kview k =
     \<lparr>v_st = (\<lambda>a. map_option t_status (k_threads k a)),
      v_fr = (\<lambda>a. case k_threads k a of None \<Rightarrow> [] | Some t \<Rightarrow> t_frames t),
      v_rd = mset (k_readyList k) + mset (k_sortedReadyList k) + mset (concat (k_threadArrQueue k)),
      v_bl = k_blockList k, v_cur = k_current k, v_tbd = k_toBeDestroyed k,
      v_qs = (\<lambda>s. case k_sems k s of None \<Rightarrow> [] | Some x \<Rightarrow> s_queue x),
      v_val = (\<lambda>s. case k_sems k s of None \<Rightarrow> 0 | Some x \<Rightarrow> s_value x)\<rparr>"

lemma kview_simps [simp]:
  "kview (k\<lparr>k_machine := m\<rparr>) = kview k" "kview (k\<lparr>k_level := lv\<rparr>) = kview k" "kview (k\<lparr>k_pending := p\<rparr>) = kview k"
  "kview (k\<lparr>k_inHandler := b\<rparr>) = kview k" "kview (k\<lparr>k_yieldOnReturn := b\<rparr>) = kview k" "kview (k\<lparr>k_locks := ls\<rparr>) = kview k"
  "kview (k\<lparr>k_conds := cs\<rparr>) = kview k" "kview (k\<lparr>k_freshSem := n\<rparr>) = kview k" "kview (k\<lparr>k_random := r\<rparr>) = kview k"
  "kview (k\<lparr>k_halted := b\<rparr>) = kview k" "kview (k\<lparr>k_threadArray := arr\<rparr>) = kview k"
  "kview (k\<lparr>k_blockList := bl\<rparr>) = (kview k)\<lparr>v_bl := bl\<rparr>" "kview (k\<lparr>k_toBeDestroyed := d\<rparr>) = (kview k)\<lparr>v_tbd := d\<rparr>"
  "kview (k\<lparr>k_current := a\<rparr>) = (kview k)\<lparr>v_cur := a\<rparr>"
  "v_cur (kview k) = k_current k" "v_tbd (kview k) = k_toBeDestroyed k" "v_bl (kview k) = k_blockList k"
  by (simp_all add: kview_def)

lemma kview_state [simp]:
  "kview (ChangeLevel k lv) = kview k" "kview (setStatus k ms) = kview k" "kview (set_stats k sts) = kview k"
  "kview (put_lock k l x) = kview k" "kview (put_cond k cv y) = kview k"
  by (simp_all add: ChangeLevel_def setStatus_def set_stats_def put_lock_def put_cond_def)

lemma current_state [simp]:
  "k_current (ChangeLevel k lv) = k_current k" "k_current (setStatus k ms) = k_current k" "k_current (set_stats k sts) = k_current k"
  "k_current (put_lock k l x) = k_current k" "k_current (put_cond k cv y) = k_current k" "k_current (put_sem k s z) = k_current k"
  "k_typeno (ChangeLevel k lv) = k_typeno k" "k_typeno (setStatus k ms) = k_typeno k" "k_typeno (set_stats k sts) = k_typeno k"
  "k_typeno (put_lock k l x) = k_typeno k" "k_typeno (put_cond k cv y) = k_typeno k" "k_typeno (put_sem k s z) = k_typeno k"
  by (simp_all add: ChangeLevel_def setStatus_def set_stats_def put_lock_def put_cond_def put_sem_def)

lemma kview_put_sem:
  "kview (put_sem k s x) = (kview k)\<lparr>v_qs := (v_qs (kview k))(s := s_queue x), v_val := (v_val (kview k))(s := s_value x)\<rparr>"
  by (auto simp: kview_def put_sem_def)

lemma v_st_thread: "k_threads k a = Some t \<Longrightarrow> v_st (kview k) a = Some (t_status t)"
  by (simp add: kview_def)

lemma v_fr_thread: "k_threads k a = Some t \<Longrightarrow> v_fr (kview k) a = t_frames t"
  by (simp add: kview_def)

lemma get_thread_Inr: "get_thread k a = Inr t \<longleftrightarrow> k_threads k a = Some t"
  by (simp add: get_thread_def split: option.splits)

lemma get_sem_Inr: "get_sem k s = Inr x \<longleftrightarrow> k_sems k s = Some x"
  by (simp add: get_sem_def split: option.splits)

lemma v_qs_sem: "k_sems k s = Some x \<Longrightarrow> v_qs (kview k) s = s_queue x"
  by (simp add: kview_def)

lemma v_val_sem: "k_sems k s = Some x \<Longrightarrow> v_val (kview k) s = s_value x"
  by (simp add: kview_def)

text \<open>An update of a thread, through its status and its stack.\<close>

lemma upd_thread_Inr:
  assumes "upd_thread k a f = Inr k'"
  obtains t where "k_threads k a = Some t" "k' = k\<lparr>k_threads := (k_threads k)(a \<mapsto> f t)\<rparr>"
  using assms by (auto simp: upd_thread_def rbind_Inr_iff get_thread_Inr)

lemma kview_upd:
  assumes "k_threads k a = Some t"
  shows "kview (k\<lparr>k_threads := (k_threads k)(a \<mapsto> t')\<rparr>) =
    (kview k)\<lparr>v_st := (v_st (kview k))(a := Some (t_status t')), v_fr := (v_fr (kview k))(a := t_frames t')\<rparr>"
  using assms by (auto simp: kview_def)

lemma kview_upd_same:
  assumes "k_threads k a = Some t" "t_status t' = t_status t" "t_frames t' = t_frames t"
  shows "kview (k\<lparr>k_threads := (k_threads k)(a \<mapsto> t')\<rparr>) = kview k"
proof -
  have "(v_st (kview k))(a := Some (t_status t')) = v_st (kview k)" "(v_fr (kview k))(a := t_frames t') = v_fr (kview k)"
    using assms by (auto simp: kview_def)
  then show ?thesis unfolding kview_upd [OF assms(1)] by simp
qed

lemma upd_thread_same:
  assumes "upd_thread k a f = Inr k'" "\<And>t. t_status (f t) = t_status t" "\<And>t. t_frames (f t) = t_frames t"
  shows "kview k' = kview k" "k_current k' = k_current k" "k_typeno k' = k_typeno k"
  using assms by (auto elim!: upd_thread_Inr simp: kview_upd_same)

lemma push_view:
  assumes "push fs k = Inr k'"
  shows "kview k' = (kview k)\<lparr>v_fr := (v_fr (kview k))(k_current k := fs @ v_fr (kview k) (k_current k))\<rparr>"
    and "k_current k' = k_current k" "k_typeno k' = k_typeno k"
proof -
  obtain t where t: "k_threads k (k_current k) = Some t" "k' = k\<lparr>k_threads := (k_threads k)(k_current k \<mapsto> t\<lparr>t_frames := fs @ t_frames t\<rparr>)\<rparr>"
    using assms unfolding push_def by (rule upd_thread_Inr)
  have "(v_st (kview k))(k_current k := Some (t_status t)) = v_st (kview k)" using t(1) by (auto simp: kview_def)
  then show "kview k' = (kview k)\<lparr>v_fr := (v_fr (kview k))(k_current k := fs @ v_fr (kview k) (k_current k))\<rparr>"
    unfolding t(2) kview_upd [OF t(1)] using v_fr_thread [OF t(1)] by simp
  show "k_current k' = k_current k" "k_typeno k' = k_typeno k" using t(2) by simp_all
qed

lemma pop_view:
  assumes "pop k = Inr (f, k')"
  obtains fs where "v_fr (kview k) (k_current k) = f # fs"
    "kview k' = (kview k)\<lparr>v_fr := (v_fr (kview k))(k_current k := fs)\<rparr>"
    "k_current k' = k_current k" "k_typeno k' = k_typeno k"
proof -
  obtain t where t: "k_threads k (k_current k) = Some t"
    using assms by (auto simp: pop_def rbind_Inr_iff get_thread_Inr)
  obtain fs where fs: "t_frames t = f # fs" "k' = k\<lparr>k_threads := (k_threads k)(k_current k \<mapsto> t\<lparr>t_frames := fs\<rparr>)\<rparr>"
    using assms t by (cases "t_frames t") (auto simp: pop_def get_thread_def rbind_Inr_iff elim!: upd_thread_Inr)
  have "(v_st (kview k))(k_current k := Some (t_status t)) = v_st (kview k)" using t by (auto simp: kview_def)
  then have "kview k' = (kview k)\<lparr>v_fr := (v_fr (kview k))(k_current k := fs)\<rparr>"
    unfolding fs(2) kview_upd [OF t] by simp
  then show thesis using that [of fs] v_fr_thread [OF t] fs by simp
qed

section \<open>Queues\<close>

lemma mset_concat_update: "i < length qs \<Longrightarrow> mset (concat (qs[i := q])) + mset (qs ! i) = mset (concat qs) + mset q"
  by (induction qs arbitrary: i) (auto split: nat.split simp: less_Suc_eq_0_disj)

lemma mset_concat_append: "i < length qs \<Longrightarrow> mset (concat (qs[i := qs ! i @ [a]])) = add_mset a (mset (concat qs))"
  using mset_concat_update [of i qs "qs ! i @ [a]"] by simp

definition policy_ok :: "kernel \<Rightarrow> bool" where
  "policy_ok k \<longleftrightarrow> k_typeno k \<in> {0, 1, 2, 3}"

lemma enqueue_ready_view:
  assumes "enqueue_ready k a = Inr k'" "policy_ok k"
  shows "kview k' = (kview k)\<lparr>v_rd := add_mset a (v_rd (kview k))\<rparr>" "k_current k' = k_current k" "k_typeno k' = k_typeno k"
proof -
  consider "k_typeno k = 0" | "k_typeno k = 1" | "k_typeno k = 2" | "k_typeno k = 3" using assms(2) by (auto simp: policy_ok_def)
  then have "kview k' = (kview k)\<lparr>v_rd := add_mset a (v_rd (kview k))\<rparr> \<and> k_current k' = k_current k \<and> k_typeno k' = k_typeno k"
  proof cases
    case 1
    then show ?thesis using assms(1) by (auto simp: enqueue_ready_def al_Append_def nachos_res kview_def)
  next
    case 2
    then show ?thesis using assms(1) by (auto simp: enqueue_ready_def al_Insert_def nachos_res kview_def mset_insert_before)
  next
    case 3
    obtain k1 where u: "upd_thread k a (\<lambda>t. t\<lparr>t_timeSliceRemain := timeSlice\<rparr>) = Inr k1" "k' = k1\<lparr>k_readyList := k_readyList k1 @ [a]\<rparr>"
      using assms(1) 3 by (auto simp: enqueue_ready_def al_Append_def nachos_res)
    have e: "kview k' = (kview k1)\<lparr>v_rd := add_mset a (v_rd (kview k1))\<rparr>" by (simp add: u(2) kview_def)
    show ?thesis unfolding e using upd_thread_same [OF u(1)] u(2) by simp
  next
    case 4
    obtain p k1 f where u: "upd_thread k a f = Inr k1" "0 \<le> p" "p < int (length (k_threadArrQueue k1))"
        "k' = k1\<lparr>k_threadArrQueue := (k_threadArrQueue k1)[nat p := k_threadArrQueue k1 ! nat p @ [a]]\<rparr>"
        "\<And>t. t_status (f t) = t_status t" "\<And>t. t_frames (f t) = t_frames t"
      using assms(1) 4 by (auto simp: enqueue_ready_def al_Append_def nachos_res Let_def)
    have e: "kview k' = (kview k1)\<lparr>v_rd := add_mset a (v_rd (kview k1))\<rparr>"
      using u(2,3) mset_concat_append [of "nat p" "k_threadArrQueue k1" a] by (simp add: u(4) kview_def)
    show ?thesis unfolding e using upd_thread_same [OF u(1,5,6)] u(4) by simp
  qed
  then show "kview k' = (kview k)\<lparr>v_rd := add_mset a (v_rd (kview k))\<rparr>" "k_current k' = k_current k" "k_typeno k' = k_typeno k" by auto
qed

lemma ReadyToRun_view:
  assumes "ReadyToRun k a = Inr k'" "policy_ok k"
  shows "kview k' = (kview k)\<lparr>v_bl := remove1 a (k_blockList k), v_st := (v_st (kview k))(a := Some READY), v_rd := add_mset a (v_rd (kview k))\<rparr>"
    "k_current k' = k_current k" "k_typeno k' = k_typeno k" "v_st (kview k) a \<noteq> None"
proof -
  let ?k = "k\<lparr>k_blockList := remove1 a (k_blockList k)\<rparr>"
  have "remove1 a (k_blockList k) = k_blockList k" if "a \<notin> set (k_blockList k)" using that by (rule remove1_idem)
  then obtain k1 where k1: "upd_thread ?k a (\<lambda>t. t\<lparr>t_status := READY\<rparr>) = Inr k1" "enqueue_ready k1 a = Inr k'"
    using assms(1) by (cases "a \<in> set (k_blockList k)") (auto simp: ReadyToRun_def al_Remove_def nachos_res)
  obtain t where t: "k_threads ?k a = Some t" "k1 = ?k\<lparr>k_threads := (k_threads ?k)(a \<mapsto> t\<lparr>t_status := READY\<rparr>)\<rparr>"
    using k1(1) by (rule upd_thread_Inr)
  have p: "policy_ok k1" using assms(2) t(2) by (simp add: policy_ok_def)
  have f: "(v_fr (kview k))(a := t_frames t) = v_fr (kview k)" using t(1) by (auto simp: kview_def)
  have v1: "kview k1 = (kview k)\<lparr>v_bl := remove1 a (k_blockList k), v_st := (v_st (kview k))(a := Some READY)\<rparr>"
    unfolding t(2) kview_upd [OF t(1)] using f by simp
  show "kview k' = (kview k)\<lparr>v_bl := remove1 a (k_blockList k), v_st := (v_st (kview k))(a := Some READY), v_rd := add_mset a (v_rd (kview k))\<rparr>"
    unfolding enqueue_ready_view(1) [OF k1(2) p] v1 by simp
  show "k_current k' = k_current k" "k_typeno k' = k_typeno k" using enqueue_ready_view(2,3) [OF k1(2) p] t(2) by simp_all
  show "v_st (kview k) a \<noteq> None" using t(1) by (simp add: kview_def)
qed

lemma find_queue_mset: "find_queue qs = Some (a, qs') \<Longrightarrow> mset (concat qs) = add_mset a (mset (concat qs'))"
  by (induction qs arbitrary: qs' rule: find_queue.induct) auto

lemma find_queue_in: "find_queue qs = Some (a, qs') \<Longrightarrow> \<exists>q \<in> set qs. a \<in> set q"
  by (induction qs arbitrary: qs' rule: find_queue.induct) auto

lemma FindNextToRun_view:
  assumes "FindNextToRun k = Inr (r, k')"
  shows "case r of None \<Rightarrow> k' = k
    | Some n \<Rightarrow> n \<in># v_rd (kview k) \<and> kview k' = (kview k)\<lparr>v_rd := v_rd (kview k) - {#n#}\<rparr>"
    and "k_current k' = k_current k" "k_typeno k' = k_typeno k"
  using assms
  by (auto simp: FindNextToRun_def nachos_res kview_def split: if_splits list.splits option.splits dest: find_queue_mset find_queue_in)


section \<open>The invariant\<close>

definition no_sleep :: "frame list \<Rightarrow> bool" where
  "no_sleep fs \<longleftrightarrow> Sleep_loop True \<notin> set fs \<and> Sleep_loop False \<notin> set fs"

text \<open>A thread in the loop of \<^verbatim>\<open>P\<close> that has gone to sleep.\<close>

definition waits :: "frame list \<Rightarrow> addr \<Rightarrow> bool" where
  "waits fs s \<longleftrightarrow> (\<exists>f old gs. fs = f # P_loop s old # gs \<and> (f = after_SWITCH \<or> f = Sleep_loop False))"

text \<open>The current thread is running, or it is in the loop of \<^verbatim>\<open>Sleep\<close> with nothing to run yet.\<close>

definition cur_ok :: "view \<Rightarrow> bool" where
  "cur_ok v \<longleftrightarrow>
     v_st v (v_cur v) = Some RUNNING \<and> no_sleep (v_fr v (v_cur v))
     \<or> (\<exists>fin fs. v_fr v (v_cur v) = Sleep_loop fin # fs \<and> no_sleep fs
          \<and> (v_st v (v_cur v) = Some BLOCKED \<or> v_st v (v_cur v) = Some READY \<and> \<not> fin)
          \<and> (fin \<longrightarrow> (\<forall>s. v_cur v \<notin> set (v_qs v s))))"

text \<open>
  Every thread is in exactly the place that its status says: a ready thread once on the ready queues and nowhere
  else, a blocked thread on the blocked list; only the current thread runs; the threads in the queue of a semaphore are
  blocked in its \<^verbatim>\<open>P\<close>; a thread to be destroyed is blocked, not current and in no queue.
\<close>

definition ready_ok :: "view \<Rightarrow> bool" where
  "ready_ok v \<longleftrightarrow> (\<forall>a. count (v_rd v) a = (if v_st v a = Some READY then 1 else 0))"

definition blocked_ok :: "view \<Rightarrow> bool" where
  "blocked_ok v \<longleftrightarrow> distinct (v_bl v) \<and> (\<forall>a. v_st v a = Some BLOCKED \<longrightarrow> a \<in> set (v_bl v))
     \<and> (\<forall>a \<in> set (v_bl v). v_st v a = None \<or> v_st v a = Some BLOCKED \<or> v_st v a = Some JUST_CREATED)"

definition others_ok :: "view \<Rightarrow> bool" where
  "others_ok v \<longleftrightarrow> (\<forall>a. a \<noteq> v_cur v \<longrightarrow> v_st v a \<noteq> Some RUNNING \<and> no_sleep (v_fr v a))"

definition destroy_ok :: "view \<Rightarrow> bool" where
  "destroy_ok v \<longleftrightarrow> (case v_tbd v of None \<Rightarrow> True
     | Some d \<Rightarrow> d \<noteq> v_cur v \<and> v_st v d = Some BLOCKED \<and> (\<forall>s. d \<notin> set (v_qs v s)))"

definition queues_ok :: "view \<Rightarrow> bool" where
  "queues_ok v \<longleftrightarrow> (\<forall>s. distinct (v_qs v s)) \<and> (\<forall>s a. a \<in> set (v_qs v s) \<longrightarrow> v_st v a = Some BLOCKED \<and> waits (v_fr v a) s)"

text \<open>
  No wakeup is lost. A thread that is awake in the loop of \<^verbatim>\<open>P\<close> will look at the value again; as long as there are threads in
  the queue of a semaphore, its value is at most the number of such threads. The rest of a call of \<^verbatim>\<open>P\<close> is on top of a
  stack, or just below the frame of the context switch.
\<close>

definition no_loop :: "frame list \<Rightarrow> bool" where
  "no_loop fs \<longleftrightarrow> (\<forall>s old. P_loop s old \<notin> set fs)"

definition loop_at :: "frame list \<Rightarrow> addr \<Rightarrow> bool" where
  "loop_at fs s \<longleftrightarrow> (\<exists>old gs. fs = P_loop s old # gs) \<or> waits fs s"

definition shape :: "frame list \<Rightarrow> bool" where
  "shape fs \<longleftrightarrow> no_loop fs \<or> (\<exists>s old gs. no_loop gs \<and>
     (fs = P_loop s old # gs \<or> fs = after_SWITCH # P_loop s old # gs \<or> fs = Sleep_loop False # P_loop s old # gs))"

definition woken :: "view \<Rightarrow> addr \<Rightarrow> addr set" where
  "woken v s = {a. (v_st v a = Some READY \<or> v_st v a = Some RUNNING) \<and> loop_at (v_fr v a) s}"

definition wake_ok :: "view \<Rightarrow> bool" where
  "wake_ok v \<longleftrightarrow> finite {a. v_st v a \<noteq> None} \<and> (\<forall>a. shape (v_fr v a))
     \<and> (\<forall>s. 0 \<le> v_val v s \<and> (v_qs v s \<noteq> [] \<longrightarrow> v_val v s \<le> int (card (woken v s))))"

definition sched_inv :: "view \<Rightarrow> bool" where
  "sched_inv v \<longleftrightarrow> ready_ok v \<and> blocked_ok v \<and> others_ok v \<and> cur_ok v \<and> destroy_ok v \<and> queues_ok v \<and> wake_ok v"

lemma sched_invI:
  "ready_ok v \<Longrightarrow> blocked_ok v \<Longrightarrow> others_ok v \<Longrightarrow> cur_ok v \<Longrightarrow> destroy_ok v \<Longrightarrow> queues_ok v \<Longrightarrow> wake_ok v \<Longrightarrow> sched_inv v"
  by (simp add: sched_inv_def)

lemma sched_invD:
  assumes "sched_inv v"
  shows "ready_ok v" "blocked_ok v" "others_ok v" "cur_ok v" "destroy_ok v" "queues_ok v" "wake_ok v"
  using assms by (simp_all add: sched_inv_def)

lemma finite_woken: "wake_ok v \<Longrightarrow> finite (woken v s)"
  by (auto simp: wake_ok_def woken_def elim: rev_finite_subset)

text \<open>A change that keeps the threads that are awake in the loop, and the values and queues.\<close>

lemma wake_mono:
  assumes "wake_ok v" "finite {a. v_st v' a \<noteq> None}" "\<And>a. shape (v_fr v' a)" "\<And>s. v_val v' s = v_val v s \<or> v_val v' s = 0"
    and "\<And>s. v_qs v' s \<noteq> [] \<Longrightarrow> v_val v' s = 0 \<or> v_qs v s \<noteq> [] \<and> woken v s \<subseteq> woken v' s"
  shows "wake_ok v'"
  unfolding wake_ok_def
proof (intro conjI allI impI)
  fix s assume q: "v_qs v' s \<noteq> []"
  have f: "finite (woken v' s)" using assms(2) by (auto simp: woken_def elim: rev_finite_subset)
  show "v_val v' s \<le> int (card (woken v' s))"
  proof (cases "v_val v' s = 0")
    case False
    then have s: "v_qs v s \<noteq> []" "woken v s \<subseteq> woken v' s" "v_val v' s = v_val v s" using assms(4) [of s] assms(5) [OF q] by auto
    have "v_val v s \<le> int (card (woken v s))" using assms(1) s(1) by (simp add: wake_ok_def)
    then show ?thesis using card_mono [OF f s(2)] s(3) by simp
  qed simp
next
  show "0 \<le> v_val v' s" for s using assms(1) assms(4) [of s] by (cases "v_val v' s = 0") (auto simp: wake_ok_def)
qed (use assms in simp_all)

lemma ready_iff: "ready_ok v \<Longrightarrow> a \<in># v_rd v \<longleftrightarrow> v_st v a = Some READY"
  by (simp add: ready_ok_def count_greater_zero_iff [symmetric] del: count_greater_zero_iff)

lemma queue_member: "queues_ok v \<Longrightarrow> a \<in> set (v_qs v s) \<Longrightarrow> v_st v a = Some BLOCKED \<and> waits (v_fr v a) s"
  by (simp add: queues_ok_def)

text \<open>The stack of a running thread may change, as long as \<^verbatim>\<open>Sleep\<close> is not entered.\<close>

definition running :: "view \<Rightarrow> bool" where
  "running v \<longleftrightarrow> v_st v (v_cur v) = Some RUNNING"

lemma running_no_sleep: "sched_inv v \<Longrightarrow> running v \<Longrightarrow> no_sleep (v_fr v (v_cur v))"
  using sched_invD(4) [of v] by (auto simp: cur_ok_def running_def)

lemma queue_not_current: "queues_ok v \<Longrightarrow> running v \<Longrightarrow> v_cur v \<notin> set (v_qs v s)"
  using queue_member [of v "v_cur v" s] by (auto simp: running_def)

lemma inv_frames:
  assumes "sched_inv v" "running v" "no_sleep fs" "shape fs" "\<And>s. loop_at (v_fr v (v_cur v)) s \<Longrightarrow> loop_at fs s"
  shows "sched_inv (v\<lparr>v_fr := (v_fr v)(v_cur v := fs)\<rparr>)"
proof -
  note i = sched_invD [OF assms(1)]
  let ?v = "v\<lparr>v_fr := (v_fr v)(v_cur v := fs)\<rparr>"
  have "wake_ok ?v"
    by (rule wake_mono [OF i(7)]) (use i(7) assms(4,5) in \<open>auto simp: wake_ok_def woken_def\<close>)
  then show ?thesis
    using i assms(2,3) queue_not_current [OF i(6) assms(2)]
    by (intro sched_invI) (auto simp: ready_ok_def blocked_ok_def others_ok_def cur_ok_def destroy_ok_def queues_ok_def running_def
      split: option.splits)
qed

text \<open>A thread becomes ready: a new one, or one that a semaphore wakes.\<close>

lemma inv_ready:
  assumes "sched_inv v" "v_st v a = Some JUST_CREATED \<or> v_st v a = Some BLOCKED"
    and q: "\<And>s. a \<notin> set (v_qs v s)" and d: "v_tbd v \<noteq> Some a"
    and c: "v_st v a = Some BLOCKED \<Longrightarrow> a = v_cur v \<Longrightarrow> \<exists>fs. v_fr v a = Sleep_loop False # fs"
  shows "sched_inv (v\<lparr>v_bl := remove1 a (v_bl v), v_st := (v_st v)(a := Some READY), v_rd := add_mset a (v_rd v)\<rparr>)"
    (is "sched_inv ?v")
proof (rule sched_invI)
  note i = sched_invD [OF assms(1)]
  show "ready_ok ?v" using i(1) assms(2) by (auto simp: ready_ok_def)
  show "blocked_ok ?v" using i(2) by (auto simp: blocked_ok_def)
  show "others_ok ?v" using i(3) by (auto simp: others_ok_def)
  show "cur_ok ?v" using i(4) assms(2) c by (auto simp: cur_ok_def)
  show "destroy_ok ?v" using i(5) d by (auto simp: destroy_ok_def split: option.splits)
  show "queues_ok ?v" using i(6) q by (auto simp: queues_ok_def)
  have "{b. v_st ?v b \<noteq> None} = insert a {b. v_st v b \<noteq> None}" by auto
  then show "wake_ok ?v" by (intro wake_mono [OF i(7)]) (use i(7) in \<open>auto simp: wake_ok_def woken_def\<close>)
qed

text \<open>The current thread goes to sleep, in the queue of a semaphore or for good.\<close>

lemma shape_Cons: "no_loop fs \<Longrightarrow> shape (f # fs)"
  by (cases f) (auto simp: shape_def no_loop_def)

lemma no_loop_at: "no_loop fs \<Longrightarrow> \<not> loop_at fs s"
  by (force simp: no_loop_def loop_at_def waits_def)

lemma inv_sleep:
  assumes "sched_inv v" "running v" "v_cur v \<notin> set (v_bl v)" "no_sleep fs" "no_loop fs" "no_loop (v_fr v (v_cur v))"
  shows "sched_inv (v\<lparr>v_st := (v_st v)(v_cur v := Some BLOCKED), v_bl := v_bl v @ [v_cur v],
    v_fr := (v_fr v)(v_cur v := Sleep_loop fin # fs)\<rparr>)" (is "sched_inv ?v")
proof (rule sched_invI)
  note i = sched_invD [OF assms(1)] and q = queue_not_current [OF sched_invD(6) [OF assms(1)] assms(2)]
  show "ready_ok ?v" using i(1) assms(2) by (auto simp: ready_ok_def running_def)
  show "blocked_ok ?v" using i(2) assms(3) by (auto simp: blocked_ok_def)
  show "others_ok ?v" using i(3) by (auto simp: others_ok_def)
  show "cur_ok ?v" using i(4) assms(4) q by (auto simp: cur_ok_def)
  show "destroy_ok ?v" using i(5) by (auto simp: destroy_ok_def split: option.splits)
  show "queues_ok ?v" using i(6) q by (auto simp: queues_ok_def)
  have "{b. v_st ?v b \<noteq> None} = insert (v_cur v) {b. v_st v b \<noteq> None}" by auto
  then show "wake_ok ?v" using no_loop_at [OF assms(6)]
    by (intro wake_mono [OF i(7)]) (use i(7) shape_Cons [OF assms(5)] in \<open>auto simp: wake_ok_def woken_def\<close>)
qed

lemma inv_sleep_on:
  assumes "sched_inv v" "running v" "v_cur v \<notin> set (v_bl v)" "no_sleep fs" "no_loop fs"
    and "v_fr v (v_cur v) = P_loop s old # fs" "v_val v s = 0"
  shows "sched_inv (v\<lparr>v_qs := (v_qs v)(s := v_qs v s @ [v_cur v]), v_st := (v_st v)(v_cur v := Some BLOCKED), v_bl := v_bl v @ [v_cur v],
    v_fr := (v_fr v)(v_cur v := Sleep_loop False # P_loop s old # fs)\<rparr>)" (is "sched_inv ?v")
proof (rule sched_invI)
  note i = sched_invD [OF assms(1)] and q = queue_not_current [OF sched_invD(6) [OF assms(1)] assms(2)]
  show "ready_ok ?v" using i(1) assms(2) by (auto simp: ready_ok_def running_def)
  show "blocked_ok ?v" using i(2) assms(3) by (auto simp: blocked_ok_def)
  show "others_ok ?v" using i(3) by (auto simp: others_ok_def)
  show "cur_ok ?v" using i(4) assms(4) by (auto simp: cur_ok_def no_sleep_def)
  show "destroy_ok ?v" using i(5) by (auto simp: destroy_ok_def split: option.splits)
  show "queues_ok ?v" using i(6) q by (auto simp: queues_ok_def waits_def)
  have "{b. v_st ?v b \<noteq> None} = insert (v_cur v) {b. v_st v b \<noteq> None}" by auto
  moreover have "loop_at (v_fr v (v_cur v)) s' \<longleftrightarrow> s' = s" for s' using assms(6) by (auto simp: loop_at_def waits_def)
  moreover have "shape (Sleep_loop False # P_loop s old # fs)" using assms(5) by (auto simp: shape_def)
  ultimately show "wake_ok ?v"
    by (intro wake_mono [OF i(7)]) (use i(7) assms(7) in \<open>auto simp: wake_ok_def woken_def split: if_splits\<close>)
qed

text \<open>The current thread finds the semaphore available.\<close>

lemma inv_take:
  assumes "sched_inv v" "running v" "v_fr v (v_cur v) = P_loop s old # fs" "v_val v s \<noteq> 0" "no_sleep gs" "no_loop gs"
  shows "sched_inv (v\<lparr>v_val := (v_val v)(s := v_val v s - 1), v_fr := (v_fr v)(v_cur v := gs)\<rparr>)" (is "sched_inv ?v")
proof (rule sched_invI)
  note i = sched_invD [OF assms(1)] and q = queue_not_current [OF sched_invD(6) [OF assms(1)] assms(2)]
  show "ready_ok ?v" "blocked_ok ?v" using i(1,2) by (simp_all add: ready_ok_def blocked_ok_def)
  show "others_ok ?v" using i(3) by (auto simp: others_ok_def)
  show "cur_ok ?v" using assms(2,5) by (auto simp: cur_ok_def running_def)
  show "destroy_ok ?v" using i(5) by (auto simp: destroy_ok_def split: option.splits)
  show "queues_ok ?v" using i(6) q by (auto simp: queues_ok_def)
  have l: "loop_at (v_fr v (v_cur v)) s' \<longleftrightarrow> s' = s" "\<not> loop_at gs s'" for s'
    using assms(3) no_loop_at [OF assms(6)] by (auto simp: loop_at_def waits_def)
  have w: "woken ?v s' = (if s' = s then woken v s - {v_cur v} else woken v s')" for s' using l by (auto simp: woken_def)
  have "v_cur v \<in> woken v s" using assms(2) l(1) by (simp add: woken_def running_def)
  then have c: "int (card (woken v s - {v_cur v})) = int (card (woken v s)) - 1"
    using finite_woken [OF i(7), of s] by (simp add: card_Diff_singleton_if card_gt_0_iff Suc_leI of_nat_diff) (metis One_nat_def Suc_leI card_gt_0_iff empty_iff of_nat_1 of_nat_diff)
  have sh: "shape gs" using assms(6) by (simp add: shape_def)
  have "0 < v_val v s" using i(7) assms(4) by (simp add: wake_ok_def order_less_le)
  then show "wake_ok ?v" using i(7) sh unfolding wake_ok_def w by (auto simp: c)
qed

text \<open>Switching away from a sleeping thread, and from one that yields.\<close>

lemma inv_switch:
  assumes "sched_inv v" "v_fr v (v_cur v) = Sleep_loop fin # fs" "n \<in># v_rd v" "fin \<Longrightarrow> v_tbd v = None"
  shows "sched_inv (v\<lparr>v_rd := v_rd v - {#n#}, v_tbd := (if fin then Some (v_cur v) else v_tbd v),
    v_fr := (v_fr v)(v_cur v := after_SWITCH # fs), v_cur := n, v_st := (v_st v)(n := Some RUNNING)\<rparr>)" (is "sched_inv ?v")
proof (rule sched_invI)
  note i = sched_invD [OF assms(1)]
  have n: "v_st v n = Some READY" using assms(3) ready_iff [OF i(1)] by simp
  have nq: "n \<notin> set (v_qs v s)" for s using queue_member [OF i(6)] n by force
  have c: "no_sleep fs" "v_st v (v_cur v) = Some BLOCKED \<or> v_st v (v_cur v) = Some READY \<and> \<not> fin"
    "fin \<Longrightarrow> v_cur v \<notin> set (v_qs v s)" for s
    using i(4) assms(2) by (auto simp: cur_ok_def no_sleep_def)
  show "ready_ok ?v" using i(1) n by (auto simp: ready_ok_def)
  show "blocked_ok ?v" using i(2) n by (auto simp: blocked_ok_def)
  show "others_ok ?v" using i(3) c by (auto simp: others_ok_def no_sleep_def)
  show "cur_ok ?v" using i(3) c(1) by (auto simp: cur_ok_def no_sleep_def others_ok_def)
  show "destroy_ok ?v" using i(5) c n by (auto simp: destroy_ok_def split: option.splits)
  have w: "waits (after_SWITCH # fs) s" if "v_cur v \<in> set (v_qs v s)" for s
    using queue_member [OF i(6) that] assms(2) by (auto simp: waits_def)
  show "queues_ok ?v" using i(6) nq w by (auto simp: queues_ok_def)
  have sh: "shape (Sleep_loop fin # fs)" using i(7) assms(2) by (auto simp: wake_ok_def dest: spec [of _ "v_cur v"])
  then have sh': "shape (after_SWITCH # fs)" by (auto simp: shape_def no_loop_def)
  have l: "loop_at (Sleep_loop fin # fs) s \<Longrightarrow> loop_at (after_SWITCH # fs) s" for s by (auto simp: loop_at_def waits_def)
  have "{b. v_st ?v b \<noteq> None} = insert n {b. v_st v b \<noteq> None}" by auto
  then show "wake_ok ?v"
    by (intro wake_mono [OF i(7)]) (use i(7) sh' l assms(2) in \<open>auto simp: wake_ok_def woken_def\<close>)
qed

lemma inv_yield:
  assumes "sched_inv v" "running v" "n \<in># v_rd v" "no_sleep fs" "no_loop fs" "no_loop (v_fr v (v_cur v))"
  shows "sched_inv (v\<lparr>v_rd := add_mset (v_cur v) (v_rd v - {#n#}), v_bl := remove1 (v_cur v) (v_bl v),
    v_fr := (v_fr v)(v_cur v := after_SWITCH # fs), v_cur := n, v_st := (v_st v)(v_cur v := Some READY, n := Some RUNNING)\<rparr>)"
    (is "sched_inv ?v")
proof (rule sched_invI)
  note i = sched_invD [OF assms(1)] and q = queue_not_current [OF sched_invD(6) [OF assms(1)] assms(2)]
  have n: "v_st v n = Some READY" using assms(3) ready_iff [OF i(1)] by simp
  have nq: "n \<notin> set (v_qs v s)" for s using queue_member [OF i(6)] n by force
  have nc: "n \<noteq> v_cur v" using n assms(2) by (auto simp: running_def)
  show "ready_ok ?v" using i(1) n nc assms(2) by (auto simp: ready_ok_def running_def)
  show "blocked_ok ?v" using i(2) n by (auto simp: blocked_ok_def)
  show "others_ok ?v" using i(3) assms(4) by (auto simp: others_ok_def no_sleep_def)
  show "cur_ok ?v" using i(3) nc by (auto simp: cur_ok_def others_ok_def)
  show "destroy_ok ?v" using i(5) n by (auto simp: destroy_ok_def split: option.splits)
  show "queues_ok ?v" using i(6) nq q by (auto simp: queues_ok_def)
  have "{b. v_st ?v b \<noteq> None} = insert n (insert (v_cur v) {b. v_st v b \<noteq> None})" by auto
  then show "wake_ok ?v" using no_loop_at [OF assms(6)]
    by (intro wake_mono [OF i(7)]) (use i(7) shape_Cons [OF assms(5)] in \<open>auto simp: wake_ok_def woken_def\<close>)
qed

text \<open>A thread is deleted or created.\<close>

lemma inv_delete:
  assumes "sched_inv v" "v_tbd v = Some d"
  shows "sched_inv (v\<lparr>v_st := (v_st v)(d := None), v_fr := (v_fr v)(d := []), v_tbd := None\<rparr>)" (is "sched_inv ?v")
proof (rule sched_invI)
  note i = sched_invD [OF assms(1)]
  have d: "d \<noteq> v_cur v" "v_st v d = Some BLOCKED" "d \<notin> set (v_qs v s)" for s using i(5) assms(2) by (auto simp: destroy_ok_def)
  show "ready_ok ?v" using i(1) d by (auto simp: ready_ok_def)
  show "blocked_ok ?v" using i(2) by (auto simp: blocked_ok_def)
  show "others_ok ?v" using i(3) by (auto simp: others_ok_def no_sleep_def)
  show "cur_ok ?v" using i(4) d by (auto simp: cur_ok_def)
  show "destroy_ok ?v" by (simp add: destroy_ok_def)
  show "queues_ok ?v" using i(6) d by (auto simp: queues_ok_def)
  have "{b. v_st ?v b \<noteq> None} \<subseteq> {b. v_st v b \<noteq> None}" by auto
  then have "finite {b. v_st ?v b \<noteq> None}" using i(7) finite_subset unfolding wake_ok_def by blast
  then show "wake_ok ?v"
    by (intro wake_mono [OF i(7)]) (use i(7) d(2) in \<open>auto simp: wake_ok_def woken_def shape_def no_loop_def\<close>)
qed

lemma inv_create:
  assumes "sched_inv v" "v_st v a = None"
  shows "sched_inv (v\<lparr>v_st := (v_st v)(a := Some JUST_CREATED), v_fr := (v_fr v)(a := [])\<rparr>)" (is "sched_inv ?v")
proof (rule sched_invI)
  note i = sched_invD [OF assms(1)]
  have q: "a \<notin> set (v_qs v s)" for s using queue_member [OF i(6)] assms(2) by force
  have c: "a \<noteq> v_cur v" using i(4) assms(2) by (auto simp: cur_ok_def)
  show "ready_ok ?v" using i(1) assms(2) by (auto simp: ready_ok_def)
  show "blocked_ok ?v" using i(2) by (auto simp: blocked_ok_def)
  show "others_ok ?v" using i(3) by (auto simp: others_ok_def no_sleep_def)
  show "cur_ok ?v" using i(4) c by (auto simp: cur_ok_def)
  show "destroy_ok ?v" using i(5) assms(2) by (auto simp: destroy_ok_def split: option.splits)
  show "queues_ok ?v" using i(6) q by (auto simp: queues_ok_def)
  have "{b. v_st ?v b \<noteq> None} = insert a {b. v_st v b \<noteq> None}" by auto
  then show "wake_ok ?v"
    by (intro wake_mono [OF i(7)]) (use i(7) assms(2) in \<open>auto simp: wake_ok_def woken_def shape_def no_loop_def\<close>)
qed

text \<open>The queue of a semaphore loses members, or is created empty.\<close>

lemma inv_queue:
  assumes "sched_inv v" "distinct q" "set q \<subseteq> set (v_qs v s)"
  shows "sched_inv (v\<lparr>v_qs := (v_qs v)(s := q)\<rparr>)" (is "sched_inv ?v")
proof (rule sched_invI)
  note i = sched_invD [OF assms(1)]
  show "ready_ok ?v" "blocked_ok ?v" "others_ok ?v" using i(1-3) by (simp_all add: ready_ok_def blocked_ok_def others_ok_def)
  show "cur_ok ?v" using i(4) assms(3) unfolding cur_ok_def by auto
  show "destroy_ok ?v" using i(5) assms(3) by (auto simp: destroy_ok_def split: option.splits)
  show "queues_ok ?v" using i(6) assms(2,3) by (auto simp: queues_ok_def)
  have "v_qs v s \<noteq> []" if "q \<noteq> []" using that assms(3) by auto
  then show "wake_ok ?v" by (intro wake_mono [OF i(7)]) (use i(7) in \<open>auto simp: wake_ok_def woken_def split: if_splits\<close>)
qed

lemma inv_value:
  assumes "sched_inv v" "0 \<le> n" "v_qs v s \<noteq> [] \<Longrightarrow> n \<le> int (card (woken v s))"
  shows "sched_inv (v\<lparr>v_val := (v_val v)(s := n)\<rparr>)" (is "sched_inv ?v")
proof -
  note i = sched_invD [OF assms(1)]
  have w: "woken ?v = woken v" by (rule ext) (simp add: woken_def)
  have "wake_ok ?v" using i(7) assms(2,3) unfolding wake_ok_def w by auto
  then show ?thesis
    using i(1-6) by (auto simp: sched_inv_def ready_ok_def blocked_ok_def others_ok_def cur_ok_def destroy_ok_def queues_ok_def split: option.splits)
qed

section \<open>Interrupt handlers\<close>

text \<open>
  What an interrupt handler may do: it keeps the invariant, does not switch threads and does not touch the
  stacks. The timer does, and so does every handler that signals a semaphore.
\<close>

definition quiet :: "kernel \<Rightarrow> kernel \<Rightarrow> bool" where
  "quiet k k' \<longleftrightarrow> sched_inv (kview k') \<and> k_current k' = k_current k \<and> k_typeno k' = k_typeno k
     \<and> v_fr (kview k') = v_fr (kview k) \<and> (running (kview k) \<longrightarrow> running (kview k'))"

definition handler_ok :: "(kernel \<Rightarrow> kernel result) \<Rightarrow> bool" where
  "handler_ok h \<longleftrightarrow> (\<forall>k k'. sched_inv (kview k) \<longrightarrow> policy_ok k \<longrightarrow> h k = Inr k' \<longrightarrow> quiet k k')"

lemma handler_okD: "handler_ok h \<Longrightarrow> sched_inv (kview k) \<Longrightarrow> policy_ok k \<Longrightarrow> h k = Inr k' \<Longrightarrow> quiet k k'"
  by (simp add: handler_ok_def)

lemma quiet_view: "sched_inv (kview k) \<Longrightarrow> kview k' = kview k \<Longrightarrow> k_typeno k' = k_typeno k \<Longrightarrow> quiet k k'"
  using kview_simps(15) by (metis quiet_def)

lemma quiet_trans: "quiet k k1 \<Longrightarrow> quiet k1 k2 \<Longrightarrow> quiet k k2"
  by (auto simp: quiet_def)

lemma quiet_policy: "quiet k k' \<Longrightarrow> policy_ok k' = policy_ok k"
  by (simp add: quiet_def policy_ok_def)

lemma waits_unique: "waits fs s \<Longrightarrow> waits fs s' \<Longrightarrow> s' = s"
  by (auto simp: waits_def)

lemma inv_wake:
  assumes "sched_inv v" "v_qs v s = a # q"
  shows "sched_inv (v\<lparr>v_qs := (v_qs v)(s := q), v_bl := remove1 a (v_bl v), v_st := (v_st v)(a := Some READY), v_rd := add_mset a (v_rd v),
      v_val := (v_val v)(s := v_val v s + 1)\<rparr>)"
    and "running v \<Longrightarrow> v_cur v \<noteq> a"
proof -
  note i = sched_invD [OF assms(1)]
  let ?v = "v\<lparr>v_qs := (v_qs v)(s := q)\<rparr>"
  have a: "v_st v a = Some BLOCKED" "waits (v_fr v a) s" "a \<notin> set q" "distinct q"
    using queue_member [OF i(6), of a s] i(6) assms(2) by (auto simp: queues_ok_def dest: spec [of _ s])
  have other: "a \<notin> set (v_qs v s')" if "s' \<noteq> s" for s' using queue_member [OF i(6), of a s'] waits_unique [OF a(2)] that by auto
  have 1: "sched_inv ?v" by (rule inv_queue [OF assms(1) a(4)]) (auto simp: assms(2))
  let ?w = "?v\<lparr>v_bl := remove1 a (v_bl ?v), v_st := (v_st ?v)(a := Some READY), v_rd := add_mset a (v_rd ?v)\<rparr>"
  have 2: "sched_inv ?w"
  proof (rule inv_ready [OF 1])
    show "v_st ?v a = Some JUST_CREATED \<or> v_st ?v a = Some BLOCKED" using a(1) by simp
    show "a \<notin> set (v_qs ?v s')" for s' using a(3) other by simp
    have "a \<in> set (v_qs v s)" using assms(2) by simp
    then show "v_tbd ?v \<noteq> Some a" using i(5) by (auto simp: destroy_ok_def)
    show "\<exists>fs. v_fr ?v a = Sleep_loop False # fs" if "a = v_cur ?v"
    proof -
      have "v_st v (v_cur v) = Some BLOCKED" using a(1) that by simp
      then obtain fin fs where f: "v_fr v (v_cur v) = Sleep_loop fin # fs" "fin \<longrightarrow> (\<forall>s. v_cur v \<notin> set (v_qs v s))"
        using i(4) unfolding cur_ok_def by auto
      have "a \<in> set (v_qs v s)" using assms(2) by simp
      then have "\<not> fin" using f(2) that by auto
      then show ?thesis using f(1) that by simp
    qed
  qed
  have wk: "woken ?w s = insert a (woken v s)" "a \<notin> woken v s" using a(1,2) by (auto simp: woken_def loop_at_def)
  have "v_val v s \<le> int (card (woken v s))" "0 \<le> v_val v s" using i(7) assms(2) by (simp_all add: wake_ok_def)
  then have "sched_inv (?w\<lparr>v_val := (v_val ?w)(s := v_val v s + 1)\<rparr>)"
    using wk finite_woken [OF i(7), of s] by (intro inv_value [OF 2]) simp_all
  then show "sched_inv (v\<lparr>v_qs := (v_qs v)(s := q), v_bl := remove1 a (v_bl v), v_st := (v_st v)(a := Some READY), v_rd := add_mset a (v_rd v),
      v_val := (v_val v)(s := v_val v s + 1)\<rparr>)"
    by simp
  show "running v \<Longrightarrow> v_cur v \<noteq> a" using a(1) by (auto simp: running_def)
qed

lemma V_body_ok: "handler_ok (\<lambda>k. V_body k s)"
  unfolding handler_ok_def
proof (intro allI impI)
  fix k k' assume inv: "sched_inv (kview k)" and p: "policy_ok k" and v: "V_body k s = Inr k'"
  obtain x where x: "k_sems k s = Some x" using v by (auto simp: V_body_def rbind_Inr_iff get_sem_Inr)
  show "quiet k k'"
  proof (cases "s_queue x")
    case Nil
    then have "k' = put_sem k s (x\<lparr>s_value := s_value x + 1\<rparr>)" using v x by (simp add: V_body_def get_sem_def)
    moreover have "(v_qs (kview k))(s := []) = v_qs (kview k)" using v_qs_sem [OF x] Nil by auto
    ultimately have k': "kview k' = (kview k)\<lparr>v_val := (v_val (kview k))(s := s_value x + 1)\<rparr>" "k_typeno k' = k_typeno k" "k_current k' = k_current k"
      using Nil by (simp_all add: kview_put_sem)
    have "0 \<le> s_value x" using sched_invD(7) [OF inv] v_val_sem [OF x] by (auto simp: wake_ok_def dest: spec [of _ s])
    then have "sched_inv (kview k')"
      unfolding k'(1) using inv_value [OF inv, of "s_value x + 1" s] v_qs_sem [OF x] Nil by simp
    then show ?thesis unfolding quiet_def using k' by (simp add: running_def)
  next
    case (Cons a q)
    define k0 where "k0 = put_sem k s (x\<lparr>s_queue := q\<rparr>)"
    obtain k1 y where k1: "ReadyToRun k0 a = Inr k1" "k_sems k1 s = Some y" "k' = put_sem k1 s (y\<lparr>s_value := s_value y + 1\<rparr>)"
      using v x Cons by (auto simp: V_body_def get_sem_def rbind_Inr_iff k0_def split: option.splits)
    have p0: "policy_ok k0" using p by (simp add: k0_def policy_ok_def)
    note r = ReadyToRun_view [OF k1(1) p0]
    have bl: "k_blockList k0 = k_blockList k" by (simp add: k0_def put_sem_def)
    have "(v_val (kview k))(s := s_value x) = v_val (kview k)" using v_val_sem [OF x] by auto
    then have v0: "kview k0 = (kview k)\<lparr>v_qs := (v_qs (kview k))(s := q)\<rparr>" by (simp add: k0_def kview_put_sem)
    have v1: "kview k1 = (kview k)\<lparr>v_qs := (v_qs (kview k))(s := q), v_bl := remove1 a (v_bl (kview k)),
        v_st := (v_st (kview k))(a := Some READY), v_rd := add_mset a (v_rd (kview k))\<rparr>"
      unfolding r(1) v0 bl by simp
    have "v_qs (kview k1) s = q" "v_val (kview k1) s = v_val (kview k) s" by (simp_all add: v1)
    then have y: "s_queue y = q" "s_value y = v_val (kview k) s" using v_qs_sem [OF k1(2)] v_val_sem [OF k1(2)] by simp_all
    have k': "kview k' = (kview k)\<lparr>v_qs := (v_qs (kview k))(s := q), v_bl := remove1 a (v_bl (kview k)),
        v_st := (v_st (kview k))(a := Some READY), v_rd := add_mset a (v_rd (kview k)), v_val := (v_val (kview k))(s := v_val (kview k) s + 1)\<rparr>"
      unfolding k1(3) kview_put_sem by (simp add: v1 y)
    have w: "v_qs (kview k) s = a # q" using v_qs_sem [OF x] Cons by simp
    have cur: "k_current k' = k_current k" "k_typeno k' = k_typeno k" using k1(3) r(2,3) by (simp_all add: k0_def)
    show ?thesis
      using inv_wake [OF inv w] cur unfolding quiet_def k' by (auto simp: running_def)
  qed
qed

text \<open>Conditions on what a computation returns, if it returns.\<close>

definition yields :: "'a result \<Rightarrow> ('a \<Rightarrow> bool) \<Rightarrow> bool" where
  "yields r Q \<longleftrightarrow> (\<forall>x. r = Inr x \<longrightarrow> Q x)"

lemma yieldsD: "yields r Q \<Longrightarrow> r = Inr x \<Longrightarrow> Q x"
  by (simp add: yields_def)

lemma yields_simps [simp]: "yields (Inl e) Q" "yields (Inr x) Q \<longleftrightarrow> Q x"
  by (simp_all add: yields_def)

lemma yields_bind: "(\<And>x. r = Inr x \<Longrightarrow> yields (f x) Q) \<Longrightarrow> yields (rbind r f) Q"
  by (auto simp: yields_def rbind_Inr_iff)

lemma yields_assert: "(b \<Longrightarrow> yields r Q) \<Longrightarrow> yields (rassert b r) Q"
  by (cases b) simp_all

lemma yields_if: "(b \<Longrightarrow> yields r Q) \<Longrightarrow> (\<not> b \<Longrightarrow> yields r' Q) \<Longrightarrow> yields (if b then r else r') Q"
  by simp

lemma yields_option: "(x = None \<Longrightarrow> yields r Q) \<Longrightarrow> (\<And>y. x = Some y \<Longrightarrow> yields (f y) Q) \<Longrightarrow> yields (case x of None \<Rightarrow> r | Some y \<Rightarrow> f y) Q"
  by (cases x) simp_all

lemma yields_list: "(xs = [] \<Longrightarrow> yields r Q) \<Longrightarrow> (\<And>y ys. xs = y # ys \<Longrightarrow> yields (f y ys) Q) \<Longrightarrow> yields (case xs of [] \<Rightarrow> r | y # ys \<Rightarrow> f y ys) Q"
  by (cases xs) simp_all

lemma yields_prod: "(\<And>x y. p = (x, y) \<Longrightarrow> yields (f x y) Q) \<Longrightarrow> yields (case p of (x, y) \<Rightarrow> f x y) Q"
  by (cases p) simp

lemmas yields_rules = yields_bind yields_assert yields_if yields_option yields_list yields_prod

lemma upd_thread_keeps:
  assumes "upd_thread k a f = Inr k'" "\<And>t. t_status (f t) = t_status t" "\<And>t. t_frames (f t) = t_frames t"
  shows "kview k' = kview k \<and> k_typeno k' = k_typeno k"
  using upd_thread_same [OF assms] by simp

lemma Alarm_CallBack_view: "yields (Alarm_CallBack k) (\<lambda>k'. kview k' = kview k \<and> k_typeno k' = k_typeno k)"
  unfolding Alarm_CallBack_def YieldOnReturn_def
  by (intro yields_rules) (auto dest: upd_thread_same)

lemma Timer_SetInterrupt_view: "yields (Timer_SetInterrupt k) (\<lambda>k'. kview k' = kview k \<and> k_typeno k' = k_typeno k)"
  unfolding Timer_SetInterrupt_def Schedule_def Let_def
  by (intro yields_rules) auto

lemma Timer_CallBack_ok: "handler_ok Timer_CallBack"
  unfolding handler_ok_def Timer_CallBack_def rbind_Inr_iff
  by (auto dest!: yieldsD [OF Alarm_CallBack_view] yieldsD [OF Timer_SetInterrupt_view] intro: quiet_view)

definition devices_ok :: "devices \<Rightarrow> bool" where
  "devices_ok D \<longleftrightarrow> (\<forall>n. handler_ok (D n))"

lemma CallBack_ok: "devices_ok D \<Longrightarrow> handler_ok (CallBack D obj)"
  using Timer_CallBack_ok by (cases obj) (simp_all add: CallBack_def [abs_def] devices_ok_def)

lemma due_loop_ok:
  assumes "devices_ok D" "sched_inv (kview k)" "policy_ok k" "due_loop n D k = Inr k'"
  shows "quiet k k'"
  using assms(2-4)
proof (induction n arbitrary: k)
  case (Suc n)
  obtain p ps where ps: "k_pending k = p # ps"
    using Suc.prems(3) by (cases "k_pending k") (auto simp: al_RemoveFront_def)
  obtain k1 where k1: "CallBack D (callOnInterrupt p) (k\<lparr>k_pending := ps\<rparr>) = Inr k1"
    "(case k_pending k1 of [] \<Rightarrow> Inr k1 | q # qs \<Rightarrow> if int_when q \<le> totalTicks (k_stats k1) then due_loop n D k1 else Inr k1) = Inr k'"
    using Suc.prems(3) ps by (auto simp: al_RemoveFront_def rbind_Inr_iff)
  have "quiet (k\<lparr>k_pending := ps\<rparr>) k1"
    by (rule handler_okD [OF CallBack_ok [OF assms(1)] _ _ k1(1)]) (use Suc.prems in \<open>simp_all add: policy_ok_def\<close>)
  then have q1: "quiet k k1" by (simp add: quiet_def)
  show ?case
  proof (cases "k' = k1")
    case False
    then have "due_loop n D k1 = Inr k'" using k1(2) by (auto split: list.splits if_splits)
    moreover have "sched_inv (kview k1)" "policy_ok k1" using q1 quiet_policy [OF q1] Suc.prems(2) by (simp_all add: quiet_def)
    ultimately have "quiet k1 k'" using Suc.IH by blast
    then show ?thesis by (rule quiet_trans [OF q1])
  qed (simp add: q1)
qed simp

lemma CheckIfDue_ok:
  assumes "devices_ok D" "sched_inv (kview k)" "policy_ok k"
  shows "yields (CheckIfDue D k adv) (\<lambda>(b, k'). quiet k k')"
proof -
  have q: "quiet k (k2\<lparr>k_inHandler := False\<rparr>)"
    if "due_loop n D k1 = Inr k2" "kview k1 = kview k" "k_typeno k1 = k_typeno k" for n k1 k2
  proof -
    have "quiet k1 k2" using due_loop_ok [OF assms(1) _ _ that(1)] that(2,3) assms(2,3) by (simp add: policy_ok_def)
    moreover have "k_current k1 = k_current k" using that(2) by (metis kview_simps(15))
    ultimately show ?thesis using that(2,3) by (simp add: quiet_def)
  qed
  have "quiet k k" using assms(2) by (simp add: quiet_def)
  then show ?thesis
    unfolding CheckIfDue_def Let_def by (intro yields_rules) (auto intro: q)
qed

section \<open>Calls of a running thread\<close>

text \<open>The invariant holds and the current thread is running, outside the loop of \<^verbatim>\<open>P\<close>.\<close>

definition on_cpu :: "kernel \<Rightarrow> bool" where
  "on_cpu k \<longleftrightarrow> sched_inv (kview k) \<and> policy_ok k \<and> running (kview k) \<and> no_loop (v_fr (kview k) (k_current k))"

definition k_inv :: "kernel \<Rightarrow> bool" where
  "k_inv k \<longleftrightarrow> sched_inv (kview k) \<and> policy_ok k"

lemma on_cpu_inv: "on_cpu k \<Longrightarrow> k_inv k"
  by (simp add: on_cpu_def k_inv_def)

lemma current_of_view: "kview k' = kview k \<Longrightarrow> k_current k' = k_current k"
  by (metis kview_simps(15))

lemma on_cpu_view: "on_cpu k \<Longrightarrow> kview k' = kview k \<Longrightarrow> k_typeno k' = k_typeno k \<Longrightarrow> on_cpu k'"
  using current_of_view [of k' k] by (simp add: on_cpu_def policy_ok_def)

lemma on_cpu_quiet: "on_cpu k \<Longrightarrow> quiet k k' \<Longrightarrow> on_cpu k'"
  by (simp add: on_cpu_def quiet_def policy_ok_def)

lemma on_cpu_push:
  assumes "on_cpu k" "no_sleep fs" "no_loop fs" "push fs k = Inr k'"
  shows "on_cpu k'"
proof -
  note p = push_view [OF assms(4)]
  let ?fs = "fs @ v_fr (kview k) (k_current k)"
  have f: "no_sleep ?fs" "no_loop ?fs"
    using assms(1-3) running_no_sleep [of "kview k"] by (auto simp: on_cpu_def no_sleep_def no_loop_def)
  have l: "\<not> loop_at (v_fr (kview k) (k_current k)) s" for s using assms(1) no_loop_at by (simp add: on_cpu_def)
  have "sched_inv (kview k')"
    unfolding p(1) using inv_frames [of "kview k" ?fs] assms(1) f l by (simp add: on_cpu_def shape_def)
  then show ?thesis using assms(1) p f by (simp add: on_cpu_def running_def policy_ok_def)
qed

lemma push_ok: "on_cpu k \<Longrightarrow> no_sleep fs \<Longrightarrow> no_loop fs \<Longrightarrow> yields (push fs k) on_cpu"
  by (auto simp: yields_def intro: on_cpu_push)

lemma no_sleep_frames [simp]:
  "no_sleep []" "no_sleep (f # fs) \<longleftrightarrow> f \<noteq> Sleep_loop True \<and> f \<noteq> Sleep_loop False \<and> no_sleep fs"
  by (auto simp: no_sleep_def)

lemma no_loop_frames [simp]: "no_loop []" "no_loop (f # fs) \<longleftrightarrow> (\<forall>s old. f \<noteq> P_loop s old) \<and> no_loop fs"
  by (auto simp: no_loop_def)

lemma OneTick_ok:
  assumes "devices_ok D" "on_cpu k"
  shows "yields (OneTick D k) on_cpu"
proof -
  have o: "on_cpu k2"
    if "CheckIfDue D k0 False = Inr (b, k1)" "kview k0 = kview k" "k_typeno k0 = k_typeno k" "kview k2 = kview k1" "k_typeno k2 = k_typeno k1"
    for k0 b k1 k2
  proof -
    have "on_cpu k0" using on_cpu_view [OF assms(2) that(2,3)] .
    moreover have "quiet k0 k1" using yieldsD [OF CheckIfDue_ok [OF assms(1)] that(1)] calculation by (simp add: on_cpu_def)
    ultimately have "on_cpu k1" by (rule on_cpu_quiet)
    then show ?thesis using that(4,5) by (rule on_cpu_view)
  qed
  show ?thesis
    unfolding OneTick_def Let_def
    by (intro yields_rules push_ok; clarsimp?; (erule o; simp)?)
qed

lemma exec_SetLevel_ok:
  assumes "devices_ok D" "on_cpu k"
  shows "yields (exec_SetLevel D k now) on_cpu"
proof -
  have o: "on_cpu (ChangeLevel k lv)" for lv by (rule on_cpu_view [OF assms(2)]) simp_all
  show ?thesis unfolding exec_SetLevel_def Let_def by (intro yields_rules) (simp_all add: o OneTick_ok [OF assms(1) o])
qed

text \<open>The context switch.\<close>

lemma save_space_view: "yields (save_space c k a) (\<lambda>k'. kview k' = kview k \<and> k_typeno k' = k_typeno k)"
  unfolding save_space_def SaveUserState_def
  by (intro yields_rules) (auto simp: yields_def dest!: upd_thread_keeps split: if_splits)

lemma reset_tlb_view: "yields (reset_tlb c k) (\<lambda>k'. kview k' = kview k \<and> k_typeno k' = k_typeno k)"
  unfolding reset_tlb_def by (intro yields_rules) simp_all

lemma Run_view:
  assumes "Run c k n fin = Inr k'"
  shows "kview k' = (kview k)\<lparr>v_tbd := (if fin then Some (k_current k) else k_toBeDestroyed k),
      v_fr := (v_fr (kview k))(k_current k := after_SWITCH # v_fr (kview k) (k_current k)), v_cur := n,
      v_st := (v_st (kview k))(n := Some RUNNING)\<rparr>"
    and "k_typeno k' = k_typeno k" "fin \<Longrightarrow> k_toBeDestroyed k = None"
proof -
  define k0 where "k0 = (if fin then k\<lparr>k_toBeDestroyed := Some (k_current k)\<rparr> else k)"
  obtain k1 k2 k3 k4 where k: "fin \<Longrightarrow> k_toBeDestroyed k = None" "reset_tlb c k0 = Inr k1" "save_space c k1 (k_current k) = Inr k2"
    "push [after_SWITCH] k2 = Inr k3" "upd_thread (k3\<lparr>k_current := n\<rparr>) n (\<lambda>t. t\<lparr>t_status := RUNNING\<rparr>) = Inr k4" "follow_current k4 = Inr k'"
    using assms by (auto simp: Run_def Let_def rbind_Inr_iff rassert_Inr_iff k0_def split: if_splits)
  show "fin \<Longrightarrow> k_toBeDestroyed k = None" by (rule k(1))
  have v2: "kview k2 = kview k0" "k_typeno k2 = k_typeno k0"
    using yieldsD [OF reset_tlb_view k(2)] yieldsD [OF save_space_view k(3)] by simp_all
  have c2: "k_current k2 = k_current k" using current_of_view [OF v2(1)] by (simp add: k0_def)
  obtain t where t: "k_threads (k3\<lparr>k_current := n\<rparr>) n = Some t"
    "k4 = k3\<lparr>k_current := n, k_threads := (k_threads k3)(n \<mapsto> t\<lparr>t_status := RUNNING\<rparr>)\<rparr>"
    using k(5) by (rule upd_thread_Inr) auto
  have v4: "kview k4 = (kview (k3\<lparr>k_current := n\<rparr>))\<lparr>v_st := (v_st (kview k3))(n := Some RUNNING)\<rparr>"
    using kview_upd [OF t(1), of "t\<lparr>t_status := RUNNING\<rparr>"] t by (auto simp: kview_def)
  have v': "kview k' = kview k4" "k_typeno k' = k_typeno k4" using k(6) by (auto simp: follow_current_def rbind_Inr_iff)
  have v0: "kview k0 = (kview k)\<lparr>v_tbd := (if fin then Some (k_current k) else k_toBeDestroyed k)\<rparr>"
    by (simp add: k0_def kview_def)
  show "kview k' = (kview k)\<lparr>v_tbd := (if fin then Some (k_current k) else k_toBeDestroyed k),
      v_fr := (v_fr (kview k))(k_current k := after_SWITCH # v_fr (kview k) (k_current k)), v_cur := n,
      v_st := (v_st (kview k))(n := Some RUNNING)\<rparr>"
    unfolding v' v4 by (simp add: push_view(1) [OF k(4)] v2 c2 v0)
  show "k_typeno k' = k_typeno k" using v'(2) t(2) push_view(3) [OF k(4)] v2(2) by (simp add: k0_def)
qed

lemma pop_ok:
  assumes "k_inv k" "pop k = Inr (f, k1)" "f \<noteq> Sleep_loop True" "f \<noteq> Sleep_loop False" "\<And>s old. f \<noteq> P_loop s old"
  shows "sched_inv (kview k1)" "policy_ok k1" "running (kview k1)" "f \<noteq> after_SWITCH \<Longrightarrow> on_cpu k1"
proof -
  obtain fs where p: "v_fr (kview k) (k_current k) = f # fs" "kview k1 = (kview k)\<lparr>v_fr := (v_fr (kview k))(k_current k := fs)\<rparr>"
    "k_current k1 = k_current k" "k_typeno k1 = k_typeno k" using pop_view [OF assms(2)] by blast
  have i: "sched_inv (kview k)" using assms(1) by (simp add: k_inv_def)
  have r: "running (kview k)" "no_sleep fs"
    using sched_invD(4) [OF i] p(1) assms(3,4) by (auto simp: cur_ok_def running_def)
  have "shape (f # fs)" using sched_invD(7) [OF i] p(1) by (auto simp: wake_ok_def dest: spec [of _ "k_current k"])
  then have sh: "shape fs" "f \<noteq> after_SWITCH \<Longrightarrow> no_loop fs" using assms(3-5) by (auto simp: shape_def no_loop_def)
  have "loop_at (f # fs) s \<Longrightarrow> loop_at fs s" for s using assms(3-5) by (auto simp: loop_at_def waits_def)
  then show v: "sched_inv (kview k1)" "running (kview k1)"
    using inv_frames [OF i r sh(1)] r(1) p(1) by (simp_all add: running_def p(2))
  show pol: "policy_ok k1" using assms(1) p(4) by (simp add: k_inv_def policy_ok_def)
  show "f \<noteq> after_SWITCH \<Longrightarrow> on_cpu k1" using v pol sh(2) by (simp add: on_cpu_def p(2,3))
qed

lemma exec_Yield_ok:
  assumes "on_cpu k"
  shows "yields (exec_Yield D c k) k_inv"
proof -
  have "k_inv k4"
    if f: "FindNextToRun (ChangeLevel k IntOff) = Inr (Some n, k1)" and p: "push [SetLevel (k_level k)] k1 = Inr k2"
      and r: "ReadyToRun k2 (k_current k) = Inr k3" and u: "Run c k3 n False = Inr k4" for n k1 k2 k3 k4
  proof -
    note F = FindNextToRun_view [OF f, simplified] and Pu = push_view [OF p]
    have pol: "policy_ok k2" using assms F(3) Pu(3) by (simp add: on_cpu_def policy_ok_def)
    note R = ReadyToRun_view [OF r pol] and U = Run_view [OF u]
    have cur: "k_current k1 = k_current k" "k_current k2 = k_current k" "k_current k3 = k_current k" using F(2) Pu(2) R(2) by simp_all
    have bl: "k_blockList k2 = k_blockList k" using arg_cong [OF Pu(1), of v_bl] F(1) by simp
    define fs where "fs = SetLevel (k_level k) # v_fr (kview k) (k_current k)"
    have td: "k_toBeDestroyed k3 = k_toBeDestroyed k" using arg_cong [OF R(1), of v_tbd] arg_cong [OF Pu(1), of v_tbd] F(1) by simp
    have "kview k4 = (kview k)\<lparr>v_rd := add_mset (k_current k) (v_rd (kview k) - {#n#}), v_bl := remove1 (k_current k) (v_bl (kview k)),
        v_fr := (v_fr (kview k))(k_current k := after_SWITCH # fs), v_cur := n,
        v_st := (v_st (kview k))(k_current k := Some READY, n := Some RUNNING)\<rparr>"
      unfolding U(1) R(1) Pu(1) using F(1) cur bl td by (simp add: fs_def)
    moreover have "no_sleep fs" "no_loop fs" using running_no_sleep [of "kview k"] assms by (simp_all add: fs_def on_cpu_def)
    ultimately have "sched_inv (kview k4)" using inv_yield [of "kview k" n fs] assms F(1) by (simp add: on_cpu_def)
    then show ?thesis using U(2) R(3) pol by (simp add: k_inv_def policy_ok_def)
  qed
  moreover have "k_inv k2"
    if f: "FindNextToRun (ChangeLevel k IntOff) = Inr (None, k1)" and p: "push [SetLevel (k_level k)] k1 = Inr k2" for k1 k2
  proof -
    have "on_cpu k1" using FindNextToRun_view(1) [OF f] on_cpu_view [OF assms] by simp
    then show ?thesis using on_cpu_push [OF _ _ _ p] by (simp add: on_cpu_inv)
  qed
  ultimately show ?thesis
    unfolding exec_Yield_def Let_def by (intro yields_rules) (auto simp: yields_def)
qed

text \<open>\<^verbatim>\<open>Sleep\<close> and its loop.\<close>

lemma Sleep_view:
  assumes "Sleep k fin = Inr k'"
  shows "kview k' = (kview k)\<lparr>v_st := (v_st (kview k))(k_current k := Some BLOCKED), v_bl := k_blockList k @ [k_current k],
      v_fr := (v_fr (kview k))(k_current k := Sleep_loop fin # v_fr (kview k) (k_current k))\<rparr>"
    and "k_current k \<notin> set (k_blockList k)" "k_typeno k' = k_typeno k"
proof -
  obtain k1 where k1: "upd_thread k (k_current k) (\<lambda>t. t\<lparr>t_status := BLOCKED\<rparr>) = Inr k1" "k_current k \<notin> set (k_blockList k1)"
    "push [Sleep_loop fin] (k1\<lparr>k_blockList := k_blockList k1 @ [k_current k]\<rparr>) = Inr k'"
    using assms by (auto simp: Sleep_def blockAThread_def al_Append_def rbind_Inr_iff rassert_Inr_iff)
  obtain t where t: "k_threads k (k_current k) = Some t" "k1 = k\<lparr>k_threads := (k_threads k)(k_current k \<mapsto> t\<lparr>t_status := BLOCKED\<rparr>)\<rparr>"
    using k1(1) by (rule upd_thread_Inr)
  have f: "(v_fr (kview k))(k_current k := t_frames t) = v_fr (kview k)" using t(1) by (auto simp: kview_def)
  have v1: "kview k1 = (kview k)\<lparr>v_st := (v_st (kview k))(k_current k := Some BLOCKED)\<rparr>"
    unfolding t(2) kview_upd [OF t(1)] using f by simp
  have c1: "k_current k1 = k_current k" "k_blockList k1 = k_blockList k" using t(2) by simp_all
  note p = push_view [OF k1(3)]
  show "kview k' = (kview k)\<lparr>v_st := (v_st (kview k))(k_current k := Some BLOCKED), v_bl := k_blockList k @ [k_current k],
      v_fr := (v_fr (kview k))(k_current k := Sleep_loop fin # v_fr (kview k) (k_current k))\<rparr>"
    unfolding p(1) by (simp add: v1 c1)
  show "k_current k \<notin> set (k_blockList k)" "k_typeno k' = k_typeno k" using k1(2) t(2) p(3) by simp_all
qed

lemma Sleep_ok:
  assumes "on_cpu k"
  shows "yields (Sleep k fin) k_inv"
  unfolding yields_def
proof (intro allI impI)
  fix k' assume s: "Sleep k fin = Inr k'"
  note v = Sleep_view [OF s]
  have "no_sleep (v_fr (kview k) (k_current k))" using running_no_sleep [of "kview k"] assms by (simp add: on_cpu_def)
  then show "k_inv k'"
    using inv_sleep [of "kview k"] assms v by (simp add: on_cpu_def k_inv_def policy_ok_def)
qed

lemma exec_P_loop_ok:
  assumes "k_inv k" "pop k = Inr (P_loop s old, k0)"
  shows "yields (exec_P_loop k0 s old) k_inv"
proof -
  obtain fs where p: "v_fr (kview k) (k_current k) = P_loop s old # fs" "kview k0 = (kview k)\<lparr>v_fr := (v_fr (kview k))(k_current k := fs)\<rparr>"
    "k_current k0 = k_current k" "k_typeno k0 = k_typeno k" using pop_view [OF assms(2)] by blast
  have i: "sched_inv (kview k)" "policy_ok k" using assms(1) by (simp_all add: k_inv_def)
  have r: "running (kview k)" "no_sleep fs"
    using sched_invD(4) [OF i(1)] p(1) by (auto simp: cur_ok_def running_def)
  have "shape (P_loop s old # fs)" using sched_invD(7) [OF i(1)] p(1) by (auto simp: wake_ok_def dest: spec [of _ "k_current k"])
  then have nl: "no_loop fs" by (auto simp: shape_def no_loop_def)
  have bl0: "k_blockList k0 = k_blockList k" using arg_cong [OF p(2), of v_bl] by simp
  have sleep: "k_inv k'"
    if x: "k_sems k0 s = Some x" "s_value x = 0"
      and pu: "push [P_loop s old] (put_sem k0 s (x\<lparr>s_queue := s_queue x @ [k_current k0]\<rparr>)) = Inr k1" and sl: "Sleep k1 False = Inr k'"
    for x k1 k'
  proof -
    note P = push_view [OF pu] and S = Sleep_view [OF sl]
    have cur: "k_current k1 = k_current k" and bl: "k_blockList k1 = k_blockList k"
      using P(2) arg_cong [OF P(1), of v_bl] p(3) bl0 by (simp_all add: kview_put_sem)
    have q: "v_qs (kview k) s = s_queue x" "v_val (kview k) s = 0"
      using v_qs_sem [OF x(1)] v_val_sem [OF x(1)] x(2) by (simp_all add: p(2))
    then have "(v_val (kview k))(s := s_value x) = v_val (kview k)" using x(2) by auto
    then have v': "kview k' = (kview k)\<lparr>v_qs := (v_qs (kview k))(s := v_qs (kview k) s @ [k_current k]),
        v_st := (v_st (kview k))(k_current k := Some BLOCKED), v_bl := v_bl (kview k) @ [k_current k],
        v_fr := (v_fr (kview k))(k_current k := Sleep_loop False # P_loop s old # fs)\<rparr>"
      unfolding S(1) P(1) using cur bl q p(3) by (simp add: kview_put_sem p(2))
    have "sched_inv (kview k')" unfolding v' using inv_sleep_on [OF i(1) r(1) _ r(2) nl, of s old] S(2) bl cur q(2) p(1) by simp
    then show ?thesis using S(3) P(3) p(4) i(2) by (simp add: k_inv_def policy_ok_def)
  qed
  have take: "k_inv k1"
    if x: "k_sems k0 s = Some x" "s_value x \<noteq> 0" and pu: "push [SetLevel old] (put_sem k0 s (x\<lparr>s_value := s_value x - 1\<rparr>)) = Inr k1" for x k1
  proof -
    note P = push_view [OF pu]
    have q: "v_qs (kview k) s = s_queue x" "v_val (kview k) s = s_value x"
      using v_qs_sem [OF x(1)] v_val_sem [OF x(1)] by (simp_all add: p(2))
    have "(v_qs (kview k))(s := s_queue x) = v_qs (kview k)" using q by auto
    then have v': "kview k1 = (kview k)\<lparr>v_val := (v_val (kview k))(s := v_val (kview k) s - 1), v_fr := (v_fr (kview k))(k_current k := SetLevel old # fs)\<rparr>"
      unfolding P(1) using p(3) q by (simp add: kview_put_sem p(2))
    have "sched_inv (kview k1)" unfolding v' using inv_take [OF i(1) r(1), of s old fs "SetLevel old # fs"] p(1) q(2) x(2) r(2) nl by simp
    then show ?thesis using P(3) p(4) i(2) by (simp add: k_inv_def policy_ok_def)
  qed
  show ?thesis
    unfolding exec_P_loop_def
    by (intro yields_rules)
       (auto simp: get_sem_Inr al_Append_def rassert_Inr_iff yields_def intro: sleep take)
qed

lemma Idle_ok:
  assumes "devices_ok D" "k_inv k"
  shows "yields (Idle D k) k_inv"
proof -
  have "k_inv k2" if "CheckIfDue D (setStatus k IdleMode) True = Inr (b, k1)" "kview k2 = kview k1" "k_typeno k2 = k_typeno k1" for b k1 k2
  proof -
    have "quiet (setStatus k IdleMode) k1" using yieldsD [OF CheckIfDue_ok [OF assms(1)] that(1)] assms(2) by (simp add: k_inv_def policy_ok_def)
    then show ?thesis using that(2,3) assms(2) by (simp add: quiet_def k_inv_def policy_ok_def)
  qed
  note i = this
  show ?thesis unfolding Idle_def by (intro yields_rules; clarsimp; erule i; simp)
qed

lemma exec_Sleep_loop_ok:
  assumes "devices_ok D" "k_inv k" "pop k = Inr (Sleep_loop fin, k0)"
  shows "yields (exec_Sleep_loop D c k0 fin) k_inv"
proof -
  obtain fs where p: "v_fr (kview k) (k_current k) = Sleep_loop fin # fs" "kview k0 = (kview k)\<lparr>v_fr := (v_fr (kview k))(k_current k := fs)\<rparr>"
    "k_current k0 = k_current k" "k_typeno k0 = k_typeno k" using pop_view [OF assms(3)] by blast
  have i: "sched_inv (kview k)" "policy_ok k" using assms(2) by (simp_all add: k_inv_def)
  have idle: "k_inv k2" if "push [Sleep_loop fin] k0 = Inr k2" for k2
  proof -
    note P = push_view [OF that]
    have "(v_fr (kview k))(k_current k := Sleep_loop fin # fs) = v_fr (kview k)" using p(1) by auto
    then have "kview k2 = kview k" unfolding P(1) using p by simp
    then show ?thesis using i P(3) p(4) by (simp add: k_inv_def policy_ok_def)
  qed
  have none: "FindNextToRun k0 = Inr (None, k1) \<Longrightarrow> k1 = k0" for k1 using FindNextToRun_view(1) by fastforce
  have switch: "k_inv k2" if f: "FindNextToRun k0 = Inr (Some n, k1)" and r: "Run c k1 n fin = Inr k2" for n k1 k2
  proof -
    note F = FindNextToRun_view [OF f, simplified] and R = Run_view [OF r]
    have td: "k_toBeDestroyed k1 = k_toBeDestroyed k" using arg_cong [OF conjunct2 [OF F(1)], of v_tbd] p(2) by simp
    have "kview k2 = (kview k)\<lparr>v_rd := v_rd (kview k) - {#n#}, v_tbd := (if fin then Some (v_cur (kview k)) else v_tbd (kview k)),
      v_fr := (v_fr (kview k))(k_current k := after_SWITCH # fs), v_cur := n, v_st := (v_st (kview k))(n := Some RUNNING)\<rparr>"
      unfolding R(1) using F p td by simp
    then have "sched_inv (kview k2)" using inv_switch [OF i(1), of fin fs n] p F(1) R(3) td by simp
    then show ?thesis using R(2) F(3) p(4) i(2) by (simp add: k_inv_def policy_ok_def)
  qed
  show ?thesis
    unfolding exec_Sleep_loop_def
    by (intro yields_rules; clarsimp)
       (auto simp: yields_def intro: switch dest: none idle dest!: yieldsD [OF Idle_ok [OF assms(1)], rotated])
qed

text \<open>Creating and deleting threads.\<close>

lemma inv_stack:
  assumes "sched_inv v" "v_st v a = Some JUST_CREATED" "a \<noteq> v_cur v" "no_sleep fs" "no_loop fs"
  shows "sched_inv (v\<lparr>v_fr := (v_fr v)(a := fs)\<rparr>)" (is "sched_inv ?v")
proof (rule sched_invI)
  note i = sched_invD [OF assms(1)]
  have q: "a \<notin> set (v_qs v s)" for s using queue_member [OF i(6)] assms(2) by force
  show "ready_ok ?v" "blocked_ok ?v" using i(1,2) by (simp_all add: ready_ok_def blocked_ok_def)
  show "others_ok ?v" using i(3) assms(4) by (auto simp: others_ok_def)
  show "cur_ok ?v" using i(4) assms(3) unfolding cur_ok_def by simp
  show "destroy_ok ?v" using i(5) by (auto simp: destroy_ok_def split: option.splits)
  show "queues_ok ?v" using i(6) q by (auto simp: queues_ok_def)
  show "wake_ok ?v" by (rule wake_mono [OF i(7)]) (use i(7) assms(2,5) in \<open>auto simp: wake_ok_def woken_def shape_def\<close>)
qed

lemma exec_Fork_ok:
  assumes "on_cpu k" "v_st (kview k) a = Some JUST_CREATED" "no_sleep body" "no_loop body"
  shows "yields (exec_Fork k a body) on_cpu"
proof -
  have i: "sched_inv (kview k)" "policy_ok k" "running (kview k)" using assms(1) by (simp_all add: on_cpu_def)
  have ac: "a \<noteq> k_current k" using assms(2) i(3) by (auto simp: running_def)
  have "on_cpu k2"
    if s: "StackAllocate k a body = Inr k1" and r: "ReadyToRun (ChangeLevel k1 IntOff) a = Inr k2" for k1 k2
  proof -
    let ?fs = "ThreadBegin # body @ [Finish]"
    obtain t where t: "k_threads k a = Some t" "k1 = k\<lparr>k_threads := (k_threads k)(a \<mapsto> t\<lparr>t_stack := Some STACK_FENCEPOST, t_frames := ?fs\<rparr>)\<rparr>"
      using s unfolding StackAllocate_def by (rule upd_thread_Inr)
    have "(v_st (kview k))(a := Some (t_status t)) = v_st (kview k)" using t(1) by (auto simp: kview_def)
    then have v1: "kview k1 = (kview k)\<lparr>v_fr := (v_fr (kview k))(a := ?fs)\<rparr>" unfolding t(2) kview_upd [OF t(1)] by simp
    have f: "no_sleep ?fs" "no_loop ?fs" using assms(3,4) by (auto simp: no_sleep_def no_loop_def)
    have i1: "sched_inv (kview k1)" unfolding v1 by (rule inv_stack [OF i(1) assms(2) _ f]) (simp add: ac)
    have c1: "k_current k1 = k_current k" "k_typeno k1 = k_typeno k" using t(2) by simp_all
    have p1: "policy_ok (ChangeLevel k1 IntOff)" using i(2) c1 by (simp add: policy_ok_def)
    note R = ReadyToRun_view [OF r p1]
    have bl: "k_blockList (ChangeLevel k1 IntOff) = v_bl (kview k1)" by (simp add: ChangeLevel_def)
    have q: "a \<notin> set (v_qs (kview k1) s)" for s
      using queue_member [OF sched_invD(6) [OF i(1)], of a s] assms(2) by (auto simp: v1)
    have td: "v_tbd (kview k1) \<noteq> Some a" using sched_invD(5) [OF i(1)] assms(2) by (auto simp: v1 destroy_ok_def)
    have st1: "v_st (kview k1) a = Some JUST_CREATED" by (simp add: v1 assms(2))
    have "sched_inv (kview k2)"
      unfolding R(1) bl kview_state by (rule inv_ready [OF i1 disjI1 [OF st1] q td]) (use st1 in auto)
    moreover have "k_current k2 = k_current k" "k_typeno k2 = k_typeno k" using R(2,3) c1 by simp_all
    moreover have "v_st (kview k2) (k_current k) = Some RUNNING" unfolding R(1) using ac i(3) by (simp add: v1 running_def)
    moreover have "no_loop (v_fr (kview k2) (k_current k))" unfolding R(1) using ac assms(1) by (simp add: v1 on_cpu_def)
    ultimately show ?thesis using i(2) by (simp add: on_cpu_def policy_ok_def running_def)
  qed
  then show ?thesis unfolding exec_Fork_def Let_def by (intro yields_rules push_ok) auto
qed

lemma CheckToBeDestroyed_ok:
  assumes "sched_inv (kview k)" "policy_ok k" "running (kview k)"
  shows "yields (CheckToBeDestroyed k) (\<lambda>k'. sched_inv (kview k') \<and> policy_ok k' \<and> running (kview k')
    \<and> v_fr (kview k') (k_current k') = v_fr (kview k) (k_current k))"
proof -
  have "sched_inv (kview k2) \<and> policy_ok k2 \<and> running (kview k2) \<and> v_fr (kview k2) (k_current k2) = v_fr (kview k) (k_current k)"
    if d: "k_toBeDestroyed k = Some d" and t: "Thread_delete k d = Inr k1" and k2: "k2 = k1\<lparr>k_toBeDestroyed := None\<rparr>" for d k1 k2
  proof -
    obtain arr where k1: "k1 = k\<lparr>k_threadArray := arr, k_threads := (k_threads k)(d := None)\<rparr>" "d \<noteq> k_current k"
      using t by (auto simp: Thread_delete_def removeAThread_def rbind_Inr_iff rassert_Inr_iff)
    have v: "kview k2 = (kview k)\<lparr>v_st := (v_st (kview k))(d := None), v_fr := (v_fr (kview k))(d := []), v_tbd := None\<rparr>"
      unfolding k2 k1(1) kview_def by auto
    have "sched_inv (kview k2)" unfolding v by (rule inv_delete) (use assms d in simp_all)
    moreover have "k_current k2 = k_current k" "k_typeno k2 = k_typeno k" using k2 k1 by simp_all
    ultimately show ?thesis using assms k1(2) by (simp add: policy_ok_def running_def v)
  qed
  then show ?thesis unfolding CheckToBeDestroyed_def using assms by (intro yields_rules) auto
qed

lemma Thread_new_ok:
  assumes "on_cpu k"
  shows "yields (Thread_new k a prio remain) on_cpu"
proof -
  have "on_cpu (k\<lparr>k_threadArray := arr, k_threads := (k_threads k)(a \<mapsto> t)\<rparr>)"
    if "k_threads k a = None" "t_status t = JUST_CREATED" "t_frames t = []" for arr t
  proof -
    have v: "kview (k\<lparr>k_threadArray := arr, k_threads := (k_threads k)(a \<mapsto> t)\<rparr>) =
        (kview k)\<lparr>v_st := (v_st (kview k))(a := Some JUST_CREATED), v_fr := (v_fr (kview k))(a := [])\<rparr>"
      using that by (auto simp: kview_def)
    have n: "v_st (kview k) a = None" using that(1) by (simp add: kview_def)
    have "a \<noteq> k_current k" using n assms by (auto simp: on_cpu_def running_def)
    then show ?thesis
      using inv_create [OF _ n] assms v by (simp add: on_cpu_def policy_ok_def running_def)
  qed
  then show ?thesis
    unfolding Thread_new_def addAThread_def by (intro yields_rules) (auto simp: rbind_Inr_iff)
qed

end
