(* ===== verification/Kernel_Laws.thy ===== *)
theory Kernel_Laws
  imports Thread_Laws
begin

text \<open>
  Every step of the system keeps the invariant of the scheduler: the calls of threads, the routines that are built on them and the instructions of
  user programs.
\<close>

section \<open>Every step\<close>

text \<open>
  The contract of \<^verbatim>\<open>Fork\<close>: it is called once for a thread that has just been created. (Its procedure is
  made of calls, not of the rests of calls.)
\<close>

fun fork_ok :: "view \<Rightarrow> frame list \<Rightarrow> bool" where
  "fork_ok v (Fork a body # fs) = (v_st v a = Some JUST_CREATED \<and> no_sleep body \<and> no_loop body)"
| "fork_ok v fs = True"

definition call_ok :: "kernel \<Rightarrow> bool" where
  "call_ok k = fork_ok (kview k) (v_fr (kview k) (k_current k))"

lemma yields_mono: "yields r Q \<Longrightarrow> (\<And>x. Q x \<Longrightarrow> R x) \<Longrightarrow> yields r R"
  by (auto simp: yields_def)

lemma on_cpu_new_sem:
  assumes "on_cpu k" "s_queue y = []" "s_value y = 0"
  shows "on_cpu (put_sem k s y)"
proof -
  have "sched_inv ((kview k)\<lparr>v_qs := (v_qs (kview k))(s := [])\<rparr>)" by (rule inv_queue) (use assms in \<open>simp_all add: on_cpu_def\<close>)
  from inv_value [OF this, of 0 s] show ?thesis using assms by (simp add: on_cpu_def kview_put_sem policy_ok_def running_def)
qed

lemma exec_V_ok:
  assumes "on_cpu k"
  shows "yields (exec_V k s) on_cpu"
proof -
  have "on_cpu k1" if "V_body (ChangeLevel k IntOff) s = Inr k1" for k1
  proof -
    have o: "on_cpu (ChangeLevel k IntOff)" by (rule on_cpu_view [OF assms]) simp_all
    then have "quiet (ChangeLevel k IntOff) k1" using handler_okD [OF V_body_ok _ _ that] by (simp add: on_cpu_def)
    then show ?thesis by (rule on_cpu_quiet [OF o])
  qed
  then show ?thesis unfolding exec_V_def Let_def by (intro yields_rules push_ok) auto
qed

lemma on_cpu_locks: "on_cpu (put_lock k l x) = on_cpu k" "on_cpu (put_cond k cv y) = on_cpu k" "on_cpu (ChangeLevel k lv) = on_cpu k"
  "on_cpu (setStatus k ms) = on_cpu k" "on_cpu (k\<lparr>k_freshSem := n\<rparr>) = on_cpu k" "on_cpu (k\<lparr>k_machine := m\<rparr>) = on_cpu k"
  by (simp_all add: on_cpu_def policy_ok_def)

lemma exec_P_ok:
  assumes "on_cpu k"
  shows "yields (exec_P k s) k_inv"
proof -
  have "k_inv k'" if "push [P_loop s lv] (ChangeLevel k IntOff) = Inr k'" for lv k'
  proof -
    note P = push_view [OF that]
    let ?fs = "P_loop s lv # v_fr (kview k) (k_current k)"
    have n: "no_sleep ?fs" "shape ?fs" "\<not> loop_at (v_fr (kview k) (k_current k)) s'" for s'
      using assms running_no_sleep [of "kview k"] no_loop_at by (auto simp: on_cpu_def shape_def)
    have "sched_inv (kview k')" unfolding P(1) using inv_frames [of "kview k" ?fs] assms n by (simp add: on_cpu_def)
    then show ?thesis using assms P(3) by (simp add: k_inv_def on_cpu_def policy_ok_def)
  qed
  then show ?thesis unfolding exec_P_def by (simp add: yields_def)
qed

lemma exec_synch_ok:
  assumes "on_cpu k"
  shows "yields (exec_Acquire k l) on_cpu" "yields (exec_Release k l) on_cpu"
    "yields (exec_set_lockHolder k l) on_cpu" "yields (exec_Wait k cv l) on_cpu" "yields (exec_Signal k cv l) on_cpu"
    "yields (exec_Broadcast k cv l) on_cpu" "yields (exec_Barrier k cv l) on_cpu"
  unfolding exec_Acquire_def exec_Release_def exec_set_lockHolder_def exec_Wait_def exec_Signal_def exec_Broadcast_def
    exec_Barrier_def Let_def
  by (intro yields_rules push_ok; simp add: on_cpu_locks assms on_cpu_new_sem)+

lemma exec_after_SWITCH_ok:
  assumes "sched_inv (kview k)" "policy_ok k" "running (kview k)"
  shows "yields (exec_after_SWITCH c k) k_inv"
  unfolding exec_after_SWITCH_def RestoreUserState_def
  by (intro yields_rules)
     (auto simp: k_inv_def rbind_Inr_iff policy_ok_def split: if_splits dest: yieldsD [OF CheckToBeDestroyed_ok [OF assms]])

lemma exec_thread_ok:
  assumes "on_cpu k"
  shows "yields (exec_Fork_check k) on_cpu" "yields (exec_ThreadBegin k) on_cpu" "yields (exec_Finish k) k_inv"
proof -
  have o: "sched_inv (kview k)" "policy_ok k" "running (kview k)" "no_loop (v_fr (kview k) (k_current k))"
    using assms by (simp_all add: on_cpu_def)
  show "yields (exec_Fork_check k) on_cpu"
    unfolding exec_Fork_check_def by (intro yields_rules push_ok) (simp_all add: assms)
  show "yields (exec_ThreadBegin k) on_cpu"
    unfolding exec_ThreadBegin_def
    by (intro yields_rules push_ok) (use o(4) in \<open>auto simp: on_cpu_def dest: yieldsD [OF CheckToBeDestroyed_ok [OF o(1-3)]]\<close>)
  show "yields (exec_Finish k) k_inv"
    unfolding exec_Finish_def by (rule Sleep_ok) (simp add: on_cpu_locks assms)
qed

section \<open>Routines built on the calls\<close>

lemmas client_defs = client_step_def SynchList_Append_step_def SynchList_Append_locked_step_def SynchList_Append_result_step_def
  SynchList_RemoveFront_step_def SynchList_RemoveFront_locked_step_def SynchList_RemoveSpecificOne_step_def SynchList_Remove_locked_step_def
  SynchList_assert_empty_step_def assert_result_step_def assert_value_step_def delete_SynchList_step_def Console_GetChar_step_def
  Console_GetChar_locked_step_def Console_PutChar_step_def Console_PutChar_locked_step_def ConsoleTest_step_def ConsoleTest_echo_step_def
  PostalDelivery_step_def PostalDelivery_receive_step_def Post_Receive_step_def MailBox_Get_step_def Post_Send_step_def
  Network_Send_step_def NetworkTest_ack_step_def while_ready_step_def produce_item_step_def consume_item_step_def show_result_step_def
  reader_enter_step_def read_item_step_def reader_leave_step_def write_item_step_def SimpleThread_loop_step_def
  MyThreadTest_loop_step_def bzero_memory_step_def SimpleUserThread_step_def Halt_step_def

text \<open>
  A routine works on its own data. Of the rest of the kernel it changes nothing that the scheduler and the synchronisation primitives
  depend on.
\<close>

definition frugal :: "kernel \<Rightarrow> kernel \<Rightarrow> bool" where
  "frugal k k' \<longleftrightarrow> kview k' = kview k \<and> k_typeno k' = k_typeno k \<and> k_freshSem k' = k_freshSem k \<and> k_sems k' = k_sems k"

lemma frugal_refl [simp]: "frugal k k"
  by (simp add: frugal_def)

lemma frugal_trans: "frugal k k1 \<Longrightarrow> frugal k1 k2 \<Longrightarrow> frugal k k2"
  by (simp add: frugal_def)

lemma frugal_fields [simp]:
  "frugal k (k'\<lparr>k_machine := m\<rparr>) = frugal k k'" "frugal k (k'\<lparr>k_pending := p\<rparr>) = frugal k k'" "frugal k (k'\<lparr>k_data := d\<rparr>) = frugal k k'"
  "frugal k (k'\<lparr>k_random := r\<rparr>) = frugal k k'" "frugal k (k'\<lparr>k_halted := b\<rparr>) = frugal k k'"
  "frugal k (k'\<lparr>k_locks := ls\<rparr>) = frugal k k'" "frugal k (k'\<lparr>k_conds := cs\<rparr>) = frugal k k'"
  "frugal k (upd_data f k') = frugal k k'" "frugal k (put_list sl x xs k') = frugal k k'" "frugal k (setStatus k' st) = frugal k k'"
  by (simp_all add: frugal_def kview_def upd_data_def put_list_def setStatus_def)

lemma frugal_upd:
  assumes "frugal k k1" "\<And>t. t_status (f t) = t_status t" "\<And>t. t_frames (f t) = t_frames t"
  shows "yields (upd_thread k1 a f) (frugal k)"
proof -
  have "frugal k k2" if u: "upd_thread k1 a f = Inr k2" for k2
    using assms upd_thread_same [OF u] u by (auto simp: frugal_def elim!: upd_thread_Inr)
  then show ?thesis by (simp add: yields_def)
qed

lemma frugal_call:
  "frugal k k1 \<Longrightarrow> yields (set_result x k1) (frugal k)" "frugal k k1 \<Longrightarrow> yields (Schedule k1 obj n type) (frugal k)"
  "frugal k k1 \<Longrightarrow> yields (Execute c k1 sp) (frugal k)"
proof -
  assume k1: "frugal k k1"
  show "yields (set_result x k1) (frugal k)" unfolding set_result_def by (rule frugal_upd [OF k1]) simp_all
  show "yields (Schedule k1 obj n type) (frugal k)" unfolding Schedule_def Let_def by (intro yields_rules) (simp add: k1)
  have "frugal k k2" if "upd_thread k1 a (\<lambda>t. t\<lparr>t_space := z\<rparr>) = Inr k2" for a z k2 by (rule yieldsD [OF frugal_upd [OF k1] that]) simp_all
  then show "yields (Execute c k1 sp) (frugal k)" unfolding Execute_def by (intro yields_rules) simp
qed

lemma frugal_Inr:
  "set_result x k1 = Inr k2 \<Longrightarrow> frugal k k1 \<Longrightarrow> frugal k k2" "Schedule k1 obj n type = Inr k2 \<Longrightarrow> frugal k k1 \<Longrightarrow> frugal k k2"
  "Execute c k1 sp = Inr k2 \<Longrightarrow> frugal k k1 \<Longrightarrow> frugal k k2"
  using frugal_call [of k k1, THEN yieldsD] by blast+

lemma client_step_frugal: "yields (client_step c op k) (\<lambda>(fs, k'). frugal k k' \<and> no_sleep fs \<and> no_loop fs)"
  by (cases op; simp only: client_defs Let_def client.case; (intro yields_rules)?; auto elim!: frugal_Inr split: if_splits nat.splits)

lemma exec_Client_ok:
  assumes "on_cpu k"
  shows "yields (exec_Client c k op) on_cpu"
  unfolding exec_Client_def
proof (intro yields_bind yields_prod)
  fix p fs k' assume "client_step c op k = Inr p" "p = (fs, k')"
  then have f: "frugal k k'" "no_sleep fs" "no_loop fs" using yieldsD [OF client_step_frugal] by auto
  have "on_cpu k'" by (rule on_cpu_view [OF assms]) (use f(1) in \<open>simp_all add: frugal_def\<close>)
  then show "yields (push fs k') on_cpu" by (rule push_ok [OF _ f(2,3)])
qed

lemma yields_on_cpu: "yields r on_cpu \<Longrightarrow> yields r k_inv"
  by (rule yields_mono [OF _ on_cpu_inv])

lemma exec_UserRun_ok:
  assumes "devices_ok D" "on_cpu k"
  shows "yields (exec_UserRun D c k) k_inv"
proof -
  have o: "on_cpu (k\<lparr>k_machine := m\<rparr>)" for m using assms(2) by (simp add: on_cpu_locks)
  have "yields (rbind (push [UserRun] (k\<lparr>k_machine := m\<rparr>)) (OneTick D)) k_inv" for m
    by (intro yields_bind yields_on_cpu OneTick_ok [OF assms(1)]) (rule yieldsD [OF push_ok [OF o]], simp_all)
  moreover have "yields (exec_Finish (k\<lparr>k_machine := m\<rparr>)) k_inv" for m by (rule exec_thread_ok(3) [OF o])
  moreover have "k_inv (k\<lparr>k_machine := m, k_halted := True\<rparr>)" for m
    by (rule on_cpu_inv [OF on_cpu_view [OF assms(2)]]) simp_all
  ultimately show ?thesis unfolding exec_UserRun_def by (intro yields_bind) (simp split: control.split)
qed

lemma exec_frame_ok:
  assumes "devices_ok D" "on_cpu k" "fork_ok (kview k) (f # fs)" "f \<noteq> Sleep_loop True" "f \<noteq> Sleep_loop False"
    "\<And>s old. f \<noteq> P_loop s old" "f \<noteq> after_SWITCH"
  shows "yields (exec_frame D c k f) k_inv"
proof -
  have prio: "yields (upd_thread k a (\<lambda>t. t\<lparr>t_priority := p\<rparr>)) on_cpu" for a p
    using assms(2) by (auto simp: yields_def dest!: upd_thread_keeps intro: on_cpu_view)
  have del: "on_cpu (k\<lparr>k_sems := (k_sems k)(s := None)\<rparr>)" for s
  proof -
    have "kview (k\<lparr>k_sems := (k_sems k)(s := None)\<rparr>) = kview (put_sem k s \<lparr>s_value = 0, s_queue = []\<rparr>)"
      by (auto simp: kview_def put_sem_def)
    then show ?thesis using on_cpu_view [OF on_cpu_new_sem [OF assms(2), of "\<lparr>s_value = 0, s_queue = []\<rparr>" s]] by simp
  qed
  note calls = exec_synch_ok [OF assms(2)] exec_thread_ok(1,2) [OF assms(2)] exec_V_ok [OF assms(2)] exec_SetLevel_ok [OF assms(1,2)]
    Thread_new_ok [OF assms(2)] prio exec_Fork_ok [OF assms(2)] exec_Client_ok [OF assms(2)]
  show ?thesis
  proof (cases f)
    case (P_loop s old)
    then show ?thesis using assms(6) by blast
  qed (use assms in \<open>simp_all add: exec_frame_def calls [THEN yields_on_cpu] exec_thread_ok(3) exec_Yield_ok exec_P_ok
      exec_UserRun_ok del on_cpu_locks on_cpu_inv\<close>)
qed

lemma kernel_step_ok:
  assumes "devices_ok D" "k_inv k" "call_ok k"
  shows "yields (kernel_step D c k) k_inv"
proof -
  have "yields (exec_frame D c k1 f) k_inv" if p: "pop k = Inr (f, k1)" for f k1
  proof -
    obtain fs where v: "v_fr (kview k) (k_current k) = f # fs" "kview k1 = (kview k)\<lparr>v_fr := (v_fr (kview k))(k_current k := fs)\<rparr>"
      using pop_view [OF p] by blast
    have fk: "fork_ok (kview k1) (f # fs)" using assms(3) unfolding call_ok_def v(1) by (cases f) (simp_all add: v(2))
    note o = pop_ok [OF assms(2) p]
    consider fin where "f = Sleep_loop fin" | s old where "f = P_loop s old" | "f = after_SWITCH"
      | "\<And>fin. f \<noteq> Sleep_loop fin" "\<And>s old. f \<noteq> P_loop s old" "f \<noteq> after_SWITCH" by blast
    then show ?thesis
    proof cases
      case 1
      then show ?thesis using exec_Sleep_loop_ok [OF assms(1,2)] p by (simp add: exec_frame_def)
    next
      case 2
      then show ?thesis using exec_P_loop_ok [OF assms(2)] p by (simp add: exec_frame_def)
    next
      case 3
      then show ?thesis using exec_after_SWITCH_ok [OF o(1-3)] by (simp add: exec_frame_def)
    next
      case 4
      show ?thesis by (rule exec_frame_ok [OF assms(1) o(4) fk]) (use 4 in auto)
    qed
  qed
  then show ?thesis unfolding kernel_step_def using assms(2) by (intro yields_rules) auto
qed

end
