(* ===== verification/Thread_Props.thy ===== *)
theory Thread_Props
  imports Kernel_Laws
begin

text \<open>
  What the invariant of \<open>Thread_Laws\<close> says of every state that the system reaches from its start, with the
  interrupt handlers as an interface: whatever handlers keep their contract, the invariant holds.
\<close>

section \<open>Reachable states\<close>

text \<open>
  A run of the system: the current thread makes its next call, and the calls of \<^verbatim>\<open>Fork\<close> keep its contract.
\<close>

inductive reaches :: "devices \<Rightarrow> config \<Rightarrow> kernel \<Rightarrow> kernel \<Rightarrow> bool" for D c k0 where
  start: "reaches D c k0 k0"
| step: "reaches D c k0 k \<Longrightarrow> call_ok k \<Longrightarrow> kernel_step D c k = Inr k' \<Longrightarrow> reaches D c k0 k'"

inductive_cases reachesE: "reaches D c k0 k"

text \<open>The contract of the interrupt handlers.\<close>

locale interrupt_handlers =
  fixes D :: devices
  assumes handler_contract: "sched_inv (kview k) \<Longrightarrow> policy_ok k \<Longrightarrow> D n k = Inr k' \<Longrightarrow> quiet k k'"
begin

lemma handlers_ok: "devices_ok D"
  using handler_contract by (auto simp: devices_ok_def handler_ok_def)

lemma reaches_inv:
  assumes "reaches D c k0 k" "k_inv k0"
  shows "k_inv k"
  using assms
proof (induction rule: reaches.induct)
  case (step k k')
  then show ?case using yieldsD [OF kernel_step_ok [OF handlers_ok]] by blast
qed

lemma reaches_sched: "reaches D c k0 k \<Longrightarrow> k_inv k0 \<Longrightarrow> sched_inv (kview k)"
  using reaches_inv by (simp add: k_inv_def)

end

text \<open>The handlers of the kernel: each works on the data of its device and may signal a semaphore.\<close>

definition signals_only :: "kernel \<Rightarrow> kernel result \<Rightarrow> bool" where
  "signals_only k r \<longleftrightarrow> yields r (\<lambda>k'. frugal k k' \<or> (\<exists>k1 s. frugal k k1 \<and> V_body k1 s = Inr k'))"

lemma signals_only_V: "frugal k k1 \<Longrightarrow> signals_only k (V_body k1 s)"
  by (auto simp: signals_only_def yields_def)

lemma kernel_devices_signal: "signals_only k (kernel_devices W n k)"
proof -
  have s: "yields (V_body k1 s) (\<lambda>k'. frugal k k' \<or> (\<exists>k1 s. frugal k k1 \<and> V_body k1 s = Inr k'))" if "frugal k k1" for k1 s
    using that by (auto simp: yields_def)
  have "signals_only k (ConsoleInput_CallBack k)" "signals_only k (ConsoleOutput_CallBack k)" "signals_only k (NetworkInput_CallBack k)"
    "signals_only k (NetworkOutput_CallBack k)" "signals_only k (signal_device W n k)"
    unfolding signals_only_def ConsoleInput_CallBack_def ConsoleOutput_CallBack_def NetworkInput_CallBack_def NetworkOutput_CallBack_def
      signal_device_def Let_def set_stats_def
    by (intro yields_rules s; auto simp: yields_def elim!: frugal_Inr)+
  then show ?thesis by (simp add: kernel_devices_def)
qed

lemma quiet_frugal: "sched_inv (kview k) \<Longrightarrow> frugal k k' \<Longrightarrow> quiet k k'"
  by (rule quiet_view) (simp_all add: frugal_def)

interpretation signals: interrupt_handlers "kernel_devices W" for W
proof unfold_locales
  fix k k' n assume k: "sched_inv (kview k)" "policy_ok k" "kernel_devices W n k = Inr k'"
  then consider "frugal k k'" | k1 s where "frugal k k1" "V_body k1 s = Inr k'"
    using kernel_devices_signal [of k W n] by (auto simp: signals_only_def yields_def)
  then show "quiet k k'"
  proof cases
    case 2
    have "quiet k k1" by (rule quiet_frugal [OF k(1) 2(1)])
    moreover have "quiet k1 k'" by (rule handler_okD [OF V_body_ok _ _ 2(2)]) (use k 2(1) in \<open>simp_all add: frugal_def policy_ok_def\<close>)
    ultimately show ?thesis by (rule quiet_trans)
  qed (rule quiet_frugal [OF k(1)])
qed

section \<open>The start\<close>

text \<open>The object of the kernel before its initialisation: no threads yet, and semaphores on which no thread waits.\<close>

definition raw_kernel :: "kernel \<Rightarrow> bool" where
  "raw_kernel k \<longleftrightarrow> k_threads k = Map.empty \<and> k_typeno k \<in> {0, 1, 2, 3}
     \<and> (\<forall>s x. k_sems k s = Some x \<longrightarrow> s_queue x = [] \<and> 0 \<le> s_value x)"

text \<open>The procedure of a thread is made of calls, not of the rests of calls.\<close>

definition calls_only :: "frame list \<Rightarrow> bool" where
  "calls_only fs \<longleftrightarrow> no_sleep fs \<and> no_loop fs"

lemma start_inv:
  assumes "v_st v = [a \<mapsto> RUNNING]" "v_fr v = (\<lambda>_. [])(a := fs)" "v_rd v = {#}" "v_bl v = []" "v_cur v = a" "v_tbd v = None"
    "\<And>s. v_qs v s = []" "\<And>s. 0 \<le> v_val v s" "calls_only fs"
  shows "sched_inv v"
proof (rule sched_invI)
  show "ready_ok v" using assms by (simp add: ready_ok_def)
  show "blocked_ok v" using assms by (simp add: blocked_ok_def)
  show "others_ok v" using assms by (simp add: others_ok_def no_sleep_def)
  show "cur_ok v" using assms by (simp add: cur_ok_def calls_only_def)
  show "destroy_ok v" using assms by (simp add: destroy_ok_def)
  show "queues_ok v" using assms by (simp add: queues_ok_def)
  show "wake_ok v" using assms by (auto simp: wake_ok_def shape_def no_loop_def calls_only_def)
qed

text \<open>What the constructors of the alarm, the machine and the devices leave alone.\<close>

definition core :: "kernel \<Rightarrow> int \<times> (addr \<rightharpoonup> thread) \<times> addr \<times> addr list \<times> addr list \<times> addr list list \<times> addr list \<times> addr option
    \<times> (addr \<rightharpoonup> semaphore) \<times> (addr \<rightharpoonup> lock) \<times> (addr \<rightharpoonup> condition) \<times> addr \<times> client_data" where
  "core k = (k_typeno k, k_threads k, k_current k, k_readyList k, k_sortedReadyList k, k_threadArrQueue k, k_blockList k, k_toBeDestroyed k,
     k_sems k, k_locks k, k_conds k, k_freshSem k, k_data k)"

lemma Schedule_core: "yields (Schedule k obj n type) (\<lambda>k'. core k' = core k)"
  unfolding Schedule_def Let_def by (intro yields_rules) (simp add: core_def)

lemma schedule_all_core: "yields (schedule_all k ds) (\<lambda>k'. core k' = core k)"
proof (induction k ds rule: schedule_all.induct)
  case (2 k obj n type ds)
  have "yields (schedule_all k1 ds) (\<lambda>k'. core k' = core k)" if "Schedule k obj n type = Inr k1" for k1
    using 2 [OF that] yieldsD [OF Schedule_core that] by simp
  then show ?case unfolding schedule_all.simps by (rule yields_bind)
qed simp

lemma follow_current_core: "yields (follow_current k) (\<lambda>k'. core k' = core k)"
  unfolding follow_current_def by (intro yields_rules) (simp add: core_def)

lemma Alarm_core: "yields (Alarm k r) (\<lambda>k'. core k' = core k)"
  unfolding Alarm_def Timer_def Timer_SetInterrupt_def Schedule_def Let_def by (intro yields_rules) (simp_all add: core_def)

lemma Thread_new_start:
  assumes "k_threads k = Map.empty" "Thread_new k a prio remain = Inr k'"
  obtains t arr where "k' = k\<lparr>k_threadArray := arr, k_threads := [a \<mapsto> t]\<rparr>" "t_frames t = []"
  using assms by (auto simp: Thread_new_def addAThread_def nachos_res split: if_splits)

lemma upd_thread_only:
  assumes "k_threads k = [a \<mapsto> t]" "upd_thread k a f = Inr k'"
  shows "k' = k\<lparr>k_threads := [a \<mapsto> f t]\<rparr>"
  using assms by (auto simp: upd_thread_def get_thread_def)

text \<open>The state after the initialisation.\<close>

lemma Kernel_Initialize_start:
  assumes "Kernel_Initialize c r rs dbg a prio remain junk tlb0 pt0 ptsize exe hdr devs body = Inr k0" "k_threads r = Map.empty"
  obtains t where "t_frames t = SetLevel IntOn # body" "t_status t = RUNNING"
    "core k0 = (k_typeno r, [a \<mapsto> t], a, [], [], replicate (nat QueueNum) [], [], None, k_sems r, k_locks r, k_conds r, k_freshSem r, k_data r)"
proof -
  define r' where "r' = r\<lparr>k_threadArray := replicate (nat MaxThreadNum) None\<rparr>"
  obtain k1 k2 k3 k4 m k5 k6 where e: "Thread_new r' a prio remain = Inr k1"
      "(if k_typeno (k1\<lparr>k_current := a\<rparr>) = 1 then upd_thread (k1\<lparr>k_current := a\<rparr>) a (\<lambda>t. t\<lparr>t_priority := 8\<rparr>) else Inr (k1\<lparr>k_current := a\<rparr>)) = Inr k2"
      "upd_thread k2 a (\<lambda>t. t\<lparr>t_status := RUNNING\<rparr>) = Inr k3"
      "Alarm (Scheduler (Interrupt (set_stats k3 (Statistics junk)))) rs = Inr k4"
      "schedule_all (k4\<lparr>k_machine := m, k_halted := False\<rparr>) devs = Inr k5" "push (SetLevel IntOn # body) k5 = Inr k6" "follow_current k6 = Inr k0"
    using assms(1) unfolding Kernel_Initialize_def Let_def rbind_Inr_iff r'_def by blast
  have "k_threads r' = Map.empty" using assms(2) by (simp add: r'_def)
  then obtain t arr where t: "k1 = r'\<lparr>k_threadArray := arr, k_threads := [a \<mapsto> t]\<rparr>" "t_frames t = []" using e(1) by (rule Thread_new_start)
  obtain t2 where t2: "k2 = k1\<lparr>k_current := a, k_threads := [a \<mapsto> t2]\<rparr>" "t_frames t2 = []"
  proof (cases "k_typeno k1 = 1")
    case True
    then have u: "upd_thread (k1\<lparr>k_current := a\<rparr>) a (\<lambda>t. t\<lparr>t_priority := 8\<rparr>) = Inr k2" using e(2) by simp
    have "k_threads (k1\<lparr>k_current := a\<rparr>) = [a \<mapsto> t]" using t(1) by simp
    from upd_thread_only [OF this u] show thesis using that t(2) by simp
  next
    case False
    then have "k2 = k1\<lparr>k_current := a\<rparr>" using e(2) by simp
    then show thesis by (intro that [of t]) (simp_all add: t)
  qed
  have k3: "k3 = k2\<lparr>k_threads := [a \<mapsto> t2\<lparr>t_status := RUNNING\<rparr>]\<rparr>" by (rule upd_thread_only [OF _ e(3)]) (simp add: t2(1))
  have "core k4 = core (Scheduler (Interrupt (set_stats k3 (Statistics junk))))" using yieldsD [OF Alarm_core e(4)] .
  moreover have "core k5 = core k4" using yieldsD [OF schedule_all_core e(5)] by (simp add: core_def)
  ultimately have c5: "core k5 = (k_typeno r, [a \<mapsto> t2\<lparr>t_status := RUNNING\<rparr>], a, [], [], replicate (nat QueueNum) [], [], None,
      k_sems r, k_locks r, k_conds r, k_freshSem r, k_data r)"
    by (simp add: core_def Scheduler_def Interrupt_def set_stats_def setStatus_def k3 t2(1) t(1) r'_def)
  have k6: "k6 = k5\<lparr>k_threads := [a \<mapsto> t2\<lparr>t_status := RUNNING, t_frames := SetLevel IntOn # body\<rparr>]\<rparr>"
    using upd_thread_only [of k5 a "t2\<lparr>t_status := RUNNING\<rparr>" "\<lambda>t. t\<lparr>t_frames := (SetLevel IntOn # body) @ t_frames t\<rparr>" k6] e(6) c5 t2(2)
    by (simp add: push_def core_def)
  show thesis
    by (rule that [of "t2\<lparr>t_status := RUNNING, t_frames := SetLevel IntOn # body\<rparr>"])
      (use yieldsD [OF follow_current_core e(7)] c5 in \<open>simp_all add: k6 core_def\<close>)
qed

lemma Kernel_Initialize_inv:
  assumes "raw_kernel r" "calls_only body"
    "Kernel_Initialize c r rs dbg a prio remain junk tlb0 pt0 ptsize exe hdr devs body = Inr k0"
  shows "k_inv k0"
proof -
  have "k_threads r = Map.empty" using assms(1) by (simp add: raw_kernel_def)
  with assms(3) obtain t where t: "t_frames t = SetLevel IntOn # body" "t_status t = RUNNING"
    and c: "core k0 = (k_typeno r, [a \<mapsto> t], a, [], [], replicate (nat QueueNum) [], [], None, k_sems r, k_locks r, k_conds r, k_freshSem r, k_data r)"
    by (rule Kernel_Initialize_start)
  have "sched_inv (kview k0)"
  proof (rule start_inv [where a = a and fs = "SetLevel IntOn # body"])
    show "calls_only (SetLevel IntOn # body)" using assms(2) by (simp add: calls_only_def no_sleep_def no_loop_def)
  qed (use c t assms(1) in \<open>auto simp: core_def kview_def raw_kernel_def fun_eq_iff split: option.splits\<close>)
  then show ?thesis using c assms(1) by (simp add: core_def k_inv_def policy_ok_def raw_kernel_def)
qed

section \<open>A run\<close>

text \<open>
  Runs can be executed: \<open>checked_run\<close> also checks the contract of \<^verbatim>\<open>Fork\<close>. The example starts a thread and then waits
  for a semaphore.
\<close>

fun checked_run :: "nat \<Rightarrow> devices \<Rightarrow> config \<Rightarrow> kernel \<Rightarrow> kernel option" where
  "checked_run 0 D c k = Some k"
| "checked_run (Suc n) D c k =
     (if call_ok k then case kernel_step D c k of Inl e \<Rightarrow> None | Inr k' \<Rightarrow> checked_run n D c k' else None)"

lemma reaches_trans: "reaches D c k1 k2 \<Longrightarrow> reaches D c k0 k1 \<Longrightarrow> reaches D c k0 k2"
  by (induction rule: reaches.induct) (auto intro: reaches.intros)

lemma checked_run_reaches: "checked_run n D c k = Some k' \<Longrightarrow> reaches D c k k'"
proof (induction n arbitrary: k)
  case (Suc n)
  then obtain k1 where "call_ok k" "kernel_step D c k = Inr k1" "checked_run n D c k1 = Some k'"
    by (auto split: if_splits sum.splits)
  then show ?case using Suc.IH [of k1] reaches.step [OF reaches.start] reaches_trans by blast
qed (simp add: reaches.start)

definition demo_config :: config where
  "demo_config = \<lparr>USE_TLB = False, USE_RPT = False, FIFO_REPLACE = False, LRU_REPLACE = False\<rparr>"

definition demo_data :: client_data where
  "demo_data = \<lparr>d_lists = Map.empty, d_consoleIn = \<lparr>ci_polls = [], ci_incoming = EOF, ci_lock = 0, ci_waitFor = 0\<rparr>,
     d_consoleOut = \<lparr>co_written = [], co_putBusy = False, co_lock = 0, co_waitFor = 0\<rparr>,
     d_networkIn = \<lparr>ni_inHdr = \<lparr>pkt_to = 0, pkt_from = 0, pkt_length = 0\<rparr>, ni_inbox = replicate 52 0, ni_polls = [], ni_messageAvailable = 0\<rparr>,
     d_networkOut = \<lparr>no_sendBusy = False, no_chance = 100, no_new = replicate 64 0, no_sent = [], no_messageSent = 0, no_sendLock = 0\<rparr>,
     d_post = \<lparr>po_boxes = [], po_mails = Map.empty, po_fresh = 0, po_buffer = replicate 52 0, po_got = Map.empty\<rparr>,
     d_hostName = 0, d_high = 0, d_low = 0, d_produceArray = [], d_readerCount = 0, d_readContent = [], d_consumed = [], d_shown = [], d_seen = []\<rparr>"

definition demo_raw :: "int \<Rightarrow> kernel" where
  "demo_raw typ = \<lparr>k_typeno = typ, k_threads = Map.empty, k_threadArray = [], k_current = 0, k_readyList = [], k_sortedReadyList = [],
     k_threadArrQueue = [], k_suspendList = [], k_blockList = [], k_toBeDestroyed = None, k_level = IntOff, k_pending = [],
     k_inHandler = False, k_yieldOnReturn = False,
     k_machine = \<lparr>registers = [], mainMemory = [], tlb = None, pt = None, mmBitmap = \<lparr>numBits = 0, numWords = 0, bmap = []\<rparr>,
       pageTableSize = 0, singleStep = False, m_stats = Statistics 0, m_status = SystemMode, m_tID = 0, m_vmFile = None,
       currentOpenedFile = None, currentNoffHeader = zero_header, m_control = InProgram\<rparr>,
     k_sems = [7 \<mapsto> Semaphore 0], k_locks = Map.empty, k_conds = Map.empty, k_freshSem = 8, k_randomize = False,
     k_timerDisable = False, k_random = (\<lambda>_. 0), k_halted = False, k_data = demo_data\<rparr>"

definition demo_body :: "frame list" where
  "demo_body = [NewThread 2 0 0, Fork 2 [sem_V 7], sem_P 7]"

definition demo_kernel :: "int \<Rightarrow> frame list \<Rightarrow> machine \<Rightarrow> kernel" where
  "demo_kernel typ body m = (demo_raw typ)\<lparr>k_threads := [0 \<mapsto> \<lparr>t_threadID = 0, t_priority = (if typ = 1 then 8 else if typ = 3 then - 1 else 0),
       t_timeSliceRemain = (if typ = 1 then 3 else 0), t_status = RUNNING, t_stack = None,
       t_userRegisters = [], t_space = None, t_frames = SetLevel IntOn # body, t_result = 0\<rparr>],
     k_threadArray := Some 0 # replicate 127 None, k_threadArrQueue := replicate 5 [],
     k_pending := [\<lparr>callOnInterrupt = TimerDevice, int_when = 100, int_kind = TimerInt\<rparr>], k_machine := m\<rparr>"

lemma demo_start:
  obtains m where "Kernel_Initialize demo_config (demo_raw typ) False False 0 0 0 0 [] [] 0 None zero_header [] body = Inr (demo_kernel typ body m)"
    "m_status m = SystemMode" "totalTicks (m_stats m) = 0" "registers m = replicate NumTotalRegs 0"
proof -
  obtain b where b: "Bitmap NumPhysPages = Inr b" using Bitmap_ok [of NumPhysPages] by (auto simp: NumPhysPages_def)
  have l: "add_thread_loop (replicate 128 None) 0 0 = Inr (0, Some 0 # replicate 127 None)"
    by (subst add_thread_loop.simps) (simp add: MaxThreadNum_def aread_def awrite_def numeral_eq_Suc)
  show thesis
    by (rule that, (simp add: Kernel_Initialize_def Thread_new_def addAThread_def demo_raw_def MaxThreadNum_def l upd_thread_def get_thread_def
      Alarm_def Timer_def Timer_SetInterrupt_def Scheduler_def Interrupt_def Schedule_def Let_def set_stats_def setStatus_def k_stats_def
      getStatus_def Machine_def b push_def follow_current_def TimerTicks_def insert_before_def demo_kernel_def QueueNum_def timeSlice_def Statistics_def), simp_all)
qed

lemma checked_run_numeral:
  "checked_run (numeral v) D c k =
     (if call_ok k then case kernel_step D c k of Inl e \<Rightarrow> None | Inr k' \<Rightarrow> checked_run (pred_numeral v) D c k' else None)"
  by (simp only: numeral_eq_Suc checked_run.simps)

lemmas exec_defs = call_ok_def kview_def kernel_step_def pop_def upd_thread_def get_thread_def get_sem_def put_sem_def push_def
  exec_frame_def exec_SetLevel_def Let_def ChangeLevel_def OneTick_def getStatus_def setStatus_def k_stats_def set_stats_def
  CheckIfDue_def SystemTick_def UserTick_def Thread_new_def addAThread_def exec_Fork_def StackAllocate_def ReadyToRun_def
  enqueue_ready_def al_Append_def exec_Fork_check_def exec_P_def exec_P_loop_def Sleep_def blockAThread_def Semaphore_def

lemma demo_run:
  assumes "m_status m = SystemMode" "totalTicks (m_stats m) = 0"
  obtains k t0 t1 where "checked_run 7 (kernel_devices W) demo_config (demo_kernel 0 demo_body m) = Some k" "k_sems k = [7 \<mapsto> \<lparr>s_value = 0, s_queue = [0]\<rparr>]"
    "k_threads k 0 = Some t0" "k_threads k 2 = Some t1" "t_status t0 = BLOCKED" "t_status t1 = READY"
proof -
  have l: "add_thread_loop (Some 0 # replicate 127 None) 2 0 = Inr (1, Some 0 # Some 2 # replicate 126 None)"
    by (subst add_thread_loop.simps, subst add_thread_loop.simps) (simp add: MaxThreadNum_def aread_def awrite_def numeral_eq_Suc)
  show thesis
    by (rule that, (simp add: demo_kernel_def demo_raw_def demo_body_def checked_run_numeral exec_defs assms l no_sleep_def no_loop_def), simp_all, simp_all)
qed

lemma demo_reaches:
  obtains k0 k t0 t1 where "raw_kernel (demo_raw 0)" "calls_only demo_body"
    "Kernel_Initialize demo_config (demo_raw 0) False False 0 0 0 0 [] [] 0 None zero_header [] demo_body = Inr k0"
    "reaches (kernel_devices W) demo_config k0 k" "k_sems k = [7 \<mapsto> \<lparr>s_value = 0, s_queue = [0]\<rparr>]"
    "k_threads k 0 = Some t0" "k_threads k 2 = Some t1" "t_status t0 = BLOCKED" "t_status t1 = READY"
proof -
  obtain m where m: "Kernel_Initialize demo_config (demo_raw 0) False False 0 0 0 0 [] [] 0 None zero_header [] demo_body = Inr (demo_kernel 0 demo_body m)"
    "m_status m = SystemMode" "totalTicks (m_stats m) = 0"
    by (rule demo_start)
  obtain k t0 t1 where k: "checked_run 7 (kernel_devices W) demo_config (demo_kernel 0 demo_body m) = Some k"
      "k_sems k = [7 \<mapsto> \<lparr>s_value = 0, s_queue = [0]\<rparr>]"
      "k_threads k 0 = Some t0" "k_threads k 2 = Some t1" "t_status t0 = BLOCKED" "t_status t1 = READY"
    using m(2,3) by (rule demo_run)
  have "raw_kernel (demo_raw 0)" "calls_only demo_body"
    by (simp_all add: raw_kernel_def demo_raw_def Semaphore_def calls_only_def demo_body_def no_sleep_def no_loop_def)
  then show thesis using that m(1) checked_run_reaches [OF k(1)] k(2-) by blast
qed

section \<open>Threads are where their status says\<close>

definition ready_queue :: "kernel \<Rightarrow> addr list" where
  "ready_queue k = k_readyList k @ k_sortedReadyList k @ concat (k_threadArrQueue k)"

lemma count_ready: "count_list (ready_queue k) a = count (v_rd (kview k)) a"
  by (simp add: ready_queue_def kview_def count_mset)

text \<open>
  C2: in every state that the system reaches after its initialisation, under each of the four scheduling policies and whatever
  the devices signal, a thread is where its status says. A thread that is ready is on the ready queues once and no other
  thread is on them, not even one that was deleted; a blocked thread is on the blocked list once, and a ready or running
  thread is not on it; only the current thread runs.
\<close>

theorem threads_in_their_places:
  assumes "raw_kernel r" "calls_only body"
    "Kernel_Initialize c r rs dbg main prio remain junk tlb0 pt0 ptsize exe hdr devs body = Inr k0"
    "reaches (kernel_devices W) c k0 k"
  shows "case k_threads k a of
      None \<Rightarrow> count_list (ready_queue k) a = 0
    | Some t \<Rightarrow> count_list (ready_queue k) a = (if t_status t = READY then 1 else 0)
        \<and> (t_status t = BLOCKED \<longrightarrow> count_list (k_blockList k) a = 1)
        \<and> (t_status t = READY \<or> t_status t = RUNNING \<longrightarrow> count_list (k_blockList k) a = 0)
        \<and> (t_status t = RUNNING \<longrightarrow> a = k_current k)"
proof -
  note i = sched_invD [OF signals.reaches_sched [OF assms(4) Kernel_Initialize_inv [OF assms(1-3)]]]
  have "v_st (kview k) a = map_option t_status (k_threads k a)" by (simp add: kview_def)
  moreover have "count_list (k_blockList k) a = (if a \<in> set (k_blockList k) then 1 else 0)"
    using i(2) by (simp add: blocked_ok_def distinct_count_atmost_1 count_mset)
  ultimately show ?thesis
    using i(1-3) by (auto simp: count_ready ready_ok_def blocked_ok_def others_ok_def split: option.splits)
qed

theorem threads_in_their_places_witness:
  "\<exists>k0 k. Kernel_Initialize demo_config (demo_raw 0) False False 0 0 0 0 [] [] 0 None zero_header [] demo_body = Inr k0
     \<and> reaches (kernel_devices [0 \<mapsto> 7]) demo_config k0 k
     \<and> count_list (ready_queue k) 2 = 1 \<and> count_list (ready_queue k) 0 = 0 \<and> count_list (k_blockList k) 0 = 1"
proof -
  obtain k0 k t0 t1 where d: "raw_kernel (demo_raw 0)" "calls_only demo_body"
    "Kernel_Initialize demo_config (demo_raw 0) False False 0 0 0 0 [] [] 0 None zero_header [] demo_body = Inr k0"
    "reaches (kernel_devices [0 \<mapsto> 7]) demo_config k0 k" "k_sems k = [7 \<mapsto> \<lparr>s_value = 0, s_queue = [0]\<rparr>]"
    "k_threads k 0 = Some t0" "k_threads k 2 = Some t1" "t_status t0 = BLOCKED" "t_status t1 = READY"
    by (rule demo_reaches)
  then show ?thesis using threads_in_their_places [OF d(1-4), of 0] threads_in_their_places [OF d(1-4), of 2] by auto
qed

text \<open>
  C10: no wakeup is lost. In every state that the system reaches, the value of a semaphore is not negative, and a thread that waits
  in its queue is there once, blocked, in the middle of its \<^verbatim>\<open>P\<close> and in the queue of no other semaphore. As long as some
  thread waits, the value is at most the number of threads that are awake in the loop of \<^verbatim>\<open>P\<close> and will look at the value
  again. So when none is, the value is 0: no thread is left asleep on a semaphore that is free.
\<close>

theorem no_lost_wakeup:
  assumes "raw_kernel r" "calls_only body"
    "Kernel_Initialize c r rs dbg main prio remain junk tlb0 pt0 ptsize exe hdr devs body = Inr k0"
    "reaches (kernel_devices W) c k0 k" "k_sems k s = Some x"
  shows "0 \<le> s_value x \<and> distinct (s_queue x)
    \<and> (s_queue x \<noteq> [] \<longrightarrow> s_value x \<le> int (card {a. \<exists>t. k_threads k a = Some t \<and> t_status t \<in> {READY, RUNNING} \<and> loop_at (t_frames t) s}))
    \<and> (\<forall>a \<in> set (s_queue x). \<exists>t. k_threads k a = Some t \<and> t_status t = BLOCKED \<and> waits (t_frames t) s
         \<and> (\<forall>s' x'. k_sems k s' = Some x' \<longrightarrow> a \<in> set (s_queue x') \<longrightarrow> s' = s))"
proof -
  note i = sched_invD [OF signals.reaches_sched [OF assms(4) Kernel_Initialize_inv [OF assms(1-3)]]]
  note q = v_qs_sem [OF assms(5)] and v = v_val_sem [OF assms(5)]
  have w: "woken (kview k) s = {a. \<exists>t. k_threads k a = Some t \<and> t_status t \<in> {READY, RUNNING} \<and> loop_at (t_frames t) s}"
    by (auto simp: woken_def kview_def split: option.splits)
  have "\<exists>t. k_threads k a = Some t \<and> t_status t = BLOCKED \<and> waits (t_frames t) s
      \<and> (\<forall>s' x'. k_sems k s' = Some x' \<longrightarrow> a \<in> set (s_queue x') \<longrightarrow> s' = s)" if a: "a \<in> set (s_queue x)" for a
  proof -
    have m: "v_st (kview k) a = Some BLOCKED" "waits (v_fr (kview k) a) s" using queue_member [OF i(6), of a s] a q by simp_all
    obtain t where t: "k_threads k a = Some t" "t_status t = BLOCKED" using m(1) by (auto simp: kview_def)
    moreover have "s' = s" if "k_sems k s' = Some x'" "a \<in> set (s_queue x')" for s' x'
      using queue_member [OF i(6), of a s'] v_qs_sem [OF that(1)] that(2) waits_unique [OF m(2)] by simp
    ultimately show ?thesis using m(2) v_fr_thread [OF t(1)] by auto
  qed
  moreover have "0 \<le> s_value x" "distinct (s_queue x)" "s_queue x \<noteq> [] \<longrightarrow> s_value x \<le> int (card (woken (kview k) s))"
    using i(6,7) q v by (metis wake_ok_def, metis queues_ok_def, metis wake_ok_def)
  ultimately show ?thesis unfolding w by blast
qed

theorem no_lost_wakeup_witness:
  "\<exists>k0 k. Kernel_Initialize demo_config (demo_raw 0) False False 0 0 0 0 [] [] 0 None zero_header [] demo_body = Inr k0
     \<and> reaches (kernel_devices [0 \<mapsto> 7]) demo_config k0 k
     \<and> (\<exists>x t. k_sems k 7 = Some x \<and> s_queue x = [0] \<and> k_threads k 0 = Some t \<and> waits (t_frames t) 7)"
proof -
  obtain k0 k t0 t1 where d: "raw_kernel (demo_raw 0)" "calls_only demo_body"
    "Kernel_Initialize demo_config (demo_raw 0) False False 0 0 0 0 [] [] 0 None zero_header [] demo_body = Inr k0"
    "reaches (kernel_devices [0 \<mapsto> 7]) demo_config k0 k" "k_sems k = [7 \<mapsto> \<lparr>s_value = 0, s_queue = [0]\<rparr>]"
    "k_threads k 0 = Some t0" "k_threads k 2 = Some t1" "t_status t0 = BLOCKED" "t_status t1 = READY"
    by (rule demo_reaches)
  have "k_sems k 7 = Some \<lparr>s_value = 0, s_queue = [0]\<rparr>" using d(5) by simp
  from no_lost_wakeup [OF d(1-4) this] d(3-6) show ?thesis by auto
qed

section \<open>A crash in Fork\<close>

text \<open>
  A program under the priority policy: the main thread yields eight times, which takes the clock to 90 ticks, and
  forks a thread that ends at once. The timer interrupt at 100 ticks arrives inside \<^verbatim>\<open>Fork\<close>, after the new thread was made ready.
\<close>

definition crash_body :: "frame list" where
  "crash_body = [Yield, Yield, Yield, Yield, Yield, Yield, Yield, Yield, NewThread 2 0 0, Fork 2 [], Finish]"

lemma kernel_run_numeral: "kernel_run (numeral v) D c k = rbind (kernel_step D c k) (kernel_run (pred_numeral v) D c)"
  by (simp only: numeral_eq_Suc kernel_run.simps)

lemma DelayedLoad_zero:
  assumes "registers m = replicate NumTotalRegs 0"
  shows "DelayedLoad m 0 0 = Inr m"
proof -
  have z: "(replicate NumTotalRegs 0 :: u32 list)[i := 0] = replicate NumTotalRegs 0" for i
    by (cases "i < NumTotalRegs") (simp_all add: list_update_same_conv list_update_beyond)
  have i: "LoadReg < NumTotalRegs" "LoadValueReg < NumTotalRegs" "0 < NumTotalRegs"
    by (simp_all add: LoadReg_def LoadValueReg_def NumTotalRegs_def)
  have "m\<lparr>registers := replicate NumTotalRegs 0\<rparr> = m" unfolding assms [symmetric] by simp
  then show ?thesis using i by (simp add: DelayedLoad_def assms awrite_def z)
qed

lemmas run_defs = exec_Yield_def FindNextToRun_def Run_def reset_tlb_def save_space_def CheckOverflow_def follow_current_def exec_after_SWITCH_def
  exec_ThreadBegin_def CheckToBeDestroyed_def Thread_delete_def removeAThread_def exec_Finish_def exec_Sleep_loop_def CallBack_def Timer_CallBack_def
  Alarm_CallBack_def YieldOnReturn_def Timer_SetInterrupt_def Schedule_def al_RemoveFront_def al_Insert_def al_Remove_def insert_before_def getReadyListFront_def
  TimerTicks_def timeSlice_def

text \<open>
  This program crashes in \<^verbatim>\<open>Fork\<close>. When \<^verbatim>\<open>Fork\<close> sets the interrupt level back, the timer makes the main thread yield, the new
  thread runs to its end, and \<^verbatim>\<open>Fork\<close> then follows the null pointer that \<^verbatim>\<open>getReadyListFront\<close> returns for an empty list.
\<close>

theorem fork_null_dereference:
  "\<exists>k0 n. Kernel_Initialize demo_config (demo_raw 1) False False 0 0 0 0 [] [] 0 None zero_header [] crash_body = Inr k0
     \<and> kernel_run n (kernel_devices W) demo_config k0 = Inl NullDeref"
proof -
  obtain m where m: "Kernel_Initialize demo_config (demo_raw 1) False False 0 0 0 0 [] [] 0 None zero_header [] crash_body = Inr (demo_kernel 1 crash_body m)"
    "m_status m = SystemMode" "totalTicks (m_stats m) = 0" "registers m = replicate NumTotalRegs 0"
    by (rule demo_start)
  have l: "add_thread_loop (Some 0 # replicate 127 None) 2 0 = Inr (1, Some 0 # Some 2 # replicate 126 None)"
    by (subst add_thread_loop.simps, subst add_thread_loop.simps) (simp add: MaxThreadNum_def aread_def awrite_def numeral_eq_Suc)
  have "kernel_run 40 (kernel_devices W) demo_config (demo_kernel 1 crash_body m) = Inl NullDeref"
    by (simp add: demo_kernel_def demo_raw_def crash_body_def kernel_run_numeral exec_defs m l run_defs demo_config_def DelayedLoad_zero awrite_def)
  then show ?thesis using m(1) by blast
qed

end
