(* ===== verification/Interrupt_Laws.thy ===== *)
theory Interrupt_Laws
  imports Thread_Props
begin

text \<open>
  Time. The pending interrupts are kept in a sorted list, the handlers schedule only later interrupts, so that the loop of
  \<^verbatim>\<open>Interrupt::CheckIfDue\<close> ends and leaves nothing behind that is due; and the order in which the scheduler takes the
  ready threads under its policies. Both rest on the sorted lists of \<^verbatim>\<open>lib/list.cc\<close>.
\<close>

section \<open>The lists that are kept sorted\<close>


interpretation rl: sorted_seq_list list_abs List_new list_Append list_Prepend list_RemoveFront
  list_Remove list_IsInList list_IsEmpty "cmp k" "getPriority k" "sorted_Insert (cmp k)" for k
  by (rule sorted_list_impl) (simp add: cmp_def)

section \<open>Computations that end\<close>

definition ends :: "'a result \<Rightarrow> bool" where
  "ends r \<longleftrightarrow> r \<noteq> Inl Diverges"

lemma ends_simps [simp]: "ends (Inr x)" "ends (Inl e) \<longleftrightarrow> e \<noteq> Diverges"
  by (simp_all add: ends_def)

lemma ends_bind: "ends r \<Longrightarrow> (\<And>x. r = Inr x \<Longrightarrow> ends (f x)) \<Longrightarrow> ends (rbind r f)"
  by (cases r) simp_all

lemma ends_assert: "(b \<Longrightarrow> ends r) \<Longrightarrow> ends (rassert b r)"
  by (cases b) simp_all

lemma ends_if: "(b \<Longrightarrow> ends r) \<Longrightarrow> (\<not> b \<Longrightarrow> ends r') \<Longrightarrow> ends (if b then r else r')"
  by simp

lemma ends_option: "(x = None \<Longrightarrow> ends r) \<Longrightarrow> (\<And>y. x = Some y \<Longrightarrow> ends (f y)) \<Longrightarrow> ends (case x of None \<Rightarrow> r | Some y \<Rightarrow> f y)"
  by (cases x) simp_all

lemma ends_list: "(xs = [] \<Longrightarrow> ends r) \<Longrightarrow> (\<And>y ys. xs = y # ys \<Longrightarrow> ends (f y ys)) \<Longrightarrow> ends (case xs of [] \<Rightarrow> r | y # ys \<Rightarrow> f y ys)"
  by (cases xs) simp_all

lemmas ends_rules = ends_bind ends_assert ends_if ends_option ends_list

lemma ends_ops [simp, intro]:
  "ends (get_thread k a)" "ends (get_sem k s)" "ends (upd_thread k a f)" "ends (aread xs i)" "ends (awrite xs i x)"
  "ends (al_Append q a)" "ends (al_Insert cm q a)" "ends (al_Remove q a)" "ends (al_RemoveFront q)"
  by (auto simp: get_thread_def get_sem_def upd_thread_def aread_def awrite_def al_Append_def al_Insert_def al_Remove_def al_RemoveFront_def rassert_def
      intro: ends_rules split: option.splits list.splits)



section \<open>Pending interrupts\<close>

definition now :: "kernel \<Rightarrow> int" where
  "now k = totalTicks (k_stats k)"

definition pending_sorted :: "kernel \<Rightarrow> bool" where
  "pending_sorted k \<longleftrightarrow> sorted (map int_when (k_pending k))"

definition due :: "kernel \<Rightarrow> pending_interrupt list" where
  "due k = filter (\<lambda>p. int_when p \<le> now k) (k_pending k)"

text \<open>What a handler may do to the clock and the pending interrupts: schedule interrupts in the future.\<close>

definition later :: "kernel \<Rightarrow> kernel \<Rightarrow> bool" where
  "later k k' \<longleftrightarrow> now k' = now k \<and> (pending_sorted k \<longrightarrow> pending_sorted k') \<and> length (due k') = length (due k)"

lemma later_refl [simp]: "later k k"
  by (simp add: later_def)










lemma later_state [simp]: "later k (upd_data f k1) = later k k1"
  "totalTicks st = totalTicks (k_stats k1) \<Longrightarrow> later k (set_stats k1 st) = later k k1"
  by (simp_all add: later_def now_def pending_sorted_def due_def k_stats_def upd_data_def set_stats_def)

lemma stats_data [simp]: "k_stats (upd_data f k) = k_stats k"
  by (simp add: k_stats_def upd_data_def)









section \<open>The policies\<close>

lemma cmp_threads: "k_threads k' = k_threads k \<Longrightarrow> getPriority k' = getPriority k"
  by (rule ext) (simp add: getPriority_def)

lemma ReadyToRun_priority:
  assumes "k_typeno k = 1" "ReadyToRun k a = Inr k'"
  shows "getPriority k' = getPriority k" "k_sortedReadyList k' = insert_before (cmp k) a (k_sortedReadyList k)" "a \<notin> set (k_sortedReadyList k)"
    "k_typeno k' = 1" "k_level k' = IntOff"
proof -
  let ?k = "k\<lparr>k_blockList := remove1 a (k_blockList k)\<rparr>"
  have "remove1 a (k_blockList k) = k_blockList k" if "a \<notin> set (k_blockList k)" using that by (rule remove1_idem)
  then obtain k1 where k1: "k_level k = IntOff" "upd_thread ?k a (\<lambda>t. t\<lparr>t_status := READY\<rparr>) = Inr k1" "enqueue_ready k1 a = Inr k'"
    using assms(2) by (cases "a \<in> set (k_blockList k)") (auto simp: ReadyToRun_def al_Remove_def nachos_res)
  have e: "k_typeno k1 = 1" "k_sortedReadyList k1 = k_sortedReadyList k" "k_level k1 = IntOff" "getPriority k1 = getPriority k"
    using k1(1,2) assms(1) by (auto elim!: upd_thread_Inr simp: getPriority_def fun_eq_iff)
  then have c: "cmp k1 = cmp k" by (simp add: cmp_def fun_eq_iff)
  have r: "a \<notin> set (k_sortedReadyList k)" "k' = k1\<lparr>k_sortedReadyList := insert_before (cmp k) a (k_sortedReadyList k)\<rparr>"
    using k1(3) e(1,2) c by (auto simp: enqueue_ready_def al_Insert_def rbind_Inr_iff rassert_Inr_iff)
  show "getPriority k' = getPriority k" using e(4) r(2) by (simp add: getPriority_def fun_eq_iff)
  show "k_sortedReadyList k' = insert_before (cmp k) a (k_sortedReadyList k)" "a \<notin> set (k_sortedReadyList k)"
    "k_typeno k' = 1" "k_level k' = IntOff"
    using r e by simp_all
qed

text \<open>
  C39: under the priority policy, when the ready list is in the order of priorities and a thread is made ready, \<^verbatim>\<open>FindNextToRun\<close>
  then takes a thread whose priority no ready thread precedes. Threads of equal priority are taken in the order of
  their arrival, so the new thread is taken only when every other has a larger number. The list that remains is in order and holds
  exactly the other ready threads.
\<close>

theorem priority_order:
  assumes "k_typeno k = 1" "sorted (map (getPriority k) (k_sortedReadyList k))" "ReadyToRun k a = Inr k1"
  shows "\<exists>n k2. FindNextToRun k1 = Inr (Some n, k2)
    \<and> mset (n # k_sortedReadyList k2) = mset (a # k_sortedReadyList k)
    \<and> (\<forall>b \<in> set (a # k_sortedReadyList k). getPriority k n \<le> getPriority k b)
    \<and> (n = (if k_sortedReadyList k = [] \<or> getPriority k a < getPriority k (hd (k_sortedReadyList k)) then a else hd (k_sortedReadyList k)))
    \<and> sorted (map (getPriority k2) (k_sortedReadyList k2))"
proof -
  note r = ReadyToRun_priority [OF assms(1,3)]
  let ?q = "insert_before (cmp k) a (k_sortedReadyList k)"
  obtain n q where q: "?q = n # q" by (cases ?q) (simp_all add: insert_before_def)
  let ?k2 = "k1\<lparr>k_sortedReadyList := q\<rparr>"
  have f: "FindNextToRun k1 = Inr (Some n, ?k2)" using r q by (simp add: FindNextToRun_def)
  have s: "sorted (map (getPriority k) (n # q))" using rl.insert_before_sorted [OF assms(2)] q by metis
  have m: "mset (n # q) = mset (a # k_sortedReadyList k)" using mset_insert_before [of "cmp k" a "k_sortedReadyList k"] q by simp
  then have "set (n # q) = set (a # k_sortedReadyList k)" by (metis set_mset_mset)
  moreover have "\<forall>b \<in> set (n # q). getPriority k n \<le> getPriority k b" using s by simp
  ultimately have least: "\<forall>b \<in> set (a # k_sortedReadyList k). getPriority k n \<le> getPriority k b" by simp
  have "n = (if k_sortedReadyList k = [] \<or> getPriority k a < getPriority k (hd (k_sortedReadyList k)) then a else hd (k_sortedReadyList k))"
    using q by (cases "k_sortedReadyList k") (auto simp: insert_before_def cmp_def split: if_splits)
  moreover have "getPriority ?k2 = getPriority k" using r(1) by (simp add: getPriority_def fun_eq_iff)
  ultimately show ?thesis using f m s least by (intro exI [of _ n] exI [of _ ?k2]) simp
qed

text \<open>A thread of priority 5 is ready and one of priority 3 becomes ready.\<close>

definition demo_ready :: kernel where
  "demo_ready = (let t = \<lparr>t_threadID = 0, t_priority = 5, t_timeSliceRemain = 3, t_status = READY, t_stack = None,
       t_userRegisters = [], t_space = None, t_frames = [], t_result = 0\<rparr> in
     (demo_raw 1)\<lparr>k_threads := [2 \<mapsto> t, 3 \<mapsto> t\<lparr>t_priority := 3, t_status := JUST_CREATED\<rparr>], k_sortedReadyList := [2]\<rparr>)"

theorem priority_order_witness:
  "\<exists>k1 k2. ReadyToRun demo_ready 3 = Inr k1 \<and> FindNextToRun k1 = Inr (Some 3, k2) \<and> mset (k_sortedReadyList k2) = {#2#}"
proof -
  obtain k1 where k1: "ReadyToRun demo_ready 3 = Inr k1"
    by (simp add: ReadyToRun_def demo_ready_def demo_raw_def Let_def upd_thread_def get_thread_def enqueue_ready_def al_Insert_def)
  have "k_typeno demo_ready = 1" "sorted (map (getPriority demo_ready) (k_sortedReadyList demo_ready))"
    by (simp_all add: demo_ready_def demo_raw_def Let_def)
  from priority_order [OF this k1] k1 show ?thesis
    by (auto simp: demo_ready_def demo_raw_def Let_def getPriority_def)
qed

end
