(* ===== verification/Token_Laws.thy ===== *)
theory Token_Laws
  imports Thread_Props
begin

text \<open>
  Counting with tokens. The frames on the stacks of the threads, the value of a semaphore, the holder of a lock and the counters of the data that
  the threads share are counted together so that no step of the system changes the sum. Mutual exclusion and the
  safety of a bounded buffer are consequences.
\<close>

section \<open>Tokens\<close>

text \<open>
  What is counted: a lock, a semaphore, how much each item that is produced weighs, and how much the consumption of an item weighs.
\<close>

record account =
  ac_lock :: "addr option"
  ac_sem :: "addr option"
  ac_produce :: "int \<Rightarrow> int"
  ac_consume :: int

fun client_token :: "account \<Rightarrow> client \<Rightarrow> int" where
  "client_token A (produce_item i) = ac_produce A i"
| "client_token A consume_item = ac_consume A"
| "client_token A op = 0"

text \<open>What a frame contributes. The procedure of a thread that is to be forked counts already.\<close>

fun token :: "account \<Rightarrow> frame \<Rightarrow> int" where
  "token A (sem_P s) = (if ac_sem A = Some s then - 1 else 0)"
| "token A (P_loop s old) = (if ac_sem A = Some s then - 1 else 0)"
| "token A (sem_V s) = (if ac_sem A = Some s then 1 else 0)"
| "token A (set_lockHolder l) = (if ac_lock A = Some l then 1 else 0)"
| "token A (Fork a body) = sum_list (map (token A) body)"
| "token A (Client op) = client_token A op"
| "token A f = 0"

definition tokens :: "account \<Rightarrow> frame list \<Rightarrow> int" where
  "tokens A fs = sum_list (map (token A) fs)"

lemma tokens_simps [simp]: "tokens A [] = 0" "tokens A (f # fs) = token A f + tokens A fs" "tokens A (fs @ gs) = tokens A fs + tokens A gs"
  by (simp_all add: tokens_def)

lemma token_Fork [simp]: "token A (Fork a body) = tokens A body"
  by (simp add: tokens_def)

declare token.simps(5) [simp del]

text \<open>After these frames the thread may be gone.\<close>

fun last_call :: "frame \<Rightarrow> bool" where
  "last_call Finish = True"
| "last_call (Sleep_loop fin) = fin"
| "last_call UserRun = True"
| "last_call (Client op) = (case op of SimpleUserThread exe sp buf pt0 \<Rightarrow> True | _ \<Rightarrow> False)"
| "last_call f = False"

text \<open>
  The stacks of the threads: nothing is consumed before it has been provided for, so that no part of a stack counts less than nothing, and when a
  thread is gone, nothing is left to be done.
\<close>

fun sums_ok :: "account \<Rightarrow> frame list \<Rightarrow> bool" where
  "sums_ok A [] = True"
| "sums_ok A (f # fs) = (0 \<le> token A f + tokens A fs \<and> (last_call f \<longrightarrow> tokens A fs = 0) \<and> sums_ok A fs)"

fun frame_ok :: "account \<Rightarrow> frame \<Rightarrow> bool" where
  "frame_ok A (Fork a body) = ((\<forall>f \<in> set body. frame_ok A f) \<and> sums_ok A body)"
| "frame_ok A (delete_Semaphore s) = (ac_sem A \<noteq> Some s)"
| "frame_ok A (Client op) = (case op of delete_SynchList sl \<Rightarrow> False | _ \<Rightarrow> True)"
| "frame_ok A f = True"

definition stack_ok :: "account \<Rightarrow> frame list \<Rightarrow> bool" where
  "stack_ok A fs \<longleftrightarrow> (\<forall>f \<in> set fs. frame_ok A f) \<and> sums_ok A fs"

lemma stack_ok_simps [simp]: "stack_ok A []"
  "stack_ok A (f # fs) \<longleftrightarrow> 0 \<le> token A f + tokens A fs \<and> (last_call f \<longrightarrow> tokens A fs = 0) \<and> frame_ok A f \<and> stack_ok A fs"
  by (auto simp: stack_ok_def)

lemma frame_ok_Fork [simp]: "frame_ok A (Fork a body) = stack_ok A body"
  by (simp add: stack_ok_def)

declare frame_ok.simps(1) [simp del]

lemma tokens_nonneg: "stack_ok A fs \<Longrightarrow> 0 \<le> tokens A fs"
  by (cases fs) simp_all

lemma stack_ok_append: "stack_ok A fs \<Longrightarrow> stack_ok A gs \<Longrightarrow> tokens A gs = 0 \<Longrightarrow> stack_ok A (fs @ gs)"
  by (induction fs) auto

text \<open>Frames that are not counted.\<close>

definition plain :: "account \<Rightarrow> frame \<Rightarrow> bool" where
  "plain A f \<longleftrightarrow> token A f = 0 \<and> frame_ok A f \<and> \<not> last_call f"

lemma plain_tokens: "\<forall>f \<in> set fs. plain A f \<Longrightarrow> tokens A fs = 0"
  by (induction fs) (auto simp: plain_def)

lemma plain_stack: "\<forall>f \<in> set fs. plain A f \<Longrightarrow> stack_ok A gs \<Longrightarrow> stack_ok A (fs @ gs)"
  using tokens_nonneg [of A gs] by (induction fs) (auto simp: plain_def plain_tokens)

section \<open>The invariant\<close>

definition holding :: "kernel \<Rightarrow> addr option \<Rightarrow> int" where
  "holding k lo = (case lo of None \<Rightarrow> 0 | Some l \<Rightarrow> (case k_locks k l of None \<Rightarrow> 0 | Some x \<Rightarrow> if l_lockHolder x = None then 0 else 1))"

definition live :: "kernel \<Rightarrow> addr set" where
  "live k = {a. v_st (kview k) a \<noteq> None}"

definition sem_value :: "account \<Rightarrow> (addr \<Rightarrow> int) \<Rightarrow> int" where
  "sem_value A val = (case ac_sem A of None \<Rightarrow> 0 | Some s \<Rightarrow> val s)"

definition counter :: "account \<Rightarrow> kernel \<Rightarrow> int" where
  "counter A k = sum_list (map (ac_produce A) (take (nat (d_high (k_data k))) (d_produceArray (k_data k)))) + ac_consume A * d_low (k_data k)"

definition tally :: "account \<Rightarrow> kernel \<Rightarrow> int" where
  "tally A k = sem_value A (v_val (kview k)) + holding k (ac_lock A) + counter A k + (\<Sum>a \<in> live k. tokens A (v_fr (kview k) a))"

definition stacks_ok :: "account \<Rightarrow> kernel \<Rightarrow> bool" where
  "stacks_ok A k \<longleftrightarrow> finite (live k) \<and> (\<forall>a. stack_ok A (v_fr (kview k) a))
     \<and> (\<forall>a. v_st (kview k) a = Some JUST_CREATED \<longrightarrow> tokens A (v_fr (kview k) a) = 0)
     \<and> (\<forall>d. k_toBeDestroyed k = Some d \<longrightarrow> tokens A (v_fr (kview k) d) = 0)"

text \<open>The semaphores at which threads wait for the console and the network.\<close>

definition device_sems :: "client_data \<Rightarrow> addr set" where
  "device_sems d = {ci_waitFor (d_consoleIn d), co_waitFor (d_consoleOut d), ni_messageAvailable (d_networkIn d), no_messageSent (d_networkOut d)}"

definition objects_ok :: "account \<Rightarrow> kernel \<Rightarrow> bool" where
  "objects_ok A k \<longleftrightarrow> (\<forall>l. ac_lock A = Some l \<longrightarrow> k_locks k l \<noteq> None)
     \<and> (\<forall>l x. k_locks k l = Some x \<longrightarrow> (ac_sem A = Some (l_semaphore x) \<longleftrightarrow> ac_lock A = Some l))
     \<and> (\<forall>s. ac_sem A = Some s \<longrightarrow> s < k_freshSem k \<and> (\<forall>cv y. k_conds k cv = Some y \<longrightarrow> s \<notin> set (c_waitQueue y)) \<and> s \<notin> device_sems (k_data k))"

definition acc_inv :: "account \<Rightarrow> int \<Rightarrow> kernel \<Rightarrow> bool" where
  "acc_inv A n k \<longleftrightarrow> stacks_ok A k \<and> objects_ok A k \<and> tally A k = n"

text \<open>Steps that do not touch what is counted.\<close>

definition tracked :: "client_data \<Rightarrow> int \<times> int \<times> int list \<times> addr set" where
  "tracked d = (d_high d, d_low d, d_produceArray d, device_sems d)"

definition calm :: "account \<Rightarrow> kernel \<Rightarrow> kernel \<Rightarrow> bool" where
  "calm A k k' \<longleftrightarrow> (\<forall>a. v_st (kview k') a = None \<longleftrightarrow> v_st (kview k) a = None)
     \<and> (\<forall>a. v_st (kview k') a = Some JUST_CREATED \<longrightarrow> v_st (kview k) a = Some JUST_CREATED)
     \<and> v_fr (kview k') = v_fr (kview k) \<and> sem_value A (v_val (kview k')) = sem_value A (v_val (kview k)) \<and> k_toBeDestroyed k' = k_toBeDestroyed k
     \<and> k_locks k' = k_locks k \<and> k_conds k' = k_conds k \<and> k_freshSem k' = k_freshSem k \<and> k_current k' = k_current k
     \<and> tracked (k_data k') = tracked (k_data k)"

lemma calm_refl [simp]: "calm A k k"
  by (simp add: calm_def)

lemma calm_trans: "calm A k k1 \<Longrightarrow> calm A k1 k2 \<Longrightarrow> calm A k k2"
  by (simp add: calm_def)

lemmas acc_defs = acc_inv_def stacks_ok_def objects_ok_def tally_def holding_def live_def counter_def tracked_def

lemma calm_inv: "acc_inv A n k \<Longrightarrow> calm A k k' \<Longrightarrow> acc_inv A n k'"
  by (auto simp: acc_defs calm_def split: option.splits)

lemma calm_frugal:
  assumes "frugal k k'" "k_locks k' = k_locks k" "k_conds k' = k_conds k" "tracked (k_data k') = tracked (k_data k)"
  shows "calm A k k'"
proof -
  have v: "kview k' = kview k" "k_freshSem k' = k_freshSem k" using assms(1) by (simp_all add: frugal_def)
  have "k_toBeDestroyed k' = k_toBeDestroyed k" "k_current k' = k_current k"
    using arg_cong [OF v(1), of v_tbd] arg_cong [OF v(1), of v_cur] unfolding kview_simps by simp_all
  then show ?thesis using v assms by (simp add: calm_def)
qed

lemma calm_fields [simp]:
  "calm A k (k'\<lparr>k_machine := m\<rparr>) = calm A k k'" "calm A k (k'\<lparr>k_level := lv\<rparr>) = calm A k k'" "calm A k (k'\<lparr>k_pending := p\<rparr>) = calm A k k'"
  "calm A k (k'\<lparr>k_inHandler := b\<rparr>) = calm A k k'" "calm A k (k'\<lparr>k_yieldOnReturn := b\<rparr>) = calm A k k'"
  "calm A k (k'\<lparr>k_random := r\<rparr>) = calm A k k'" "calm A k (k'\<lparr>k_halted := b\<rparr>) = calm A k k'" "calm A k (k'\<lparr>k_threadArray := arr\<rparr>) = calm A k k'"
  "calm A k (k'\<lparr>k_blockList := bl\<rparr>) = calm A k k'"
  by (simp_all add: calm_def)

lemma calm_queues [simp]:
  "calm A k (k'\<lparr>k_readyList := q\<rparr>) = calm A k k'" "calm A k (k'\<lparr>k_sortedReadyList := q\<rparr>) = calm A k k'" "calm A k (k'\<lparr>k_threadArrQueue := qs\<rparr>) = calm A k k'"
  "calm A k (ChangeLevel k' lv) = calm A k k'" "calm A k (setStatus k' ms) = calm A k k'" "calm A k (set_stats k' sts) = calm A k k'"
  by (simp_all add: calm_def kview_def ChangeLevel_def setStatus_def set_stats_def)

lemma calm_data: "tracked (f (k_data k')) = tracked (k_data k') \<Longrightarrow> calm A k (upd_data f k') = calm A k k'"
  by (simp add: calm_def kview_def upd_data_def)

lemma put_sem_fields [simp]:
  "k_locks (put_sem k s x) = k_locks k" "k_conds (put_sem k s x) = k_conds k" "k_freshSem (put_sem k s x) = k_freshSem k"
  "k_toBeDestroyed (put_sem k s x) = k_toBeDestroyed k" "k_data (put_sem k s x) = k_data k"
  by (simp_all add: put_sem_def)

lemma calm_sem: "calm A k k' \<Longrightarrow> ac_sem A \<noteq> Some s \<or> s_value x = v_val (kview k') s \<Longrightarrow> calm A k (put_sem k' s x)"
  by (auto simp: calm_def sem_value_def kview_put_sem split: option.splits)

text \<open>Computations that are calm.\<close>

lemma calm_bind:
  "yields r (calm A k) \<Longrightarrow> (\<And>k1. calm A k k1 \<Longrightarrow> yields (f k1) (calm A k)) \<Longrightarrow> yields (rbind r f) (calm A k)"
  by (auto simp: yields_def rbind_Inr_iff)

lemma calm_upd:
  assumes "calm A k k1" "\<And>t. t_frames (f t) = t_frames t" "\<And>t. t_status (f t) = t_status t \<or> t_status (f t) \<in> {READY, RUNNING, BLOCKED}"
  shows "yields (upd_thread k1 a f) (calm A k)"
proof -
  have "calm A k k2" if u: "upd_thread k1 a f = Inr k2" for k2
  proof -
    obtain t where t: "k_threads k1 a = Some t" "k2 = k1\<lparr>k_threads := (k_threads k1)(a \<mapsto> f t)\<rparr>" using u by (rule upd_thread_Inr)
    have "(v_fr (kview k1))(a := t_frames t) = v_fr (kview k1)" using t(1) by (auto simp: kview_def)
    moreover have "v_st (kview k1) a = Some (t_status t)" using t(1) by (simp add: kview_def)
    ultimately have "calm A k1 k2"
      using t(2) assms(2) [of t] assms(3) [of t] kview_upd [OF t(1), of "f t"] by (auto simp: calm_def)
    then show ?thesis by (rule calm_trans [OF assms(1)])
  qed
  then show ?thesis by (simp add: yields_def)
qed

lemmas calm_rules = calm_bind calm_upd yields_rules

lemma ReadyToRun_calm: "calm A k k1 \<Longrightarrow> yields (ReadyToRun k1 a) (calm A k)"
  unfolding ReadyToRun_def enqueue_ready_def Let_def by (intro calm_rules) simp_all

lemma V_body_calm: "ac_sem A \<noteq> Some s \<Longrightarrow> calm A k k1 \<Longrightarrow> yields (V_body k1 s) (calm A k)"
  unfolding V_body_def by (intro calm_rules ReadyToRun_calm) (simp_all add: calm_sem)

lemma Schedule_calm: "calm A k k1 \<Longrightarrow> yields (Schedule k1 obj n type) (calm A k)"
  unfolding Schedule_def Let_def by (intro yields_rules) simp

lemma FindNextToRun_calm: "FindNextToRun k = Inr (r, k') \<Longrightarrow> calm A k k'"
  by (auto simp: FindNextToRun_def nachos_res split: if_splits list.splits option.splits)

text \<open>Interrupts, when no device signals the semaphore of the account.\<close>

definition clear :: "account \<Rightarrow> (nat \<Rightarrow> addr option) \<Rightarrow> kernel \<Rightarrow> bool" where
  "clear A W k \<longleftrightarrow> (\<forall>s. ac_sem A = Some s \<longrightarrow> (\<forall>n. W n \<noteq> Some s) \<and> s \<notin> device_sems (k_data k))"

lemma Timer_CallBack_calm: "calm A k k1 \<Longrightarrow> yields (Timer_CallBack k1) (calm A k)"
  unfolding Timer_CallBack_def Alarm_CallBack_def YieldOnReturn_def Timer_SetInterrupt_def Schedule_def Let_def
  by (intro calm_rules) simp_all

lemma kernel_devices_calm:
  assumes "clear A W k" "calm A k k1"
  shows "yields (kernel_devices W n k1) (calm A k)"
proof -
  have "device_sems (k_data k1) = device_sems (k_data k)" using assms(2) by (simp add: calm_def tracked_def)
  then have s: "ac_sem A \<noteq> Some (ci_waitFor (d_consoleIn (k_data k1)))" "ac_sem A \<noteq> Some (co_waitFor (d_consoleOut (k_data k1)))"
    "ac_sem A \<noteq> Some (ni_messageAvailable (d_networkIn (k_data k1)))" "ac_sem A \<noteq> Some (no_messageSent (d_networkOut (k_data k1)))"
    and w: "W n = Some s' \<Longrightarrow> ac_sem A \<noteq> Some s'" for s'
    using assms(1) by (auto simp: clear_def device_sems_def)
  have d: "k_data k2 = k_data k1" if "Schedule k1 obj m type = Inr k2" for obj m type k2
    using that by (auto simp: Schedule_def Let_def rassert_Inr_iff)
  note V = V_body_calm [where k = k]
  have "yields (ConsoleInput_CallBack k1) (calm A k)" "yields (ConsoleOutput_CallBack k1) (calm A k)"
    "yields (NetworkOutput_CallBack k1) (calm A k)" "yields (signal_device W n k1) (calm A k)"
    unfolding ConsoleInput_CallBack_def ConsoleOutput_CallBack_def NetworkOutput_CallBack_def signal_device_def Let_def
    by ((intro yields_rules V Schedule_calm)?; simp add: s w assms(2) calm_data tracked_def device_sems_def)+
  moreover have "yields (NetworkInput_CallBack k1) (calm A k)"
    unfolding NetworkInput_CallBack_def Let_def
  proof (intro yields_bind)
    fix k2 assume k2: "Schedule k1 (Device 2) NetworkTime NetworkRecvInt = Inr k2"
    have "calm A k k2" using yieldsD [OF Schedule_calm [OF assms(2)] k2] .
    then show "yields (if pkt_length (ni_inHdr (d_networkIn (k_data k2))) \<noteq> 0 then Inr k2
          else case ni_polls (d_networkIn (k_data k2)) of [] \<Rightarrow> Inr k2
            | None # ps \<Rightarrow> Inr (upd_data (\<lambda>d. d\<lparr>d_networkIn := d_networkIn (k_data k2)\<lparr>ni_polls := ps\<rparr>\<rparr>) k2)
            | Some buffer # ps \<Rightarrow> rassert (int (length buffer) = MaxWireSize)
                (rassert (pkt_to (PacketHeader_at buffer) = d_hostName (k_data k2) \<and> pkt_length (PacketHeader_at buffer) \<le> MaxPacketSize)
                  (rbind (bcopy_from buffer sizeof_PacketHeader (pkt_length (PacketHeader_at buffer))) (\<lambda>bs.
                   rbind (bcopy_to (ni_inbox (d_networkIn (k_data k2))) 0 bs) (\<lambda>inbox.
                   V_body (set_stats (upd_data (\<lambda>d. d\<lparr>d_networkIn := d_networkIn (k_data k2)\<lparr>ni_polls := ps, ni_inHdr := PacketHeader_at buffer,
                        ni_inbox := inbox\<rparr>\<rparr>) k2)
                      ((k_stats k2)\<lparr>numPacketsRecvd := numPacketsRecvd (k_stats k2) + 1\<rparr>)) (ni_messageAvailable (d_networkIn (k_data k2)))))))) (calm A k)"
      by (intro yields_rules V) (use s d [OF k2] in \<open>simp_all add: calm_data tracked_def device_sems_def\<close>)
  qed
  ultimately show ?thesis by (simp add: kernel_devices_def)
qed

lemma CallBack_calm: "clear A W k \<Longrightarrow> calm A k k1 \<Longrightarrow> yields (CallBack (kernel_devices W) obj k1) (calm A k)"
  unfolding CallBack_def by (cases obj) (auto simp: Timer_CallBack_calm kernel_devices_calm)

lemma due_loop_calm: "clear A W k \<Longrightarrow> calm A k k1 \<Longrightarrow> yields (due_loop n (kernel_devices W) k1) (calm A k)"
proof (induction n arbitrary: k1)
  case (Suc n)
  show ?case
    unfolding due_loop.simps by (intro yields_bind [of "al_RemoveFront _"] yields_prod calm_rules CallBack_calm) (simp_all add: Suc)
qed simp

lemma CheckIfDue_calm:
  assumes "clear A W k" "calm A k k1"
  shows "yields (CheckIfDue (kernel_devices W) k1 adv) (\<lambda>(b, k'). calm A k k')"
proof -
  have "yields (due_loop n (kernel_devices W) k2) (calm A k)" if "calm A k k2" for n k2 by (rule due_loop_calm [OF assms(1) that])
  then have d: "calm A k k3" if "due_loop n (kernel_devices W) k2 = Inr k3" "calm A k k2" for n k2 k3 using that by (auto simp: yields_def)
  show ?thesis
    unfolding CheckIfDue_def Let_def by (intro yields_rules) (auto simp: assms(2) dest: d)
qed

lemma Idle_calm: "clear A W k \<Longrightarrow> calm A k k1 \<Longrightarrow> yields (Idle (kernel_devices W) k1) (calm A k)"
  using CheckIfDue_calm [of A W k "setStatus k1 IdleMode" True]
  unfolding Idle_def by (intro yields_rules) (auto simp: yields_def)

section \<open>Stacks\<close>

text \<open>The current thread has started and is not to be destroyed.\<close>

definition working :: "account \<Rightarrow> int \<Rightarrow> kernel \<Rightarrow> bool" where
  "working A n k \<longleftrightarrow> acc_inv A n k \<and> k_current k \<in> live k \<and> v_st (kview k) (k_current k) \<noteq> Some JUST_CREATED \<and> k_toBeDestroyed k \<noteq> Some (k_current k)"

lemma working_inv: "working A n k \<Longrightarrow> acc_inv A n k"
  by (simp add: working_def)

lemma working_calm: "working A n k \<Longrightarrow> calm A k k' \<Longrightarrow> working A n k'"
  using calm_inv [of A n k k'] by (auto simp: working_def calm_def live_def)

lemma calm_working: "working A n k \<Longrightarrow> yields r (calm A k) \<Longrightarrow> yields r (working A n)"
  using working_calm by (auto simp: yields_def)

lemma sum_upd:
  fixes f :: "'b \<Rightarrow> int"
  assumes "finite A" "a \<in> A"
  shows "(\<Sum>x \<in> A. f ((g(a := y)) x)) = (\<Sum>x \<in> A. f (g x)) - f (g a) + f y"
  using assms by (simp add: sum.remove [of A a])

text \<open>A new stack for the current thread.\<close>

definition same_objects :: "kernel \<Rightarrow> kernel \<Rightarrow> bool" where
  "same_objects k k' \<longleftrightarrow> k_locks k' = k_locks k \<and> k_conds k' = k_conds k \<and> k_freshSem k' = k_freshSem k \<and> k_data k' = k_data k"

lemma same_objectsD:
  assumes "same_objects k k'"
  shows "holding k' = holding k" "counter A k' = counter A k" "objects_ok A k' = objects_ok A k"
  using assms by (simp_all add: same_objects_def holding_def [abs_def] counter_def objects_ok_def)

lemma working_stack:
  assumes "working A n k" "kview k' = (kview k)\<lparr>v_fr := (v_fr (kview k))(k_current k := fs)\<rparr>" "stack_ok A fs"
    "same_objects k k'" "k_current k \<in> live k"
  shows "working A (n - tokens A (v_fr (kview k) (k_current k)) + tokens A fs) k'"
proof -
  have l: "live k' = live k" by (simp add: live_def assms(2))
  have f: "finite (live k)" using assms(1) by (simp add: working_def acc_inv_def stacks_ok_def)
  have tbd: "k_toBeDestroyed k' = k_toBeDestroyed k" using arg_cong [OF assms(2), of v_tbd] by simp
  have cur: "k_current k' = k_current k" using arg_cong [OF assms(2), of v_cur] by simp
  have "tally A k' = tally A k - tokens A (v_fr (kview k) (k_current k)) + tokens A fs"
    unfolding tally_def l assms(2) using sum_upd [OF f assms(5), of "tokens A" "v_fr (kview k)" fs] same_objectsD [OF assms(4)] by simp
  then show ?thesis
    using assms(1,3) tbd cur same_objectsD(3) [OF assms(4)] unfolding working_def acc_inv_def stacks_ok_def l
    by (auto simp: assms(2))
qed

lemma push_fields: "push fs k = Inr k' \<Longrightarrow> same_objects k k' \<and> k_current k \<in> live k"
  by (auto simp: push_def same_objects_def live_def kview_def elim!: upd_thread_Inr)

lemma push_working:
  assumes "working A n k" "stack_ok A (fs @ v_fr (kview k) (k_current k))" "m = n + tokens A fs"
  shows "yields (push fs k) (working A m)"
proof -
  have "working A m k'" if p: "push fs k = Inr k'" for k'
    using working_stack [OF assms(1) push_view(1) [OF p] assms(2)] push_fields [OF p] assms(3) by (simp add: algebra_simps)
  then show ?thesis by (simp add: yields_def)
qed

lemma working_stack_ok: "working A n k \<Longrightarrow> stack_ok A (v_fr (kview k) a)"
  by (simp add: working_def acc_inv_def stacks_ok_def)

lemma k_inv_started:
  assumes "k_inv k"
  shows "k_current k \<in> live k" "v_st (kview k) (k_current k) \<noteq> Some JUST_CREATED" "k_toBeDestroyed k \<noteq> Some (k_current k)"
  using sched_invD(4,5) [of "kview k"] assms by (auto simp: k_inv_def cur_ok_def destroy_ok_def live_def)

lemma pop_fields:
  assumes "pop k = Inr (f, k1)"
  shows "same_objects k k1 \<and> k_current k \<in> live k"
proof -
  obtain t fs where "k_threads k (k_current k) = Some t" "upd_thread k (k_current k) (\<lambda>t. t\<lparr>t_frames := fs\<rparr>) = Inr k1"
    using assms by (auto simp: pop_def rbind_Inr_iff get_thread_Inr neq_Nil_conv split: list.split_asm)
  then show ?thesis by (auto simp: same_objects_def live_def kview_def elim!: upd_thread_Inr)
qed

lemma pop_working:
  assumes "k_inv k" "acc_inv A n k" "pop k = Inr (f, k1)"
  obtains fs where "v_fr (kview k1) (k_current k1) = fs" "stack_ok A (f # fs)" "working A (n - token A f) k1"
proof -
  obtain fs where p: "v_fr (kview k) (k_current k) = f # fs" "kview k1 = (kview k)\<lparr>v_fr := (v_fr (kview k))(k_current k := fs)\<rparr>"
    "k_current k1 = k_current k" "k_typeno k1 = k_typeno k" using pop_view [OF assms(3)] by blast
  have w: "working A n k" using assms(1,2) k_inv_started by (simp add: working_def)
  have s: "stack_ok A (f # fs)" using working_stack_ok [OF w] p(1) by metis
  have f: "same_objects k k1" "k_current k \<in> live k"
    using pop_fields [OF assms(3)] by simp_all
  have "working A (n - token A f) k1"
    using working_stack [OF w p(2) _ f] s p(1) by simp
  then show thesis using that [of fs] s p(2,3) by simp
qed

section \<open>The calls\<close>

lemma get_lock_Inr: "get_lock k l = Inr x \<longleftrightarrow> k_locks k l = Some x"
  by (simp add: get_lock_def split: option.splits)

lemma get_cond_Inr: "get_cond k cv = Inr y \<longleftrightarrow> k_conds k cv = Some y"
  by (simp add: get_cond_def split: option.splits)

lemma working_objects:
  assumes "working A n k"
  shows "k_locks k l = Some x \<Longrightarrow> ac_sem A = Some (l_semaphore x) \<longleftrightarrow> ac_lock A = Some l"
    "ac_sem A = Some s \<Longrightarrow> k_conds k cv = Some y \<Longrightarrow> s \<notin> set (c_waitQueue y)" "ac_sem A = Some s \<Longrightarrow> s < k_freshSem k"
    "ac_sem A = Some s \<Longrightarrow> s \<notin> device_sems (k_data k)"
  using assms by (auto simp: working_def acc_inv_def objects_ok_def)

lemma working_clear: "working A n k \<Longrightarrow> \<forall>m. ac_sem A \<noteq> None \<longrightarrow> W m \<noteq> ac_sem A \<Longrightarrow> clear A W k"
  by (auto simp: clear_def working_objects(4))

lemma working_tokens: "working A n k \<Longrightarrow> 0 \<le> tokens A (v_fr (kview k) a)"
  by (rule tokens_nonneg [OF working_stack_ok])

text \<open>Changes of the objects.\<close>

lemma working_sem:
  assumes "working A n k"
  shows "working A (if ac_sem A = Some s then n - v_val (kview k) s + s_value x else n) (put_sem k s x)"
  using assms by (auto simp: working_def acc_defs sem_value_def kview_put_sem split: option.split)

lemma put_lock_fields [simp]:
  "k_locks (put_lock k l x) = (k_locks k)(l \<mapsto> x)" "k_conds (put_lock k l x) = k_conds k" "k_freshSem (put_lock k l x) = k_freshSem k"
  "k_toBeDestroyed (put_lock k l x) = k_toBeDestroyed k" "k_data (put_lock k l x) = k_data k"
  by (simp_all add: put_lock_def)

lemma working_put_lock:
  assumes "working A n k" "k_locks k l' = Some x" "l_semaphore y = l_semaphore x"
  shows "working A (if ac_lock A = Some l' then n - holding k (ac_lock A) + (if l_lockHolder y = None then 0 else 1) else n) (put_lock k l' y)"
  using assms by (auto simp: working_def acc_defs split: option.split)

lemma put_cond_fields [simp]:
  "k_locks (put_cond k cv y) = k_locks k" "k_conds (put_cond k cv y) = (k_conds k)(cv \<mapsto> y)" "k_freshSem (put_cond k cv y) = k_freshSem k"
  "k_toBeDestroyed (put_cond k cv y) = k_toBeDestroyed k" "k_data (put_cond k cv y) = k_data k"
  by (simp_all add: put_cond_def)

lemma working_put_cond: "working A n k \<Longrightarrow> (\<And>s. ac_sem A = Some s \<Longrightarrow> s \<notin> set (c_waitQueue y)) \<Longrightarrow> working A n (put_cond k cv y)"
  by (auto simp: working_def acc_defs split: option.split)

lemma working_fresh: "working A n k \<Longrightarrow> working A n (k\<lparr>k_freshSem := Suc (k_freshSem k)\<rparr>)"
  by (auto simp: working_def acc_defs split: option.split)

declare plain_def [simp]

text \<open>Frames on top of the stack that leave the token alone.\<close>

lemma push_simple:
  assumes "working A n k" "\<forall>f \<in> set fs. plain A f"
  shows "yields (push fs k) (working A n)"
  by (rule push_working [OF assms(1) plain_stack [OF assms(2) working_stack_ok [OF assms(1)]]]) (use plain_tokens [OF assms(2)] in simp)

lemma exec_Acquire_working:
  assumes "working A n k"
  shows "yields (exec_Acquire k l) (working A n)"
  unfolding exec_Acquire_def
  by (intro yields_rules push_working [OF assms])
    (use working_stack_ok [OF assms] working_tokens [OF assms, of "k_current k"] in \<open>auto simp: get_lock_Inr dest: working_objects(1) [OF assms]\<close>)

lemma exec_Release_working:
  assumes "working A n k"
  shows "yields (exec_Release k l') (working A n)"
  unfolding exec_Release_def IsHeldByCurrentThread_def
proof (intro yields_rules)
  fix x assume "get_lock k l' = Inr x" and h: "l_lockHolder x = Some (k_current k)"
  then have x: "k_locks k l' = Some x" by (simp add: get_lock_Inr)
  note w = working_put_lock [OF assms x, of "x\<lparr>l_lockHolder := None\<rparr>"]
  have "holding k (ac_lock A) = 1" if "ac_lock A = Some l'" using that x h by (simp add: holding_def)
  then have w': "working A (if ac_lock A = Some l' then n - 1 else n) (put_lock k l' (x\<lparr>l_lockHolder := None\<rparr>))" using w by (auto split: if_splits)
  show "yields (push [sem_V (l_semaphore x)] (put_lock k l' (x\<lparr>l_lockHolder := None\<rparr>))) (working A n)"
    by (rule push_working [OF w'])
      (use working_stack_ok [OF assms] working_tokens [OF assms, of "k_current k"] working_objects(1) [OF assms x] in auto)
qed

lemma exec_Wait_working:
  assumes "working A n k"
  shows "yields (exec_Wait k cv l') (working A n)"
  unfolding exec_Wait_def Let_def
proof (intro yields_rules)
  fix x y q assume "get_cond k cv = Inr y" and q: "al_Append (c_waitQueue y) (k_freshSem k) = Inr q"
  then have y: "k_conds k cv = Some y" by (simp add: get_cond_Inr)
  let ?w = "k_freshSem k"
  have f: "ac_sem A \<noteq> Some ?w" "\<And>s. ac_sem A = Some s \<Longrightarrow> s \<notin> set q"
    using working_objects(2,3) [OF assms] y q by (auto simp: al_Append_def rassert_Inr_iff)
  have "working A n (put_sem (k\<lparr>k_freshSem := Suc ?w\<rparr>) ?w \<lparr>s_value = 0, s_queue = []\<rparr>)"
    using working_sem [OF working_fresh [OF assms], of ?w "\<lparr>s_value = 0, s_queue = []\<rparr>"] f(1) by simp
  then have w: "working A n (put_cond (put_sem (k\<lparr>k_freshSem := Suc ?w\<rparr>) ?w \<lparr>s_value = 0, s_queue = []\<rparr>) cv (y\<lparr>c_waitQueue := q\<rparr>))"
    using f(2) by (intro working_put_cond) simp_all
  show "yields (push [Release l', sem_P ?w, Acquire l', delete_Semaphore ?w]
      (put_cond (put_sem (k\<lparr>k_freshSem := Suc ?w\<rparr>) ?w \<lparr>s_value = 0, s_queue = []\<rparr>) cv (y\<lparr>c_waitQueue := q\<rparr>))) (working A n)"
    by (rule push_simple [OF w]) (use f(1) in \<open>auto simp: plain_def\<close>)
qed

lemma exec_cond_working:
  assumes "working A n k"
  shows "yields (exec_Signal k cv l) (working A n)" "yields (exec_Broadcast k cv l) (working A n)" "yields (exec_Barrier k cv l) (working A n)"
proof -
  have wait: "s \<notin> set (c_waitQueue y)" if "get_cond k cv = Inr y" "ac_sem A = Some s" for y s
    using working_objects(2) [OF assms that(2)] that(1) by (simp add: get_cond_Inr)
  show "yields (exec_Signal k cv l) (working A n)"
    unfolding exec_Signal_def
    by (intro yields_rules push_simple) (use assms wait in \<open>force simp: plain_def intro!: working_put_cond\<close>)+
  show "yields (exec_Broadcast k cv l) (working A n)"
    unfolding exec_Broadcast_def by (intro yields_rules push_simple) (use assms in \<open>auto simp: plain_def\<close>)
  show "yields (exec_Barrier k cv l) (working A n)"
    unfolding exec_Barrier_def Let_def
    by (intro yields_rules push_simple) (use assms wait in \<open>force simp: plain_def intro!: working_put_cond\<close>)+
qed

text \<open>Semaphores.\<close>

lemma v_val_get: "get_sem k s = Inr x \<Longrightarrow> v_val (kview k) s = s_value x"
  by (simp add: get_sem_Inr v_val_sem)

lemma exec_P_working:
  assumes "working A n k" "stack_ok A (sem_P s' # v_fr (kview k) (k_current k))"
  shows "yields (exec_P k s') (working A (n + token A (sem_P s')))"
  unfolding exec_P_def by (rule push_working [OF working_calm [OF assms(1)]]) (use assms(2) in auto)

lemma Sleep_working:
  assumes "working A n k" "fin \<longrightarrow> tokens A (v_fr (kview k) (k_current k)) = 0"
  shows "yields (Sleep k fin) (working A n)"
proof -
  have "yields (push [Sleep_loop fin] k1) (working A n)" if "blockAThread k (k_current k) = Inr k1" for k1
  proof -
    have "yields (blockAThread k (k_current k)) (calm A k)" unfolding blockAThread_def by (intro calm_rules) simp_all
    then have c: "calm A k k1" using that by (simp add: yields_def)
    then have "v_fr (kview k1) = v_fr (kview k)" "k_current k1 = k_current k" by (simp_all add: calm_def)
    then show ?thesis
      using assms(2) working_stack_ok [OF assms(1)] working_tokens [OF assms(1), of "k_current k"]
      by (intro push_working [OF working_calm [OF assms(1) c]]) auto
  qed
  then show ?thesis unfolding Sleep_def by (intro yields_rules)
qed

lemma exec_P_loop_working:
  assumes "working A n k" "stack_ok A (P_loop s' old # v_fr (kview k) (k_current k))"
  shows "yields (exec_P_loop k s' old) (working A (n + token A (P_loop s' old)))"
  unfolding exec_P_loop_def
proof (intro yields_bind yields_if)
  fix x q k1 assume x: "get_sem k s' = Inr x" and p: "push [P_loop s' old] (put_sem k s' (x\<lparr>s_queue := q\<rparr>)) = Inr k1"
  have "working A n (put_sem k s' (x\<lparr>s_queue := q\<rparr>))"
    using working_sem [OF assms(1), of s' "x\<lparr>s_queue := q\<rparr>"] v_val_get [OF x] by (auto split: if_splits)
  then have "yields (push [P_loop s' old] (put_sem k s' (x\<lparr>s_queue := q\<rparr>))) (working A (n + token A (P_loop s' old)))"
    by (rule push_working) (use assms(2) in \<open>auto simp: kview_put_sem\<close>)
  then show "yields (Sleep k1 False) (working A (n + token A (P_loop s' old)))" using p by (intro Sleep_working) (auto simp: yields_def)
next
  fix x assume x: "get_sem k s' = Inr x"
  have "working A (n + token A (P_loop s' old)) (put_sem k s' (x\<lparr>s_value := s_value x - 1\<rparr>))"
    using working_sem [OF assms(1), of s' "x\<lparr>s_value := s_value x - 1\<rparr>"] v_val_get [OF x] by (auto split: if_splits)
  then show "yields (push [SetLevel old] (put_sem k s' (x\<lparr>s_value := s_value x - 1\<rparr>))) (working A (n + token A (P_loop s' old)))"
    by (rule push_simple) (simp add: plain_def)
qed

lemma V_body_working:
  assumes "working A n k"
  shows "yields (V_body k s') (working A (n + token A (sem_V s')))"
proof (cases "ac_sem A = Some s'")
  case False
  then show ?thesis using calm_working [OF assms V_body_calm [OF False calm_refl]] by simp
next
  case True
  show ?thesis
    unfolding V_body_def
  proof (intro yields_bind)
    fix x k1 y
    assume x: "get_sem k s' = Inr x" and y: "get_sem k1 s' = Inr y"
      and k1: "(case s_queue x of [] \<Rightarrow> Inr k | a # q \<Rightarrow> ReadyToRun (put_sem k s' (x\<lparr>s_queue := q\<rparr>)) a) = Inr k1"
    have "yields (case s_queue x of [] \<Rightarrow> Inr k | a # q \<Rightarrow> ReadyToRun (put_sem k s' (x\<lparr>s_queue := q\<rparr>)) a) (calm A k)"
      by (intro yields_rules ReadyToRun_calm) (use True v_val_get [OF x] in \<open>auto intro: calm_sem\<close>)
    then have "working A n k1" using k1 working_calm [OF assms] by (auto simp: yields_def)
    then have "working A (n + 1) (put_sem k1 s' (y\<lparr>s_value := s_value y + 1\<rparr>))"
      using working_sem [of A n k1 s' "y\<lparr>s_value := s_value y + 1\<rparr>"] v_val_get [OF y] True by simp
    then show "yields (Inr (put_sem k1 s' (y\<lparr>s_value := s_value y + 1\<rparr>))) (working A (n + token A (sem_V s')))" using True by simp
  qed
qed

lemma working_level [simp]: "working A n (ChangeLevel k lv) = working A n k"
  using working_calm [of A n "ChangeLevel k lv" k] working_calm [of A n k "ChangeLevel k lv"]
  by (auto simp: calm_def ChangeLevel_def)

lemma exec_V_working:
  assumes "working A n k"
  shows "yields (exec_V k s') (working A (n + token A (sem_V s')))"
proof -
  have "yields (V_body (ChangeLevel k IntOff) s') (working A (n + token A (sem_V s')))" by (rule V_body_working) (simp add: assms)
  then show ?thesis unfolding exec_V_def Let_def by (intro yields_bind push_simple) (auto simp: yields_def)
qed

text \<open>Context switches.\<close>

lemma save_calm: "calm A k k1 \<Longrightarrow> yields (reset_tlb c k1) (calm A k)" "calm A k k1 \<Longrightarrow> yields (save_space c k1 a) (calm A k)"
  unfolding reset_tlb_def save_space_def SaveUserState_def by (intro calm_rules; simp)+

lemma Run_fields:
  assumes "Run c k m fin = Inr k'"
  shows "same_objects k k'" "k_current k \<in> live k" "m \<in> live k"
proof -
  define k0 where "k0 = (if fin then k\<lparr>k_toBeDestroyed := Some (k_current k)\<rparr> else k)"
  obtain k1 k2 k3 k4 where r: "reset_tlb c k0 = Inr k1" "save_space c k1 (k_current k) = Inr k2" "push [after_SWITCH] k2 = Inr k3"
    "upd_thread (k3\<lparr>k_current := m\<rparr>) m (\<lambda>t. t\<lparr>t_status := RUNNING\<rparr>) = Inr k4" "follow_current k4 = Inr k'"
    using assms by (auto simp: Run_def Let_def rbind_Inr_iff rassert_Inr_iff k0_def split: if_splits)
  have "k_data k1 = k_data k0" using r(1) by (auto simp: reset_tlb_def split: if_splits option.splits)
  moreover have "k_data k2 = k_data k1"
    using r(2) by (auto simp: save_space_def SaveUserState_def rbind_Inr_iff elim!: upd_thread_Inr split: option.splits if_splits)
  moreover have "calm A k0 k2" for A using yieldsD [OF save_calm(1) [OF calm_refl] r(1)] yieldsD [OF save_calm(2) r(2)] by blast
  ultimately have c: "same_objects k k2" "k_current k2 = k_current k" "live k2 = live k"
    by (auto simp: calm_def k0_def live_def same_objects_def)
  note p = push_fields [OF r(3)]
  obtain t where t: "k_threads k3 m = Some t" "k4 = k3\<lparr>k_current := m, k_threads := (k_threads k3)(m \<mapsto> t\<lparr>t_status := RUNNING\<rparr>)\<rparr>"
    using r(4) by (rule upd_thread_Inr) auto
  have "same_objects k4 k'" using r(5) by (auto simp: follow_current_def rbind_Inr_iff same_objects_def)
  then show "same_objects k k'" using t(2) p c by (simp add: same_objects_def)
  show "k_current k \<in> live k" using p c by simp
  have "m \<in> live k3" using t(1) by (simp add: live_def kview_def)
  moreover have "live k3 = live k2" using push_view(1) [OF r(3)] by (simp add: live_def)
  ultimately show "m \<in> live k" using c(3) by simp
qed

lemma Run_acc:
  assumes "working A n k" "fin \<longrightarrow> tokens A (v_fr (kview k) (k_current k)) = 0"
  shows "yields (Run c k m fin) (acc_inv A n)"
proof -
  have "acc_inv A n k'" if r: "Run c k m fin = Inr k'" for k'
  proof -
    note v = Run_view(1) [OF r] and f = Run_fields [OF r]
    have tbd: "k_toBeDestroyed k' = (if fin then Some (k_current k) else k_toBeDestroyed k)" using arg_cong [OF v, of v_tbd] by simp
    have lv: "live k' = live k" using f(3) by (auto simp: live_def v)
    have fin: "finite (live k)" using assms(1) by (simp add: working_def acc_inv_def stacks_ok_def)
    have "tally A k' = tally A k"
      unfolding tally_def lv v using sum_upd [OF fin f(2), of "tokens A" "v_fr (kview k)" "after_SWITCH # v_fr (kview k) (k_current k)"]
        same_objectsD [OF f(1)] by simp
    then show ?thesis
      using assms same_objectsD(3) [OF f(1)] working_tokens [OF assms(1), of "k_current k"]
      unfolding working_def acc_inv_def stacks_ok_def lv tbd by (auto simp: v)
  qed
  then show ?thesis by (simp add: yields_def)
qed

lemma exec_Yield_acc:
  assumes "working A n k"
  shows "yields (exec_Yield D c k) (acc_inv A n)"
  unfolding exec_Yield_def Let_def
proof (intro yields_bind yields_prod)
  fix p m k1 k2 assume f: "FindNextToRun (ChangeLevel k IntOff) = Inr p" "p = (m, k1)" and q: "push [SetLevel (k_level k)] k1 = Inr k2"
  have "working A n k1" using working_calm [OF _ FindNextToRun_calm, of A n "ChangeLevel k IntOff"] f assms by simp
  then have "yields (push [SetLevel (k_level k)] k1) (working A n)" by (rule push_simple) simp_all
  then have w: "working A n k2" using q by (simp add: yields_def)
  have "yields (ReadyToRun k2 (k_current k)) (working A n)" by (rule calm_working [OF w ReadyToRun_calm]) simp
  then have r: "yields (rbind (ReadyToRun k2 (k_current k)) (\<lambda>k. Run c k a False)) (acc_inv A n)" for a
    by (intro yields_bind Run_acc) (auto simp: yields_def)
  show "yields (case m of None \<Rightarrow> Inr k2 | Some a \<Rightarrow> rbind (ReadyToRun k2 (k_current k)) (\<lambda>k. Run c k a False)) (acc_inv A n)"
    using working_inv [OF w] r by (cases m) simp_all
qed

lemma OneTick_working:
  assumes "\<forall>m. ac_sem A \<noteq> None \<longrightarrow> W m \<noteq> ac_sem A" "working A n k"
  shows "yields (OneTick (kernel_devices W) k) (working A n)"
proof -
  have c: "calm A k k1" if "CheckIfDue (kernel_devices W) (ChangeLevel (set_stats k st) IntOff) False = Inr (b, k1)" for st b k1
    using yieldsD [OF CheckIfDue_calm [OF working_clear [OF assms(2,1)]] that] by simp
  show ?thesis
    unfolding OneTick_def Let_def
    by (intro yields_bind yields_prod yields_if push_simple) (auto intro!: working_calm [OF assms(2)] intro: c)
qed

lemma exec_SetLevel_working:
  assumes "\<forall>m. ac_sem A \<noteq> None \<longrightarrow> W m \<noteq> ac_sem A" "working A n k"
  shows "yields (exec_SetLevel (kernel_devices W) k now) (working A n)"
  unfolding exec_SetLevel_def Let_def using assms by (intro yields_rules OneTick_working) simp_all

lemma exec_Sleep_loop_acc:
  assumes "\<forall>m. ac_sem A \<noteq> None \<longrightarrow> W m \<noteq> ac_sem A" "working A n k" "fin \<longrightarrow> tokens A (v_fr (kview k) (k_current k)) = 0"
  shows "yields (exec_Sleep_loop (kernel_devices W) c k fin) (acc_inv A n)"
  unfolding exec_Sleep_loop_def
proof (intro yields_bind yields_prod)
  fix p m k1 assume f: "FindNextToRun k = Inr p" "p = (m, k1)"
  have c: "calm A k k1" using FindNextToRun_calm f by simp
  have w: "working A n k1" by (rule working_calm [OF assms(2) c])
  have t: "fin \<longrightarrow> tokens A (v_fr (kview k1) (k_current k1)) = 0" using assms(3) c by (simp add: calm_def)
  have "yields (push [Sleep_loop fin] k1) (working A n)" using t working_stack_ok [OF w] working_tokens [OF w, of "k_current k1"] by (intro push_working [OF w]) auto
  then have "yields (rbind (push [Sleep_loop fin] k1) (Idle (kernel_devices W))) (working A n)"
    by (intro yields_bind) (auto simp: yields_def [of "push _ _"] intro: calm_working [OF _ Idle_calm [OF working_clear [OF _ assms(1)] calm_refl]])
  then show "yields (case m of None \<Rightarrow> rbind (push [Sleep_loop fin] k1) (Idle (kernel_devices W)) | Some a \<Rightarrow> Run c k1 a fin) (acc_inv A n)"
    using Run_acc [OF w t] working_inv by (cases m) (auto simp: yields_def)
qed

text \<open>Threads come and go.\<close>

lemma exec_Fork_working:
  assumes "working A n k" "policy_ok k" "v_st (kview k) a = Some JUST_CREATED" "k_toBeDestroyed k \<noteq> Some a" "stack_ok A body"
  shows "yields (exec_Fork k a body) (working A (n + tokens A body))"
  unfolding exec_Fork_def Let_def
proof (intro yields_bind push_simple)
  fix k1 k2 assume alloc: "StackAllocate k a body = Inr k1" and r: "ReadyToRun (ChangeLevel k1 IntOff) a = Inr k2"
  obtain t where t: "k_threads k a = Some t"
    "k1 = k\<lparr>k_threads := (k_threads k)(a \<mapsto> t\<lparr>t_stack := Some STACK_FENCEPOST, t_frames := ThreadBegin # body @ [Finish]\<rparr>)\<rparr>"
    using alloc by (auto simp: StackAllocate_def upd_thread_def rbind_Inr_iff get_thread_Inr)
  have st: "t_status t = JUST_CREATED" using assms(3) t(1) by (simp add: kview_def)
  have v1: "kview k1 = (kview k)\<lparr>v_fr := (v_fr (kview k))(a := ThreadBegin # body @ [Finish])\<rparr>"
    unfolding t(2) kview_upd [OF t(1)] using st assms(3) by (simp add: fun_upd_idem)
  have "policy_ok (ChangeLevel k1 IntOff)" using assms(2) t(2) by (simp add: policy_ok_def)
  note v2 = ReadyToRun_view(1) [OF r this]
  have c: "calm A k1 k2" using yieldsD [OF ReadyToRun_calm r] by simp
  have v: "v_fr (kview k2) = (v_fr (kview k))(a := ThreadBegin # body @ [Finish])" "v_st (kview k2) = (v_st (kview k))(a := Some READY)"
    "v_val (kview k2) = v_val (kview k)"
    using v2 by (simp_all add: v1)
  have o: "holding k2 = holding k" "counter A k2 = counter A k" "objects_ok A k2 = objects_ok A k" "k_toBeDestroyed k2 = k_toBeDestroyed k"
    "k_current k2 = k_current k"
    using c t(2) by (simp_all add: calm_def holding_def [abs_def] counter_def objects_ok_def tracked_def)
  have lv: "live k2 = live k" and al: "a \<in> live k" using assms(3) by (auto simp: live_def v)
  have fin: "finite (live k)" using assms(1) by (simp add: working_def acc_inv_def stacks_ok_def)
  have old: "tokens A (v_fr (kview k) a) = 0" using assms(1,3) by (simp add: working_def acc_inv_def stacks_ok_def)
  have so: "stack_ok A (ThreadBegin # body @ [Finish])" using stack_ok_append [OF assms(5), of "[Finish]"] tokens_nonneg [OF assms(5)] by simp
  have "tally A k2 = tally A k + tokens A body"
    unfolding tally_def lv v(1,3) o using sum_upd [OF fin al, of "tokens A" "v_fr (kview k)" "ThreadBegin # body @ [Finish]"] old by simp
  then show "working A (n + tokens A body) k2"
    using assms(1,4) so o(3-5) unfolding working_def acc_inv_def stacks_ok_def lv by (auto simp: v)
qed simp

lemma Thread_new_working:
  assumes "working A n k"
  shows "yields (Thread_new k a prio remain) (working A n)"
proof -
  have "working A n k'" if new: "Thread_new k a prio remain = Inr k'" for k'
  proof -
    obtain arr t where t: "k_threads k a = None" "k' = k\<lparr>k_threadArray := arr, k_threads := (k_threads k)(a \<mapsto> t)\<rparr>" "t_status t = JUST_CREATED" "t_frames t = []"
      using new by (auto simp: Thread_new_def addAThread_def rbind_Inr_iff rassert_Inr_iff split: if_splits)
    have v: "kview k' = (kview k)\<lparr>v_st := (v_st (kview k))(a := Some JUST_CREATED)\<rparr>" using t by (auto simp: kview_def fun_eq_iff)
    have lv: "live k' = insert a (live k)" "a \<notin> live k" using t(1) by (auto simp: live_def v) (simp add: kview_def)
    have fr: "v_fr (kview k) a = []" using t(1) by (simp add: kview_def)
    have fin: "finite (live k)" using assms by (simp add: working_def acc_inv_def stacks_ok_def)
    have cur: "k_current k \<noteq> a" using assms lv(2) by (auto simp: working_def)
    have o: "same_objects k k'" "k_current k' = k_current k" "k_toBeDestroyed k' = k_toBeDestroyed k" using t(2) by (simp_all add: same_objects_def)
    have "tally A k' = tally A k" unfolding tally_def lv(1) v using fin lv(2) fr same_objectsD [OF o(1)] by simp
    then show ?thesis
      using assms fr cur o(2,3) same_objectsD(3) [OF o(1)] unfolding working_def acc_inv_def stacks_ok_def lv(1) by (auto simp: v)
  qed
  then show ?thesis by (simp add: yields_def)
qed

lemma CheckToBeDestroyed_working:
  assumes "working A n k"
  shows "yields (CheckToBeDestroyed k) (working A n)"
proof -
  have "working A n (k'\<lparr>k_toBeDestroyed := None\<rparr>)" if d: "k_toBeDestroyed k = Some d" and del: "Thread_delete k d = Inr k'" for d k'
  proof -
    obtain arr t where t: "k_threads k d = Some t" "k' = k\<lparr>k_threadArray := arr, k_threads := (k_threads k)(d := None)\<rparr>" "d \<noteq> k_current k"
      using del by (auto simp: Thread_delete_def removeAThread_def rbind_Inr_iff rassert_Inr_iff get_thread_Inr)
    define kd where "kd = k'\<lparr>k_toBeDestroyed := None\<rparr>"
    have v: "kview kd = (kview k)\<lparr>v_st := (v_st (kview k))(d := None), v_fr := (v_fr (kview k))(d := []), v_tbd := None\<rparr>"
      using t by (auto simp: kd_def kview_def fun_eq_iff)
    have lv: "live kd = live k - {d}" by (auto simp: live_def v)
    have dl: "d \<in> live k" using t(1) by (simp add: live_def kview_def)
    have fin: "finite (live k)" using assms by (simp add: working_def acc_inv_def stacks_ok_def)
    have z: "tokens A (v_fr (kview k) d) = 0" using assms d by (simp add: working_def acc_inv_def stacks_ok_def)
    have o: "same_objects k kd" "k_current kd = k_current k" "k_toBeDestroyed kd = None" using t(2) by (simp_all add: kd_def same_objects_def)
    have "tally A kd = tally A k" unfolding tally_def lv v using fin dl z same_objectsD [OF o(1)] by (simp add: sum.remove [of "live k" d])
    then show ?thesis
      unfolding kd_def [symmetric] using assms t(3) o(2,3) same_objectsD(3) [OF o(1)]
      unfolding working_def acc_inv_def stacks_ok_def lv by (auto simp: v)
  qed
  then show ?thesis unfolding CheckToBeDestroyed_def using assms by (intro yields_rules) auto
qed

section \<open>Every step\<close>

lemma holding_range: "holding k lo = 0 \<or> holding k lo = 1"
  by (simp add: holding_def split: option.splits)

lemma tally_parts:
  assumes "acc_inv A n k"
  shows "sem_value A (v_val (kview k)) + holding k (ac_lock A) + counter A k \<le> n"
    "a \<in> live k \<Longrightarrow> sem_value A (v_val (kview k)) + holding k (ac_lock A) + counter A k + tokens A (v_fr (kview k) a) \<le> n"
    "a \<in> live k \<Longrightarrow> b \<in> live k \<Longrightarrow> a \<noteq> b \<Longrightarrow>
       sem_value A (v_val (kview k)) + holding k (ac_lock A) + counter A k + tokens A (v_fr (kview k) a) + tokens A (v_fr (kview k) b) \<le> n"
proof -
  have t: "0 \<le> tokens A (v_fr (kview k) a)" for a using assms tokens_nonneg by (simp add: acc_inv_def stacks_ok_def)
  then have "0 \<le> (\<Sum>a \<in> live k. tokens A (v_fr (kview k) a))" by (simp add: sum_nonneg)
  then show "sem_value A (v_val (kview k)) + holding k (ac_lock A) + counter A k \<le> n" using assms by (simp add: acc_inv_def tally_def)
  show "sem_value A (v_val (kview k)) + holding k (ac_lock A) + counter A k + tokens A (v_fr (kview k) a) \<le> n" if "a \<in> live k"
    using member_le_sum [of a "live k" "\<lambda>a. tokens A (v_fr (kview k) a)"] assms t that by (simp add: acc_inv_def tally_def stacks_ok_def)
  show "sem_value A (v_val (kview k)) + holding k (ac_lock A) + counter A k + tokens A (v_fr (kview k) a) + tokens A (v_fr (kview k) b) \<le> n"
    if "a \<in> live k" "b \<in> live k" "a \<noteq> b"
    using sum_mono2 [of "live k" "{a, b}" "\<lambda>a. tokens A (v_fr (kview k) a)"] assms t that by (simp add: acc_inv_def tally_def stacks_ok_def)
qed

text \<open>An account with a lock counts to one, and nothing else.\<close>

definition sound :: "account \<Rightarrow> int \<Rightarrow> bool" where
  "sound A n \<longleftrightarrow> (ac_lock A \<noteq> None \<longrightarrow> n = 1 \<and> ac_produce A = (\<lambda>_. 0) \<and> ac_consume A = 0)"

lemma exec_set_lockHolder_acc:
  assumes "working A (n - token A (set_lockHolder l)) k" "0 \<le> sem_value A (v_val (kview k))" "sound A n"
  shows "yields (exec_set_lockHolder k l) (working A n)"
  unfolding exec_set_lockHolder_def
proof (intro yields_rules)
  fix x assume "get_lock k l = Inr x"
  then have x: "k_locks k l = Some x" by (simp add: get_lock_Inr)
  have "holding k (ac_lock A) = 0" if "ac_lock A = Some l"
    using tally_parts(1) [OF working_inv [OF assms(1)]] that assms(2,3) holding_range [of k "ac_lock A"] by (auto simp: sound_def counter_def)
  then show "yields (Inr (put_lock k l (x\<lparr>l_lockHolder := Some (k_current k)\<rparr>))) (working A n)"
    using working_put_lock [OF assms(1) x, of "x\<lparr>l_lockHolder := Some (k_current k)\<rparr>"] by (auto split: if_splits)
qed

lemma exec_misc_working:
  assumes "working A n k"
  shows "yields (exec_Fork_check k) (working A n)" "yields (exec_ThreadBegin k) (working A n)" "yields (exec_after_SWITCH c k) (working A n)"
    "yields (upd_thread k a (\<lambda>t. t\<lparr>t_priority := pr\<rparr>)) (working A n)" "working A n (setStatus k st)"
    "ac_sem A \<noteq> Some s \<Longrightarrow> working A n (k\<lparr>k_sems := (k_sems k)(s := None)\<rparr>)"
proof -
  note d = CheckToBeDestroyed_working [OF assms]
  show "yields (exec_Fork_check k) (working A n)"
    unfolding exec_Fork_check_def by (intro yields_rules push_simple) (use assms in simp_all)
  show "yields (exec_ThreadBegin k) (working A n)"
    unfolding exec_ThreadBegin_def by (intro yields_bind push_simple) (use d in \<open>auto simp: yields_def\<close>)
  have w: "working A n k'" if "CheckToBeDestroyed k = Inr k'" for k' using d that by (simp add: yields_def)
  show "yields (exec_after_SWITCH c k) (working A n)"
    unfolding exec_after_SWITCH_def RestoreUserState_def
    by (intro yields_rules) (auto simp: rbind_Inr_iff split: if_splits intro: working_calm [OF w])
  show "yields (upd_thread k a (\<lambda>t. t\<lparr>t_priority := pr\<rparr>)) (working A n)" by (rule calm_working [OF assms calm_upd]) simp_all
  show "working A n (setStatus k st)" by (rule working_calm [OF assms]) simp
  have "kview (k\<lparr>k_sems := (k_sems k)(s := None)\<rparr>) = (kview k)\<lparr>v_qs := (v_qs (kview k))(s := []), v_val := (v_val (kview k))(s := 0)\<rparr>"
    by (auto simp: kview_def fun_eq_iff)
  then show "ac_sem A \<noteq> Some s \<Longrightarrow> working A n (k\<lparr>k_sems := (k_sems k)(s := None)\<rparr>)"
    by (intro working_calm [OF assms]) (auto simp: calm_def sem_value_def split: option.split)
qed

text \<open>Routines. Only the production and the consumption of items change the counters.\<close>

lemma call_objects:
  "set_result x k = Inr k' \<Longrightarrow> k_locks k' = k_locks k \<and> k_conds k' = k_conds k \<and> k_data k' = k_data k"
  "Schedule k obj n type = Inr k' \<Longrightarrow> k_locks k' = k_locks k \<and> k_conds k' = k_conds k \<and> k_data k' = k_data k"
  "Execute c k sp = Inr k' \<Longrightarrow> k_locks k' = k_locks k \<and> k_conds k' = k_conds k \<and> k_data k' = k_data k"
  by (auto simp: set_result_def Schedule_def Let_def Execute_def rassert_Inr_iff rbind_Inr_iff setStatus_def elim!: upd_thread_Inr)

lemma upd_data_objects [simp]:
  "k_locks (upd_data f k) = k_locks k" "k_conds (upd_data f k) = k_conds k" "k_data (upd_data f k) = f (k_data k)"
  "k_locks (put_list sl x xs k) = k_locks k" "k_conds (put_list sl x xs k) = k_conds k"
  "k_data (put_list sl x xs k) = (k_data k)\<lparr>d_lists := (d_lists (k_data k))(sl \<mapsto> x\<lparr>sl_list := xs\<rparr>)\<rparr>"
  by (simp_all add: upd_data_def put_list_def)

lemma Receive_sem: "NetworkInput_Receive ni bs = Inr (hdr, bs', ni') \<Longrightarrow> ni_messageAvailable ni' = ni_messageAvailable ni"
  by (auto simp: NetworkInput_Receive_def Let_def rbind_Inr_iff split: if_splits)

definition uncounted :: "client \<Rightarrow> bool" where
  "uncounted op \<longleftrightarrow> (case op of produce_item i \<Rightarrow> False | consume_item \<Rightarrow> False | delete_SynchList sl \<Rightarrow> False | _ \<Rightarrow> True)"

lemma uncounted_objects:
  "uncounted op \<Longrightarrow> yields (client_step c op k) (\<lambda>(fs, k'). k_locks k' = k_locks k \<and> k_conds k' = k_conds k \<and> tracked (k_data k') = tracked (k_data k))"
  by (cases op; simp only: uncounted_def client_defs Let_def client.case; (intro yields_rules)?;
      auto simp: tracked_def device_sems_def dest!: call_objects Receive_sem split: if_splits)


text \<open>What a routine calls is not counted, and ends the thread only if the routine does.\<close>

lemma client_calls_plain:
  assumes "\<And>s. ac_sem A = Some s \<Longrightarrow> s \<notin> device_sems (k_data k)"
  shows "yields (client_step c op k) (\<lambda>(fs, k'). frame_ok A (Client op) \<longrightarrow>
     (if last_call (Client op) then fs = [UserRun] else \<forall>f \<in> set fs. plain A f))"
proof -
  have s: "ac_sem A \<noteq> Some (ci_waitFor (d_consoleIn (k_data k)))" "ac_sem A \<noteq> Some (co_waitFor (d_consoleOut (k_data k)))"
    "ac_sem A \<noteq> Some (ni_messageAvailable (d_networkIn (k_data k)))" "ac_sem A \<noteq> Some (no_messageSent (d_networkOut (k_data k)))"
    using assms by (auto simp: device_sems_def)
  show ?thesis
    by (cases op; simp only: client_defs Let_def client.case; (intro yields_rules)?; (auto simp: s SimpleThread_rest_def split: nat.splits)?)
qed

lemma awrite_Inr: "awrite xs i x = Inr ys \<longleftrightarrow> 0 \<le> i \<and> nat i < length xs \<and> ys = xs[nat i := x]"
  by (auto simp: awrite_def)

lemma take_update_next: "0 \<le> i \<Longrightarrow> nat i < length xs \<Longrightarrow> take (nat (i + 1)) (xs[nat i := x]) = take (nat i) xs @ [x]"
  by (simp add: nat_add_distrib take_Suc_conv_app_nth)

lemma produce_counter:
  assumes "produce_item_step i k = Inr (fs, k')"
  shows "\<exists>f. fs = [] \<and> k' = upd_data f k \<and> device_sems (f (k_data k)) = device_sems (k_data k) \<and> counter A (upd_data f k) - counter A k = ac_produce A i"
proof -
  let ?d = "k_data k"
  let ?f = "\<lambda>d. d\<lparr>d_produceArray := (d_produceArray ?d)[nat (d_high ?d) := i], d_high := d_high d + 1\<rparr>"
  have r: "0 \<le> d_high ?d" "nat (d_high ?d) < length (d_produceArray ?d)" "fs = []" "k' = upd_data ?f k"
    using assms by (auto simp: produce_item_step_def rbind_Inr_iff awrite_Inr)
  show ?thesis
    by (rule exI [of _ ?f]) (use r take_update_next [OF r(1,2)] in \<open>simp add: counter_def device_sems_def\<close>)
qed

lemma consume_counter:
  assumes "consume_item_step k = Inr (fs, k')"
  shows "\<exists>f. fs = [] \<and> k' = upd_data f k \<and> device_sems (f (k_data k)) = device_sems (k_data k) \<and> counter A (upd_data f k) - counter A k = ac_consume A"
  using assms by (auto simp: consume_item_step_def rbind_Inr_iff counter_def device_sems_def algebra_simps)

lemma item_counter:
  assumes "\<not> uncounted op" "frame_ok A (Client op)" "client_step c op k = Inr (fs, k')"
  shows "\<exists>f. fs = [] \<and> k' = upd_data f k \<and> device_sems (f (k_data k)) = device_sems (k_data k) \<and> counter A (upd_data f k) - counter A k = client_token A op"
proof (cases op)
  case (produce_item i)
  then show ?thesis using produce_counter [of i k fs k' A] assms(3) by (simp add: client_step_def)
next
  case consume_item
  then show ?thesis using consume_counter [of k fs k' A] assms(3) by (simp add: client_step_def)
qed (use assms in \<open>simp_all add: uncounted_def\<close>)

lemma working_data:
  assumes "working A n k" "device_sems (f (k_data k)) = device_sems (k_data k)"
  shows "working A (n + (counter A (upd_data f k) - counter A k)) (upd_data f k)"
proof -
  have v: "kview (upd_data f k) = kview k" by (simp add: upd_data_def kview_def)
  have "k_toBeDestroyed (upd_data f k) = k_toBeDestroyed k" "k_current (upd_data f k) = k_current k" "live (upd_data f k) = live k"
    "holding (upd_data f k) = holding k" "objects_ok A (upd_data f k) = objects_ok A k"
    using assms(2) v by (simp_all add: upd_data_def live_def holding_def [abs_def] objects_ok_def)
  then show ?thesis using assms(1) unfolding working_def acc_inv_def stacks_ok_def tally_def v by simp
qed

lemma exec_Client_working:
  assumes "working A n k" "stack_ok A (Client op # v_fr (kview k) (k_current k))"
  shows "yields (exec_Client c k op) (working A (n + client_token A op))"
  unfolding exec_Client_def
proof (intro yields_bind yields_prod)
  fix p fs k' assume step: "client_step c op k = Inr p" "p = (fs, k')"
  have ok: "frame_ok A (Client op)" using assms(2) by simp
  show "yields (push fs k') (working A (n + client_token A op))"
  proof (cases "uncounted op")
    case True
    then have z: "client_token A op = 0" by (cases op) (simp_all add: uncounted_def)
    have c: "calm A k k'"
      using yieldsD [OF client_step_frugal step(1)] yieldsD [OF uncounted_objects [OF True] step(1)] step(2) by (auto intro: calm_frugal)
    note w = working_calm [OF assms(1) c]
    have fs: "if last_call (Client op) then fs = [UserRun] else \<forall>f \<in> set fs. plain A f"
      using yieldsD [OF client_calls_plain [of A] step(1)] working_objects(4) [OF assms(1)] step(2) ok by simp
    show ?thesis
    proof (cases "last_call (Client op)")
      case True
      then have "fs = [UserRun]" "tokens A (v_fr (kview k') (k_current k')) = 0" using fs assms(2) c by (simp_all add: calm_def)
      then show ?thesis using working_stack_ok [OF w] z by (intro push_working [OF w]) simp_all
    next
      case False
      then have "\<forall>f \<in> set fs. plain A f" using fs by presburger
      then show ?thesis using push_simple [OF w] z by simp
    qed
  next
    case False
    then obtain f where f: "fs = []" "k' = upd_data f k" "device_sems (f (k_data k)) = device_sems (k_data k)"
        "counter A (upd_data f k) - counter A k = client_token A op"
      using item_counter [OF False ok] step by blast
    show ?thesis using push_simple [OF working_data [OF assms(1), of f, OF f(3)], of "[]"] f by simp
  qed
qed

lemma exec_UserRun_acc:
  assumes "\<forall>m. ac_sem A \<noteq> None \<longrightarrow> W m \<noteq> ac_sem A" "working A n k" "tokens A (v_fr (kview k) (k_current k)) = 0"
  shows "yields (exec_UserRun (kernel_devices W) c k) (working A n)"
proof -
  have w: "working A n (k\<lparr>k_machine := m\<rparr>)" for m using working_calm [OF assms(2)] by simp
  have "yields (push [UserRun] (k\<lparr>k_machine := m\<rparr>)) (working A n)" for m
    by (rule push_working [OF w]) (use assms(3) working_stack_ok [OF assms(2)] in simp_all)
  then have "yields (rbind (push [UserRun] (k\<lparr>k_machine := m\<rparr>)) (OneTick (kernel_devices W))) (working A n)" for m
    by (intro yields_bind OneTick_working [OF assms(1)]) (auto simp: yields_def)
  moreover have "yields (exec_Finish (k\<lparr>k_machine := m\<rparr>)) (working A n)" for m
    unfolding exec_Finish_def by (rule Sleep_working) (use w assms(3) in simp_all)
  moreover have "working A n (k\<lparr>k_machine := m, k_halted := True\<rparr>)" for m by (rule working_calm [OF assms(2)]) simp
  ultimately show ?thesis unfolding exec_UserRun_def by (intro yields_bind) (simp split: control.split)
qed

lemma yields_acc: "yields r (working A n) \<Longrightarrow> yields r (acc_inv A n)"
  by (auto simp: yields_def working_inv)

lemma step_acc_inv:
  assumes "\<forall>m. ac_sem A \<noteq> None \<longrightarrow> W m \<noteq> ac_sem A" "k_inv k" "call_ok k" "acc_inv A n k" "sound A n"
  shows "yields (kernel_step (kernel_devices W) c k) (acc_inv A n)"
proof -
  have "yields (exec_frame (kernel_devices W) c k1 f) (acc_inv A n)" if p: "pop k = Inr (f, k1)" for f k1
  proof -
    obtain fs where fs: "v_fr (kview k1) (k_current k1) = fs" "stack_ok A (f # fs)" and w: "working A (n - token A f) k1"
      using pop_working [OF assms(2,4) p] .
    obtain gs where v: "v_fr (kview k) (k_current k) = f # gs" "kview k1 = (kview k)\<lparr>v_fr := (v_fr (kview k))(k_current k := gs)\<rparr>"
      and ty: "k_typeno k1 = k_typeno k"
      using pop_view [OF p] by blast
    have fk: "fork_ok (kview k1) (f # fs)" using assms(3) unfolding call_ok_def v(1) by (cases f) (simp_all add: v(2))
    note i = sched_invD [of "kview k"]
    have v0: "0 \<le> sem_value A (v_val (kview k1))" using i(7) assms(2) by (simp add: v(2) k_inv_def wake_ok_def sem_value_def split: option.split)
    have pol: "policy_ok k1" using assms(2) ty by (simp add: k_inv_def policy_ok_def)
    have tbd: "k_toBeDestroyed k1 \<noteq> Some a" if "v_st (kview k1) a = Some JUST_CREATED" for a
    proof -
      have "k_toBeDestroyed k1 = k_toBeDestroyed k" using arg_cong [OF v(2), of v_tbd] by simp
      then show ?thesis using i(5) assms(2) that by (auto simp: v(2) k_inv_def destroy_ok_def)
    qed
    note simple = exec_Acquire_working exec_Release_working exec_Wait_working exec_cond_working exec_SetLevel_working [OF assms(1)]
      Thread_new_working exec_misc_working(1-4)
    show ?thesis
    proof (cases f)
      case (sem_P s')
      then show ?thesis using exec_P_working [OF w, of s'] fs by (intro yields_acc) (simp add: exec_frame_def)
    next
      case (P_loop s' old)
      then show ?thesis using exec_P_loop_working [OF w, of s' old] fs by (intro yields_acc) (simp add: exec_frame_def)
    next
      case (sem_V s')
      then show ?thesis using exec_V_working [OF w, of s'] by (intro yields_acc) (simp add: exec_frame_def)
    next
      case (set_lockHolder l')
      then show ?thesis using exec_set_lockHolder_acc [of A n l' k1] w v0 assms(5) by (intro yields_acc) (simp add: exec_frame_def)
    next
      case Yield
      then show ?thesis using exec_Yield_acc w by (simp add: exec_frame_def)
    next
      case (Sleep_loop fin)
      then show ?thesis using exec_Sleep_loop_acc [OF assms(1)] w fs by (simp add: exec_frame_def)
    next
      case (Fork a body)
      then show ?thesis using exec_Fork_working [of A "n - tokens A body" k1 a body] w fs fk pol tbd by (intro yields_acc) (simp add: exec_frame_def)
    next
      case Finish
      then show ?thesis using Sleep_working [of A n "ChangeLevel k1 IntOff" True] w fs by (intro yields_acc) (simp add: exec_frame_def exec_Finish_def)
    next
      case (Client op)
      then show ?thesis using exec_Client_working [OF w, of op] fs by (intro yields_acc) (simp add: exec_frame_def)
    next
      case UserRun
      then show ?thesis using exec_UserRun_acc [OF assms(1), of n k1] w fs by (intro yields_acc) (simp add: exec_frame_def)
    qed (use w fs in \<open>simp_all add: exec_frame_def simple [THEN yields_acc] exec_misc_working(5,6) [THEN working_inv]\<close>)
  qed
  then show ?thesis unfolding kernel_step_def using assms(4) by (intro yields_rules) auto
qed

lemma reaches_acc:
  assumes "reaches (kernel_devices W) c k0 k" "k_inv k0" "acc_inv A n k0" "\<forall>m. ac_sem A \<noteq> None \<longrightarrow> W m \<noteq> ac_sem A" "sound A n"
  shows "acc_inv A n k"
  using assms
proof (induction rule: reaches.induct)
  case (step k k')
  then show ?case using yieldsD [OF step_acc_inv] signals.reaches_inv by blast
qed

section \<open>The start\<close>

lemma start_acc_inv:
  assumes "Kernel_Initialize c r rs dbg a prio remain junk tlb0 pt0 ptsize exe hdr devs body = Inr k0" "k_threads r = Map.empty"
    "stack_ok A body" "objects_ok A r" "n = sem_value A (v_val (kview r)) + holding r (ac_lock A) + counter A r + tokens A body"
  shows "acc_inv A n k0"
proof -
  obtain t where t: "t_frames t = SetLevel IntOn # body" "t_status t = RUNNING"
    and "core k0 = (k_typeno r, [a \<mapsto> t], a, [], [], replicate (nat QueueNum) [], [], None, k_sems r, k_locks r, k_conds r, k_freshSem r, k_data r)"
    by (rule Kernel_Initialize_start [OF assms(1,2)])
  then have e: "k_threads k0 = [a \<mapsto> t]" "k_toBeDestroyed k0 = None" "k_sems k0 = k_sems r" and o: "same_objects r k0"
    by (simp_all add: core_def same_objects_def)
  have lv: "live k0 = {a}" by (auto simp: live_def kview_def e(1))
  have fr: "v_fr (kview k0) b = (if b = a then SetLevel IntOn # body else [])" for b by (simp add: kview_def e(1) t)
  have "v_val (kview k0) = v_val (kview r)" by (simp add: kview_def e(3))
  then have "tally A k0 = n" using assms(5) same_objectsD [OF o] by (simp add: tally_def lv fr)
  moreover have "stacks_ok A k0"
    using assms(3) tokens_nonneg [OF assms(3)] e(2) t(2) by (auto simp: stacks_ok_def lv fr t(1) kview_def e(1) split: if_splits)
  ultimately show ?thesis using assms(4) same_objectsD(3) [OF o] by (simp add: acc_inv_def)
qed

end
