(* ===== verification/Lock_Laws.thy ===== *)
theory Lock_Laws
  imports Token_Laws
begin

text \<open>
  Mutual exclusion of \<^verbatim>\<open>Lock\<close>. The right to hold a lock is a token that is always in exactly one place: in the value of the
  lock's semaphore, in the hands of a thread that has passed \<^verbatim>\<open>P\<close> but has not yet entered itself as the holder, with the
  holder, or in the hands of a thread that has ceased to be the holder but has not yet called \<^verbatim>\<open>V\<close>.
\<close>

section \<open>Mutual exclusion\<close>

definition lock_account :: "addr \<Rightarrow> addr \<Rightarrow> account" where
  "lock_account l s = \<lparr>ac_lock = Some l, ac_sem = Some s, ac_produce = (\<lambda>_. 0), ac_consume = 0\<rparr>"

lemma lock_account_simps [simp]:
  "ac_lock (lock_account l s) = Some l" "ac_sem (lock_account l s) = Some s" "ac_produce (lock_account l s) = (\<lambda>_. 0)" "ac_consume (lock_account l s) = 0"
  "counter (lock_account l s) k = 0" "sem_value (lock_account l s) val = val s" "sound (lock_account l s) 1"
  by (simp_all add: lock_account_def counter_def sem_value_def sound_def)

lemma lock_client_token [simp]: "client_token (lock_account l s) op = 0"
  by (cases op) simp_all

text \<open>The procedure of a thread uses the semaphore of the lock only through the lock, and destroys no lock.\<close>

fun uses_lock :: "addr \<Rightarrow> frame \<Rightarrow> bool" where
  "uses_lock s (sem_P s') = (s' \<noteq> s)"
| "uses_lock s (sem_V s') = (s' \<noteq> s)"
| "uses_lock s (P_loop s' old) = False"
| "uses_lock s (set_lockHolder l') = False"
| "uses_lock s (delete_Semaphore s') = False"
| "uses_lock s (Fork a body) = (\<forall>f \<in> set body. uses_lock s f)"
| "uses_lock s (Client op) = (case op of delete_SynchList sl \<Rightarrow> False | _ \<Rightarrow> True)"
| "uses_lock s f = True"

lemma uses_lock_frame: "uses_lock s f \<Longrightarrow> token (lock_account l s) f = 0 \<and> frame_ok (lock_account l s) f"
proof (induction s f rule: uses_lock.induct)
  case (6 s a body)
  then have "\<forall>f \<in> set body. token (lock_account l s) f = 0 \<and> frame_ok (lock_account l s) f" by simp
  then have "tokens (lock_account l s) body = 0 \<and> stack_ok (lock_account l s) body" by (induction body) auto
  then show ?case by simp
qed (auto split: client.splits)

lemma uses_lock_stack:
  assumes "\<forall>f \<in> set fs. uses_lock s f"
  shows "tokens (lock_account l s) fs = 0 \<and> stack_ok (lock_account l s) fs"
  using assms
proof (induction fs)
  case (Cons f fs)
  then show ?case using uses_lock_frame [of s f l] by auto
qed simp

text \<open>The objects of the program when it starts: no other lock and no device has the semaphore, and no condition variable knows it.\<close>

definition lock_private :: "kernel \<Rightarrow> addr \<Rightarrow> addr \<Rightarrow> bool" where
  "lock_private r l s \<longleftrightarrow> (\<forall>l' x. k_locks r l' = Some x \<longrightarrow> l' \<noteq> l \<longrightarrow> l_semaphore x \<noteq> s) \<and> s < k_freshSem r
     \<and> (\<forall>cv y. k_conds r cv = Some y \<longrightarrow> s \<notin> set (c_waitQueue y)) \<and> s \<notin> device_sems (k_data r)"

lemma Lock_fields [simp]:
  "k_threads (Lock r l s) = k_threads r" "k_typeno (Lock r l s) = k_typeno r" "k_conds (Lock r l s) = k_conds r" "k_freshSem (Lock r l s) = k_freshSem r"
  "k_sems (Lock r l s) = (k_sems r)(s \<mapsto> Semaphore 1)" "k_locks (Lock r l s) = (k_locks r)(l \<mapsto> \<lparr>l_semaphore = s, l_lockHolder = None\<rparr>)"
  "k_data (Lock r l s) = k_data r"
  by (simp_all add: Lock_def put_lock_def put_sem_def)

lemma raw_Lock: "raw_kernel r \<Longrightarrow> raw_kernel (Lock r l s)"
  by (simp add: raw_kernel_def Semaphore_def)

lemma start_lock_inv:
  assumes "Kernel_Initialize c (Lock r l s) rs dbg a prio remain junk tlb0 pt0 ptsize exe hdr devs body = Inr k0"
    "raw_kernel r" "lock_private r l s" "\<forall>f \<in> set body. uses_lock s f"
  shows "acc_inv (lock_account l s) 1 k0"
proof (rule start_acc_inv [OF assms(1)])
  have u: "tokens (lock_account l s) body = 0" "stack_ok (lock_account l s) body" using uses_lock_stack [OF assms(4)] by simp_all
  show "k_threads (Lock r l s) = Map.empty" using assms(2) by (simp add: raw_kernel_def)
  show "stack_ok (lock_account l s) body" by (rule u(2))
  show "objects_ok (lock_account l s) (Lock r l s)" using assms(3) by (auto simp: objects_ok_def lock_private_def split: if_splits)
  have "v_val (kview (Lock r l s)) s = 1" by (simp add: kview_def Semaphore_def)
  then show "1 = sem_value (lock_account l s) (v_val (kview (Lock r l s))) + holding (Lock r l s) (ac_lock (lock_account l s))
      + counter (lock_account l s) (Lock r l s) + tokens (lock_account l s) body"
    using u(1) by (simp add: holding_def)
qed

text \<open>
  C3: mutual exclusion. A program creates a lock and uses its semaphore only through the lock, whatever else its threads do. In
  every state that the system reaches, the value of the semaphore is 0 or 1, and 0 while the lock has a holder. A thread that
  has returned from \<^verbatim>\<open>P\<close> in \<^verbatim>\<open>Acquire\<close> and is about to become the holder, or that has ceased to be the holder and is
  about to call \<^verbatim>\<open>V\<close> in \<^verbatim>\<open>Release\<close>, is the only such thread, and meanwhile the lock has no holder and its semaphore is 0. So
  \<^verbatim>\<open>Acquire\<close> never takes the lock away from another thread.
\<close>

theorem lock_mutual_exclusion:
  assumes "raw_kernel r" "lock_private r l s" "calls_only body" "\<forall>f \<in> set body. uses_lock s f" "\<forall>n. W n \<noteq> Some s"
    "Kernel_Initialize c (Lock r l s) rs dbg main prio remain junk tlb0 pt0 ptsize exe hdr devs body = Inr k0"
    "reaches (kernel_devices W) c k0 k"
  shows "\<exists>x. k_locks k l = Some x
    \<and> (\<forall>y. k_sems k s = Some y \<longrightarrow> s_value y \<in> {0, 1} \<and> (l_lockHolder x \<noteq> None \<longrightarrow> s_value y = 0))
    \<and> (\<forall>a t. k_threads k a = Some t \<longrightarrow> 0 < tokens (lock_account l s) (t_frames t) \<longrightarrow>
         l_lockHolder x = None \<and> (\<forall>y. k_sems k s = Some y \<longrightarrow> s_value y = 0)
         \<and> (\<forall>b t'. k_threads k b = Some t' \<longrightarrow> 0 < tokens (lock_account l s) (t_frames t') \<longrightarrow> b = a))
    \<and> (\<forall>a t fs. k_threads k a = Some t \<longrightarrow> t_frames t = set_lockHolder l # fs \<longrightarrow> 0 < tokens (lock_account l s) (t_frames t))"
proof -
  let ?A = "lock_account l s"
  have i0: "k_inv k0" by (rule Kernel_Initialize_inv [OF raw_Lock [OF assms(1)] assms(3,6)])
  have li: "acc_inv ?A 1 k" by (rule reaches_acc [OF assms(7) i0 start_lock_inv [OF assms(6,1,2,4)]]) (use assms(5) in auto)
  have v0: "0 \<le> v_val (kview k) s" using sched_invD(7) [OF signals.reaches_sched [OF assms(7) i0]] by (simp add: wake_ok_def)
  obtain x where x: "k_locks k l = Some x" using li by (auto simp: acc_inv_def objects_ok_def)
  have h: "holding k (Some l) = (if l_lockHolder x = None then 0 else 1)" using x by (simp add: holding_def)
  note parts = tally_parts [OF li, simplified]
  have so: "stack_ok ?A (v_fr (kview k) a)" for a using li by (simp add: acc_inv_def stacks_ok_def)
  have th: "a \<in> live k" "v_fr (kview k) a = t_frames t" "stack_ok ?A (t_frames t)" if "k_threads k a = Some t" for a t
    using that v_fr_thread [OF that] so [of a] by (auto simp: live_def kview_def [of k])
  have one: "l_lockHolder x = None \<and> v_val (kview k) s = 0 \<and> b = a"
    if a: "k_threads k a = Some t" "0 < tokens ?A (t_frames t)" and b: "k_threads k b = Some t'" "0 < tokens ?A (t_frames t')" for a t b t'
    using parts(2) [OF th(1) [OF a(1)]] parts(3) [OF th(1) [OF a(1)] th(1) [OF b(1)]] th(2) [OF a(1)] th(2) [OF b(1)] a(2) b(2) v0 h
    by (cases "a = b") (auto split: if_splits)
  have val: "s_value y = v_val (kview k) s" if "k_sems k s = Some y" for y using v_val_sem [OF that] by simp
  have top: "0 < tokens ?A (t_frames t)" if "k_threads k a = Some t" "t_frames t = set_lockHolder l # fs" for a t fs
    using th(3) [OF that(1)] that(2) tokens_nonneg [of ?A fs] by simp
  show ?thesis
  proof (intro exI [of _ x] conjI allI impI)
    fix y assume y: "k_sems k s = Some y"
    have "s_value y = 0 \<or> s_value y = 1" using parts(1) v0 holding_range [of k "Some l"] val [OF y] by linarith
    then show "s_value y \<in> {0, 1}" by simp
    show "s_value y = 0" if "l_lockHolder x \<noteq> None"
    proof -
      have "holding k (Some l) = 1" using h that by simp
      then show ?thesis using parts(1) v0 val [OF y] by linarith
    qed
  next
    show "s_value y = 0" if "k_threads k a = Some t" "0 < tokens (lock_account l s) (t_frames t)" "k_sems k s = Some y" for a t y
      using one [OF that(1,2) that(1,2)] val [OF that(3)] by simp
  qed (use x in simp, use one in blast, use one in blast, use top in blast)
qed

text \<open>The main thread acquires the lock 3, whose semaphore is 4.\<close>

definition lock_body :: "frame list" where
  "lock_body = [Acquire 3, Release 3]"

lemma lock_demo:
  obtains k0 k x where
    "Kernel_Initialize demo_config (Lock (demo_raw 0) 3 4) False False 0 0 0 0 [] [] 0 None zero_header [] lock_body = Inr k0"
    "reaches (kernel_devices [0 \<mapsto> 7]) demo_config k0 k" "k_locks k 3 = Some x" "l_lockHolder x = Some 0"
proof -
  obtain b where b: "Bitmap NumPhysPages = Inr b" using Bitmap_ok [of NumPhysPages] by (auto simp: NumPhysPages_def)
  have l: "add_thread_loop (replicate 128 None) 0 0 = Inr (0, Some 0 # replicate 127 None)"
    by (subst add_thread_loop.simps) (simp add: MaxThreadNum_def aread_def awrite_def numeral_eq_Suc)
  note init = Kernel_Initialize_def Thread_new_def addAThread_def demo_raw_def MaxThreadNum_def l upd_thread_def get_thread_def
      Alarm_def Timer_def Timer_SetInterrupt_def Scheduler_def Interrupt_def Schedule_def Let_def set_stats_def setStatus_def k_stats_def
      getStatus_def Machine_def b push_def follow_current_def TimerTicks_def insert_before_def QueueNum_def timeSlice_def Statistics_def
      Lock_def put_lock_def put_sem_def lock_body_def
  obtain k0 where k0: "Kernel_Initialize demo_config (Lock (demo_raw 0) 3 4) False False 0 0 0 0 [] [] 0 None zero_header [] lock_body = Inr k0"
    and r: "\<exists>k. checked_run 6 (kernel_devices [0 \<mapsto> 7]) demo_config k0 = Some k \<and> k_locks k 3 = Some \<lparr>l_semaphore = 4, l_lockHolder = Some 0\<rparr>"
    by (simp add: init checked_run_numeral exec_defs exec_Acquire_def get_lock_def exec_set_lockHolder_def)
  then show thesis using that k0 checked_run_reaches by fastforce
qed

theorem lock_mutual_exclusion_witness:
  "\<exists>k0 k x. Kernel_Initialize demo_config (Lock (demo_raw 0) 3 4) False False 0 0 0 0 [] [] 0 None zero_header [] lock_body = Inr k0
     \<and> reaches (kernel_devices [0 \<mapsto> 7]) demo_config k0 k \<and> k_locks k 3 = Some x \<and> l_lockHolder x = Some 0
     \<and> (\<forall>y. k_sems k 4 = Some y \<longrightarrow> s_value y = 0)"
proof -
  obtain k0 k x where d: "Kernel_Initialize demo_config (Lock (demo_raw 0) 3 4) False False 0 0 0 0 [] [] 0 None zero_header [] lock_body = Inr k0"
    "reaches (kernel_devices [0 \<mapsto> 7]) demo_config k0 k" "k_locks k 3 = Some x" "l_lockHolder x = Some 0"
    by (rule lock_demo)
  have "raw_kernel (demo_raw 0)" "lock_private (demo_raw 0) 3 4"
    by (simp_all add: raw_kernel_def lock_private_def demo_raw_def demo_data_def device_sems_def Semaphore_def)
  moreover have "calls_only lock_body" "\<forall>f \<in> set lock_body. uses_lock 4 f"
    by (simp_all add: calls_only_def lock_body_def no_sleep_def no_loop_def)
  moreover have "\<forall>n. [0 \<mapsto> 7] n \<noteq> Some (4 :: addr)" by simp
  ultimately have "\<exists>x. k_locks k 3 = Some x \<and> (\<forall>y. k_sems k 4 = Some y \<longrightarrow> s_value y \<in> {0, 1} \<and> (l_lockHolder x \<noteq> None \<longrightarrow> s_value y = 0))"
    using lock_mutual_exclusion [OF _ _ _ _ _ d(1,2)] by blast
  then show ?thesis using d by auto
qed

end
