(* ===== verification/User_Laws.thy ===== *)
theory User_Laws
  imports User_Prog Mips_Laws
begin

text \<open>
  What \<^verbatim>\<open>ExceptionHandler\<close> of \<^verbatim>\<open>userprog/exception.cc\<close> does for user programs. \<open>table_view\<close> is the mapping of a page table,
  for the inverted table and for the table of an address space; \<open>owns\<close> says that the frames of a thread are allocated and not shared, and
  \<open>paged\<close> that this holds for the current thread of a well-formed machine. A page fault loads the page of the executable into a free frame
  and changes nothing else; a read that faults succeeds when it is retried, with and without a TLB; \<^verbatim>\<open>Exit\<close> gives back the frames of the
  thread and no others; \<^verbatim>\<open>Add\<close> adds. When memory is full the handler breaks the invariant, which is shown too.
\<close>

section \<open>The mapping of a page table\<close>

definition table_view :: "config \<Rightarrow> tentry list \<Rightarrow> int \<Rightarrow> int \<Rightarrow> (int \<times> bool) option" where
  "table_view c t tid v =
     (if USE_RPT c
      then map_option (\<lambda>j. (int j, te_readOnly (t ! j))) (List.find (\<lambda>j. te_vpn (t ! j) = v \<and> te_tID (t ! j) = tid) [0..<length t])
      else if 0 \<le> v \<and> v < int (length t) \<and> te_valid (t ! nat v)
      then Some (te_ppn (t ! nat v), te_readOnly (t ! nat v)) else None)"

lemma view_table: "tlb m = None \<Longrightarrow> pt m = Some t \<Longrightarrow> view c m v = table_view c t (m_tID m) v"
  by (simp add: view_def table_view_def)

text \<open>The entry of page \<open>v\<close> in frame \<open>f\<close>.\<close>

definition page_slot :: "config \<Rightarrow> int \<Rightarrow> int \<Rightarrow> nat" where
  "page_slot c v f = nat (if USE_RPT c then f else v)"

definition loaded_entry :: "config \<Rightarrow> int \<Rightarrow> int \<Rightarrow> int \<Rightarrow> tentry \<Rightarrow> tentry" where
  "loaded_entry c tid v f e =
     (if USE_RPT c then e\<lparr>te_tID := tid, te_vpn := v, te_valid := True, te_ppn := f\<rparr>
      else e\<lparr>te_vpn := v, te_ppn := f, te_valid := True\<rparr>)"

text \<open>
  The frames that belong to the pages of a thread: they are allocated, no two pages share one, and nothing
  has marked an entry as dirty.
\<close>

definition owns :: "config \<Rightarrow> bitmap \<Rightarrow> tentry list \<Rightarrow> int \<Rightarrow> bool" where
  "owns c b t tid \<longleftrightarrow>
     (if USE_RPT c then \<forall>j < length t. te_tID (t ! j) = tid \<longrightarrow> te_valid (t ! j) \<and> te_ppn (t ! j) = int j \<and> int j \<in> bm_set b
      else (\<forall>j < length t. \<not> te_dirty (t ! j) \<and> (te_valid (t ! j) \<longrightarrow> te_vpn (t ! j) = int j \<and> te_ppn (t ! j) \<in> bm_set b))
        \<and> (\<forall>i < length t. \<forall>j < length t. te_valid (t ! i) \<and> te_valid (t ! j) \<and> te_ppn (t ! i) = te_ppn (t ! j) \<longrightarrow> i = j))"

lemma owns_frames: "owns c b t tid \<Longrightarrow> table_view c t tid v = Some (f, r) \<Longrightarrow> f \<in> bm_set b"
  by (auto simp: owns_def table_view_def find_Some_iff split: if_splits)

lemma owns_clean: "owns c b t tid \<Longrightarrow> \<not> USE_RPT c \<Longrightarrow> 0 \<le> v \<Longrightarrow> v < int (length t) \<Longrightarrow> \<not> te_dirty (t ! nat v)"
  by (auto simp: owns_def)

lemma owns_inj:
  assumes "owns c b t tid" "table_view c t tid p = Some (f, r)" "table_view c t tid q = Some (f, r')"
  shows "p = q"
proof (cases "USE_RPT c")
  case True
  then show ?thesis using assms by (auto simp: table_view_def find_Some_iff)
next
  case False
  then have "0 \<le> p" "0 \<le> q" "nat p < length t" "nat q < length t" "te_valid (t ! nat p)" "te_valid (t ! nat q)" "te_ppn (t ! nat p) = te_ppn (t ! nat q)"
    using assms(2,3) by (auto simp: table_view_def split: if_splits)
  moreover from this have "nat p = nat q" using assms(1) False unfolding owns_def by simp
  ultimately show ?thesis by simp
qed

lemma find_upt_None: "List.find P [0..<n] = None \<longleftrightarrow> (\<forall>j < n. \<not> P j)"
  by (auto simp: find_None_iff)

text \<open>Loading page \<open>v\<close> into a free frame maps it there and leaves every other page.\<close>

lemma load_table:
  assumes o: "owns c b t tid" and f: "f \<notin> bm_set b" "0 \<le> f" "USE_RPT c \<longrightarrow> f < int (length t)"
    and v: "table_view c t tid v = None" "\<not> USE_RPT c \<longrightarrow> 0 \<le> v \<and> v < int (length t)"
    and t': "t' = t[page_slot c v f := (loaded_entry c tid v f (t ! page_slot c v f))\<lparr>te_FIFOFlag := z\<rparr>]"
    and b': "bm_set b' = insert f (bm_set b)"
  shows "table_view c t' tid v = Some (f, te_readOnly (t ! page_slot c v f))"
    and "\<And>q. q \<noteq> v \<Longrightarrow> table_view c t' tid q = table_view c t tid q"
    and "owns c b' t' tid"
proof -
  have goals: "table_view c t' tid v = Some (f, te_readOnly (t ! page_slot c v f)) \<and> (\<forall>q. q \<noteq> v \<longrightarrow> table_view c t' tid q = table_view c t tid q)
    \<and> owns c b' t' tid"
  proof (cases "USE_RPT c")
    case True
    obtain k where k: "f = int k" "k < length t" using f True by (metis nonneg_int_cases of_nat_less_iff)
    let ?e = "(t ! k)\<lparr>te_tID := tid, te_vpn := v, te_valid := True, te_ppn := f, te_FIFOFlag := z\<rparr>"
    have t'e: "t' = t[k := ?e]" using t' k True by (simp add: page_slot_def loaded_entry_def)
    have free: "te_tID (t ! k) \<noteq> tid" using o f k True by (auto simp: owns_def)
    have no: "\<not> (te_vpn (t ! j) = v \<and> te_tID (t ! j) = tid)" if "j < length t" for j
      using v(1) True that by (auto simp: table_view_def find_upt_None)
    have "List.find (\<lambda>j. te_vpn (t' ! j) = v \<and> te_tID (t' ! j) = tid) [0..<length t'] = Some k"
      unfolding find_Some_iff t'e using k no by (intro exI [of _ k]) (auto simp: nth_list_update)
    then have 1: "table_view c t' tid v = Some (f, te_readOnly (t ! page_slot c v f))"
      using True k by (simp add: table_view_def t'e page_slot_def)
    have 2: "table_view c t' tid q = table_view c t tid q" if "q \<noteq> v" for q
    proof -
      have "map_option (\<lambda>j. (int j, te_readOnly (t' ! j))) (List.find (\<lambda>j. te_vpn (t' ! j) = q \<and> te_tID (t' ! j) = tid) [0..<length t'])
        = map_option (\<lambda>j. (int j, te_readOnly (t ! j))) (List.find (\<lambda>j. te_vpn (t ! j) = q \<and> te_tID (t ! j) = tid) [0..<length t])"
        by (rule map_option_find_cong) (use that free k in \<open>auto simp: t'e nth_list_update\<close>)
      then show ?thesis using True by (simp add: table_view_def)
    qed
    have "owns c b' t' tid" using o b' k True by (auto simp: owns_def t'e nth_list_update)
    with 1 2 show ?thesis by blast
  next
    case False
    obtain k where k: "v = int k" "k < length t" using v(2) False by (metis nonneg_int_cases of_nat_less_iff)
    let ?e = "(t ! k)\<lparr>te_vpn := v, te_ppn := f, te_valid := True, te_FIFOFlag := z\<rparr>"
    have t'e: "t' = t[k := ?e]" using t' k False by (simp add: page_slot_def loaded_entry_def)
    have 1: "table_view c t' tid v = Some (f, te_readOnly (t ! page_slot c v f))"
      using False k by (simp add: table_view_def t'e page_slot_def)
    have 2: "table_view c t' tid q = table_view c t tid q" if "q \<noteq> v" for q
      using False that k by (auto simp: table_view_def t'e nth_list_update nat_eq_iff)
    have "te_ppn (t ! j) \<noteq> f" if "j < length t" "te_valid (t ! j)" for j using o f that False by (auto simp: owns_def)
    then have "owns c b' t' tid" using o b' k False by (auto simp: owns_def t'e nth_list_update)
    with 1 2 show ?thesis by blast
  qed
  show "table_view c t' tid v = Some (f, te_readOnly (t ! page_slot c v f))"
    and "\<And>q. q \<noteq> v \<Longrightarrow> table_view c t' tid q = table_view c t tid q" and "owns c b' t' tid" using goals by blast+
qed

text \<open>The other threads of the inverted table keep their pages.\<close>

lemma load_table_other:
  assumes "USE_RPT c" "owns c b t tid'" "f \<notin> bm_set b" "0 \<le> f" "f < int (length t)" "tid' \<noteq> tid"
    and t': "t' = t[page_slot c v f := (loaded_entry c tid v f (t ! page_slot c v f))\<lparr>te_FIFOFlag := z\<rparr>]"
  shows "table_view c t' tid' q = table_view c t tid' q"
proof -
  obtain k where k: "f = int k" "k < length t" using assms by (metis nonneg_int_cases of_nat_less_iff)
  then have "te_tID (t ! k) \<noteq> tid'" using assms by (auto simp: owns_def)
  then have "map_option (\<lambda>j. (int j, te_readOnly (t' ! j))) (List.find (\<lambda>j. te_vpn (t' ! j) = q \<and> te_tID (t' ! j) = tid') [0..<length t'])
        = map_option (\<lambda>j. (int j, te_readOnly (t ! j))) (List.find (\<lambda>j. te_vpn (t ! j) = q \<and> te_tID (t ! j) = tid') [0..<length t])"
    by (intro map_option_find_cong) (use assms k in \<open>auto simp: t' nth_list_update page_slot_def loaded_entry_def\<close>)
  then show ?thesis using assms(1) by (simp add: table_view_def)
qed

section \<open>Loading a page\<close>

text \<open>The frame after the load: the bytes of the file as far as it reaches, and then what the frame held.\<close>

definition filled :: "byte list \<Rightarrow> nat \<Rightarrow> byte list \<Rightarrow> byte list" where
  "filled exe p old = (let bs = take 128 (drop p exe) in bs @ drop (length bs) old)"

lemma loadPageFrame_ok:
  assumes len: "length (mainMemory m) = nat MemorySize"
    "USE_RPT c \<Longrightarrow> int (length t) = NumPhysPages" "\<not> USE_RPT c \<Longrightarrow> FIFO_REPLACE c \<Longrightarrow> int (length t) = pageTableSize m"
    and f: "0 \<le> f" "f < NumPhysPages" and v: "\<not> USE_RPT c \<Longrightarrow> 0 \<le> v \<and> v < int (length t) \<and> \<not> te_dirty (t ! nat v)" and p: "0 \<le> p"
  shows "\<exists>z. loadPageFrame c m tid t v f p exe = Inr (t[page_slot c v f := (loaded_entry c tid v f (t ! page_slot c v f))\<lparr>te_FIFOFlag := z\<rparr>],
      m\<lparr>mainMemory := overlay (mainMemory m) (nat (f * PageSize)) (take 128 (drop (nat p) exe))\<rparr>)"
proof -
  let ?n = "page_slot c v f"
  let ?e = "loaded_entry c tid v f (t ! ?n)"
  have n: "?n < length t" "int ?n = (if USE_RPT c then f else v)" using f v len by (auto simp: page_slot_def)
  have copy: "stub_ReadAt exe (nat PageSize) p = Inr (take 128 (drop (nat p) exe))"
    using p by (simp add: stub_ReadAt_def uf_Lseek_def PageSize_def)
  have room: "bcopy_to (mainMemory m) (f * PageSize) bs = Inr (overlay (mainMemory m) (nat (f * PageSize)) bs)" if "length bs \<le> 128" for bs
    using that f len(1) by (auto simp: bcopy_to_def machine_consts)
  obtain z where z: "(if FIFO_REPLACE c then updateFIFOFlag (t[?n := ?e]) (int ?n) (int (length t)) else Inr (t[?n := ?e]))
      = Inr (t[?n := ?e\<lparr>te_FIFOFlag := z\<rparr>])"
  proof (cases "FIFO_REPLACE c")
    case True
    then show thesis using that updateFIFOFlag_ok [of ?n "t[?n := ?e]"] n(1) by auto
  next
    case False
    then show thesis using that [of "te_FIFOFlag ?e"] by simp
  qed
  have "loadPageFrame c m tid t v f p exe = Inr (t[?n := ?e\<lparr>te_FIFOFlag := z\<rparr>],
      m\<lparr>mainMemory := overlay (mainMemory m) (nat (f * PageSize)) (take 128 (drop (nat p) exe))\<rparr>)"
  proof (cases "USE_RPT c")
    case True
    then show ?thesis
      unfolding loadPageFrame_def using z n len(2,3) f by (simp add: copy room aread_ok awrite_ok loaded_entry_def page_slot_def cong: if_cong)
  next
    case False
    have d: "\<not> te_dirty (t ! ?n)" using v False by (simp add: page_slot_def)
    show ?thesis
      unfolding loadPageFrame_def using z n len(2,3) v False d by (simp add: copy room aread_ok awrite_ok loaded_entry_def page_slot_def cong: if_cong)
  qed
  then show ?thesis by blast
qed


section \<open>Page faults\<close>

text \<open>The machine of a thread whose pages own their frames.\<close>

definition paged :: "config \<Rightarrow> machine \<Rightarrow> bool" where
  "paged c m \<longleftrightarrow> machine_wf c m \<and> bm_wf (mmBitmap m) \<and> numBits (mmBitmap m) = NumPhysPages
     \<and> owns c (mmBitmap m) (the (pt m)) (m_tID m)"

definition page_of :: "u32 \<Rightarrow> int" where
  "page_of a = cdiv (sint a) PageSize"

text \<open>The page table has no frame for the page: the exception of a translation is a page fault.\<close>

definition unmapped :: "config \<Rightarrow> machine \<Rightarrow> int \<Rightarrow> bool" where
  "unmapped c m v \<longleftrightarrow> table_view c (the (pt m)) (m_tID m) v = None \<and> 0 \<le> v
     \<and> (\<not> USE_RPT c \<longrightarrow> v < pageTableSize m \<and> te_ppn (the (pt m) ! nat v) = - 1)"

lemma ReadRegister_ok: "length (registers m) = NumTotalRegs \<Longrightarrow> i < NumTotalRegs \<Longrightarrow> ReadRegister m (int i) = Inr (registers m ! i)"
  by (simp add: ReadRegister_def)

text \<open>The machine after the page fault handler.\<close>

definition page_loaded :: "config \<Rightarrow> machine \<Rightarrow> int \<Rightarrow> int \<Rightarrow> nat \<Rightarrow> byte list \<Rightarrow> machine \<Rightarrow> bool" where
  "page_loaded c m v f p exe m' \<longleftrightarrow>
     (\<exists>z b. bm_wf b \<and> numBits b = numBits (mmBitmap m) \<and> bm_set b = insert f (bm_set (mmBitmap m))
      \<and> m' = m\<lparr>m_stats := (m_stats m)\<lparr>numPageFaults := numPageFaults (m_stats m) + 1\<rparr>, mmBitmap := b,
          mainMemory := overlay (mainMemory m) (nat (f * PageSize)) (take 128 (drop p exe)),
          pt := Some ((the (pt m))[page_slot c v f := (loaded_entry c (m_tID m) v f (the (pt m) ! page_slot c v f))\<lparr>te_FIFOFlag := z\<rparr>])\<rparr>)"

lemma handle_page_fault_ok:
  assumes pg: "paged c m" and u: "unmapped c m v" and bad: "page_of (registers m ! BadVAddrReg) = v"
    and free: "bm_set (mmBitmap m) \<noteq> {0..<NumPhysPages}" and exe: "currentOpenedFile m = Some exe"
    and pos: "0 \<le> inFileAddr (seg_code (currentNoffHeader m))"
  shows "\<exists>f m'. handle_page_fault c m = Inr (Resumed m') \<and> f \<notin> bm_set (mmBitmap m) \<and> 0 \<le> f \<and> f < NumPhysPages
    \<and> page_loaded c m v f (nat (inFileAddr (seg_code (currentNoffHeader m)) + v * PageSize)) exe m'"
proof -
  define p where "p = inFileAddr (seg_code (currentNoffHeader m)) + v * PageSize"
  obtain t where t: "pt m = Some t" "int (length t) = (if USE_RPT c then NumPhysPages else pageTableSize m)"
    and len: "length (mainMemory m) = nat MemorySize" "length (registers m) = NumTotalRegs" using pg by (auto simp: paged_def machine_wf_def)
  have o: "owns c (mmBitmap m) t (m_tID m)" and b: "bm_wf (mmBitmap m)" "numBits (mmBitmap m) = NumPhysPages"
    using pg t by (auto simp: paged_def)
  obtain f b' where f: "bm_FindAndSet (mmBitmap m) = Inr (f, b')" "bm_wf b'" "numBits b' = numBits (mmBitmap m)" "0 \<le> f" "f < NumPhysPages"
    "f \<notin> bm_set (mmBitmap m)" "bm_set b' = insert f (bm_set (mmBitmap m))"
    using bm.find_free [OF b(1)] free b(2) by auto
  have v: "\<not> USE_RPT c \<Longrightarrow> 0 \<le> v \<and> v < int (length t)" and p: "0 \<le> p"
    using u t(2) pos by (auto simp: unmapped_def p_def PageSize_def)
  define m1 where "m1 = m\<lparr>m_stats := (m_stats m)\<lparr>numPageFaults := numPageFaults (m_stats m) + 1\<rparr>, mmBitmap := b'\<rparr>"
  have o': "owns c (mmBitmap m1) t (m_tID m)" using o f(7) by (auto simp: owns_def m1_def)
  have l1: "length (mainMemory m1) = nat MemorySize" "int (length t) = (if USE_RPT c then NumPhysPages else pageTableSize m1)"
    using len t by (simp_all add: m1_def)
  obtain z where z: "loadPageFrame c m1 (m_tID m) t v f p exe =
      Inr (t[page_slot c v f := (loaded_entry c (m_tID m) v f (t ! page_slot c v f))\<lparr>te_FIFOFlag := z\<rparr>],
      m1\<lparr>mainMemory := overlay (mainMemory m1) (nat (f * PageSize)) (take 128 (drop (nat p) exe))\<rparr>)"
    using loadPageFrame_ok [of m1 c t f v p "m_tID m" exe] owns_clean [OF o'] l1 f(4,5) v p by auto
  have r: "ReadRegister (m\<lparr>m_stats := s\<rparr>) (int BadVAddrReg) = Inr (registers m ! BadVAddrReg)" for s
    using len(2) by (subst ReadRegister_ok) (simp_all add: reg_consts)
  have "handle_page_fault c m = Inr (Resumed (m1\<lparr>mainMemory := overlay (mainMemory m1) (nat (f * PageSize)) (take 128 (drop (nat p) exe)),
      pt := Some (t[page_slot c v f := (loaded_entry c (m_tID m) v f (t ! page_slot c v f))\<lparr>te_FIFOFlag := z\<rparr>])\<rparr>))"
    unfolding handle_page_fault_def using f(1,4) z bad [unfolded page_of_def] t(1) exe
    by (simp add: r findAvailablePageFrame_def m1_def [symmetric] p_def Let_def) (simp add: m1_def)
  then show ?thesis using f t(1) unfolding page_loaded_def p_def m1_def by auto
qed


text \<open>What the loaded machine has: the page in its frame, every other page and every other frame as before.\<close>

definition table_byte :: "config \<Rightarrow> machine \<Rightarrow> int \<Rightarrow> byte option" where
  "table_byte c m a = vbyte c (m\<lparr>tlb := None\<rparr>) a"

lemma table_byte_eq:
  "pt m = Some t \<Longrightarrow> table_byte c m a = (if a < 0 then None else case table_view c t (m_tID m) (a div PageSize) of None \<Rightarrow> None
     | Some (f, ro) \<Rightarrow> if 0 \<le> f \<and> f < NumPhysPages then Some (frame_bytes (mainMemory m) f ! nat (a mod PageSize)) else None)"
  if "length (mainMemory m) = nat MemorySize"
proof -
  assume "pt m = Some t"
  moreover have "mainMemory m ! nat (f * PageSize + a mod PageSize) = frame_bytes (mainMemory m) f ! nat (a mod PageSize)"
    if "0 \<le> f" "f < NumPhysPages" for f
    using that \<open>length (mainMemory m) = nat MemorySize\<close> by (simp add: frame_bytes_def machine_consts nat_add_distrib nat_mult_distrib nat_less_iff)
  ultimately show ?thesis by (auto simp: table_byte_def vbyte_def view_table split: option.split)
qed

lemma length_filled: "length old = 128 \<Longrightarrow> length (filled exe p old) = 128"
  by (simp add: filled_def Let_def)

lemma overlay_frames:
  fixes p :: nat and exe :: "byte list"
  assumes "length memory = nat MemorySize" "0 \<le> f" "f < NumPhysPages"
  defines "memory' \<equiv> overlay memory (nat (f * PageSize)) (take 128 (drop p exe))"
  shows "frame_bytes memory' f = filled exe p (frame_bytes memory f)" "length memory' = length memory"
    "0 \<le> g \<Longrightarrow> g < NumPhysPages \<Longrightarrow> g \<noteq> f \<Longrightarrow> frame_bytes memory' g = frame_bytes memory g"
proof -
  obtain n where n: "f = int n" "n < 128" using assms(2,3) by (auto simp: machine_consts elim: nonneg_int_cases)
  have len: "length memory = 16384" using assms(1) by (simp add: machine_consts)
  have fb: "length (frame_bytes memory f) = 128" using n len by (simp add: frame_bytes_def machine_consts)
  have split: "drop k (take l memory) @ drop l memory = drop k memory" if "k \<le> l" "l \<le> length memory" for k l
    using that drop_append [of k "take l memory" "drop l memory"] by simp
  have "memory' = overlay memory (nat (f * PageSize)) (filled exe p (frame_bytes memory f))"
    unfolding memory'_def filled_def overlay_def frame_bytes_def using n len
    by (simp add: PageSize_def nat_mult_distrib Let_def drop_take) (simp add: take_drop split ac_simps)
  then show "frame_bytes memory' f = filled exe p (frame_bytes memory f)" "length memory' = length memory"
    "0 \<le> g \<Longrightarrow> g < NumPhysPages \<Longrightarrow> g \<noteq> f \<Longrightarrow> frame_bytes memory' g = frame_bytes memory g"
    using frame_load [OF assms(1) length_filled [OF fb] assms(2,3)] by auto
qed


lemma page_loaded_ok:
  assumes pg: "paged c m" and u: "unmapped c m v" and f: "f \<notin> bm_set (mmBitmap m)" "0 \<le> f" "f < NumPhysPages"
    and ld: "page_loaded c m v f p exe m'"
  shows "paged c m'" and "table_view c (the (pt m')) (m_tID m') v = Some (f, te_readOnly (the (pt m) ! page_slot c v f))"
    and "registers m' = registers m" "tlb m' = tlb m"
    and "bm_set (mmBitmap m') = insert f (bm_set (mmBitmap m))"
    and "\<And>g. g \<in> bm_set (mmBitmap m) \<Longrightarrow> frame_bytes (mainMemory m') g = frame_bytes (mainMemory m) g"
    and "\<And>i. 0 \<le> i \<Longrightarrow> i < PageSize \<Longrightarrow> table_byte c m' (v * PageSize + i) = Some (filled exe p (frame_bytes (mainMemory m) f) ! nat i)"
    and "\<And>a. a div PageSize \<noteq> v \<Longrightarrow> table_byte c m' a = table_byte c m a"
proof -
  obtain t where t: "pt m = Some t" "int (length t) = (if USE_RPT c then NumPhysPages else pageTableSize m)"
    and len: "length (mainMemory m) = nat MemorySize" using pg by (auto simp: paged_def machine_wf_def)
  have o: "owns c (mmBitmap m) t (m_tID m)" and b: "bm_wf (mmBitmap m)" "numBits (mmBitmap m) = NumPhysPages"
    using pg t by (auto simp: paged_def)
  obtain z b' where b': "bm_wf b'" "numBits b' = numBits (mmBitmap m)" "bm_set b' = insert f (bm_set (mmBitmap m))"
    and m': "m' = m\<lparr>m_stats := (m_stats m)\<lparr>numPageFaults := numPageFaults (m_stats m) + 1\<rparr>, mmBitmap := b',
          mainMemory := overlay (mainMemory m) (nat (f * PageSize)) (take 128 (drop p exe)),
          pt := Some (t[page_slot c v f := (loaded_entry c (m_tID m) v f (t ! page_slot c v f))\<lparr>te_FIFOFlag := z\<rparr>])\<rparr>"
    using ld t(1) unfolding page_loaded_def by auto
  define t' where "t' = t[page_slot c v f := (loaded_entry c (m_tID m) v f (t ! page_slot c v f))\<lparr>te_FIFOFlag := z\<rparr>]"
  have "\<not> USE_RPT c \<longrightarrow> 0 \<le> v \<and> v < int (length t)" "USE_RPT c \<longrightarrow> f < int (length t)" "table_view c t (m_tID m) v = None"
    using u t f by (auto simp: unmapped_def)
  note lt = load_table [OF o f(1,2) this(2) this(3) this(1) t'_def b'(3)]
  note fr = overlay_frames [OF len f(2,3), where p = p and exe = exe]
  have pt': "pt m' = Some t'" "m_tID m' = m_tID m" "length t' = length t" by (simp_all add: m' t'_def)
  have len': "length (mainMemory m') = nat MemorySize" using fr(2) len by (simp add: m')
  have bnd: "0 \<le> g \<and> g < NumPhysPages \<and> g \<noteq> f" if "g \<in> bm_set (mmBitmap m)" for g
    using bm.used_bounds [OF b(1)] b(2) f(1) that by auto
  show "paged c m'" using pg b' lt(3) len' t pt' unfolding paged_def machine_wf_def by (auto simp: m')
  show "table_view c (the (pt m')) (m_tID m') v = Some (f, te_readOnly (the (pt m) ! page_slot c v f))" using lt(1) pt' t by simp
  show "registers m' = registers m" "tlb m' = tlb m" "bm_set (mmBitmap m') = insert f (bm_set (mmBitmap m))"
    using b'(3) f(1) by (auto simp: m')
  show other: "frame_bytes (mainMemory m') g = frame_bytes (mainMemory m) g" if "g \<in> bm_set (mmBitmap m)" for g
    using fr(3) bnd [OF that] by (simp add: m')
  show "table_byte c m' (v * PageSize + i) = Some (filled exe p (frame_bytes (mainMemory m) f) ! nat i)" if i: "0 \<le> i" "i < PageSize" for i
  proof -
    have "0 \<le> v" using u by (simp add: unmapped_def)
    moreover have "(v * PageSize + i) div PageSize = v" "(v * PageSize + i) mod PageSize = i" using i by (simp_all add: PageSize_def)
    ultimately show ?thesis using lt(1) pt' f fr(1) i by (subst table_byte_eq [OF len' pt'(1)]) (simp add: m' PageSize_def)
  qed
  show "table_byte c m' a = table_byte c m a" if "a div PageSize \<noteq> v" for a
    unfolding table_byte_eq [OF len' pt'(1)] table_byte_eq [OF len t(1)] pt'(2) lt(2) [OF that]
    using owns_frames [OF o] other by (auto split: option.split)
qed

text \<open>
  C8: A page fault on a page of the program, while some frame of main memory is free, returns to the program with the page in a
  frame that was free. The bytes of the page are those of the executable from the place where the code
  segment starts (and, past the end of the file, whatever the frame held before). No other page of the thread
  changes, no frame that was in use changes, so no other thread is affected, and the registers stay as they were.
\<close>

theorem page_fault_loads_page:
  assumes "paged c m" and "unmapped c m v" and "page_of (registers m ! BadVAddrReg) = v"
    and "bm_set (mmBitmap m) \<noteq> {0..<NumPhysPages}" and "currentOpenedFile m = Some exe"
    and "0 \<le> inFileAddr (seg_code (currentNoffHeader m))"
  shows "\<exists>f m'. ExceptionHandler c space PageFaultException m = Inr (Resumed m')
    \<and> f \<notin> bm_set (mmBitmap m) \<and> bm_set (mmBitmap m') = insert f (bm_set (mmBitmap m))
    \<and> (\<forall>i. 0 \<le> i \<and> i < PageSize \<longrightarrow> table_byte c m' (v * PageSize + i) =
          Some (filled exe (nat (inFileAddr (seg_code (currentNoffHeader m)) + v * PageSize)) (frame_bytes (mainMemory m) f) ! nat i))
    \<and> (\<forall>a. a div PageSize \<noteq> v \<longrightarrow> table_byte c m' a = table_byte c m a)
    \<and> (\<forall>g \<in> bm_set (mmBitmap m). frame_bytes (mainMemory m') g = frame_bytes (mainMemory m) g)
    \<and> registers m' = registers m \<and> paged c m'"
proof -
  obtain f m' where h: "handle_page_fault c m = Inr (Resumed m')" and f: "f \<notin> bm_set (mmBitmap m)" "0 \<le> f" "f < NumPhysPages"
    and l: "page_loaded c m v f (nat (inFileAddr (seg_code (currentNoffHeader m)) + v * PageSize)) exe m'"
    using handle_page_fault_ok [OF assms] by blast
  have "length (registers m) = NumTotalRegs" using assms(1) by (simp add: paged_def machine_wf_def)
  then have "ReadRegister m 2 = Inr (registers m ! 2)" using ReadRegister_ok [of m 2] by (simp add: NumTotalRegs_def)
  then have "ExceptionHandler c space PageFaultException m = Inr (Resumed m')"
    using h by (simp add: ExceptionHandler_def handle_table_exception_def)
  then show ?thesis using page_loaded_ok [OF assms(1,2) f l] f(1) by blast
qed

section \<open>Demand paging\<close>

lemma owns_map_unlru [simp]: "owns c b (map unlru t) tid = owns c b t tid"
  by (simp add: owns_def unlru_def)

lemma table_view_map_unlru [simp]: "table_view c (map unlru t) tid v = table_view c t tid v"
proof -
  have "List.find (\<lambda>j. te_vpn (map unlru t ! j) = v \<and> te_tID (map unlru t ! j) = tid) [0..<length t]
    = List.find (\<lambda>j. te_vpn (t ! j) = v \<and> te_tID (t ! j) = tid) [0..<length t]"
    by (rule find_cong) (auto simp: unlru_def)
  then show ?thesis by (auto simp: table_view_def unlru_def option.map_comp find_Some_iff intro!: option.map_cong)
qed

lemma paged_same:
  assumes s: "same_but_flags m m'" and pg: "paged c m"
  shows "paged c m'" and "unmapped c m v \<Longrightarrow> unmapped c m' v" and "table_view c (the (pt m')) (m_tID m') v = table_view c (the (pt m)) (m_tID m) v"
proof -
  obtain t where t: "pt m = Some t" using pg by (auto simp: paged_def machine_wf_def)
  obtain t' where t': "pt m' = Some t'" "map unlru t' = map unlru t" "length t' = length t" using same_tables(2) [OF s t] by blast
  show "table_view c (the (pt m')) (m_tID m') v = table_view c (the (pt m)) (m_tID m) v"
    using t t' table_view_map_unlru [of c t'] table_view_map_unlru [of c t] same_fields(5) [OF s] by simp
  have "owns c (mmBitmap m') t' (m_tID m')"
    using pg t t' owns_map_unlru [of c _ t'] owns_map_unlru [of c _ t] same_fields [OF s] by (simp add: paged_def)
  then show "paged c m'" using pg t t' wf_same [OF s] same_fields [OF s] by (simp add: paged_def)
  show "unmapped c m' v" if u: "unmapped c m v"
  proof -
    have "te_ppn (t' ! nat v) = te_ppn (t ! nat v)" if "\<not> USE_RPT c"
    proof -
      have "nat v < length t" using u that t pg by (auto simp: unmapped_def paged_def machine_wf_def)
      then show ?thesis using map_unlru_nth(3) [OF t'(2)] by simp
    qed
    then show ?thesis using u t t' table_view_map_unlru [of c t'] table_view_map_unlru [of c t] same_fields [OF s] by (simp add: unmapped_def)
  qed
qed

lemma RaiseException_ok:
  assumes cpu: "cpu_ok m"
  shows "\<exists>r. length r = NumTotalRegs \<and> r ! BadVAddrReg = a \<and> r ! LoadReg = 0 \<and> r ! 0 = 0
    \<and> RaiseException h m e a = rbind (h e (m\<lparr>registers := r, m_status := SystemMode\<rparr>)) (\<lambda>m. Inr (m\<lparr>m_status := UserMode\<rparr>))"
proof -
  define n where "n = unat (reg m LoadReg)"
  have n: "n < 32" "sint (reg m LoadReg) = int n" and len: "length (registers m) = 40"
    using cpu sint_small [of "reg m LoadReg"] by (auto simp: cpu_ok_def n_def NumTotalRegs_def)
  define r where "r = ((registers m)[BadVAddrReg := a])[n := registers m ! LoadValueReg, LoadReg := 0, LoadValueReg := 0, 0 := 0]"
  have "RaiseException h m e a = rbind (h e (m\<lparr>registers := r, m_status := SystemMode\<rparr>)) (\<lambda>m. Inr (m\<lparr>m_status := UserMode\<rparr>))"
    using n len by (simp add: RaiseException_def DelayedLoad_def r_def reg_def reg_consts)
  moreover have "length r = NumTotalRegs" "r ! BadVAddrReg = a" "r ! LoadReg = 0" "r ! 0 = 0"
    using n(1) len by (simp_all add: r_def reg_consts nth_list_update)
  ultimately show ?thesis by blast
qed

lemma paged_registers [simp]:
  "length (registers m) = NumTotalRegs \<Longrightarrow> length r = NumTotalRegs \<Longrightarrow> paged c (m\<lparr>registers := r\<rparr>) = paged c m"
  by (simp add: paged_def machine_wf_def)

lemma paged_status [simp]: "paged c (m\<lparr>m_status := st\<rparr>) = paged c m" "unmapped c (m\<lparr>m_status := st\<rparr>) v = unmapped c m v"
  "view c (m\<lparr>m_status := st\<rparr>) = view c m" "machine_wf c (m\<lparr>m_status := st\<rparr>) = machine_wf c m" "cpu_ok (m\<lparr>m_status := st\<rparr>) = cpu_ok m"
  by (simp_all add: paged_def machine_wf_def unmapped_def view_def fun_eq_iff cpu_ok_def reg_def split: option.split)


text \<open>A read of a page that the translation does not find enters the handler.\<close>

lemma ReadMem_fault:
  assumes w: "machine_wf c m" and cpu: "cpu_ok m" and a: "0 \<le> sint a" "sint a mod 4 = 0"
    and v: "view c m (sint a div PageSize) = None" "\<not> swapped c m (sint a div PageSize)"
  shows "\<exists>m1 r. same_but_flags m m1 \<and> length r = NumTotalRegs \<and> r ! BadVAddrReg = a \<and> r ! LoadReg = 0 \<and> r ! 0 = 0
    \<and> ReadMem c h m a 4 = rbind (h (fault c m (sint a div PageSize)) (m1\<lparr>registers := r, m_status := SystemMode\<rparr>))
        (\<lambda>m. Inr (None, m\<lparr>m_status := UserMode\<rparr>))"
proof -
  have d: "cdiv (sint a) PageSize = sint a div PageSize" using a(1) by (simp add: PageSize_def)
  have x: "xlate c m (sint a) 4 False = Inl (fault c m (sint a div PageSize))" using v a(2) by (simp add: xlate_def misaligned_def d)
  have "translates m (xlate c m (sint a) 4 False) (Translate c m (sint a) 4 False)"
    using v(2) a(1) by (intro Translate_ok [OF w]) (simp_all add: d PageSize_def)
  then obtain m1 where m1: "same_but_flags m m1" "Translate c m (sint a) 4 False = Inr (Inl (fault c m (sint a div PageSize)), m1)"
    unfolding x translates_def by auto
  have "cpu_ok m1" using cpu same_fields(2) [OF m1(1)] by (simp add: cpu_ok_def reg_def)
  from RaiseException_ok [OF this] obtain r where "length r = NumTotalRegs" "r ! BadVAddrReg = a" "r ! LoadReg = 0" "r ! 0 = 0"
    "RaiseException h m1 (fault c m (sint a div PageSize)) a =
      rbind (h (fault c m (sint a div PageSize)) (m1\<lparr>registers := r, m_status := SystemMode\<rparr>)) (\<lambda>m. Inr (m\<lparr>m_status := UserMode\<rparr>))" by blast
  with m1 show ?thesis by (intro exI [of _ m1] exI [of _ r]) (simp add: ReadMem_def rbind_assoc)
qed

lemma ptt_unmapped: "paged c m \<Longrightarrow> unmapped c m v \<Longrightarrow> pageTableTranslation c m v = Inr (Inl PageFaultException, m)"
proof -
  assume pg: "paged c m" and u: "unmapped c m v"
  obtain t where t: "pt m = Some t" "int (length t) = (if USE_RPT c then NumPhysPages else pageTableSize m)"
    using pg by (auto simp: paged_def machine_wf_def)
  show ?thesis
  proof (cases "USE_RPT c")
    case True
    then show ?thesis using u t rpt_loop_find [of t 0 v "m_tID m"] by (simp add: pageTableTranslation_def unmapped_def table_view_def)
  next
    case False
    then show ?thesis using u t by (auto simp: pageTableTranslation_def unmapped_def table_view_def aread_ok split: if_splits)
  qed
qed

lemma ptt_mapped:
  assumes pg: "paged c m" and v: "table_view c (the (pt m)) (m_tID m) v = Some (f, ro)"
  shows "\<exists>e. pageTableTranslation c m v = Inr (Inr (f, e), m) \<and> te_valid e \<and> te_vpn e = v \<and> te_ppn e = f \<and> te_readOnly e = ro"
proof -
  obtain t where t: "pt m = Some t" "int (length t) = (if USE_RPT c then NumPhysPages else pageTableSize m)"
    using pg by (auto simp: paged_def machine_wf_def)
  have o: "owns c (mmBitmap m) t (m_tID m)" using pg t by (simp add: paged_def)
  show ?thesis
  proof (cases "USE_RPT c")
    case True
    then obtain j where j: "List.find (\<lambda>j. te_vpn (t ! j) = v \<and> te_tID (t ! j) = m_tID m) [0..<length t] = Some j" "f = int j" "ro = te_readOnly (t ! j)"
      using v t by (auto simp: table_view_def)
    then have "te_vpn (t ! j) = v \<and> te_valid (t ! j) \<and> te_ppn (t ! j) = int j"
      using o True by (auto simp: find_Some_iff owns_def)
    with j show ?thesis using True t rpt_loop_find [of t 0 v "m_tID m"] by (simp add: pageTableTranslation_def)
  next
    case False
    then have "0 \<le> v" "v < int (length t)" "te_valid (t ! nat v)" "f = te_ppn (t ! nat v)" "ro = te_readOnly (t ! nat v)"
      using v t by (auto simp: table_view_def split: if_splits)
    moreover from this have "te_vpn (t ! nat v) = v" using o False by (auto simp: owns_def nat_less_iff)
    ultimately show ?thesis using False t by (simp add: pageTableTranslation_def aread_ok)
  qed
qed

text \<open>The handler loads the page, whether it is called for the page fault or for the TLB miss before it.\<close>

definition faulting :: "config \<Rightarrow> machine \<Rightarrow> int \<Rightarrow> byte list \<Rightarrow> bool" where
  "faulting c m v exe \<longleftrightarrow> paged c m \<and> unmapped c m v \<and> bm_set (mmBitmap m) \<noteq> {0..<NumPhysPages} \<and> currentOpenedFile m = Some exe
     \<and> 0 \<le> inFileAddr (seg_code (currentNoffHeader m))"

definition file_offset :: "machine \<Rightarrow> int \<Rightarrow> nat" where
  "file_offset m v = nat (inFileAddr (seg_code (currentNoffHeader m)) + v * PageSize)"

lemma fault_handled:
  assumes ft: "faulting c m v exe" and bad: "page_of (registers m ! BadVAddrReg) = v"
  shows "\<exists>f m'. user_handler c space (fault c m v) m = Inr m' \<and> f \<notin> bm_set (mmBitmap m) \<and> 0 \<le> f \<and> f < NumPhysPages \<and> paged c m' \<and> tlb m' = tlb m
    \<and> registers m' = registers m \<and> (\<exists>ro. table_view c (the (pt m')) (m_tID m') v = Some (f, ro))
    \<and> frame_bytes (mainMemory m') f = filled exe (file_offset m v) (frame_bytes (mainMemory m) f)"
proof -
  define m1 where "m1 = (if tlb m = None then m else m\<lparr>m_stats := (m_stats m)\<lparr>numTLBMiss := numTLBMiss (m_stats m) + 1\<rparr>\<rparr>)"
  have pg: "paged c m1" "unmapped c m1 v" using ft by (auto simp: faulting_def m1_def paged_def machine_wf_def unmapped_def)
  have fields: "registers m1 = registers m" "mmBitmap m1 = mmBitmap m" "tlb m1 = tlb m" "mainMemory m1 = mainMemory m"
    "currentOpenedFile m1 = currentOpenedFile m" "currentNoffHeader m1 = currentNoffHeader m" by (simp_all add: m1_def)
  obtain f m' where h: "handle_page_fault c m1 = Inr (Resumed m')" and f: "f \<notin> bm_set (mmBitmap m1)" "0 \<le> f" "f < NumPhysPages"
    and l: "page_loaded c m1 v f (file_offset m v) exe m'"
    using handle_page_fault_ok [OF pg, of exe] ft bad fields unfolding faulting_def file_offset_def by auto
  have len: "length (registers m1) = NumTotalRegs" "length (mainMemory m1) = nat MemorySize" using pg(1) by (simp_all add: paged_def machine_wf_def)
  have r: "ReadRegister m1 2 = Inr (registers m ! 2)" "ReadRegister m 2 = Inr (registers m ! 2)" "ReadRegister m1 (int BadVAddrReg) = Inr (registers m ! BadVAddrReg)"
    using len(1) fields(1) ReadRegister_ok [of m 2] ReadRegister_ok [of m1 2] ReadRegister_ok [of m1 BadVAddrReg] by (simp_all add: reg_consts)
  have "ExceptionHandler c space (fault c m v) m = Inr (Resumed m')"
  proof (cases "tlb m = None")
    case True
    then have "fault c m v = PageFaultException" using ft by (auto simp: fault_def faulting_def unmapped_def)
    with True show ?thesis using h r by (simp add: ExceptionHandler_def handle_table_exception_def m1_def)
  next
    case False
    then have "fault c m v = TLBMissException" and e: "m\<lparr>m_stats := (m_stats m)\<lparr>numTLBMiss := numTLBMiss (m_stats m) + 1\<rparr>\<rparr> = m1"
      by (simp_all add: fault_def m1_def)
    moreover have "pageTableTranslation c m1 v = Inr (Inl PageFaultException, m1)" by (rule ptt_unmapped [OF pg])
    ultimately show ?thesis using h r bad [unfolded page_of_def] by (simp add: ExceptionHandler_def handle_table_exception_def Let_def)
  qed
  then have "user_handler c space (fault c m v) m = Inr m'" by (simp add: user_handler_def)
  moreover have "frame_bytes (mainMemory m') f = filled exe (file_offset m v) (frame_bytes (mainMemory m) f)"
    using l overlay_frames(1) [OF len(2) f(2,3)] fields by (auto simp: page_loaded_def)
  ultimately show ?thesis using page_loaded_ok [OF pg f l] f fields by auto
qed


text \<open>An entry that \<^verbatim>\<open>updateTLB\<close> puts into the TLB is found there, whatever the replacement policy.\<close>

lemma replace_loop_range:
  assumes "0 \<le> i" "len \<le> int (length t)" "0 \<le> k" "k < len"
  shows "\<exists>n. replace_loop c t len i v k = Inr (int n) \<and> int n < len"
  using assms
proof (induction "nat (len - i)" arbitrary: i v k rule: less_induct)
  case less
  show ?case
  proof (cases "i < len")
    case False
    then show ?thesis using less.prems by (intro exI [of _ "nat k"], subst replace_loop.simps) simp
  next
    case True
    then have "nat (len - (i + 1)) < nat (len - i)" by simp
    from less.hyps [OF this] less.prems True show ?thesis
      by (subst replace_loop.simps) (auto simp: aread_ok Let_def)
  qed
qed

lemma updateTLB_ok:
  assumes "int (length t) = TLBSize"
  shows "\<exists>n z. n < length t \<and> updateTLB c m t e = Inr (t[n := e\<lparr>te_FIFOFlag := z\<rparr>])"
proof -
  obtain n where n: "free_slot_loop t 0 = Inr (int n)" "n \<le> length t" using free_slot_loop_ok [of 0 t] assms by (auto simp: TLBSize_def)
  obtain k where k: "(if int n = TLBSize then findOneToReplace c m t True else Inr (int n)) = Inr (int k)" "k < length t"
  proof (cases "int n = TLBSize")
    case True
    obtain k where "replace_loop c t TLBSize 0 INT_MAX 0 = Inr (int k)" "int k < TLBSize"
      using replace_loop_range [of 0 TLBSize t 0 c INT_MAX] assms by (auto simp: TLBSize_def)
    then show thesis using True assms by (intro that [of k]) (simp_all add: findOneToReplace_def)
  next
    case False
    then show thesis using that [of n] n assms by simp
  qed
  show ?thesis
  proof (cases "FIFO_REPLACE c")
    case True
    obtain z where "updateFIFOFlag (t[k := e]) (int k) (int (length (t[k := e]))) = Inr ((t[k := e])[k := (t[k := e] ! k)\<lparr>te_FIFOFlag := z\<rparr>])"
      using updateFIFOFlag_ok [of k "t[k := e]"] k(2) by auto
    then show ?thesis using True n k assms by (auto simp: updateTLB_def)
  next
    case False
    then show ?thesis using n k by (intro exI [of _ k] exI [of _ "te_FIFOFlag e"]) (simp add: updateTLB_def)
  qed
qed

lemma miss_handled:
  assumes pg: "paged c m" and t: "tlb m = Some t" and bad: "page_of (registers m ! BadVAddrReg) = v" and miss: "view c m v = None"
    and v: "table_view c (the (pt m)) (m_tID m) v = Some (f, ro)" "0 \<le> v"
  shows "\<exists>m'. user_handler c space (fault c m v) m = Inr m' \<and> machine_wf c m' \<and> view c m' v = Some (f, ro)
    \<and> mainMemory m' = mainMemory m \<and> registers m' = registers m"
proof -
  define m1 where "m1 = m\<lparr>m_stats := (m_stats m)\<lparr>numTLBMiss := numTLBMiss (m_stats m) + 1\<rparr>\<rparr>"
  have pg1: "paged c m1" using pg by (auto simp: paged_def machine_wf_def m1_def)
  obtain e where e: "pageTableTranslation c m1 v = Inr (Inr (f, e), m1)" "te_valid e" "te_vpn e = v" "te_ppn e = f" "te_readOnly e = ro"
    using ptt_mapped [OF pg1, of v f ro] v(1) by (auto simp: m1_def)
  have len: "int (length t) = TLBSize" "length (registers m) = NumTotalRegs" using pg t by (auto simp: paged_def machine_wf_def)
  obtain n z where n: "n < length t" "updateTLB c m1 t e = Inr (t[n := e\<lparr>te_FIFOFlag := z\<rparr>])" using updateTLB_ok [OF len(1)] by blast
  define m2 where "m2 = m1\<lparr>tlb := Some (t[n := e\<lparr>te_FIFOFlag := z\<rparr>])\<rparr>"
  have r: "ReadRegister m 2 = Inr (registers m ! 2)" "ReadRegister m1 (int BadVAddrReg) = Inr (registers m ! BadVAddrReg)"
    using len(2) ReadRegister_ok [of m 2] ReadRegister_ok [of m1 BadVAddrReg] by (simp_all add: reg_consts m1_def)
  have "ExceptionHandler c space TLBMissException m = Inr (Resumed m2)"
    unfolding ExceptionHandler_def m1_def [symmetric] Let_def using r bad [unfolded page_of_def] e(1) n(2) t
    by (simp add: m2_def) (simp add: m1_def)
  moreover have "fault c m v = TLBMissException" using t by (simp add: fault_def)
  ultimately have "user_handler c space (fault c m v) m = Inr m2" by (simp add: user_handler_def)
  moreover have "view c m2 v = Some (f, ro)"
  proof -
    have "\<not> (te_valid (t ! j) \<and> te_vpn (t ! j) = v)" if "j < length t" for j using miss t that by (auto simp: view_def find_upt_None)
    then have "List.find (\<lambda>j. te_valid (t[n := e\<lparr>te_FIFOFlag := z\<rparr>] ! j) \<and> te_vpn (t[n := e\<lparr>te_FIFOFlag := z\<rparr>] ! j) = v) [0..<length t] = Some n"
      unfolding find_Some_iff using n(1) e by (intro exI [of _ n]) (auto simp: nth_list_update)
    then show ?thesis using e n(1) by (simp add: view_def m2_def)
  qed
  moreover have "machine_wf c m2"
  proof -
    have "v < pageTableSize m" if "\<not> USE_RPT c"
      using v(1) pg that by (auto simp: table_view_def paged_def machine_wf_def split: if_splits)
    then have "\<forall>x \<in> set (t[n := e\<lparr>te_FIFOFlag := z\<rparr>]). te_valid x \<longrightarrow> 0 \<le> te_vpn x \<and> te_vpn x < pageTableSize m" if "\<not> USE_RPT c"
      using pg t that e(3) v(2) set_update_subset_insert [of t n "e\<lparr>te_FIFOFlag := z\<rparr>"] by (fastforce simp: paged_def machine_wf_def)
    then show ?thesis using pg t len by (auto simp: machine_wf_def paged_def m2_def m1_def)
  qed
  ultimately show ?thesis by (intro exI [of _ m2]) (simp add: m2_def m1_def)
qed


text \<open>The processor repeats the instruction after an exception: a word is read in at most \<open>n\<close> attempts.\<close>

fun retry_read :: "nat \<Rightarrow> config \<Rightarrow> handler \<Rightarrow> machine \<Rightarrow> u32 \<Rightarrow> (u32 option \<times> machine) result" where
  "retry_read 0 c h m a = Inr (None, m)"
| "retry_read (Suc n) c h m a =
     rbind (ReadMem c h m a 4) (\<lambda>(r, m). case r of None \<Rightarrow> retry_read n c h m a | Some w \<Rightarrow> Inr (Some w, m))"

lemma read_mapped:
  assumes w: "machine_wf c m" and a: "0 \<le> sint a" "sint a mod 4 = 0"
    and v: "view c m (sint a div PageSize) = Some (f, ro)" "0 \<le> f" "f < NumPhysPages"
  shows "\<exists>m'. ReadMem c h m a 4 = Inr (Some (un_le32 (take 4 (drop (nat (sint a mod PageSize)) (frame_bytes (mainMemory m) f)))), m')"
proof -
  have fit: "f * PageSize + sint a mod PageSize + 4 \<le> MemorySize"
    using access_in_page(3) [of 4 "sint a" 0] a v(3) by (simp add: access_size_def machine_consts)
  obtain m' bs where r: "ReadMem c h m a 4 = Inr (Some (value_of 4 bs), m')" "int (length bs) = 4"
    "\<forall>i < length bs. vbyte c m (sint a + int i) = Some (bs ! i)"
    using ReadMem_ok [OF w _ a(2,1) v fit, where h = h] by (auto simp: access_size_def)
  have "bs = take 4 (drop (nat (sint a mod PageSize)) (frame_bytes (mainMemory m) f))"
  proof (rule nth_equalityI)
    have len: "length (mainMemory m) = 16384" "0 \<le> sint a mod 128" "sint a mod 128 + 4 \<le> 128"
      using w access_in_page(3) [of 4 "sint a" 0] a by (auto simp: machine_wf_def machine_consts access_size_def)
    then have "nat (sint a mod 128) + 4 \<le> 128" by linarith
    then show l: "length bs = length (take 4 (drop (nat (sint a mod PageSize)) (frame_bytes (mainMemory m) f)))"
      using r(2) v(2,3) len by (simp add: frame_bytes_def machine_consts)
    fix i assume i: "i < length bs"
    have "vbyte c m (sint a + int i) = Some (mainMemory m ! nat (f * PageSize + sint a mod PageSize + int i))"
      using xlate_mapped(4) [of 4 "sint a" c m f ro False "int i"] i r(2) a v by (simp add: access_size_def)
    then show "bs ! i = take 4 (drop (nat (sint a mod PageSize)) (frame_bytes (mainMemory m) f)) ! i"
      using r(2,3) i v(2,3) len by (simp add: frame_bytes_def machine_consts nat_add_distrib add.assoc)
  qed
  with r(1) show ?thesis by (simp add: value_of_def)
qed

lemma same_program: "same_but_flags m m' \<Longrightarrow> currentOpenedFile m' = currentOpenedFile m \<and> currentNoffHeader m' = currentNoffHeader m"
  by (cases m; cases m'; simp add: same_but_flags_def)

lemma view_tlb: "tlb m' = tlb m \<Longrightarrow> tlb m \<noteq> None \<Longrightarrow> view c m' = view c m"
  by (auto simp: view_def fun_eq_iff)

text \<open>What \<^verbatim>\<open>RaiseException\<close> gives the handler.\<close>

lemma handler_state:
  assumes s: "same_but_flags m m1" and r: "length r = NumTotalRegs" and pg: "paged c m"
  defines "m2 \<equiv> m1\<lparr>registers := r, m_status := SystemMode\<rparr>"
  shows "paged c m2" "mmBitmap m2 = mmBitmap m" "mainMemory m2 = mainMemory m" "registers m2 = r" "fault c m2 v = fault c m v"
    "view c m2 = view c m" "table_view c (the (pt m2)) (m_tID m2) v = table_view c (the (pt m)) (m_tID m) v" "file_offset m2 v = file_offset m v"
    "(tlb m2 = None) = (tlb m = None)" "faulting c m v exe \<Longrightarrow> faulting c m2 v exe"
proof -
  have len: "length (registers m1) = NumTotalRegs" using paged_same(1) [OF s pg] by (simp add: paged_def machine_wf_def)
  show "paged c m2" using paged_same(1) [OF s pg] r len by (simp add: m2_def)
  note f = same_fields [OF s] same_program [OF s]
  show "mmBitmap m2 = mmBitmap m" "mainMemory m2 = mainMemory m" "registers m2 = r" "fault c m2 v = fault c m v"
    "file_offset m2 v = file_offset m v" "(tlb m2 = None) = (tlb m = None)" using f by (simp_all add: m2_def fault_def file_offset_def)
  have "view c m2 = view c m1" by (simp add: m2_def view_def fun_eq_iff split: option.split)
  then show "view c m2 = view c m" by (simp add: view_same [OF s])
  show "table_view c (the (pt m2)) (m_tID m2) v = table_view c (the (pt m)) (m_tID m) v" using paged_same(3) [OF s pg] by (simp add: m2_def)
  show "faulting c m2 v exe" if "faulting c m v exe"
    using that \<open>paged c m2\<close> paged_same(2) [OF s pg, of v] f by (auto simp: faulting_def m2_def unmapped_def)
qed

text \<open>The attempt that loads the page, and the one that loads its TLB entry.\<close>

lemma attempt_load:
  assumes ft: "faulting c m v exe" and cpu: "cpu_ok m" and a: "0 \<le> sint a" "sint a mod 4 = 0" "v = sint a div PageSize" and miss: "view c m v = None"
  shows "\<exists>f m'. ReadMem c (user_handler c space) m a 4 = Inr (None, m') \<and> f \<notin> bm_set (mmBitmap m) \<and> 0 \<le> f \<and> f < NumPhysPages
    \<and> paged c m' \<and> cpu_ok m' \<and> (tlb m' = None) = (tlb m = None) \<and> (tlb m \<noteq> None \<longrightarrow> view c m' v = None)
    \<and> (\<exists>ro. table_view c (the (pt m')) (m_tID m') v = Some (f, ro))
    \<and> frame_bytes (mainMemory m') f = filled exe (file_offset m v) (frame_bytes (mainMemory m) f)"
proof -
  have pg: "paged c m" and w: "machine_wf c m" and u: "unmapped c m v" using ft by (auto simp: faulting_def paged_def)
  have ns: "\<not> swapped c m v" using u by (auto simp: swapped_def unmapped_def)
  obtain m1 r where m1: "same_but_flags m m1" and r: "length r = NumTotalRegs" "r ! BadVAddrReg = a" "r ! LoadReg = 0" "r ! 0 = 0"
    and rd: "ReadMem c (user_handler c space) m a 4 =
      rbind (user_handler c space (fault c m v) (m1\<lparr>registers := r, m_status := SystemMode\<rparr>)) (\<lambda>m. Inr (None, m\<lparr>m_status := UserMode\<rparr>))"
    using ReadMem_fault [OF w cpu a(1,2)] miss ns a(3) by blast
  define m2 where "m2 = m1\<lparr>registers := r, m_status := SystemMode\<rparr>"
  note h = handler_state [OF m1 r(1) pg, folded m2_def]
  have "page_of (registers m2 ! BadVAddrReg) = v" using h(4) r(2) a by (simp add: page_of_def PageSize_def)
  from fault_handled [OF h(10) [OF ft] this] obtain f m3 ro where m3: "user_handler c space (fault c m2 v) m2 = Inr m3"
    and f: "f \<notin> bm_set (mmBitmap m2)" "0 \<le> f" "f < NumPhysPages" and g: "paged c m3" "tlb m3 = tlb m2" "registers m3 = registers m2"
      "table_view c (the (pt m3)) (m_tID m3) v = Some (f, ro)"
      "frame_bytes (mainMemory m3) f = filled exe (file_offset m2 v) (frame_bytes (mainMemory m2) f)" by blast
  have "ReadMem c (user_handler c space) m a 4 = Inr (None, m3\<lparr>m_status := UserMode\<rparr>)" using rd m3 h(5) by (simp add: m2_def)
  moreover have "cpu_ok m3" using g(3) h(4) r by (simp add: cpu_ok_def reg_def)
  moreover have "view c m3 v = None" if "tlb m \<noteq> None" using view_tlb [OF g(2)] h(6,9) that miss by simp
  ultimately show ?thesis using f g h(2,3,8,9) by (intro exI [of _ f] exI [of _ "m3\<lparr>m_status := UserMode\<rparr>"]) simp
qed

lemma attempt_fill:
  assumes pg: "paged c m" and cpu: "cpu_ok m" and a: "0 \<le> sint a" "sint a mod 4 = 0" "v = sint a div PageSize"
    and t: "tlb m \<noteq> None" and miss: "view c m v = None" and v: "table_view c (the (pt m)) (m_tID m) v = Some (f, ro)"
  shows "\<exists>m'. ReadMem c (user_handler c space) m a 4 = Inr (None, m') \<and> machine_wf c m' \<and> view c m' v = Some (f, ro) \<and> mainMemory m' = mainMemory m"
proof -
  have w: "machine_wf c m" and ns: "\<not> swapped c m v" using pg t by (auto simp: swapped_def paged_def)
  obtain m1 r where m1: "same_but_flags m m1" and r: "length r = NumTotalRegs" "r ! BadVAddrReg = a" "r ! LoadReg = 0" "r ! 0 = 0"
    and rd: "ReadMem c (user_handler c space) m a 4 =
      rbind (user_handler c space (fault c m v) (m1\<lparr>registers := r, m_status := SystemMode\<rparr>)) (\<lambda>m. Inr (None, m\<lparr>m_status := UserMode\<rparr>))"
    using ReadMem_fault [OF w cpu a(1,2)] miss ns a(3) by blast
  define m2 where "m2 = m1\<lparr>registers := r, m_status := SystemMode\<rparr>"
  note h = handler_state [OF m1 r(1) pg, folded m2_def]
  have bad: "page_of (registers m2 ! BadVAddrReg) = v" "0 \<le> v" using h(4) r(2) a by (simp_all add: page_of_def PageSize_def)
  obtain t2 where "tlb m2 = Some t2" using h(9) t by auto
  from miss_handled [OF h(1) this bad(1) _ _ bad(2)] obtain m3 where
    "user_handler c space (fault c m2 v) m2 = Inr m3" "machine_wf c m3" "view c m3 v = Some (f, ro)" "mainMemory m3 = mainMemory m2"
    using h(6,7) miss v by metis
  then show ?thesis using rd h(3,5) by (intro exI [of _ "m3\<lparr>m_status := UserMode\<rparr>"]) (simp add: m2_def)
qed

lemma filled_within:
  assumes "i + 4 \<le> 128" "p + i + 4 \<le> length exe"
  shows "take 4 (drop i (filled exe p old)) = take 4 (drop (p + i) exe)"
proof -
  have "take 4 (drop i (take 128 (drop p exe))) = take 4 (drop (p + i) exe)" using assms(1) by (simp add: drop_take add.commute)
  moreover have "i + 4 \<le> length (take 128 (drop p exe))" using assms by simp
  ultimately show ?thesis by (simp add: filled_def Let_def)
qed

lemma retry_loads:
  assumes ft: "faulting c m (sint a div PageSize) exe" and cpu: "cpu_ok m" and a: "0 \<le> sint a" "sint a mod 4 = 0"
    and miss: "view c m (sint a div PageSize) = None"
  shows "\<exists>f m'. f \<notin> bm_set (mmBitmap m) \<and> retry_read (if tlb m = None then 2 else 3) c (user_handler c space) m a =
    Inr (Some (un_le32 (take 4 (drop (nat (sint a mod PageSize))
      (filled exe (file_offset m (sint a div PageSize)) (frame_bytes (mainMemory m) f))))), m')"
proof -
  let ?v = "sint a div PageSize"
  obtain f m1 ro where m1: "ReadMem c (user_handler c space) m a 4 = Inr (None, m1)" "f \<notin> bm_set (mmBitmap m)" "0 \<le> f" "f < NumPhysPages"
    "paged c m1" "cpu_ok m1" "(tlb m1 = None) = (tlb m = None)" "tlb m \<noteq> None \<longrightarrow> view c m1 ?v = None"
    "table_view c (the (pt m1)) (m_tID m1) ?v = Some (f, ro)"
    and fr: "frame_bytes (mainMemory m1) f = filled exe (file_offset m ?v) (frame_bytes (mainMemory m) f)"
    using attempt_load [OF ft cpu a refl miss, of space] by (elim exE conjE) (rule that)
  have w1: "machine_wf c m1" using m1(5) by (simp add: paged_def)
  show ?thesis
  proof (cases "tlb m = None")
    case True
    have "view c m1 ?v = Some (f, ro)" using view_table [of m1 "the (pt m1)" c ?v] m1(7,9) True w1 by (auto simp: machine_wf_def)
    from read_mapped [OF w1 a this m1(3,4), of "user_handler c space"] show ?thesis
      using m1(1,2) True unfolding fr by (auto simp: numeral_2_eq_2)
  next
    case False
    obtain m2 where m2: "ReadMem c (user_handler c space) m1 a 4 = Inr (None, m2)" "machine_wf c m2" "view c m2 ?v = Some (f, ro)" "mainMemory m2 = mainMemory m1"
      using attempt_fill [OF m1(5,6) a refl _ _ m1(9)] m1(7,8) False by blast
    from read_mapped [OF m2(2) a m2(3) m1(3,4), of "user_handler c space"] show ?thesis
      using m1(1,2) m2(1,4) False unfolding m2(4) fr by (auto simp: numeral_3_eq_3)
  qed
qed

text \<open>
  C9: Demand paging makes progress while a frame is free. A program reads an aligned word of a page that has not been loaded.
  The processor retries the read after every exception: without a TLB the second attempt, with a TLB at the latest the third
  (the first loads the page, the second the TLB entry), returns the word. As far as the file of the executable reaches, it is the word at the
  position of the file where the code segment and the address place it; past the end of the file, in uninitialised data and on the stack, it is what the
  frame held before, and not zero as \<^verbatim>\<open>noff.h\<close> says. (When no frame is free, the handler breaks the page table.)
\<close>

theorem demand_paging_progress:
  assumes ft: "faulting c m (sint a div PageSize) exe" and cpu: "cpu_ok m" and a: "0 \<le> sint a" "sint a mod 4 = 0"
    and miss: "view c m (sint a div PageSize) = None"
  shows "\<exists>f w m'. f \<notin> bm_set (mmBitmap m) \<and> retry_read (if tlb m = None then 2 else 3) c (user_handler c space) m a = Inr (Some w, m')
    \<and> w = un_le32 (take 4 (drop (nat (sint a mod PageSize)) (filled exe (file_offset m (sint a div PageSize)) (frame_bytes (mainMemory m) f))))
    \<and> (file_offset m (sint a div PageSize) + nat (sint a mod PageSize) + 4 \<le> length exe \<longrightarrow>
        w = un_le32 (take 4 (drop (file_offset m (sint a div PageSize) + nat (sint a mod PageSize)) exe)))"
proof -
  let ?i = "nat (sint a mod PageSize)"
  have "sint a mod 128 mod 4 = 0" using a(2) by (simp add: mod_mod_cancel)
  then have i: "?i + 4 \<le> 128" unfolding PageSize_def using pos_mod_bound [of 128 "sint a"] pos_mod_sign [of 128 "sint a"] by presburger
  show ?thesis using retry_loads [OF assms, of space] by (auto simp: filled_within [OF i])
qed

text \<open>A program that has just been started: none of its three pages is loaded, and every frame is free.\<close>

definition fresh_header :: noff_header where
  "fresh_header = zero_header\<lparr>seg_code := \<lparr>virtualAddr = 0, inFileAddr = 40, seg_size = 384\<rparr>\<rparr>"

definition fresh_program :: machine where
  "fresh_program = sample_machine\<lparr>registers := (replicate NumTotalRegs 0)[BadVAddrReg := 132],
     pt := Some (replicate 3 (te_reset (sample_entry 0))), pageTableSize := 3, mmBitmap := \<lparr>numBits = 128, numWords = 4, bmap = replicate 4 0\<rparr>,
     currentOpenedFile := Some (replicate 600 9), currentNoffHeader := fresh_header\<rparr>"

lemma fresh_bitmap: "bm_wf \<lparr>numBits = 128, numWords = 4, bmap = replicate 4 0\<rparr>" "bm_set \<lparr>numBits = 128, numWords = 4, bmap = replicate 4 0\<rparr> = {}"
proof -
  show "bm_wf \<lparr>numBits = 128, numWords = 4, bmap = replicate 4 0\<rparr>" by (simp add: bm_wf_def divRoundUp_def)
  have "nat (i div 32) < 4" if "0 \<le> i" "i < 128" for i :: int using that by (simp add: nat_less_iff)
  then show "bm_set \<lparr>numBits = 128, numWords = 4, bmap = replicate 4 0\<rparr> = {}" by (auto simp: bm_set_def bm_bit_def)
qed

lemma fresh_faulting: "faulting linear_config fresh_program 1 (replicate 600 9)"
proof -
  have "paged linear_config fresh_program"
    by (simp add: paged_def machine_wf_def fresh_program_def sample_machine_def linear_config_def fresh_bitmap owns_def te_reset_def
        machine_consts NumTotalRegs_def)
  moreover have "unmapped linear_config fresh_program 1"
    by (simp add: unmapped_def table_view_def fresh_program_def linear_config_def te_reset_def)
  ultimately show ?thesis
    by (simp add: faulting_def fresh_program_def fresh_bitmap fresh_header_def zero_header_def NumPhysPages_def)
qed

theorem page_fault_loads_page_witness:
  "\<exists>m'. ExceptionHandler linear_config (Some 3) PageFaultException fresh_program = Inr (Resumed m')
     \<and> table_byte linear_config m' 132 = Some 9"
proof -
  have f: "paged linear_config fresh_program" "unmapped linear_config fresh_program 1" "bm_set (mmBitmap fresh_program) \<noteq> {0..<NumPhysPages}"
    "currentOpenedFile fresh_program = Some (replicate 600 9)" "0 \<le> inFileAddr (seg_code (currentNoffHeader fresh_program))"
    using fresh_faulting by (simp_all add: faulting_def)
  have b: "page_of (registers fresh_program ! BadVAddrReg) = 1"
    by (simp add: fresh_program_def page_of_def reg_consts PageSize_def)
  obtain f m' where m': "ExceptionHandler linear_config (Some 3) PageFaultException fresh_program = Inr (Resumed m')"
    "\<forall>i. 0 \<le> i \<and> i < PageSize \<longrightarrow> table_byte linear_config m' (1 * PageSize + i) = Some (filled (replicate 600 9)
       (nat (inFileAddr (seg_code (currentNoffHeader fresh_program)) + 1 * PageSize)) (frame_bytes (mainMemory fresh_program) f) ! nat i)"
    using page_fault_loads_page [OF f(1,2) b f(3-5), of "Some 3"] by blast
  then show ?thesis using m'(2) [rule_format, of 4]
    by (simp add: filled_def fresh_program_def fresh_header_def zero_header_def PageSize_def nth_append)
qed

theorem demand_paging_progress_witness:
  "\<exists>m'. retry_read 2 linear_config (user_handler linear_config (Some 3)) fresh_program 132 = Inr (Some 0x09090909, m')"
proof -
  have "cpu_ok fresh_program" by (simp add: cpu_ok_def fresh_program_def reg_def reg_consts)
  moreover have "view linear_config fresh_program (sint (132 :: u32) div PageSize) = None"
    by (simp add: view_def fresh_program_def sample_machine_def linear_config_def PageSize_def te_reset_def)
  moreover have "sint (132 :: u32) div PageSize = 1" "sint (132 :: u32) mod PageSize = 4" "tlb fresh_program = None" "file_offset fresh_program 1 = 168"
    by (simp_all add: PageSize_def fresh_program_def sample_machine_def file_offset_def fresh_header_def zero_header_def)
  moreover have "un_le32 (take 4 (drop 4 (filled (replicate 600 9) 168 old))) = 0x09090909" for old
  proof -
    have "take 4 (drop 4 (filled (replicate 600 9) 168 old)) = replicate 4 9" by (simp add: filled_def)
    also have "\<dots> = [9, 9, 9, 9 :: byte]" by (simp add: numeral_eq_Suc)
    finally show ?thesis by simp
  qed
  ultimately show ?thesis
    using demand_paging_progress [of linear_config fresh_program 132 "replicate 600 9" "Some 3"] fresh_faulting by auto
qed

section \<open>When main memory is full\<close>

text \<open>
  C40: When no frame is free, the handler of a linear page table takes the number of the table entry to replace for a frame number.
  If that frame holds page \<open>q\<close> of the program, then afterwards two pages, \<open>q\<close> and the page that was missing, are valid in the same
  frame \<open>i\<close>, and the old contents of \<open>q\<close> are overwritten without having been saved: the swap file is as before.
\<close>

theorem full_memory_aliases_pages:
  assumes "paged c m" and "\<not> USE_RPT c" and "unmapped c m v" and "page_of (registers m ! BadVAddrReg) = v"
    and "bm_set (mmBitmap m) = {0..<NumPhysPages}" and "currentOpenedFile m = Some exe" and "0 \<le> inFileAddr (seg_code (currentNoffHeader m))"
    and "findOneToReplace c m (the (pt m)) False = Inr i" and "table_view c (the (pt m)) (m_tID m) q = Some (i, ro)"
  shows "\<exists>m'. ExceptionHandler c space PageFaultException m = Inr (Resumed m') \<and> q \<noteq> v \<and> m_vmFile m' = m_vmFile m
    \<and> (\<exists>rv rq. table_view c (the (pt m')) (m_tID m') v = Some (i, rv) \<and> table_view c (the (pt m')) (m_tID m') q = Some (i, rq))
    \<and> (\<forall>j. 0 \<le> j \<and> j < PageSize \<longrightarrow> table_byte c m' (q * PageSize + j) = table_byte c m' (v * PageSize + j)
        \<and> table_byte c m' (q * PageSize + j) = Some (filled exe (file_offset m v) (frame_bytes (mainMemory m) i) ! nat j))"
proof -
  obtain t where t: "pt m = Some t" "int (length t) = pageTableSize m" and len: "length (mainMemory m) = nat MemorySize" "length (registers m) = NumTotalRegs"
    using assms(1,2) by (auto simp: paged_def machine_wf_def)
  have o: "owns c (mmBitmap m) t (m_tID m)" and b: "bm_wf (mmBitmap m)" "numBits (mmBitmap m) = NumPhysPages" using assms(1) t by (auto simp: paged_def)
  have q: "table_view c t (m_tID m) q = Some (i, ro)" using assms(9) t by simp
  have i: "0 \<le> i" "i < NumPhysPages" using owns_frames [OF o q] assms(5) by auto
  have v: "0 \<le> v" "v < int (length t)" and qv: "q \<noteq> v" using assms(2,3) t q by (auto simp: unmapped_def)
  define m1 where "m1 = m\<lparr>m_stats := (m_stats m)\<lparr>numPageFaults := numPageFaults (m_stats m) + 1\<rparr>\<rparr>"
  define p where "p = inFileAddr (seg_code (currentNoffHeader m)) + v * PageSize"
  have p: "0 \<le> p" "nat p = file_offset m v" using assms(7) v(1) by (simp_all add: p_def file_offset_def PageSize_def)
  obtain z where z: "loadPageFrame c m1 (m_tID m) t v i p exe =
      Inr (t[page_slot c v i := (loaded_entry c (m_tID m) v i (t ! page_slot c v i))\<lparr>te_FIFOFlag := z\<rparr>],
      m1\<lparr>mainMemory := overlay (mainMemory m1) (nat (i * PageSize)) (take 128 (drop (nat p) exe))\<rparr>)"
    using loadPageFrame_ok [of m1 c t i v p "m_tID m" exe] owns_clean [OF o] len t i v p(1) assms(2) by (auto simp: m1_def)
  define t' where "t' = t[nat v := (t ! nat v)\<lparr>te_vpn := v, te_ppn := i, te_valid := True, te_FIFOFlag := z\<rparr>]"
  define m' where "m' = m1\<lparr>mainMemory := overlay (mainMemory m) (nat (i * PageSize)) (take 128 (drop (file_offset m v) exe)), pt := Some t'\<rparr>"
  have ld: "loadPageFrame c m1 (m_tID m) t v i p exe = Inr (t', m1\<lparr>mainMemory := mainMemory m'\<rparr>)"
    using z p(2) assms(2) by (simp add: t'_def m'_def page_slot_def loaded_entry_def m1_def)
  have rr: "ReadRegister m 2 = Inr (registers m ! 2)" "ReadRegister m1 (int BadVAddrReg) = Inr (registers m ! BadVAddrReg)"
    using len(2) ReadRegister_ok [of m 2] ReadRegister_ok [of m1 BadVAddrReg] by (simp_all add: reg_consts m1_def)
  have "bm_FindAndSet (mmBitmap m) = Inr (- 1, mmBitmap m)" using bm.find_full [OF b(1)] b(2) assms(5) by simp
  then have "findAvailablePageFrame m1 = Inr (- 1, m1)" by (simp add: findAvailablePageFrame_def m1_def)
  moreover have "findOneToReplace c m1 t False = Inr i" using assms(2,8) t by (simp add: findOneToReplace_def m1_def)
  ultimately have "handle_page_fault c m = Inr (Resumed m')"
    unfolding handle_page_fault_def m1_def [symmetric] Let_def
    using rr(2) assms(4) [unfolded page_of_def] ld t(1) assms(6) by (simp add: p_def m1_def [symmetric]) (simp add: m1_def m'_def)
  then have "ExceptionHandler c space PageFaultException m = Inr (Resumed m')" using rr(1) by (simp add: ExceptionHandler_def handle_table_exception_def)
  moreover have fr: "frame_bytes (mainMemory m') i = filled exe (file_offset m v) (frame_bytes (mainMemory m) i)" "length (mainMemory m') = nat MemorySize"
    using overlay_frames(1,2) [OF len(1) i, of "file_offset m v" exe] len(1) by (simp_all add: m'_def)
  moreover have "table_view c t' (m_tID m') v = Some (i, te_readOnly (t ! nat v))" "table_view c t' (m_tID m') q = Some (i, ro)"
    using v q qv assms(2) by (auto simp: table_view_def t'_def nth_list_update nat_eq_iff split: if_splits)
  moreover have "pt m' = Some t'" "m_vmFile m' = m_vmFile m" "m_tID m' = m_tID m" by (simp_all add: m'_def m1_def)
  moreover have "0 \<le> q" using q assms(2) by (auto simp: table_view_def split: if_splits)
  ultimately show ?thesis using qv v(1) i
    by (intro exI [of _ m']) (auto simp: table_byte_eq [OF fr(2)] PageSize_def)
qed


text \<open>Page 0 is in frame 1, and the frames that it leaves belong to others.\<close>

definition crowded_program :: machine where
  "crowded_program = fresh_program\<lparr>pt := Some [(sample_entry 0)\<lparr>te_ppn := 1, te_FIFOFlag := 0\<rparr>, te_reset (sample_entry 0), te_reset (sample_entry 0)],
     mmBitmap := \<lparr>numBits = 128, numWords = 4, bmap = replicate 4 (- 1)\<rparr>\<rparr>"

lemma crowded_bitmap:
  "bm_wf \<lparr>numBits = 128, numWords = 4, bmap = replicate 4 (- 1)\<rparr>" "bm_set \<lparr>numBits = 128, numWords = 4, bmap = replicate 4 (- 1)\<rparr> = {0..<NumPhysPages}"
proof -
  show "bm_wf \<lparr>numBits = 128, numWords = 4, bmap = replicate 4 (- 1)\<rparr>" by (simp add: bm_wf_def divRoundUp_def)
  have "nat (i div 32) < 4 \<and> nat (i mod 32) < 32" if "0 \<le> i" "i < 128" for i :: int using that by (simp add: nat_less_iff)
  then show "bm_set \<lparr>numBits = 128, numWords = 4, bmap = replicate 4 (- 1)\<rparr> = {0..<NumPhysPages}" by (auto simp: bm_set_def bm_bit_def NumPhysPages_def)
qed

lemma crowded_paged: "paged linear_config crowded_program"
proof -
  have "owns linear_config (mmBitmap crowded_program) (the (pt crowded_program)) 0"
    by (auto simp: owns_def crowded_program_def linear_config_def te_reset_def sample_entry_def crowded_bitmap less_Suc_eq NumPhysPages_def)
  then show ?thesis
    by (simp add: paged_def machine_wf_def crowded_program_def fresh_program_def sample_machine_def linear_config_def crowded_bitmap machine_consts)
qed

theorem full_memory_aliases_pages_witness:
  "\<exists>m'. ExceptionHandler linear_config (Some 3) PageFaultException crowded_program = Inr (Resumed m')
     \<and> table_byte linear_config m' 5 = table_byte linear_config m' 133"
proof -
  have "\<not> USE_RPT linear_config" "unmapped linear_config crowded_program 1" "page_of (registers crowded_program ! BadVAddrReg) = 1"
    "bm_set (mmBitmap crowded_program) = {0..<NumPhysPages}" "currentOpenedFile crowded_program = Some (replicate 600 9)"
    "0 \<le> inFileAddr (seg_code (currentNoffHeader crowded_program))"
    "table_view linear_config (the (pt crowded_program)) (m_tID crowded_program) 0 = Some (1, False)"
    by (simp_all add: unmapped_def table_view_def crowded_program_def fresh_program_def linear_config_def te_reset_def crowded_bitmap
      fresh_header_def zero_header_def page_of_def reg_consts PageSize_def sample_entry_def)
  moreover have "findOneToReplace linear_config crowded_program (the (pt crowded_program)) False = Inr 1"
    by (simp add: findOneToReplace_def replace_loop.simps linear_config_def crowded_program_def fresh_program_def te_reset_def sample_entry_def INT_MAX_def aread_def)
  ultimately obtain m' where m': "ExceptionHandler linear_config (Some 3) PageFaultException crowded_program = Inr (Resumed m')"
    "\<forall>j. 0 \<le> j \<and> j < PageSize \<longrightarrow> table_byte linear_config m' (0 * PageSize + j) = table_byte linear_config m' (1 * PageSize + j)"
    using full_memory_aliases_pages [of linear_config crowded_program 1 "replicate 600 9" 1 0 False "Some 3"] crowded_paged by blast
  then show ?thesis using m'(2) [rule_format, of 5] by (simp add: PageSize_def)
qed

section \<open>System calls\<close>

lemma free_rpt_ok:
  assumes "bm_wf b" "numBits b = int (length t)" "distinct is" "\<forall>i \<in> set is. i < length t" "tid \<noteq> - 1"
  shows "\<exists>t' b'. free_rpt tid t b is = Inr (t', b') \<and> bm_wf b' \<and> numBits b' = numBits b \<and> length t' = length t
    \<and> bm_set b' = bm_set b - {int j | j. j \<in> set is \<and> te_tID (t ! j) = tid}
    \<and> (\<forall>j < length t. t' ! j = (if j \<in> set is \<and> te_tID (t ! j) = tid then te_reset (t ! j) else t ! j))"
  using assms
proof (induction "is" arbitrary: t b)
  case Nil
  then show ?case by auto
next
  case (Cons i js)
  then have i: "i < length t" "i \<notin> set js" by auto
  show ?case
  proof (cases "te_tID (t ! i) = tid")
    case True
    obtain b1 where b1: "bm_Clear b (int i) = Inr b1" "bm_wf b1" "numBits b1 = numBits b" "bm_set b1 = bm_set b - {int i}"
      using bm.clear_law [OF Cons.prems(1), of "int i"] i Cons.prems(2) by auto
    let ?t = "t[i := te_reset (t ! i)]"
    obtain t' b' where ih: "free_rpt tid ?t b1 js = Inr (t', b')" "bm_wf b'" "numBits b' = numBits b1" "length t' = length t"
      "bm_set b' = bm_set b1 - {int j | j. j \<in> set js \<and> te_tID (?t ! j) = tid}"
      "\<forall>j < length t. t' ! j = (if j \<in> set js \<and> te_tID (?t ! j) = tid then te_reset (?t ! j) else ?t ! j)"
      using Cons.IH [of b1 ?t] Cons.prems b1 by auto
    have e: "?t ! j = t ! j" if "j \<in> set js" for j using that i by (metis nth_list_update_neq)
    have "{int j | j. j \<in> set js \<and> te_tID (?t ! j) = tid} = {int j | j. j \<in> set js \<and> te_tID (t ! j) = tid}" using e by auto
    then have "bm_set b' = bm_set b - {int j | j. j \<in> set (i # js) \<and> te_tID (t ! j) = tid}" using ih(5) b1(4) True by auto
    moreover have "\<forall>j < length t. t' ! j = (if j \<in> set (i # js) \<and> te_tID (t ! j) = tid then te_reset (t ! j) else t ! j)"
      using ih(6) i True by (auto simp: nth_list_update)
    ultimately show ?thesis using ih b1 i True by simp
  next
    case False
    then show ?thesis using Cons.IH [of b t] Cons.prems i by (auto split: if_splits)
  qed
qed


lemma free_linear_ok:
  assumes "bm_wf b" "\<forall>i \<in> set is. i < length t \<and> (te_valid (t ! i) \<longrightarrow> 0 \<le> te_ppn (t ! i) \<and> te_ppn (t ! i) < numBits b)"
  shows "\<exists>b'. free_linear t b is = Inr b' \<and> bm_wf b' \<and> numBits b' = numBits b
    \<and> bm_set b' = bm_set b - {te_ppn (t ! j) | j. j \<in> set is \<and> te_valid (t ! j)}"
  using assms
proof (induction "is" arbitrary: b)
  case Nil
  then show ?case by auto
next
  case (Cons i js)
  show ?case
  proof (cases "te_valid (t ! i)")
    case True
    obtain b1 where b1: "bm_Clear b (te_ppn (t ! i)) = Inr b1" "bm_wf b1" "numBits b1 = numBits b" "bm_set b1 = bm_set b - {te_ppn (t ! i)}"
      using bm.clear_law [OF Cons.prems(1), of "te_ppn (t ! i)"] Cons.prems(2) True by auto
    obtain b' where "free_linear t b1 js = Inr b'" "bm_wf b'" "numBits b' = numBits b1"
      "bm_set b' = bm_set b1 - {te_ppn (t ! j) | j. j \<in> set js \<and> te_valid (t ! j)}" using Cons.IH [of b1] Cons.prems b1 by auto
    then show ?thesis using b1 True Cons.prems(2) by (auto intro!: exI [of _ b'])
  next
    case False
    then show ?thesis using Cons.IH [of b] Cons.prems by auto
  qed
qed

text \<open>The frames that the tables give to the thread.\<close>

definition thread_frames :: "config \<Rightarrow> machine \<Rightarrow> int set" where
  "thread_frames c m =
     (if USE_RPT c then {int j | j. j < length (the (pt m)) \<and> te_tID (the (pt m) ! j) = m_tID m}
      else {te_ppn (the (pt m) ! j) | j. j < length (the (pt m)) \<and> te_valid (the (pt m) ! j)})"

text \<open>
  C19: The system call \<^verbatim>\<open>Exit\<close> ends the thread and gives back exactly the frames of its pages: every other frame that was in use stays in
  use, main memory is untouched, no entry of the TLB belongs to the thread any more, and in the inverted table
  all other threads keep their pages.
\<close>

theorem exit_releases_frames:
  assumes pg: "paged c m" and call: "registers m ! 2 = SC_Exit" and tid: "0 \<le> m_tID m" and sp: "\<not> USE_RPT c \<longrightarrow> pageTableSize m = n"
  shows "\<exists>m'. ExceptionHandler c (Some n) SyscallException m = Inr (Finished m')
    \<and> bm_set (mmBitmap m') = bm_set (mmBitmap m) - thread_frames c m \<and> bm_wf (mmBitmap m') \<and> mainMemory m' = mainMemory m
    \<and> (\<forall>tb. tlb m' = Some tb \<longrightarrow> (\<forall>e \<in> set tb. te_tID e \<noteq> m_tID m))
    \<and> (USE_RPT c \<longrightarrow> (\<forall>tid' v. tid' \<noteq> m_tID m \<and> tid' \<noteq> - 1 \<longrightarrow>
         table_view c (the (pt m')) tid' v = table_view c (the (pt m)) tid' v))"
proof -
  obtain t where t: "pt m = Some t" "int (length t) = (if USE_RPT c then NumPhysPages else pageTableSize m)" and len: "length (registers m) = NumTotalRegs"
    using pg by (auto simp: paged_def machine_wf_def)
  have o: "owns c (mmBitmap m) t (m_tID m)" and b: "bm_wf (mmBitmap m)" "numBits (mmBitmap m) = NumPhysPages" using pg t by (auto simp: paged_def)
  have "ReadRegister m 2 = Inr SC_Exit" using len call ReadRegister_ok [of m 2] by (simp add: NumTotalRegs_def)
  then have h: "ExceptionHandler c (Some n) SyscallException m = rbind (sys_Exit c (Some n) m) (\<lambda>m. Inr (Finished m))"
    by (simp add: ExceptionHandler_def handle_table_exception_def handle_syscall_def SC_Exit_def SC_Halt_def)
  show ?thesis
  proof (cases "USE_RPT c")
    case True
    then have n: "nat NumPhysPages = length t" using t(2) by simp
    obtain t' b' where f: "free_rpt (m_tID m) t (mmBitmap m) [0..<nat NumPhysPages] = Inr (t', b')" "bm_wf b'" "length t' = length t"
      "bm_set b' = bm_set (mmBitmap m) - {int j | j. j \<in> set [0..<length t] \<and> te_tID (t ! j) = m_tID m}"
      "\<forall>j < length t. t' ! j = (if te_tID (t ! j) = m_tID m then te_reset (t ! j) else t ! j)"
      using free_rpt_ok [OF b(1), of t "[0..<length t]" "m_tID m"] b(2) t(2) True tid unfolding n by (auto simp del: upt_rec_numeral)
    define m' where "m' = m\<lparr>pt := Some t', mmBitmap := b', tlb := map_option (map (\<lambda>e. if te_tID e = m_tID m then te_reset e else e)) (tlb m)\<rparr>"
    have "sys_Exit c (Some n) m = Inr m'" using True t(1) f(1) by (simp add: sys_Exit_def m'_def)
    moreover have "table_view c t' tid' v = table_view c t tid' v" if "tid' \<noteq> m_tID m" "tid' \<noteq> - 1" for tid' v
    proof -
      have e: "List.find (\<lambda>j. te_vpn (t' ! j) = v \<and> te_tID (t' ! j) = tid') [0..<length t]
        = List.find (\<lambda>j. te_vpn (t ! j) = v \<and> te_tID (t ! j) = tid') [0..<length t]"
        by (rule find_cong) (use f(5) that in \<open>auto simp: te_reset_def\<close>)
      have "t' ! j = t ! j" if "List.find (\<lambda>j. te_vpn (t ! j) = v \<and> te_tID (t ! j) = tid') [0..<length t] = Some j" for j
        using that f(5) \<open>tid' \<noteq> m_tID m\<close> by (auto simp: find_Some_iff)
      then show ?thesis using True by (cases "List.find (\<lambda>j. te_vpn (t ! j) = v \<and> te_tID (t ! j) = tid') [0..<length t]") (simp_all add: table_view_def f(3) e)
    qed
    ultimately show ?thesis using True h f t(1) tid
      by (intro exI [of _ m']) (auto simp: m'_def thread_frames_def te_reset_def simp del: upt_rec_numeral)
  next
    case False
    then have n: "n = int (length t)" using t(2) sp by simp
    have "\<forall>i \<in> set [0..<length t]. i < length t \<and> (te_valid (t ! i) \<longrightarrow> 0 \<le> te_ppn (t ! i) \<and> te_ppn (t ! i) < numBits (mmBitmap m))"
      using o bm.used_bounds [OF b(1)] False by (fastforce simp: owns_def)
    from free_linear_ok [OF b(1) this] obtain b' where f: "free_linear t (mmBitmap m) [0..<length t] = Inr b'" "bm_wf b'"
      "bm_set b' = bm_set (mmBitmap m) - {te_ppn (t ! j) | j. j \<in> set [0..<length t] \<and> te_valid (t ! j)}" by blast
    define m' where "m' = m\<lparr>m_vmFile := None, mmBitmap := b', tlb := map_option (map te_reset) (tlb m)\<rparr>"
    have "sys_Exit c (Some n) m = Inr m'"
      using False t(1) f(1) by (cases "length t = 0") (simp_all add: sys_Exit_def m'_def n)
    then show ?thesis using False h f t(1) tid by (intro exI [of _ m']) (auto simp: m'_def thread_frames_def te_reset_def)
  qed
qed

text \<open>
  The system call \<^verbatim>\<open>Add\<close> leaves the sum of its two arguments, modulo \<^term>\<open>2 ^ 32\<close>, in register 2, steps over the
  system call instruction and changes nothing else.
\<close>

theorem add_returns_sum:
  assumes "length (registers m) = NumTotalRegs" and "registers m ! 2 = SC_Add"
  shows "ExceptionHandler c space SyscallException m = Inr (Resumed (m\<lparr>registers := (registers m)
    [2 := registers m ! 4 + registers m ! 5, PrevPCReg := registers m ! PCReg, PCReg := registers m ! PCReg + 4, NextPCReg := registers m ! PCReg + 8]\<rparr>))"
  using assms by (simp add: ExceptionHandler_def handle_table_exception_def handle_syscall_def sys_Add_def SysAdd_def ReadRegister_def WriteRegister_def
      SC_Exit_def SC_Halt_def SC_Add_def aread_def awrite_def reg_consts nth_list_update) (simp add: add.commute)


definition exit_call :: machine where
  "exit_call = crowded_program\<lparr>registers := (replicate NumTotalRegs 0)[2 := SC_Exit]\<rparr>"

theorem exit_releases_frames_witness:
  "\<exists>m'. ExceptionHandler linear_config (Some 3) SyscallException exit_call = Inr (Finished m') \<and> bm_set (mmBitmap m') = {0..<NumPhysPages} - {1}"
proof -
  have "paged linear_config exit_call"
    using crowded_paged paged_registers [of crowded_program "(replicate NumTotalRegs 0)[2 := SC_Exit]" linear_config]
    by (simp add: exit_call_def crowded_program_def fresh_program_def)
  moreover have "thread_frames linear_config exit_call = {1}"
    by (auto simp: thread_frames_def exit_call_def crowded_program_def linear_config_def te_reset_def sample_entry_def less_Suc_eq
      intro: exI [of _ 0])
  moreover have "registers exit_call ! 2 = SC_Exit" "0 \<le> m_tID exit_call" "\<not> USE_RPT linear_config \<longrightarrow> pageTableSize exit_call = 3"
    "bm_set (mmBitmap exit_call) = {0..<NumPhysPages}"
    by (simp_all add: exit_call_def crowded_program_def fresh_program_def sample_machine_def NumTotalRegs_def crowded_bitmap)
  ultimately show ?thesis using exit_releases_frames [of linear_config exit_call 3] by auto
qed

theorem add_returns_sum_witness:
  "\<exists>m'. ExceptionHandler linear_config None SyscallException (fresh_program\<lparr>registers := (replicate 40 0)[2 := SC_Add, 4 := - 1, 5 := 3]\<rparr>)
     = Inr (Resumed m') \<and> registers m' ! 2 = 2 \<and> registers m' ! PCReg = 4"
  using add_returns_sum [of "fresh_program\<lparr>registers := (replicate 40 0)[2 := SC_Add, 4 := - 1, 5 := 3]\<rparr>" linear_config None]
  by (simp add: reg_consts nth_list_update)

section \<open>The kernel's handler and the switch\<close>

text \<open>The handler of the kernel calls nothing that decodes instructions, so that no instruction of a user program ends in the default of the switch.\<close>

lemma cased_tables [simp]:
  "cased (replace_loop c t len k v j)" "cased (free_slot_loop t k)" "cased (bm_Test b n)" "cased (bm_Mark b n)" "cased (bm_Clear b n)"
  "cased (bm_find_loop b k)" "cased (ReadRegister m r)" "cased (WriteRegister m r x)" "cased (updateFIFOFlag t k len)"
proof -
  show "cased (replace_loop c t len k v j)"
  proof (induction "nat (len - k)" arbitrary: k v j rule: less_induct)
    case less
    then have "cased (replace_loop c t len (k + 1) v' j')" if "k < len" for v' j' using that by simp
    then show ?case by (subst replace_loop.simps) (auto simp: Let_def intro!: cased_rules)
  qed
  show "cased (free_slot_loop t k)" by (induction t k rule: free_slot_loop.induct) (subst free_slot_loop.simps, auto intro!: cased_rules)
  show bits: "cased (bm_Test b n)" "cased (bm_Mark b n)" "cased (bm_Clear b n)" for b n
    unfolding bm_Test_def bm_Mark_def bm_Clear_def Let_def by (intro cased_rules)+
  show "cased (bm_find_loop b k)"
    by (induction b k rule: bm_find_loop.induct) (subst bm_find_loop.simps, auto intro!: cased_rules bits)
  show "cased (ReadRegister m r)" "cased (WriteRegister m r x)" unfolding ReadRegister_def WriteRegister_def by (intro cased_rules)+
  show "cased (updateFIFOFlag t k len)" unfolding updateFIFOFlag_def by (intro cased_rules cased_loops)
qed

lemma cased_sys_Exit: "cased (sys_Exit c space m)"
proof -
  have "cased (free_rpt tid t b is)" for tid t b "is" by (induction tid t b "is" rule: free_rpt.induct) (auto intro!: cased_rules)
  moreover have "cased (free_linear t b is)" for t b "is" by (induction t b "is" rule: free_linear.induct) (auto intro!: cased_rules)
  ultimately show ?thesis unfolding sys_Exit_def by (intro cased_rules) simp_all
qed

lemma cased_handle_page_fault: "cased (handle_page_fault c m)"
proof -
  have "cased (loadPageFrame c m tid t vpn ppn a f)" for m tid t vpn ppn a f unfolding loadPageFrame_def by (intro cased_rules cased_tables) simp_all
  then show ?thesis
    unfolding handle_page_fault_def findAvailablePageFrame_def bm_FindAndSet_def findOneToReplace_def Let_def by (intro cased_rules cased_tables) simp_all
qed

lemma cased_user_handler: "cased (user_handler c space which m)"
proof -
  have "cased (handle_syscall c space m)" for m
    unfolding handle_syscall_def sys_Add_def by (intro cased_rules cased_tables cased_sys_Exit) simp_all
  then have table: "cased (handle_table_exception c space e m)" for e m
    unfolding handle_table_exception_def by (intro cased_rules cased_tables cased_handle_page_fault) simp_all
  have "cased (updateTLB c m t e)" for m t e
    unfolding updateTLB_def findOneToReplace_def Let_def by (intro cased_rules cased_tables)
  then have "cased (ExceptionHandler c space which m)"
    unfolding ExceptionHandler_def Let_def by (intro cased_rules cased_tables cased_pageTableTranslation table) simp_all
  then show ?thesis unfolding user_handler_def by (intro cased_rules) (simp_all split: outcome.split)
qed

lemma user_instruction_handled: "OneInstruction c (user_handler c space) m \<noteq> Inl SwitchDefault"
  using OneInstruction_cased [OF cased_user_handler] by (simp add: cased_def)

end
