(* ===== verification/Kernel_Parts.thy ===== *)
theory Kernel_Parts
  imports Thread_Props
begin

text \<open>
  What scheduling and synchronisation leave alone. A part of the kernel's state is a predicate \<open>P\<close> with laws for the few ways in which
  scheduling changes threads; every call keeps such a part. The data of the routines built on threads and the context of a thread
  that is not running are parts in this sense.
\<close>

definition light :: "thread \<Rightarrow> thread \<Rightarrow> bool" where
  "light t t' \<longleftrightarrow> t_frames t' = t_frames t \<and> t_userRegisters t' = t_userRegisters t \<and> t_space t' = t_space t \<and> t_threadID t' = t_threadID t
     \<and> (t_status t' = JUST_CREATED \<longrightarrow> t_status t = JUST_CREATED)"

text \<open>
  \<open>P\<close> holds until the current thread changes, \<open>Q\<close> still holds then. \<open>born\<close> says which threads \<^verbatim>\<open>Fork\<close> may start.
\<close>

locale sched_part =
  fixes P Q :: "kernel \<Rightarrow> bool" and born :: "kernel \<Rightarrow> addr \<Rightarrow> bool"
  assumes same: "P k \<Longrightarrow> k_threads k' = k_threads k \<Longrightarrow> k_current k' = k_current k \<Longrightarrow> k_toBeDestroyed k' = k_toBeDestroyed k \<Longrightarrow> k_data k' = k_data k \<Longrightarrow> P k'"
    and touch: "P k \<Longrightarrow> k_threads k b = Some t \<Longrightarrow> light t t' \<Longrightarrow> P (k\<lparr>k_threads := (k_threads k)(b \<mapsto> t')\<rparr>)"
    and own: "P k \<Longrightarrow> P (k\<lparr>k_threads := (k_threads k)(k_current k \<mapsto> t)\<rparr>)"
    and create: "P k \<Longrightarrow> k_threads k b = None \<Longrightarrow> P (k\<lparr>k_threads := (k_threads k)(b \<mapsto> t)\<rparr>)"
    and begins: "P k \<Longrightarrow> born k b \<Longrightarrow> P (k\<lparr>k_threads := (k_threads k)(b \<mapsto> t)\<rparr>)"
    and destroy: "P k \<Longrightarrow> k_toBeDestroyed k = Some b \<Longrightarrow> P (k\<lparr>k_threads := (k_threads k)(b := None), k_toBeDestroyed := None\<rparr>)"
    and finish: "P k \<Longrightarrow> P (k\<lparr>k_toBeDestroyed := Some (k_current k)\<rparr>)"
    and switch: "P k \<Longrightarrow> k_threads k n = Some t \<Longrightarrow> Q (k\<lparr>k_current := n, k_threads := (k_threads k)(n \<mapsto> t\<lparr>t_status := RUNNING\<rparr>),
          k_machine := m\<lparr>m_tID := t_threadID t, m_vmFile := (case t_space t of None \<Rightarrow> None | Some sp \<Rightarrow> as_vmFile sp)\<rparr>\<rparr>)"
    and stays: "P k \<Longrightarrow> Q k"
begin

lemma fields [simp]:
  "P (k\<lparr>k_machine := m\<rparr>) = P k" "P (k\<lparr>k_readyList := rl\<rparr>) = P k" "P (k\<lparr>k_sortedReadyList := rl\<rparr>) = P k"
  "P (k\<lparr>k_threadArrQueue := q\<rparr>) = P k" "P (k\<lparr>k_threadArray := arr\<rparr>) = P k" "P (k\<lparr>k_blockList := bl\<rparr>) = P k" "P (k\<lparr>k_level := lv\<rparr>) = P k"
  "P (k\<lparr>k_pending := p\<rparr>) = P k" "P (k\<lparr>k_inHandler := b\<rparr>) = P k" "P (k\<lparr>k_yieldOnReturn := b\<rparr>) = P k" "P (k\<lparr>k_sems := ss\<rparr>) = P k"
  "P (k\<lparr>k_locks := ls\<rparr>) = P k" "P (k\<lparr>k_conds := cs\<rparr>) = P k" "P (k\<lparr>k_freshSem := fs\<rparr>) = P k" "P (k\<lparr>k_random := r\<rparr>) = P k" "P (k\<lparr>k_halted := b\<rparr>) = P k"
  by (rule iffI; erule same; simp)+

lemma updates [simp]:
  "P (ChangeLevel k lv) = P k" "P (setStatus k ms) = P k" "P (set_stats k sts) = P k" "P (put_lock k l x) = P k" "P (put_cond k cv y) = P k"
  "P (put_sem k s z) = P k"
  by (simp_all add: ChangeLevel_def setStatus_def set_stats_def put_lock_def put_cond_def put_sem_def)

section \<open>Sequences of calls\<close>

lemma part_bind: "yields r P \<Longrightarrow> (\<And>k. P k \<Longrightarrow> yields (f k) X) \<Longrightarrow> yields (rbind r f) X"
  unfolding yields_def rbind_Inr_iff by blast

lemma part_upd: "P k \<Longrightarrow> (\<And>t. light t (f t)) \<Longrightarrow> yields (upd_thread k b f) P"
  by (auto simp: yields_def elim!: upd_thread_Inr intro: touch)

lemma part_own: "P k \<Longrightarrow> yields (upd_thread k (k_current k) f) P"
  by (auto simp: yields_def elim!: upd_thread_Inr intro: own)

lemma part_push: "P k \<Longrightarrow> yields (push fs k) P"
  unfolding push_def by (rule part_own)

lemma part_pop: "P k \<Longrightarrow> pop k = Inr (f, k') \<Longrightarrow> P k'"
  by (auto simp: pop_def rbind_Inr_iff neq_Nil_conv dest: part_own [THEN yieldsD, rotated] split: list.split_asm)

lemma part_values:
  fixes g :: "'a result" and h :: "'a \<Rightarrow> 'b result"
  shows "(\<And>x. g = Inr x \<Longrightarrow> yields (h x) X) \<Longrightarrow> yields (rbind g h) X"
  by (rule yields_bind)

lemmas value_rules = part_values [of "al_Remove _ _"] part_values [of "al_Insert _ _ _"] part_values [of "al_Append _ _"] part_values [of "get_thread _ _"]
  part_values [of "aread _ _"] part_values [of "awrite _ _ _"] part_values [of "get_sem _ _"] part_values [of "get_lock _ _"] part_values [of "get_cond _ _"]
  part_values [of "al_RemoveFront _"] part_values [of "CheckOverflow _"] part_values [of "DelayedLoad _ _ _"]

lemma part_Inr: "P k \<Longrightarrow> yields (Inr k) P" "yields (Inl e) X"
  by simp_all

lemmas rules = value_rules part_Inr yields_assert yields_if yields_option yields_list yields_prod part_bind part_upd part_push

section \<open>Every call\<close>

lemma FindNextToRun_part: "P k \<Longrightarrow> yields (FindNextToRun k) (\<lambda>(r, k'). P k' \<and> k_current k' = k_current k)"
  by (auto simp: yields_def FindNextToRun_def nachos_res split: if_splits list.splits option.splits)

lemma ReadyToRun_part: "P k \<Longrightarrow> yields (ReadyToRun k a) P"
  unfolding ReadyToRun_def enqueue_ready_def Let_def by (intro rules) (simp_all add: light_def)

lemma V_body_part: "P k \<Longrightarrow> yields (V_body k s) P"
  unfolding V_body_def by (intro rules ReadyToRun_part) simp_all

lemma Schedule_part: "P k \<Longrightarrow> yields (Schedule k obj n type) P"
  unfolding Schedule_def Let_def by (intro rules) simp

lemma Timer_CallBack_part: "P k \<Longrightarrow> yields (Timer_CallBack k) P"
  unfolding Timer_CallBack_def Alarm_CallBack_def YieldOnReturn_def Timer_SetInterrupt_def
  by (intro rules Schedule_part) (simp_all add: light_def)

lemma Sleep_part: "P k \<Longrightarrow> yields (Sleep k fin) P"
  unfolding Sleep_def blockAThread_def by (intro rules) (simp_all add: light_def)

lemma synch_part:
  assumes "P k"
  shows "yields (exec_P k s) P" "yields (exec_P_loop k s old) P" "yields (exec_V k s) P" "yields (exec_Acquire k l) P" "yields (exec_set_lockHolder k l) P"
    "yields (exec_Release k l) P" "yields (exec_Wait k cv l) P" "yields (exec_Signal k cv l) P" "yields (exec_Broadcast k cv l) P" "yields (exec_Barrier k cv l) P"
  unfolding exec_P_def exec_P_loop_def exec_V_def exec_Acquire_def exec_set_lockHolder_def exec_Release_def exec_Wait_def exec_Signal_def
    exec_Broadcast_def exec_Barrier_def Let_def
  by (intro rules V_body_part Sleep_part; simp add: assms)+

lemma CheckToBeDestroyed_part: "P k \<Longrightarrow> yields (CheckToBeDestroyed k) P"
  unfolding CheckToBeDestroyed_def Thread_delete_def removeAThread_def
  by (auto simp: yields_def nachos_res get_thread_Inr split: option.splits)
    (erule (1) destroy [THEN same]; simp)

lemma reset_tlb_part: "P k \<Longrightarrow> yields (reset_tlb c k) (\<lambda>k'. P k' \<and> k_current k' = k_current k)"
  unfolding reset_tlb_def by (intro yields_rules) simp_all

lemma own_Inr: "upd_thread k a f = Inr k' \<Longrightarrow> k_current k = a \<Longrightarrow> P k \<Longrightarrow> P k' \<and> k_current k' = a"
  using part_own [of k f] by (auto simp: yields_def elim!: upd_thread_Inr)

lemma save_space_part:
  assumes "P k" "k_current k = a"
  shows "yields (save_space c k a) (\<lambda>k'. P k' \<and> k_current k' = a)"
  unfolding save_space_def SaveUserState_def
  by (rule yields_bind, rule yields_option)
    (auto simp: yields_def rbind_Inr_iff assms split: if_splits dest: own_Inr [OF _ assms(2,1)] own_Inr)

lemma Run_part:
  assumes "P k"
  shows "yields (Run c k n fin) Q"
proof -
  have "Q k'" if "Run c k n fin = Inr k'" for k'
  proof -
    from that obtain k1 k2 k3 t k4 k5 where r: "(if fin then rassert (k_toBeDestroyed k = None) (Inr (k\<lparr>k_toBeDestroyed := Some (k_current k)\<rparr>)) else Inr k) = Inr k1"
      "reset_tlb c k1 = Inr k2" "save_space c k2 (k_current k) = Inr k3" "push [after_SWITCH] k3 = Inr k4" "k_threads k4 n = Some t"
      "follow_current (k4\<lparr>k_current := n, k_threads := (k_threads k4)(n \<mapsto> t\<lparr>t_status := RUNNING\<rparr>)\<rparr>) = Inr k'"
      by (auto simp: Run_def Let_def nachos_res elim!: upd_thread_Inr)
    have "P k1" "k_current k1 = k_current k" using r(1) assms finish [OF assms] by (auto simp: nachos_res split: if_splits)
    then have "P k2" "k_current k2 = k_current k" using yieldsD [OF reset_tlb_part r(2)] by simp_all
    then have "P k3" using yieldsD [OF save_space_part r(3)] by simp
    then have "P k4" using yieldsD [OF part_push r(4)] by blast
    then have "Q (k4\<lparr>k_current := n, k_threads := (k_threads k4)(n \<mapsto> t\<lparr>t_status := RUNNING\<rparr>),
        k_machine := (k_machine k4)\<lparr>m_tID := t_threadID t, m_vmFile := (case t_space t of None \<Rightarrow> None | Some sp \<Rightarrow> as_vmFile sp)\<rparr>\<rparr>)"
      using switch r(5) by blast
    then show ?thesis using r(6) by (auto simp: follow_current_def nachos_res get_thread_Inr)
  qed
  then show ?thesis by (simp add: yields_def)
qed

lemma thread_part:
  assumes "P k"
  shows "yields (Thread_new k a prio remain) P" "yields (exec_Fork_check k) P" "yields (exec_ThreadBegin k) P" "yields (exec_Finish k) P"
    "yields (exec_after_SWITCH c k) P" "born k a \<Longrightarrow> yields (exec_Fork k a body) P"
proof -
  have "P (k\<lparr>k_threadArray := arr, k_threads := (k_threads k)(a \<mapsto> t)\<rparr>)" if "k_threads k a = None" for arr t
    by (rule same [OF create [OF assms that, of t]]) simp_all
  then show "yields (Thread_new k a prio remain) P"
    by (auto simp: yields_def Thread_new_def addAThread_def nachos_res split: if_splits)
  show "yields (exec_Fork_check k) P" unfolding exec_Fork_check_def by (intro rules) (simp_all add: assms)
  show "yields (exec_ThreadBegin k) P" unfolding exec_ThreadBegin_def by (intro rules CheckToBeDestroyed_part) (simp_all add: assms)
  show "yields (exec_Finish k) P" unfolding exec_Finish_def by (rule Sleep_part) (simp add: assms)
  show "yields (exec_after_SWITCH c k) P"
    unfolding exec_after_SWITCH_def RestoreUserState_def by (intro rules CheckToBeDestroyed_part) (simp_all add: assms)
  assume b: "born k a"
  have "yields (StackAllocate k a body) P"
    using begins [OF assms b] by (auto simp: yields_def StackAllocate_def elim!: upd_thread_Inr)
  then show "yields (exec_Fork k a body) P"
    unfolding exec_Fork_def Let_def by (rule part_bind) (intro rules ReadyToRun_part, simp)
qed

lemma exec_Yield_part:
  assumes "P k"
  shows "yields (exec_Yield D c k) Q"
proof -
  have "Q k'" if "exec_Yield D c k = Inr k'" for k'
  proof -
    from that obtain r k1 k2 where r: "FindNextToRun (ChangeLevel k IntOff) = Inr (r, k1)" "push [SetLevel (k_level k)] k1 = Inr k2"
      "(case r of None \<Rightarrow> Inr k2 | Some n \<Rightarrow> rbind (ReadyToRun k2 (k_current k)) (\<lambda>k. Run c k n False)) = Inr k'"
      by (auto simp: exec_Yield_def Let_def rbind_Inr_iff)
    have "P k2" using yieldsD [OF FindNextToRun_part r(1)] yieldsD [OF part_push r(2)] assms by simp
    then show ?thesis
      using r(3) stays by (cases r) (auto simp: rbind_Inr_iff dest: yieldsD [OF ReadyToRun_part] intro: yieldsD [OF Run_part])
  qed
  then show ?thesis by (simp add: yields_def)
qed

end

section \<open>Interrupts\<close>

text \<open>The handlers of the devices keep the part, too.\<close>

locale kernel_part = sched_part +
  fixes D :: devices
  assumes device: "P k \<Longrightarrow> D n k = Inr k' \<Longrightarrow> P k'"
begin

lemma CallBack_part: "P k \<Longrightarrow> yields (CallBack D obj k) P"
  by (cases obj) (simp_all add: CallBack_def Timer_CallBack_part, simp add: yields_def device)

lemma due_loop_part: "P k \<Longrightarrow> yields (due_loop n D k) P"
proof (induction n arbitrary: k)
  case (Suc n)
  then show ?case unfolding due_loop.simps by (intro rules CallBack_part Suc.IH) simp_all
qed simp

lemma CheckIfDue_part: "P k \<Longrightarrow> yields (CheckIfDue D k adv) (\<lambda>(b, k'). P k')"
  unfolding CheckIfDue_def Let_def by (intro yields_rules) (auto dest!: yieldsD [OF due_loop_part, rotated])

lemma OneTick_part: "P k \<Longrightarrow> yields (OneTick D k) P"
  unfolding OneTick_def Let_def by (intro yields_rules) (auto dest!: yieldsD [OF CheckIfDue_part, rotated] intro!: part_push split: if_splits)

lemma Idle_part: "P k \<Longrightarrow> yields (Idle D k) P"
  unfolding Idle_def by (intro yields_rules) (auto dest!: yieldsD [OF CheckIfDue_part, rotated])

lemma tick_part:
  assumes "P k"
  shows "yields (exec_SetLevel D k now) P" "yields (exec_UserRun D c k) P" "yields (exec_Sleep_loop D c k fin) Q"
proof -
  show "yields (exec_SetLevel D k now) P" unfolding exec_SetLevel_def Let_def by (intro rules OneTick_part) (simp_all add: assms)
  have "yields (rbind (push [UserRun] (k\<lparr>k_machine := m\<rparr>)) (OneTick D)) P" for m by (intro part_bind part_push OneTick_part) (simp_all add: assms)
  moreover have "yields (exec_Finish (k\<lparr>k_machine := m\<rparr>)) P" for m by (rule thread_part) (simp add: assms)
  ultimately show "yields (exec_UserRun D c k) P"
    unfolding exec_UserRun_def by (intro yields_bind) (auto simp: assms split: control.split)
  have i: "yields (rbind (push [Sleep_loop fin] k1) (Idle D)) Q" if "P k1" for k1
    using part_bind [OF part_push [OF that] Idle_part] stays by (auto simp: yields_def)
  show "yields (exec_Sleep_loop D c k fin) Q"
    unfolding exec_Sleep_loop_def
    by (rule yields_bind, rule yields_prod, rule yields_option) (auto dest!: yieldsD [OF FindNextToRun_part [OF assms]] intro: i Run_part)
qed

text \<open>Every call but those of the routines that are built on threads.\<close>

lemma frame_stays:
  assumes "P k" "\<And>op. f \<noteq> Client op" "\<And>a body. f = Fork a body \<Longrightarrow> born k a" "f \<noteq> Yield" "\<And>fin. f \<noteq> Sleep_loop fin"
  shows "yields (exec_frame D c k f) P"
proof -
  note calls = synch_part [OF assms(1)] thread_part [OF assms(1)] tick_part(1,2) [OF assms(1)] part_upd [OF assms(1)]
  show ?thesis
  proof (cases f)
    case (Client op)
    then show ?thesis using assms(2) by blast
  qed (use assms in \<open>simp_all add: exec_frame_def calls light_def\<close>)
qed

lemma frame_part:
  assumes "P k" "\<And>op. f \<noteq> Client op" "\<And>a body. f = Fork a body \<Longrightarrow> born k a"
  shows "yields (exec_frame D c k f) Q"
proof (cases "f = Yield \<or> (\<exists>fin. f = Sleep_loop fin)")
  case True
  then show ?thesis using exec_Yield_part [OF assms(1)] tick_part(3) [OF assms(1)] by (auto simp: exec_frame_def)
next
  case False
  then have "yields (exec_frame D c k f) P" using frame_stays assms by blast
  then show ?thesis by (auto simp: yields_def intro: stays)
qed

end

section \<open>Parts that do not depend on the data of the routines\<close>

locale plain_part = sched_part +
  assumes no_data [simp]: "P (k\<lparr>k_data := d\<rparr>) = P k"
begin

lemma upd_data_plain [simp]: "P (upd_data f k) = P k" "P (put_list sl x xs k) = P k"
  by (simp_all add: upd_data_def put_list_def)

lemma plain_Inr:
  "V_body k s = Inr k' \<Longrightarrow> P k \<Longrightarrow> P k'" "Schedule k obj n type = Inr k' \<Longrightarrow> P k \<Longrightarrow> P k'" "set_result x k = Inr k' \<Longrightarrow> P k \<Longrightarrow> P k'"
  by (erule (1) yieldsD [OF V_body_part, rotated], erule (1) yieldsD [OF Schedule_part, rotated])
    (unfold set_result_def, erule (1) yieldsD [OF part_own, rotated])

lemma Execute_plain: "Execute c k sp = Inr k' \<Longrightarrow> P k \<Longrightarrow> P k'"
  by (auto simp: Execute_def rbind_Inr_iff dest: yieldsD [OF part_own, rotated])

lemma device_plain:
  assumes "P k" "kernel_devices W n k = Inr k'"
  shows "P k'"
proof -
  have "yields (ConsoleInput_CallBack k) P" "yields (ConsoleOutput_CallBack k) P" "yields (NetworkInput_CallBack k) P"
    "yields (NetworkOutput_CallBack k) P" "yields (signal_device W n k) P"
    unfolding ConsoleInput_CallBack_def ConsoleOutput_CallBack_def NetworkInput_CallBack_def NetworkOutput_CallBack_def signal_device_def Let_def
    by ((intro yields_rules)?; use assms(1) in \<open>auto simp: yields_def elim!: plain_Inr\<close>)+
  then show ?thesis using assms(2) by (auto simp: kernel_devices_def yields_def split: if_splits)
qed

lemma client_plain:
  assumes "P k"
  shows "yields (client_step c op k) (\<lambda>(fs, k'). P k')"
  by (cases op; simp only: client_defs Let_def client.case; (intro yields_rules)?;
      use assms in \<open>auto elim!: plain_Inr Execute_plain split: if_splits nat.splits\<close>)

end

sublocale plain_part \<subseteq> kernel_part P Q born "kernel_devices W" for W
  by unfold_locales (rule device_plain)

context plain_part
begin

text \<open>The part survives every step but a switch of threads, and what is left of it survives that, too.\<close>

lemma frame_plain:
  assumes "P k" "\<And>a body. f = Fork a body \<Longrightarrow> born k a" "exec_frame (kernel_devices W) c k f = Inr k'"
  shows "Q k'" "f \<noteq> Yield \<Longrightarrow> (\<And>fin. f \<noteq> Sleep_loop fin) \<Longrightarrow> P k'"
proof -
  have c: "P k'" if f: "f = Client op" for op
  proof -
    obtain fs k1 where "client_step c op k = Inr (fs, k1)" "push fs k1 = Inr k'"
      using assms(3) f by (auto simp: exec_frame_def exec_Client_def rbind_Inr_iff)
    then have "P k1" using yieldsD [OF client_plain [OF assms(1)]] by fastforce
    then show ?thesis using yieldsD [OF part_push] \<open>push fs k1 = Inr k'\<close> by blast
  qed
  consider (client) op where "f = Client op" | (other) "\<And>op. f \<noteq> Client op" by blast
  then show "f \<noteq> Yield \<Longrightarrow> (\<And>fin. f \<noteq> Sleep_loop fin) \<Longrightarrow> P k'"
    by cases (erule c, rule yieldsD [OF frame_stays assms(3)], use assms in auto)
  show "Q k'"
  proof (cases "\<exists>op. f = Client op")
    case True
    then show ?thesis using c stays by blast
  next
    case False
    then show ?thesis by (intro yieldsD [OF frame_part assms(3)]) (use assms in auto)
  qed
qed

end

end
