(* ===== verification/Client_Laws.thy ===== *)
theory Client_Laws
  imports Kernel_Parts
begin

text \<open>
  Who changes the data of the routines that are built on threads. Scheduling and synchronisation do not; the interrupt handlers change only what
  belongs to their devices; so what a thread sees of its data between two of its own steps is the work of other threads.
\<close>

section \<open>Calls that leave the data alone\<close>

lemma state_data [simp]:
  "k_data (ChangeLevel k lv) = k_data k" "k_data (setStatus k ms) = k_data k" "k_data (set_stats k sts) = k_data k"
  "k_data (put_lock k l x) = k_data k" "k_data (put_cond k cv y) = k_data k" "k_data (put_sem k s z) = k_data k"
  by (simp_all add: ChangeLevel_def setStatus_def set_stats_def put_lock_def put_cond_def put_sem_def)

lemma upd_thread_data: "upd_thread k a f = Inr k' \<Longrightarrow> k_data k' = k_data k"
  by (auto elim!: upd_thread_Inr)

lemma push_data: "push fs k = Inr k' \<Longrightarrow> k_data k' = k_data k"
  by (auto simp: push_def dest: upd_thread_data)

lemma pop_data: "pop k = Inr (f, k') \<Longrightarrow> k_data k' = k_data k"
  by (auto simp: pop_def rbind_Inr_iff neq_Nil_conv dest: upd_thread_data split: list.split_asm)

interpretation data: sched_part "\<lambda>k. k_data k = d" "\<lambda>k. k_data k = d" "\<lambda>_ _. True" for d
  by unfold_locales auto

text \<open>The interrupt handlers.\<close>

lemma upd_data_data [simp]: "k_data (upd_data f k) = f (k_data k)"
  by (simp add: upd_data_def)

lemma V_body_data: "V_body k s = Inr k' \<Longrightarrow> k_data k' = k_data k"
  by (rule yieldsD [OF data.V_body_part [OF refl]])

lemma Schedule_data: "Schedule k obj n type = Inr k' \<Longrightarrow> k_data k' = k_data k"
  by (rule yieldsD [OF data.Schedule_part [OF refl]])

definition rest_of :: "client_data \<Rightarrow> client_data" where
  "rest_of d = d\<lparr>d_consoleIn := \<lparr>ci_polls = [], ci_incoming = EOF, ci_lock = 0, ci_waitFor = 0\<rparr>,
     d_consoleOut := \<lparr>co_written = co_written (d_consoleOut d), co_putBusy = False, co_lock = 0, co_waitFor = 0\<rparr>,
     d_networkIn := \<lparr>ni_inHdr = \<lparr>pkt_to = 0, pkt_from = 0, pkt_length = 0\<rparr>, ni_inbox = [], ni_polls = [], ni_messageAvailable = 0\<rparr>,
     d_networkOut := (d_networkOut d)\<lparr>no_sendBusy := False\<rparr>\<rparr>"

lemma kernel_devices_rest: "kernel_devices W n k = Inr k' \<Longrightarrow> rest_of (k_data k') = rest_of (k_data k)"
proof -
  have "yields (ConsoleInput_CallBack k) (\<lambda>k'. rest_of (k_data k') = rest_of (k_data k))"
    "yields (ConsoleOutput_CallBack k) (\<lambda>k'. rest_of (k_data k') = rest_of (k_data k))"
    "yields (NetworkInput_CallBack k) (\<lambda>k'. rest_of (k_data k') = rest_of (k_data k))"
    "yields (NetworkOutput_CallBack k) (\<lambda>k'. rest_of (k_data k') = rest_of (k_data k))"
    "yields (signal_device W n k) (\<lambda>k'. rest_of (k_data k') = rest_of (k_data k))"
    unfolding ConsoleInput_CallBack_def ConsoleOutput_CallBack_def NetworkInput_CallBack_def NetworkOutput_CallBack_def signal_device_def Let_def
    by ((intro yields_rules)?; auto simp: yields_def rest_of_def dest!: V_body_data Schedule_data)+
  then show "kernel_devices W n k = Inr k' \<Longrightarrow> rest_of (k_data k') = rest_of (k_data k)"
    by (auto simp: kernel_devices_def yields_def split: if_splits)
qed

section \<open>The steps that change the data\<close>

text \<open>A part of the data that the interrupt handlers do not touch changes only in the steps of the routines.\<close>

locale data_view =
  fixes D :: devices and view :: "client_data \<Rightarrow> 'a"
  assumes device_keeps: "D n k = Inr k' \<Longrightarrow> view (k_data k') = view (k_data k)"

sublocale data_view \<subseteq> part: kernel_part "\<lambda>k. view (k_data k) = v" "\<lambda>k. view (k_data k) = v" "\<lambda>_ _. True" D for v
  by unfold_locales (auto simp: device_keeps)

context data_view
begin

text \<open>Every step leaves the view alone, or is a step of a routine.\<close>

lemma step_cases:
  assumes "kernel_step D c k = Inr k'"
  obtains "view (k_data k') = view (k_data k)"
  | op k1 fs k2 where "pop k = Inr (Client op, k1)" "client_step c op k1 = Inr (fs, k2)" "k_data k1 = k_data k" "k_data k' = k_data k2"
proof (cases "k_halted k")
  case True
  then show thesis using assms that(1) by (simp add: kernel_step_def)
next
  case False
  then obtain f k1 where p: "pop k = Inr (f, k1)" "exec_frame D c k1 f = Inr k'" using assms by (auto simp: kernel_step_def rbind_Inr_iff)
  note d = pop_data [OF p(1)]
  show thesis
  proof (cases "\<exists>op. f = Client op")
    case True
    then obtain op where op: "f = Client op" by blast
    then obtain fs k2 where "client_step c op k1 = Inr (fs, k2)" "push fs k2 = Inr k'"
      using p(2) by (auto simp: exec_frame_def exec_Client_def rbind_Inr_iff)
    then show thesis using that(2) p(1) op d push_data by blast
  next
    case False
    then show thesis using yieldsD [OF part.frame_part [OF refl] p(2)] d that(1) by auto
  qed
qed

end

lemma kernel_data_view: "(\<And>d. look (rest_of d) = look d) \<Longrightarrow> data_view (kernel_devices W) look"
  by unfold_locales (metis kernel_devices_rest)

end
