(* ===== verification/Test_Laws.thy ===== *)
theory Test_Laws
  imports Token_Laws Client_Laws
begin

text \<open>
  The test of the bounded buffer in \<^verbatim>\<open>threads/kernel.cc\<close> (\<^verbatim>\<open>MyProducerConsumer1\<close>): whatever the policy of the scheduler and whenever interrupts
  come, the consumers get what has been produced, in order, and no access of the array is out of its bounds.
\<close>

section \<open>The data of the buffer\<close>

definition buf :: "client_data \<Rightarrow> int \<times> int \<times> int list \<times> int list" where
  "buf d = (d_high d, d_low d, d_produceArray d, d_consumed d)"

interpretation bv: data_view "kernel_devices W" buf for W
  by (rule kernel_data_view) (simp add: buf_def rest_of_def)

lemma client_buf:
  assumes "client_step c op k = Inr (fs, k')" "\<And>i. op \<noteq> produce_item i" "op \<noteq> consume_item"
  shows "buf (k_data k') = buf (k_data k)"
proof -
  have "yields (client_step c op k) (\<lambda>(fs, k'). buf (k_data k') = buf (k_data k))"
    using assms(2,3)
    by (cases op; simp only: client_defs Let_def client.case; (intro yields_rules)?;
      auto simp: buf_def dest!: call_objects split: if_splits)
  then show ?thesis using assms(1) by (simp add: yields_def)
qed

definition buffer_ok :: "int list \<Rightarrow> client_data \<Rightarrow> bool" where
  "buffer_ok out d \<longleftrightarrow> int (length (d_produceArray d)) = MAX_PRODUCE_ARRAY_NUM \<and> - 1 \<le> d_low d \<and> d_low d < d_high d \<and> d_high d \<le> MAX_PRODUCE_ARRAY_NUM
     \<and> d_consumed d = out @ take (nat (d_low d + 1)) (d_produceArray d)"

lemma buffer_ok_buf: "buf d' = buf d \<Longrightarrow> buffer_ok out d' = buffer_ok out d"
  by (simp add: buffer_ok_def buf_def)

section \<open>What is counted\<close>

text \<open>The semaphore \<^verbatim>\<open>isFull\<close> against the items in the buffer, and each item by itself.\<close>

definition full_account :: "addr \<Rightarrow> account" where
  "full_account isFull = \<lparr>ac_lock = None, ac_sem = Some isFull, ac_produce = (\<lambda>_. - 1), ac_consume = 1\<rparr>"

definition item_account :: "(int \<Rightarrow> int) \<Rightarrow> account" where
  "item_account w = \<lparr>ac_lock = None, ac_sem = None, ac_produce = w, ac_consume = 0\<rparr>"

lemma accounts [simp]:
  "ac_lock (full_account f) = None" "ac_sem (full_account f) = Some f" "ac_produce (full_account f) = (\<lambda>_. - 1)" "ac_consume (full_account f) = 1"
  "ac_lock (item_account w) = None" "ac_sem (item_account w) = None" "ac_produce (item_account w) = w" "ac_consume (item_account w) = 0"
  "sound (full_account f) n" "sound (item_account w) n" "sem_value (item_account w) v = 0" "sem_value (full_account f) v = v f"
  by (simp_all add: full_account_def item_account_def sound_def sem_value_def)

lemma full_counter: "counter (full_account f) k = d_low (k_data k) - int (length (take (nat (d_high (k_data k))) (d_produceArray (k_data k))))"
  by (simp add: counter_def sum_list_triv)

lemma item_counter_eq: "counter (item_account w) k = sum_list (map w (take (nat (d_high (k_data k))) (d_produceArray (k_data k))))"
  by (simp add: counter_def)

lemma stack_ok_nonneg:
  assumes "\<forall>f \<in> set fs. 0 \<le> token A f \<and> frame_ok A f \<and> \<not> last_call f"
  shows "stack_ok A fs \<and> 0 \<le> tokens A fs"
  using assms by (induction fs) auto

lemma stack_ok_concat:
  assumes "\<forall>fs \<in> set fss. stack_ok A fs \<and> tokens A fs = 0"
  shows "stack_ok A (concat fss) \<and> tokens A (concat fss) = 0"
  using assms by (induction fss) (auto intro: stack_ok_append)

lemma Produce_full: "isEmpty \<noteq> isFull \<Longrightarrow> stack_ok (full_account isFull) (Produce isFull isEmpty l) \<and> tokens (full_account isFull) (Produce isFull isEmpty l) = 0"
  unfolding Produce_def by (rule stack_ok_concat) auto

lemma Consume_full: "isEmpty \<noteq> isFull \<Longrightarrow> stack_ok (full_account isFull) (Consume isFull isEmpty l) \<and> tokens (full_account isFull) (Consume isFull isEmpty l) = 0"
  unfolding Consume_def by (rule stack_ok_concat) auto

lemma tokens_concat: "tokens A (concat fss) = sum_list (map (tokens A) fss)"
  by (induction fss) simp_all

lemma Produce_item:
  assumes "\<forall>x. 0 \<le> w x"
  shows "stack_ok (item_account w) (Produce isFull isEmpty l)" "tokens (item_account w) (Produce isFull isEmpty l) = sum_list (map w [0..PRODUCE_TIMES - 1])"
proof -
  have "\<forall>f \<in> set (Produce isFull isEmpty l). 0 \<le> token (item_account w) f \<and> frame_ok (item_account w) f \<and> \<not> last_call f"
    using assms by (auto simp: Produce_def split: if_splits)
  then show "stack_ok (item_account w) (Produce isFull isEmpty l)" using stack_ok_nonneg by blast
  show "tokens (item_account w) (Produce isFull isEmpty l) = sum_list (map w [0..PRODUCE_TIMES - 1])"
    by (simp add: Produce_def tokens_concat comp_def)
qed

lemma Consume_item: "stack_ok (item_account w) (Consume isFull isEmpty l)" "tokens (item_account w) (Consume isFull isEmpty l) = 0"
  using stack_ok_concat [of "replicate CONSUME_TIMES [sem_P isFull, Acquire l, Client consume_item, Release l, sem_V isEmpty]" "item_account w"]
  by (simp_all add: Consume_def)

text \<open>The whole program.\<close>

definition pc_body :: "int \<Rightarrow> int \<Rightarrow> addr \<Rightarrow> addr \<Rightarrow> addr \<Rightarrow> addr \<Rightarrow> addr \<Rightarrow> addr \<Rightarrow> frame list" where
  "pc_body prio remain p c1 c2 isFull isEmpty l = MyProducerConsumer1 prio remain [p] [c1, c2] isFull isEmpty l @ [Client Halt]"

lemma pc_body_frames:
  "pc_body prio remain p c1 c2 isFull isEmpty l =
     [NewThread p prio remain, Fork p (Produce isFull isEmpty l), NewThread c1 prio remain, Fork c1 (Consume isFull isEmpty l),
      NewThread c2 prio remain, Fork c2 (Consume isFull isEmpty l), Client while_ready, Client Halt]"
  by (simp add: pc_body_def MyProducerConsumer1_def fork_all_def PRODUCER_NUM_def CONSUMER_NUM_def)

lemma pc_full:
  assumes "isEmpty \<noteq> isFull"
  shows "stack_ok (full_account isFull) (pc_body prio remain p c1 c2 isFull isEmpty l) \<and> tokens (full_account isFull) (pc_body prio remain p c1 c2 isFull isEmpty l) = 0"
  using Produce_full [OF assms] Consume_full [OF assms] by (simp add: pc_body_frames)

lemma pc_item:
  assumes "\<forall>x. 0 \<le> w x"
  shows "stack_ok (item_account w) (pc_body prio remain p c1 c2 isFull isEmpty l)"
    "tokens (item_account w) (pc_body prio remain p c1 c2 isFull isEmpty l) = sum_list (map w [0..PRODUCE_TIMES - 1])"
  using Produce_item [OF assms] Consume_item assms tokens_nonneg [OF Produce_item(1) [OF assms]] by (simp_all add: pc_body_frames)

lemma pc_calls: "calls_only (pc_body prio remain p c1 c2 isFull isEmpty l)"
  by (simp add: pc_body_frames calls_only_def)

section \<open>The start\<close>

definition buffer_private :: "kernel \<Rightarrow> addr \<Rightarrow> addr \<Rightarrow> addr \<Rightarrow> bool" where
  "buffer_private r isFull isEmpty s \<longleftrightarrow> distinct [isFull, isEmpty, s] \<and> (\<forall>l x. k_locks r l = Some x \<longrightarrow> l_semaphore x \<noteq> isFull) \<and> isFull < k_freshSem r
     \<and> (\<forall>cv y. k_conds r cv = Some y \<longrightarrow> isFull \<notin> set (c_waitQueue y)) \<and> isFull \<notin> device_sems (k_data r)"

lemma pc_objects [simp]:
  "k_threads (MyProducerConsumer1_objects r f e l s) = k_threads r" "k_typeno (MyProducerConsumer1_objects r f e l s) = k_typeno r"
  "k_conds (MyProducerConsumer1_objects r f e l s) = k_conds r" "k_freshSem (MyProducerConsumer1_objects r f e l s) = k_freshSem r"
  "k_locks (MyProducerConsumer1_objects r f e l s) = (k_locks r)(l \<mapsto> \<lparr>l_semaphore = s, l_lockHolder = None\<rparr>)"
  "k_sems (MyProducerConsumer1_objects r f e l s) = (k_sems r)(f \<mapsto> \<lparr>s_value = 0, s_queue = []\<rparr>, e \<mapsto> \<lparr>s_value = MAX_PRODUCE_ARRAY_NUM, s_queue = []\<rparr>, s \<mapsto> \<lparr>s_value = 1, s_queue = []\<rparr>)"
  "k_data (MyProducerConsumer1_objects r f e l s) = (k_data r)\<lparr>d_high := 0, d_low := - 1, d_produceArray := replicate (nat MAX_PRODUCE_ARRAY_NUM) (- 1)\<rparr>"
  by (simp_all add: MyProducerConsumer1_objects_def upd_data_def put_lock_def put_sem_def)

lemma raw_pc: "raw_kernel r \<Longrightarrow> raw_kernel (MyProducerConsumer1_objects r f e l s)"
  by (simp add: raw_kernel_def MAX_PRODUCE_ARRAY_NUM_def)

lemma start_full:
  assumes "Kernel_Initialize c (MyProducerConsumer1_objects r isFull isEmpty l s) rs dbg a prio remain junk tlb0 pt0 ptsize exe hdr devs
      (pc_body prio' remain' p c1 c2 isFull isEmpty l) = Inr k0" "raw_kernel r" "buffer_private r isFull isEmpty s"
  shows "acc_inv (full_account isFull) (- 1) k0"
proof (rule start_acc_inv [OF assms(1)])
  have ne: "isEmpty \<noteq> isFull" "s \<noteq> isFull" using assms(3) by (auto simp: buffer_private_def)
  show "k_threads (MyProducerConsumer1_objects r isFull isEmpty l s) = Map.empty" using assms(2) by (simp add: raw_kernel_def)
  show "stack_ok (full_account isFull) (pc_body prio' remain' p c1 c2 isFull isEmpty l)" using pc_full [OF ne(1)] by blast
  show "objects_ok (full_account isFull) (MyProducerConsumer1_objects r isFull isEmpty l s)"
    using assms(3) ne(2) by (auto simp: objects_ok_def buffer_private_def device_sems_def split: if_splits)
  show "- 1 = sem_value (full_account isFull) (v_val (kview (MyProducerConsumer1_objects r isFull isEmpty l s)))
      + holding (MyProducerConsumer1_objects r isFull isEmpty l s) (ac_lock (full_account isFull))
      + counter (full_account isFull) (MyProducerConsumer1_objects r isFull isEmpty l s) + tokens (full_account isFull) (pc_body prio' remain' p c1 c2 isFull isEmpty l)"
    using pc_full [OF ne(1)] ne by (simp add: holding_def full_counter kview_def)
qed

lemma start_item:
  assumes "Kernel_Initialize c (MyProducerConsumer1_objects r isFull isEmpty l s) rs dbg a prio remain junk tlb0 pt0 ptsize exe hdr devs
      (pc_body prio' remain' p c1 c2 isFull isEmpty l) = Inr k0" "raw_kernel r" "\<forall>x. 0 \<le> w x"
  shows "acc_inv (item_account w) (sum_list (map w [0..PRODUCE_TIMES - 1])) k0"
  by (rule start_acc_inv [OF assms(1)])
    (use assms(2) pc_item [OF assms(3)] in \<open>simp_all add: raw_kernel_def objects_ok_def holding_def item_counter_eq\<close>)

section \<open>Every state\<close>

lemma buffer_step:
  assumes "kernel_step (kernel_devices W) c k = Inr k'" "buffer_ok out (k_data k)" "acc_inv (full_account isFull) (- 1) k'" "0 \<le> v_val (kview k') isFull"
  shows "buffer_ok out (k_data k')"
  using assms(1)
proof (cases rule: bv.step_cases)
  case 1
  then show ?thesis using assms(2) buffer_ok_buf by blast
next
  case (2 op k1 fs k2)
  have le: "d_low (k_data k') - int (length (take (nat (d_high (k_data k'))) (d_produceArray (k_data k')))) \<le> - 1"
    using tally_parts(1) [OF assms(3)] assms(4) by (simp add: holding_def full_counter)
  consider (produce) i where "op = produce_item i" | (consume) "op = consume_item" | (other) "\<And>i. op \<noteq> produce_item i" "op \<noteq> consume_item" by blast
  then show ?thesis
  proof cases
    case produce
    then have "k_data k' = (k_data k)\<lparr>d_produceArray := (d_produceArray (k_data k))[nat (d_high (k_data k)) := i], d_high := d_high (k_data k) + 1\<rparr>"
      "0 \<le> d_high (k_data k)" "nat (d_high (k_data k)) < length (d_produceArray (k_data k))"
      using 2 by (auto simp: client_step_def produce_item_step_def rbind_Inr_iff awrite_Inr)
    then show ?thesis using assms(2) by (auto simp: buffer_ok_def)
  next
    case consume
    then obtain x where d: "k_data k' = (k_data k)\<lparr>d_low := d_low (k_data k) + 1, d_consumed := d_consumed (k_data k) @ [x]\<rparr>"
      "aread (d_produceArray (k_data k)) (d_low (k_data k) + 1) = Inr x"
      using 2 by (auto simp: client_step_def consume_item_step_def rbind_Inr_iff)
    have x: "0 \<le> d_low (k_data k) + 1" "nat (d_low (k_data k) + 1) < length (d_produceArray (k_data k))" "x = d_produceArray (k_data k) ! nat (d_low (k_data k) + 1)"
      using d(2) by (auto simp: aread_def split: if_splits)
    have e: "nat (2 + d_low (k_data k)) = Suc (nat (d_low (k_data k) + 1))" using x(1) by linarith
    have "take (nat (2 + d_low (k_data k))) (d_produceArray (k_data k)) = take (nat (d_low (k_data k) + 1)) (d_produceArray (k_data k)) @ [x]"
      unfolding e x(3) by (rule take_Suc_conv_app_nth [OF x(2)])
    then show ?thesis using assms(2) le d(1) by (auto simp: buffer_ok_def)
  next
    case other
    then have "buf (k_data k2) = buf (k_data k1)" by (rule client_buf [OF 2(2)])
    then have "buf (k_data k') = buf (k_data k)" unfolding 2(3,4) .
    then show ?thesis using assms(2) buffer_ok_buf by blast
  qed
qed

lemma reaches_buffer:
  assumes "reaches (kernel_devices W) c k0 k" "k_inv k0" "acc_inv (full_account isFull) (- 1) k0" "\<forall>n. W n \<noteq> Some isFull" "buffer_ok out (k_data k0)"
  shows "buffer_ok out (k_data k)"
  using assms
proof (induction rule: reaches.induct)
  case (step k k')
  have r: "reaches (kernel_devices W) c k0 k'" using step.hyps by (rule reaches.step)
  have "acc_inv (full_account isFull) (- 1) k'" by (rule reaches_acc [OF r step.prems(1,2)]) (use step.prems(3) in auto)
  moreover have "0 \<le> v_val (kview k') isFull" using sched_invD(7) [OF signals.reaches_sched [OF r step.prems(1)]] by (simp add: wake_ok_def)
  ultimately show ?case using buffer_step [OF step.hyps(3)] step.IH step.prems by blast
qed

lemma count_le_distinct:
  assumes "\<forall>x. count_list xs x \<le> 1"
  shows "distinct xs"
  using assms
proof (induction xs)
  case (Cons y ys)
  have "count_list ys y = 0" using spec [OF Cons.prems, of y] by simp
  moreover have "count_list ys x \<le> 1" for x using spec [OF Cons.prems, of x] by (simp split: if_splits)
  ultimately show ?case using Cons.IH by (simp add: count_list_0_iff)
qed simp

lemma count_distinct_le: "distinct xs \<Longrightarrow> count_list xs x \<le> 1"
  by (induction xs) (auto simp: count_list_0_iff)

lemma sum_indicator: "sum_list (map (\<lambda>y. if y = x then 1 else 0 :: int) xs) = int (count_list xs x)"
  by (induction xs) auto

text \<open>A frame on top of the stack of a live thread weighs no more than what is left.\<close>

lemma top_token:
  assumes "acc_inv A n k" "k_threads k a = Some t" "t_frames t = f # fs" "0 \<le> sem_value A (v_val (kview k))"
  shows "counter A k + token A f \<le> n"
proof -
  have "a \<in> live k" "v_fr (kview k) a = f # fs" using assms(2,3) v_fr_thread [OF assms(2)] by (auto simp: live_def kview_def [of k])
  moreover have "stack_ok A (f # fs)" using assms(1) calculation(2) unfolding acc_inv_def stacks_ok_def by metis
  ultimately show ?thesis
    using tally_parts(2) [OF assms(1)] tokens_nonneg [of A fs] assms(4) holding_range [of k "ac_lock A"] by fastforce
qed

text \<open>
  C4: the bounded buffer of \<^verbatim>\<open>MyProducerConsumer1\<close> is safe. In every state that the system reaches, under each of the four policies and
  whenever interrupts come, at most \<^verbatim>\<open>MAX_PRODUCE_ARRAY_NUM\<close> items have been produced; they are different numbers below \<^verbatim>\<open>PRODUCE_TIMES\<close>; the
  consumers together have taken exactly the first \<^verbatim>\<open>low + 1\<close> of them, in the order of production and each only once, and never more than have been
  produced. A thread that is about to produce finds a free element of the array, and a thread that is about to consume finds an
  item that no one has consumed.
\<close>

theorem bounded_buffer_safe:
  assumes "raw_kernel r" "buffer_private r isFull isEmpty s" "\<forall>n. W n \<noteq> Some isFull"
    "Kernel_Initialize c (MyProducerConsumer1_objects r isFull isEmpty l s) rs dbg main prio remain junk tlb0 pt0 ptsize exe hdr devs
       (MyProducerConsumer1 prio' remain' [p] [c1, c2] isFull isEmpty l @ [Client Halt]) = Inr k0"
    "reaches (kernel_devices W) c k0 k"
  shows "- 1 \<le> d_low (k_data k) \<and> d_low (k_data k) < d_high (k_data k) \<and> d_high (k_data k) \<le> MAX_PRODUCE_ARRAY_NUM
    \<and> distinct (take (nat (d_high (k_data k))) (d_produceArray (k_data k)))
    \<and> set (take (nat (d_high (k_data k))) (d_produceArray (k_data k))) \<subseteq> {0..<PRODUCE_TIMES}
    \<and> d_consumed (k_data k) = d_consumed (k_data r) @ take (nat (d_low (k_data k) + 1)) (d_produceArray (k_data k))
    \<and> (\<forall>a t i fs. k_threads k a = Some t \<longrightarrow> t_frames t = Client (produce_item i) # fs \<longrightarrow> d_high (k_data k) < MAX_PRODUCE_ARRAY_NUM)
    \<and> (\<forall>a t fs. k_threads k a = Some t \<longrightarrow> t_frames t = Client consume_item # fs \<longrightarrow> d_low (k_data k) + 1 < d_high (k_data k))"
proof -
  let ?F = "full_account isFull" and ?d = "k_data k"
  note init = assms(4) [folded pc_body_def]
  have i0: "k_inv k0" by (rule Kernel_Initialize_inv [OF raw_pc [OF assms(1)] pc_calls init])
  have f0: "acc_inv ?F (- 1) k0" by (rule start_full [OF init assms(1,2)])
  have f: "acc_inv ?F (- 1) k" by (rule reaches_acc [OF assms(5) i0 f0]) (use assms(3) in auto)
  have v0: "0 \<le> v_val (kview k) isFull" using sched_invD(7) [OF signals.reaches_sched [OF assms(5) i0]] by (simp add: wake_ok_def)
  have it: "acc_inv (item_account w) (sum_list (map w [0..PRODUCE_TIMES - 1])) k" if "\<forall>x. 0 \<le> w x" for w
    by (rule reaches_acc [OF assms(5) i0 start_item [OF init assms(1) that]]) simp_all
  have d0: "k_data k0 = k_data (MyProducerConsumer1_objects r isFull isEmpty l s)"
    using assms(1) by (auto simp: raw_kernel_def core_def intro: Kernel_Initialize_start [OF init])
  have "buffer_ok (d_consumed (k_data r)) (k_data k0)" unfolding d0 by (simp add: buffer_ok_def MAX_PRODUCE_ARRAY_NUM_def)
  then have b: "buffer_ok (d_consumed (k_data r)) ?d" by (rule reaches_buffer [OF assms(5) i0 f0 assms(3)])
  have len: "int (length (take (nat (d_high ?d)) (d_produceArray ?d))) = d_high ?d" using b by (auto simp: buffer_ok_def min_def)
  have cnt: "count_list (take (nat (d_high ?d)) (d_produceArray ?d)) x \<le> count_list [0..PRODUCE_TIMES - 1] x" for x
    using tally_parts(1) [OF it [of "\<lambda>y. if y = x then 1 else 0"]] by (simp add: holding_def item_counter_eq sum_indicator)
  have one: "count_list [0..PRODUCE_TIMES - 1] x \<le> 1" for x by (rule count_distinct_le) simp
  have "distinct (take (nat (d_high ?d)) (d_produceArray ?d))" using cnt one le_trans by (intro count_le_distinct) blast
  moreover have "set (take (nat (d_high ?d)) (d_produceArray ?d)) \<subseteq> {0..<PRODUCE_TIMES}"
  proof
    fix x assume "x \<in> set (take (nat (d_high ?d)) (d_produceArray ?d))"
    then have "count_list (take (nat (d_high ?d)) (d_produceArray ?d)) x \<noteq> 0" by (simp add: count_list_0_iff)
    then have "count_list [0..PRODUCE_TIMES - 1] x \<noteq> 0" using cnt [of x] by linarith
    then show "x \<in> {0..<PRODUCE_TIMES}" by (simp add: count_list_0_iff)
  qed
  moreover have "d_high ?d < MAX_PRODUCE_ARRAY_NUM" if "k_threads k a = Some t" "t_frames t = Client (produce_item i) # fs" for a t i fs
    using top_token [OF it [of "\<lambda>_. 1"] that] len by (simp add: item_counter_eq sum_list_triv test_consts)
  moreover have "d_low ?d + 1 < d_high ?d" if "k_threads k a = Some t" "t_frames t = Client consume_item # fs" for a t fs
    using top_token [OF f that] v0 len by (simp add: full_counter)
  ultimately show ?thesis using b unfolding buffer_ok_def by blast
qed

text \<open>
  A run: the main thread, at 0, has created the threads at 2, 7 and 9, and the producer has produced an item. The semaphores are 3, 4 and 6, the lock is 5.
\<close>

lemma Produce_start: "\<exists>rest. Produce f e l = sem_P e # Acquire l # Client (produce_item 0) # rest"
  by (simp add: Produce_def PRODUCE_TIMES_def upto_rec1)

lemma buffer_demo:
  obtains k0 k where "Kernel_Initialize demo_config (MyProducerConsumer1_objects (demo_raw 0) 3 4 5 6) False False 0 0 0 0 [] [] 0 None zero_header []
      (MyProducerConsumer1 0 0 [2] [7, 9] 3 4 5 @ [Client Halt]) = Inr k0"
     "checked_run 26 (kernel_devices Map.empty) demo_config k0 = Some k" "d_high (k_data k) = 1"
proof -
  obtain b where b: "Bitmap NumPhysPages = Inr b" using Bitmap_ok [of NumPhysPages] by (auto simp: NumPhysPages_def)
  have l: "add_thread_loop (replicate 128 None) 0 0 = Inr (0, Some 0 # replicate 127 None)"
    by (subst add_thread_loop.simps) (simp add: MaxThreadNum_def aread_def awrite_def numeral_eq_Suc)
  have l1: "add_thread_loop (Some 0 # replicate 127 None) 2 0 = Inr (1, Some 0 # Some 2 # replicate 126 None)"
    by (subst add_thread_loop.simps, subst add_thread_loop.simps) (simp add: MaxThreadNum_def aread_def awrite_def numeral_eq_Suc)
  have l2: "add_thread_loop (Some 0 # Some 2 # replicate 126 None) 7 0 = Inr (2, Some 0 # Some 2 # Some 7 # replicate 125 None)"
    by (subst add_thread_loop.simps, subst add_thread_loop.simps, subst add_thread_loop.simps) (simp add: MaxThreadNum_def aread_def awrite_def numeral_eq_Suc)
  have l3: "add_thread_loop (Some 0 # Some 2 # Some 7 # replicate 125 None) 9 0 = Inr (3, Some 0 # Some 2 # Some 7 # Some 9 # replicate 124 None)"
    by (subst add_thread_loop.simps, subst add_thread_loop.simps, subst add_thread_loop.simps, subst add_thread_loop.simps) (simp add: MaxThreadNum_def aread_def awrite_def numeral_eq_Suc)
  obtain rest where p: "Produce 3 4 5 = sem_P 4 # Acquire 5 # Client (produce_item 0) # rest" using Produce_start by blast
  have "calls_only (Produce 3 4 5)" "calls_only (Consume 3 4 5)"
    by (auto simp: calls_only_def no_sleep_def no_loop_def Produce_def Consume_def split: if_splits)
  then have cc: "no_sleep rest" "no_loop rest" "no_sleep (Consume 3 4 5)" "no_loop (Consume 3 4 5)" by (simp_all add: calls_only_def p)
  note init = Kernel_Initialize_def Thread_new_def addAThread_def demo_raw_def MaxThreadNum_def l upd_thread_def get_thread_def
      Alarm_def Timer_def Timer_SetInterrupt_def Scheduler_def Interrupt_def Schedule_def Let_def set_stats_def setStatus_def k_stats_def
      getStatus_def Machine_def b push_def follow_current_def TimerTicks_def insert_before_def QueueNum_def timeSlice_def Statistics_def
      MyProducerConsumer1_objects_def put_lock_def put_sem_def upd_data_def MyProducerConsumer1_def fork_all_def PRODUCER_NUM_def CONSUMER_NUM_def
      MAX_PRODUCE_ARRAY_NUM_def
  note run = checked_run_numeral exec_defs l1 l2 l3 p cc exec_Yield_def FindNextToRun_def Run_def reset_tlb_def save_space_def
      CheckOverflow_def exec_ThreadBegin_def CheckToBeDestroyed_def exec_Client_def client_step_def while_ready_step_def isReadyListEmpty_def
      exec_Acquire_def get_lock_def exec_set_lockHolder_def produce_item_step_def awrite_def demo_config_def
  have "\<exists>k0 k. Kernel_Initialize demo_config (MyProducerConsumer1_objects (demo_raw 0) 3 4 5 6) False False 0 0 0 0 [] [] 0 None zero_header []
      (MyProducerConsumer1 0 0 [2] [7, 9] 3 4 5 @ [Client Halt]) = Inr k0 \<and> checked_run 26 (kernel_devices Map.empty) demo_config k0 = Some k \<and> d_high (k_data k) = 1"
    by (simp add: init run)
  then show thesis using that by blast
qed

theorem bounded_buffer_safe_witness:
  "\<exists>k0 k. Kernel_Initialize demo_config (MyProducerConsumer1_objects (demo_raw 0) 3 4 5 6) False False 0 0 0 0 [] [] 0 None zero_header []
      (MyProducerConsumer1 0 0 [2] [7, 9] 3 4 5 @ [Client Halt]) = Inr k0 \<and> reaches (kernel_devices Map.empty) demo_config k0 k
      \<and> d_high (k_data k) = 1 \<and> set (take 1 (d_produceArray (k_data k))) \<subseteq> {0..<PRODUCE_TIMES}"
proof -
  obtain k0 k where k: "Kernel_Initialize demo_config (MyProducerConsumer1_objects (demo_raw 0) 3 4 5 6) False False 0 0 0 0 [] [] 0 None zero_header []
      (MyProducerConsumer1 0 0 [2] [7, 9] 3 4 5 @ [Client Halt]) = Inr k0" "checked_run 26 (kernel_devices Map.empty) demo_config k0 = Some k"
      "d_high (k_data k) = 1" by (rule buffer_demo)
  have r: "reaches (kernel_devices Map.empty) demo_config k0 k" by (rule checked_run_reaches [OF k(2)])
  have "raw_kernel (demo_raw 0)" "buffer_private (demo_raw 0) 3 4 6"
    by (simp_all add: raw_kernel_def buffer_private_def demo_raw_def demo_data_def device_sems_def Semaphore_def)
  from bounded_buffer_safe [OF this _ k(1) r] show ?thesis using k(1,3) r by auto
qed

section \<open>Readers and writers\<close>

text \<open>
  The last reader to leave need not be the reader that locked the writers out. When the only reader that is left in \<^verbatim>\<open>MyReader\<close> leaves and
  another thread is the holder of \<^verbatim>\<open>wLock\<close>, as when that thread was the first to enter and has left before, the program stops with a failed assertion
  in \<^verbatim>\<open>Lock::Release\<close>.
\<close>

theorem reader_release_fails:
  assumes "k_threads k (k_current k) = Some t" "t_frames t = Client (reader_leave wLock) # fs" "d_readerCount (k_data k) = 1"
    "k_locks k wLock = Some x" "l_lockHolder x = Some b" "b \<noteq> k_current k" "\<not> k_halted k"
  shows "kernel_run 2 D c k = Inl AssertFailed"
  using assms
  by (simp add: numeral_2_eq_2 kernel_step_def pop_def get_thread_def upd_thread_def exec_frame_def exec_Client_def client_step_def reader_leave_step_def
      Let_def upd_data_def push_def exec_Release_def get_lock_def IsHeldByCurrentThread_def rassert_def)

text \<open>Thread 1 is the holder of the lock 3, and thread 0, the current thread, leaves.\<close>

definition leaving_reader :: kernel where
  "leaving_reader = (demo_raw 0)\<lparr>k_threads := [0 \<mapsto> \<lparr>t_threadID = 0, t_priority = 0, t_timeSliceRemain = 0, t_status = RUNNING, t_stack = None, t_userRegisters = [],
       t_space = None, t_frames = [Client (reader_leave 3), Release 4], t_result = 0\<rparr>],
     k_locks := [3 \<mapsto> \<lparr>l_semaphore = 5, l_lockHolder = Some 1\<rparr>], k_data := demo_data\<lparr>d_readerCount := 1\<rparr>\<rparr>"

theorem reader_release_fails_witness: "kernel_run 2 (kernel_devices Map.empty) demo_config leaving_reader = Inl AssertFailed"
  by (rule reader_release_fails [where b = 1 and wLock = 3 and fs = "[Release 4]"]) (simp_all add: leaving_reader_def demo_raw_def, simp_all)

end
