(* ===== verification/Net_Laws.thy ===== *)
theory Net_Laws
  imports Client_Laws
begin

text \<open>
  The network and the post office: a message that is sent on one machine and not lost arrives on the other as it was sent, in the mailbox that its
  header names.
\<close>

section \<open>Headers in memory\<close>

definition int_range :: "int \<Rightarrow> bool" where
  "int_range i \<longleftrightarrow> - (2 ^ 31) \<le> i \<and> i < 2 ^ 31"

lemma sint_word: "int_range i \<Longrightarrow> sint (word_of_int i :: u32) = i"
  by (simp add: int_range_def signed_of_int signed_take_bit_int_eq_self)

lemma header_at_bytes:
  assumes "int_range to" "int_range from" "0 \<le> len" "len < 2 ^ 32"
  shows "length (header_bytes to from len) = 12" "int_at (header_bytes to from len @ bs) 0 = to" "int_at (header_bytes to from len @ bs) 1 = from"
    "uint_at (header_bytes to from len @ bs) 2 = len"
  using assms by (simp_all add: header_bytes_def int_at_def uint_at_def sint_word unsigned_of_int take_bit_int_eq_self)

lemma MailHeader_bytes_at:
  assumes "int_range (mail_to h)" "int_range (mail_from h)" "0 \<le> mail_length h" "mail_length h < 2 ^ 32"
  shows "length (MailHeader_bytes h) = 12" "MailHeader_at (MailHeader_bytes h @ bs) = h"
  using header_at_bytes [OF assms] by (simp_all add: MailHeader_bytes_def MailHeader_at_def)

lemma PacketHeader_bytes_at:
  assumes "int_range (pkt_to h)" "int_range (pkt_from h)" "0 \<le> pkt_length h" "pkt_length h < 2 ^ 32"
  shows "length (PacketHeader_bytes h) = 12" "PacketHeader_at (PacketHeader_bytes h @ bs) = h"
  using header_at_bytes [OF assms] by (simp_all add: PacketHeader_bytes_def PacketHeader_at_def)

section \<open>From one machine to another\<close>

text \<open>What \<^verbatim>\<open>Send\<close> of the post office passes to the network, and what that puts on the wire.\<close>

definition packet_for :: "int \<Rightarrow> packet_header \<Rightarrow> mail_header \<Rightarrow> packet_header" where
  "packet_for hostName pktHdr mailHdr = pktHdr\<lparr>pkt_from := hostName, pkt_length := mail_length mailHdr + sizeof_MailHeader\<rparr>"

definition on_wire :: "byte list \<Rightarrow> packet_header \<Rightarrow> byte list \<Rightarrow> byte list" where
  "on_wire new hdr bs = PacketHeader_bytes hdr @ bs @ drop (length bs + 12) new"

lemma Post_Send_frames:
  assumes "mail_length mailHdr = int (length msg)" "int (length msg) \<le> MaxMailSize" "0 \<le> mail_to mailHdr"
  shows "Post_Send_step pktHdr mailHdr msg k = Inr ([Acquire (no_sendLock (d_networkOut (k_data k))),
      Client (Network_Send (packet_for (d_hostName (k_data k)) pktHdr mailHdr) (MailHeader_bytes mailHdr @ msg)),
      sem_P (no_messageSent (d_networkOut (k_data k))), Release (no_sendLock (d_networkOut (k_data k)))], k)"
  using assms by (simp add: Post_Send_step_def Let_def bcopy_from_def packet_for_def)

lemma Network_Send_wire:
  assumes "\<not> no_sendBusy (d_networkOut (k_data k))" "pkt_length hdr = int (length bs)" "0 < length bs" "pkt_length hdr \<le> MaxPacketSize"
    "pkt_from hdr = d_hostName (k_data k)" "k_random k 0 mod 100 < no_chance (d_networkOut (k_data k))"
    "int_range (pkt_to hdr)" "int_range (pkt_from hdr)" "int (length (no_new (d_networkOut (k_data k)))) = MaxWireSize"
  shows "\<exists>k'. Network_Send_step hdr bs k = Inr ([], k')
    \<and> no_sent (d_networkOut (k_data k')) = no_sent (d_networkOut (k_data k)) @ [(pkt_to hdr, on_wire (no_new (d_networkOut (k_data k))) hdr bs)]"
proof -
  have l: "length (PacketHeader_bytes hdr) = 12" by (rule PacketHeader_bytes_at) (use assms in \<open>simp_all add: net_consts\<close>)
  show ?thesis
    using assms l
    by (simp add: Network_Send_step_def Let_def Schedule_def NetworkTime_def bcopy_from_def bcopy_to_def overlay_def net_consts on_wire_def)
qed

lemma NetworkInput_packet:
  assumes "pkt_length (ni_inHdr (d_networkIn (k_data k))) = 0" "ni_polls (d_networkIn (k_data k)) = Some (on_wire new hdr bs) # ps"
    "int (length new) = MaxWireSize" "pkt_length hdr = int (length bs)" "pkt_length hdr \<le> MaxPacketSize" "pkt_to hdr = d_hostName (k_data k)"
    "int_range (pkt_to hdr)" "int_range (pkt_from hdr)" "int (length (ni_inbox (d_networkIn (k_data k)))) = MaxPacketSize"
    "NetworkInput_CallBack k = Inr k'"
  shows "d_networkIn (k_data k') = (d_networkIn (k_data k))\<lparr>ni_inHdr := hdr, ni_polls := ps,
      ni_inbox := bs @ drop (length bs) (ni_inbox (d_networkIn (k_data k)))\<rparr> \<and> d_post (k_data k') = d_post (k_data k)"
proof -
  note h = PacketHeader_bytes_at [of hdr]
  have p: "length (PacketHeader_bytes hdr) = 12" "PacketHeader_at (on_wire new hdr bs) = hdr"
    using h assms by (simp_all add: net_consts on_wire_def)
  have "length (on_wire new hdr bs) = 64" using assms p(1) by (simp add: on_wire_def net_consts)
  moreover have "take (length bs) (drop 12 (on_wire new hdr bs)) = bs" using p(1) by (simp add: on_wire_def)
  moreover obtain k1 where k1: "Schedule k (Device 2) NetworkTime NetworkRecvInt = Inr k1" using assms(10) by (auto simp: NetworkInput_CallBack_def rbind_Inr_iff)
  moreover have d: "k_data k1 = k_data k" by (rule Schedule_data [OF k1])
  ultimately obtain k2 s where "V_body k2 s = Inr k'"
    "k_data k2 = (k_data k)\<lparr>d_networkIn := (d_networkIn (k_data k))\<lparr>ni_polls := ps, ni_inHdr := hdr, ni_inbox := bs @ drop (length bs) (ni_inbox (d_networkIn (k_data k)))\<rparr>\<rparr>"
    using assms p unfolding NetworkInput_CallBack_def by (simp add: Let_def bcopy_from_def bcopy_to_def overlay_def net_consts)
  then show ?thesis using V_body_data by simp
qed

lemma PostalDelivery_mail:
  assumes "pkt_length (ni_inHdr (d_networkIn (k_data k))) = int (12 + length msg)" "mail_length h = int (length msg)" "int (length msg) \<le> MaxMailSize"
    "ni_inbox (d_networkIn (k_data k)) = (MailHeader_bytes h @ msg) @ rest" "int (length (po_buffer (d_post (k_data k)))) = MaxPacketSize"
    "0 \<le> mail_to h" "mail_to h < int (length (po_boxes (d_post (k_data k))))" "int_range (mail_to h)" "int_range (mail_from h)"
  shows "\<exists>k'. PostalDelivery_receive_step k = Inr ([Client (SynchList_Append (po_boxes (d_post (k_data k)) ! nat (mail_to h)) (po_fresh (d_post (k_data k)))),
        Client PostalDelivery], k')
    \<and> po_mails (d_post (k_data k')) (po_fresh (d_post (k_data k))) = Some \<lparr>ml_pktHdr = ni_inHdr (d_networkIn (k_data k)), ml_mailHdr = h, ml_data = msg\<rparr>
    \<and> pkt_length (ni_inHdr (d_networkIn (k_data k'))) = 0"
proof -
  note m = MailHeader_bytes_at [of h]
  have p: "length (MailHeader_bytes h) = 12" "MailHeader_at (MailHeader_bytes h @ bs) = h" for bs using m assms by (simp_all add: net_consts)
  show ?thesis
    using assms p
    by (simp add: PostalDelivery_receive_step_def NetworkInput_Receive_def Let_def bcopy_from_def bcopy_to_def overlay_def Mail_def net_consts nat_add_distrib)
qed

text \<open>A machine that can take a packet: no packet is waiting for the postal worker, and the buffers have their sizes.\<close>

definition receiver_ready :: "int \<Rightarrow> kernel \<Rightarrow> bool" where
  "receiver_ready hostName k \<longleftrightarrow> d_hostName (k_data k) = hostName \<and> pkt_length (ni_inHdr (d_networkIn (k_data k))) = 0
     \<and> int (length (ni_inbox (d_networkIn (k_data k)))) = MaxPacketSize \<and> int (length (po_buffer (d_post (k_data k)))) = MaxPacketSize"

text \<open>A machine whose network device can send.\<close>

definition sender_ready :: "int \<Rightarrow> kernel \<Rightarrow> bool" where
  "sender_ready hostName k \<longleftrightarrow> d_hostName (k_data k) = hostName \<and> \<not> no_sendBusy (d_networkOut (k_data k))
     \<and> int (length (no_new (d_networkOut (k_data k)))) = MaxWireSize"

text \<open>
  C12: mail arrives. \<^verbatim>\<open>PostOfficeOutput::Send\<close>, for a message that is not too long, calls the network between \<^verbatim>\<open>Acquire\<close> and \<^verbatim>\<open>Release\<close> of the send lock;
  when the random number does not make the network lose the packet, one packet goes out to the machine that the header names. When the interrupt handler of
  that machine has read this packet from its socket, the postal worker puts a message into the mailbox that the mail header names: with the
  same mail header, the same data, and the name of the sender.
\<close>

theorem mail_delivered:
  assumes "mail_length h = int (length msg)" "int (length msg) \<le> MaxMailSize" "0 \<le> mail_to h" "int_range (mail_to h)" "int_range (mail_from h)"
    "int_range (pkt_to pkt)" "int_range (d_hostName (k_data kA))" "sender_ready (d_hostName (k_data kA)) kA'"
    "k_random kA' 0 mod 100 < no_chance (d_networkOut (k_data kA'))"
  shows "\<exists>lk sm p bs kS wire. Post_Send_step pkt h msg kA = Inr ([Acquire lk, Client (Network_Send p bs), sem_P sm, Release lk], kA)
    \<and> Network_Send_step p bs kA' = Inr ([], kS) \<and> no_sent (d_networkOut (k_data kS)) = no_sent (d_networkOut (k_data kA')) @ [(pkt_to pkt, wire)]
    \<and> (\<forall>kB ps kR. receiver_ready (pkt_to pkt) kB \<longrightarrow> mail_to h < int (length (po_boxes (d_post (k_data kB)))) \<longrightarrow>
         ni_polls (d_networkIn (k_data kB)) = Some wire # ps \<longrightarrow> NetworkInput_CallBack kB = Inr kR \<longrightarrow>
         (\<exists>kD. PostalDelivery_receive_step kR = Inr ([Client (SynchList_Append (po_boxes (d_post (k_data kB)) ! nat (mail_to h)) (po_fresh (d_post (k_data kB)))),
              Client PostalDelivery], kD)
            \<and> po_mails (d_post (k_data kD)) (po_fresh (d_post (k_data kB))) = Some \<lparr>ml_pktHdr = p, ml_mailHdr = h, ml_data = msg\<rparr>
            \<and> pkt_from p = d_hostName (k_data kA)))"
proof -
  let ?p = "packet_for (d_hostName (k_data kA)) pkt h" and ?bs = "MailHeader_bytes h @ msg" and ?no = "d_networkOut (k_data kA')"
  let ?wire = "on_wire (no_new ?no) ?p ?bs"
  have ml: "length (MailHeader_bytes h) = 12" using MailHeader_bytes_at [of h] assms by (simp add: net_consts)
  have p: "pkt_length ?p = int (length ?bs)" "pkt_length ?p \<le> MaxPacketSize" "0 < length ?bs" "pkt_to ?p = pkt_to pkt" "pkt_from ?p = d_hostName (k_data kA)"
    "pkt_length ?p = int (12 + length msg)"
    using assms(1,2) ml by (simp_all add: packet_for_def net_consts)
  obtain kS where s: "Network_Send_step ?p ?bs kA' = Inr ([], kS)" "no_sent (d_networkOut (k_data kS)) = no_sent ?no @ [(pkt_to pkt, ?wire)]"
    using Network_Send_wire [OF _ p(1,3,2), of kA'] unfolding p(4,5) using assms(6-9) by (auto simp: sender_ready_def)
  have "\<exists>kD. PostalDelivery_receive_step kR = Inr ([Client (SynchList_Append (po_boxes (d_post (k_data kB)) ! nat (mail_to h)) (po_fresh (d_post (k_data kB)))),
              Client PostalDelivery], kD)
            \<and> po_mails (d_post (k_data kD)) (po_fresh (d_post (k_data kB))) = Some \<lparr>ml_pktHdr = ?p, ml_mailHdr = h, ml_data = msg\<rparr>
            \<and> pkt_from ?p = d_hostName (k_data kA)"
    if r: "receiver_ready (pkt_to pkt) kB" "mail_to h < int (length (po_boxes (d_post (k_data kB))))" "ni_polls (d_networkIn (k_data kB)) = Some ?wire # ps"
      "NetworkInput_CallBack kB = Inr kR" for kB ps kR
  proof -
    have b: "d_networkIn (k_data kR) = (d_networkIn (k_data kB))\<lparr>ni_inHdr := ?p, ni_polls := ps,
        ni_inbox := ?bs @ drop (length ?bs) (ni_inbox (d_networkIn (k_data kB)))\<rparr> \<and> d_post (k_data kR) = d_post (k_data kB)"
      by (rule NetworkInput_packet [OF _ r(3) _ p(1,2)]) (use r(1,4) p assms(6-8) in \<open>auto simp: receiver_ready_def sender_ready_def\<close>)
    show ?thesis
      using PostalDelivery_mail [of kR msg h "drop (length ?bs) (ni_inbox (d_networkIn (k_data kB)))"] b r(1,2) p(5,6) assms(1-5)
      by (auto simp: receiver_ready_def)
  qed
  then show ?thesis using Post_Send_frames [OF assms(1-3)] s by blast
qed

text \<open>Machine 0 sends the greeting of \<^verbatim>\<open>NetworkTest\<close> to machine 1.\<close>

definition net_sender :: kernel where
  "net_sender = (demo_raw 0)\<lparr>k_data := demo_data\<rparr>"

definition net_receiver :: "byte list \<Rightarrow> kernel" where
  "net_receiver wire = (demo_raw 0)\<lparr>k_sems := [0 \<mapsto> Semaphore 0],
     k_data := demo_data\<lparr>d_hostName := 1, d_networkIn := (d_networkIn demo_data)\<lparr>ni_polls := [Some wire]\<rparr>, d_post := (d_post demo_data)\<lparr>po_boxes := [5]\<rparr>\<rparr>\<rparr>"

lemma net_receiver_takes:
  assumes "length bs = 25" "pkt_length p = 25" "pkt_to p = 1" "pkt_from p = 0"
  shows "\<exists>kR. NetworkInput_CallBack (net_receiver (on_wire (replicate 64 0) p bs)) = Inr kR"
proof -
  have h: "length (PacketHeader_bytes p) = 12" "PacketHeader_at (on_wire (replicate 64 0) p bs) = p"
    using PacketHeader_bytes_at [of p] assms by (simp_all add: int_range_def on_wire_def)
  have l: "length (on_wire (replicate 64 0) p bs) = 64" using h(1) assms(1) by (simp add: on_wire_def)
  show ?thesis
    using h l assms
    by (simp add: NetworkInput_CallBack_def net_receiver_def demo_raw_def demo_data_def Schedule_def NetworkTime_def Let_def net_consts bcopy_from_def
      bcopy_to_def upd_data_def set_stats_def k_stats_def V_body_def get_sem_def put_sem_def Semaphore_def)
qed

theorem mail_delivered_witness:
  "\<exists>wire kR kD. NetworkInput_CallBack (net_receiver wire) = Inr kR
     \<and> PostalDelivery_receive_step kR = Inr ([Client (SynchList_Append 5 0), Client PostalDelivery], kD)
     \<and> (\<exists>m. po_mails (d_post (k_data kD)) 0 = Some m \<and> ml_data m = hello)"
proof -
  let ?h = "\<lparr>mail_to = 0, mail_from = 1, mail_length = 13\<rparr>" and ?pkt = "\<lparr>pkt_to = 1, pkt_from = 0, pkt_length = 0\<rparr>"
  have pre: "mail_length ?h = int (length hello)" "int (length hello) \<le> MaxMailSize" "0 \<le> mail_to ?h" "int_range (mail_to ?h)" "int_range (mail_from ?h)"
    "int_range (pkt_to ?pkt)" "int_range (d_hostName (k_data net_sender))" "sender_ready (d_hostName (k_data net_sender)) net_sender"
    "k_random net_sender 0 mod 100 < no_chance (d_networkOut (k_data net_sender))"
    by (simp_all add: hello_def net_consts int_range_def sender_ready_def net_sender_def demo_raw_def demo_data_def)
  obtain lk sm p bs kS wire where s: "Post_Send_step ?pkt ?h hello net_sender = Inr ([Acquire lk, Client (Network_Send p bs), sem_P sm, Release lk], net_sender)"
    "Network_Send_step p bs net_sender = Inr ([], kS)" "no_sent (d_networkOut (k_data kS)) = no_sent (d_networkOut (k_data net_sender)) @ [(pkt_to ?pkt, wire)]"
    and r: "\<forall>kB ps kR. receiver_ready (pkt_to ?pkt) kB \<longrightarrow> mail_to ?h < int (length (po_boxes (d_post (k_data kB)))) \<longrightarrow>
         ni_polls (d_networkIn (k_data kB)) = Some wire # ps \<longrightarrow> NetworkInput_CallBack kB = Inr kR \<longrightarrow>
         (\<exists>kD. PostalDelivery_receive_step kR = Inr ([Client (SynchList_Append (po_boxes (d_post (k_data kB)) ! nat (mail_to ?h)) (po_fresh (d_post (k_data kB)))),
              Client PostalDelivery], kD)
            \<and> po_mails (d_post (k_data kD)) (po_fresh (d_post (k_data kB))) = Some \<lparr>ml_pktHdr = p, ml_mailHdr = ?h, ml_data = hello\<rparr>
            \<and> pkt_from p = d_hostName (k_data net_sender))"
    using mail_delivered [OF pre] by (elim exE conjE) (rule that)
  have pb: "p = ?pkt\<lparr>pkt_length := 25\<rparr>" "bs = MailHeader_bytes ?h @ hello"
    using s(1) by (simp_all add: Post_Send_step_def net_consts Let_def bcopy_from_def hello_def net_sender_def demo_raw_def demo_data_def)
  have l: "length bs = 25" "length (PacketHeader_bytes p) = 12" by (simp_all add: pb MailHeader_bytes_def PacketHeader_bytes_def header_bytes_def hello_def)
  have "wire = on_wire (replicate 64 0) p bs"
    using s(2,3) l pb(1) by (auto simp: Network_Send_step_def Let_def Schedule_def NetworkTime_def bcopy_from_def bcopy_to_def overlay_def net_consts
      on_wire_def net_sender_def demo_raw_def demo_data_def upd_data_def)
  then obtain kR where k: "NetworkInput_CallBack (net_receiver wire) = Inr kR" using net_receiver_takes [OF l(1), of p] pb(1) by auto
  moreover have "receiver_ready 1 (net_receiver wire)" by (simp add: receiver_ready_def net_receiver_def demo_data_def demo_raw_def net_consts)
  ultimately show ?thesis using r by (fastforce simp: net_receiver_def demo_data_def demo_raw_def)
qed

end
