(* ===== verification/Context_Laws.thy ===== *)
theory Context_Laws
  imports Kernel_Parts
begin

text \<open>
  A context switch is invisible to the user program: when a thread runs again, the registers and the address space are what they were when it lost
  the processor, whatever the other threads did in between.
\<close>

section \<open>A thread that is not running\<close>

type_synonym user_context = "frame list \<times> u32 list \<times> addrspace option \<times> int"

definition context_of :: "thread \<Rightarrow> user_context" where
  "context_of t = (t_frames t, t_userRegisters t, t_space t, t_threadID t)"

definition parked :: "addr \<Rightarrow> user_context \<Rightarrow> kernel \<Rightarrow> bool" where
  "parked a x k \<longleftrightarrow> (\<exists>t. k_threads k a = Some t \<and> context_of t = x \<and> t_status t \<noteq> JUST_CREATED) \<and> k_toBeDestroyed k \<noteq> Some a"

definition apart :: "addr \<Rightarrow> user_context \<Rightarrow> kernel \<Rightarrow> bool" where
  "apart a x k \<longleftrightarrow> parked a x k \<and> k_current k \<noteq> a"

text \<open>When the thread is chosen to run, the machine's fields for the current thread are its own.\<close>

definition resumable :: "addr \<Rightarrow> user_context \<Rightarrow> kernel \<Rightarrow> bool" where
  "resumable a x k \<longleftrightarrow> parked a x k \<and> (k_current k = a \<longrightarrow> (case x of (fs, regs, sp, tid) \<Rightarrow>
     m_tID (k_machine k) = tid \<and> m_vmFile (k_machine k) = (case sp of None \<Rightarrow> None | Some sp \<Rightarrow> as_vmFile sp)))"

definition newborn :: "kernel \<Rightarrow> addr \<Rightarrow> bool" where
  "newborn k b \<longleftrightarrow> (\<forall>t. k_threads k b = Some t \<longrightarrow> t_status t = JUST_CREATED)"

interpretation ctx: plain_part "apart a x" "resumable a x" newborn for a x
  by unfold_locales (auto simp: apart_def parked_def resumable_def newborn_def light_def context_of_def)

interpretation cur: plain_part "\<lambda>k. k_current k = a" "\<lambda>_. True" "\<lambda>_ _. True" for a
  by unfold_locales auto

section \<open>The steps of the other threads\<close>

lemma step_frame:
  assumes "kernel_step D c k = Inr k'" "\<not> k_halted k"
  obtains f k1 where "pop k = Inr (f, k1)" "exec_frame D c k1 f = Inr k'"
  using assms by (auto simp: kernel_step_def rbind_Inr_iff)

lemma pop_frame:
  assumes "pop k = Inr (f, k')"
  obtains t fs where "k_threads k (k_current k) = Some t" "t_frames t = f # fs"
    "k' = k\<lparr>k_threads := (k_threads k)(k_current k \<mapsto> t\<lparr>t_frames := fs\<rparr>)\<rparr>"
proof -
  obtain t where t: "k_threads k (k_current k) = Some t" using assms by (auto simp: pop_def rbind_Inr_iff get_thread_Inr)
  then show thesis using assms that by (auto simp: pop_def rbind_Inr_iff get_thread_Inr neq_Nil_conv upd_thread_def split: list.split_asm)
qed

lemma apart_step:
  assumes "apart a x k" "call_ok k" "kernel_step (kernel_devices W) c k = Inr k'"
  shows "resumable a x k'"
proof (cases "k_halted k")
  case True
  then show ?thesis using assms ctx.stays by (simp add: kernel_step_def)
next
  case False
  then obtain f k1 where p: "pop k = Inr (f, k1)" "exec_frame (kernel_devices W) c k1 f = Inr k'" using assms(3) step_frame by blast
  from p(1) obtain t fs where t: "k_threads k (k_current k) = Some t" "t_frames t = f # fs"
    "k1 = k\<lparr>k_threads := (k_threads k)(k_current k \<mapsto> t\<lparr>t_frames := fs\<rparr>)\<rparr>" by (rule pop_frame)
  have "newborn k1 b" if "f = Fork b body" for b body
    using assms(2) that t by (auto simp: call_ok_def newborn_def kview_def)
  then show ?thesis using ctx.frame_plain(1) [OF ctx.part_pop [OF assms(1) p(1)] _ p(2)] by blast
qed

text \<open>A run of the system in which the thread \<open>a\<close> does not execute anything.\<close>

inductive away :: "devices \<Rightarrow> config \<Rightarrow> addr \<Rightarrow> kernel \<Rightarrow> kernel \<Rightarrow> bool" for D c a k0 where
  start: "away D c a k0 k0"
| step: "away D c a k0 k \<Longrightarrow> k_current k \<noteq> a \<Longrightarrow> call_ok k \<Longrightarrow> kernel_step D c k = Inr k' \<Longrightarrow> away D c a k0 k'"

lemma away_resumable:
  assumes "away (kernel_devices W) c a k0 k" "apart a x k0"
  shows "resumable a x k"
  using assms
proof (induction rule: away.induct)
  case start
  then show ?case by (rule ctx.stays)
next
  case (step k k')
  then have "apart a x k" by (simp add: resumable_def apart_def)
  then show ?case using step.hyps(3,4) by (rule apart_step)
qed

section \<open>Leaving the processor and coming back\<close>

definition near :: "addr \<Rightarrow> thread \<Rightarrow> kernel \<Rightarrow> kernel \<Rightarrow> bool" where
  "near a t k k' \<longleftrightarrow> (\<exists>t'. k_threads k' a = Some t' \<and> light t t') \<and> k_machine k' = k_machine k \<and> k_current k' = k_current k"

lemma near_fields [simp]:
  "near a t k (k'\<lparr>k_readyList := rl\<rparr>) = near a t k k'" "near a t k (k'\<lparr>k_sortedReadyList := rl\<rparr>) = near a t k k'"
  "near a t k (k'\<lparr>k_threadArrQueue := q\<rparr>) = near a t k k'" "near a t k (k'\<lparr>k_blockList := bl\<rparr>) = near a t k k'"
  by (simp_all add: near_def)

lemma near_upd: "near a t k k1 \<Longrightarrow> (\<And>t. light t (f t)) \<Longrightarrow> yields (upd_thread k1 b f) (near a t k)"
  by (auto simp: yields_def near_def light_def elim!: upd_thread_Inr)

lemma near_bind: "yields r (near a t k) \<Longrightarrow> (\<And>k1. near a t k k1 \<Longrightarrow> yields (f k1) X) \<Longrightarrow> yields (rbind r f) X"
  unfolding yields_def rbind_Inr_iff by blast

lemma ReadyToRun_near:
  assumes "k_threads k a = Some t"
  shows "yields (ReadyToRun k b) (near a t k)"
proof -
  have k: "near a t k k" using assms by (simp add: near_def light_def)
  show ?thesis
    unfolding ReadyToRun_def enqueue_ready_def Let_def
    by (intro ctx.value_rules yields_assert yields_if near_bind near_upd) (simp_all add: k light_def)
qed

lemma FindNextToRun_same:
  "FindNextToRun k = Inr (r, k') \<Longrightarrow> k_threads k' = k_threads k \<and> k_machine k' = k_machine k \<and> k_current k' = k_current k"
  by (auto simp: FindNextToRun_def nachos_res split: if_splits list.splits option.splits)

definition saved_space :: "config \<Rightarrow> machine \<Rightarrow> addrspace \<Rightarrow> addrspace" where
  "saved_space c m sp = (as_SaveState c m sp)\<lparr>as_vmFile := m_vmFile m\<rparr>"

lemma Run_saves:
  assumes "Run c k n fin = Inr k'" "k_current k = a" "n \<noteq> a" "k_threads k a = Some t" "t_space t = Some sp"
  obtains t' where "k_threads k' a = Some t'" "t_status t' = t_status t"
    "context_of t' = (after_SWITCH # t_frames t, take NumTotalRegs (registers (k_machine k)), Some (saved_space c (k_machine k) sp), t_threadID t)"
proof -
  from assms(1) obtain k1 k2 k3 k4 k5 where r: "(if fin then rassert (k_toBeDestroyed k = None) (Inr (k\<lparr>k_toBeDestroyed := Some a\<rparr>)) else Inr k) = Inr k1"
    "reset_tlb c k1 = Inr k2" "save_space c k2 a = Inr k3" "push [after_SWITCH] k3 = Inr k4"
    "upd_thread (k4\<lparr>k_current := n\<rparr>) n (\<lambda>t. t\<lparr>t_status := RUNNING\<rparr>) = Inr k5" "follow_current k5 = Inr k'"
    unfolding Run_def Let_def assms(2) by (auto simp: rbind_Inr_iff rassert_Inr_iff)
  have k1: "k_threads k1 = k_threads k" "k_machine k1 = k_machine k" "k_current k1 = a" using r(1) assms(2) by (auto simp: nachos_res split: if_splits)
  obtain x where k2: "k_threads k2 = k_threads k" "k_machine k2 = (k_machine k)\<lparr>tlb := x\<rparr>" "k_current k2 = a"
  proof -
    have "\<exists>x. k_machine k = (k_machine k)\<lparr>tlb := x\<rparr>" by (rule exI [of _ "tlb (k_machine k)"]) simp
    then show thesis using r(2) k1 that by (auto simp: reset_tlb_def split: if_splits option.splits)
  qed
  have s: "saved_space c ((k_machine k)\<lparr>tlb := x\<rparr>) sp = saved_space c (k_machine k) sp" by (simp add: saved_space_def as_SaveState_def Let_def)
  let ?t = "t\<lparr>t_userRegisters := take NumTotalRegs (registers (k_machine k)), t_space := Some (saved_space c (k_machine k) sp)\<rparr>"
  have k3: "k_threads k3 a = Some ?t" "k_current k3 = a"
    using r(3) k2 assms(4,5) s by (auto simp: save_space_def SaveUserState_def saved_space_def nachos_res get_thread_Inr elim!: upd_thread_Inr split: if_splits)
  have "k_threads k4 a = Some (?t\<lparr>t_frames := after_SWITCH # t_frames t\<rparr>)" using r(4) k3 by (auto simp: push_def elim!: upd_thread_Inr)
  then have "k_threads k' a = Some (?t\<lparr>t_frames := after_SWITCH # t_frames t\<rparr>)"
    using r(5,6) assms(3) by (auto simp: follow_current_def nachos_res elim!: upd_thread_Inr)
  then show thesis by (rule that) (simp_all add: context_of_def)
qed

lemma Run_current: "Run c k n fin = Inr k' \<Longrightarrow> k_current k' = n"
  by (auto simp: Run_def Let_def nachos_res follow_current_def elim!: upd_thread_Inr)

lemma switch_frame:
  assumes "exec_frame (kernel_devices W) c k f = Inr k'" "k_current k = a" "k_current k' \<noteq> a" "k_threads k a = Some t" "t_status t \<noteq> JUST_CREATED"
  obtains k1 t1 n fin where "Run c k1 n fin = Inr k'" "k_current k1 = a" "n \<noteq> a" "k_threads k1 a = Some t1" "k_machine k1 = k_machine k"
    "t_space t1 = t_space t" "t_threadID t1 = t_threadID t" "t_status t1 \<noteq> JUST_CREATED"
proof -
  have "f = Yield \<or> (\<exists>fin. f = Sleep_loop fin)" using cur.frame_plain(2) [OF assms(2) _ assms(1)] assms(3) by blast
  then consider "f = Yield" | fin where "f = Sleep_loop fin" by blast
  then show thesis
  proof cases
    case 1
    then obtain r ka kb where y: "FindNextToRun (ChangeLevel k IntOff) = Inr (r, ka)" "push [SetLevel (k_level k)] ka = Inr kb"
      "(case r of None \<Rightarrow> Inr kb | Some n \<Rightarrow> rbind (ReadyToRun kb a) (\<lambda>k. Run c k n False)) = Inr k'"
      using assms(1,2) by (auto simp: exec_frame_def exec_Yield_def Let_def rbind_Inr_iff)
    have ka: "k_threads ka a = Some t" "k_machine ka = k_machine k" "k_current ka = a"
      using FindNextToRun_same [OF y(1)] assms(2,4) by (simp_all add: ChangeLevel_def)
    then obtain fs where kb: "k_threads kb a = Some (t\<lparr>t_frames := fs\<rparr>)" "k_machine kb = k_machine k" "k_current kb = a"
      using y(2) by (auto simp: push_def elim!: upd_thread_Inr)
    then obtain n kc where n: "r = Some n" "ReadyToRun kb a = Inr kc" "Run c kc n False = Inr k'"
      using y(3) assms(3) by (auto simp: rbind_Inr_iff split: option.splits)
    obtain tc where "k_threads kc a = Some tc" "light (t\<lparr>t_frames := fs\<rparr>) tc" "k_machine kc = k_machine k" "k_current kc = a"
      using yieldsD [OF ReadyToRun_near [OF kb(1)] n(2)] kb by (auto simp: near_def)
    then show thesis by (intro that [of kc n False tc]) (use n(3) Run_current [OF n(3)] assms(3,5) in \<open>auto simp: light_def\<close>)
  next
    case (2 fin)
    then obtain r ka where y: "FindNextToRun k = Inr (r, ka)"
      "(case r of None \<Rightarrow> rbind (push [Sleep_loop fin] ka) (Idle (kernel_devices W)) | Some n \<Rightarrow> Run c ka n fin) = Inr k'"
      using assms(1) by (auto simp: exec_frame_def exec_Sleep_loop_def rbind_Inr_iff)
    have ka: "k_threads ka a = Some t" "k_machine ka = k_machine k" "k_current ka = a" using FindNextToRun_same [OF y(1)] assms(2,4) by simp_all
    have "k_current k' = a" if "rbind (push [Sleep_loop fin] ka) (Idle (kernel_devices W)) = Inr k'"
      using yieldsD [OF cur.part_bind [OF cur.part_push [OF ka(3)] cur.Idle_part] that] by blast
    then obtain n where n: "Run c ka n fin = Inr k'" using y(2) assms(3) by (auto split: option.splits)
    show thesis by (rule that [OF n ka(3) _ ka(1,2)]) (use Run_current [OF n] assms(3,5) in auto)
  qed
qed

lemma leaves:
  assumes "kernel_step (kernel_devices W) c k = Inr k'" "k_current k = a" "k_current k' \<noteq> a"
    "k_threads k a = Some t" "t_status t \<noteq> JUST_CREATED" "t_space t = Some sp"
  obtains t1 fs where "k_threads k' a = Some t1" "t_status t1 \<noteq> JUST_CREATED"
    "context_of t1 = (after_SWITCH # fs, take NumTotalRegs (registers (k_machine k)), Some (saved_space c (k_machine k) sp), t_threadID t)"
proof -
  have "\<not> k_halted k" using assms(1-3) by (auto simp: kernel_step_def)
  with assms(1) obtain f k0 where p: "pop k = Inr (f, k0)" "exec_frame (kernel_devices W) c k0 f = Inr k'" by (rule step_frame)
  from p(1) obtain fs where k0: "k0 = k\<lparr>k_threads := (k_threads k)(a \<mapsto> t\<lparr>t_frames := fs\<rparr>)\<rparr>"
    using assms(2,4) by (auto elim: pop_frame)
  let ?t = "t\<lparr>t_frames := fs\<rparr>"
  have t: "k_current k0 = a" "k_threads k0 a = Some ?t" "t_status ?t \<noteq> JUST_CREATED" "k_machine k0 = k_machine k" using assms(2,5) by (simp_all add: k0)
  from p(2) t(1) assms(3) t(2,3) obtain k1 t1 n fin where r: "Run c k1 n fin = Inr k'" "k_current k1 = a" "n \<noteq> a" "k_threads k1 a = Some t1"
    "k_machine k1 = k_machine k0" "t_space t1 = t_space ?t" "t_threadID t1 = t_threadID ?t" "t_status t1 \<noteq> JUST_CREATED"
    by (rule switch_frame)
  have "t_space t1 = Some sp" using r(6) assms(6) by simp
  with r(1-4) obtain t' where "k_threads k' a = Some t'" "t_status t' = t_status t1"
    "context_of t' = (after_SWITCH # t_frames t1, take NumTotalRegs (registers (k_machine k1)), Some (saved_space c (k_machine k1) sp), t_threadID t1)"
    by (rule Run_saves)
  then show thesis by (intro that [of t' "t_frames t1"]) (simp_all add: r t(4))
qed

lemma comes_back:
  assumes "kernel_step (kernel_devices W) c k = Inr k'" "\<not> k_halted k" "resumable a (after_SWITCH # fs, regs, Some sp, tid) k" "k_current k = a"
  obtains t where "k_threads k' a = Some t" "t_frames t = fs" "take NumTotalRegs (registers (k_machine k')) = regs"
    "m_tID (k_machine k') = tid" "m_vmFile (k_machine k') = as_vmFile sp" "currentOpenedFile (k_machine k') = as_openedFile sp"
    "currentNoffHeader (k_machine k') = as_noffHeader sp" "\<not> USE_RPT c \<Longrightarrow> pt (k_machine k') = as_pt sp \<and> pageTableSize (k_machine k') = as_numPages sp"
proof -
  obtain t where t: "k_threads k a = Some t" "t_frames t = after_SWITCH # fs" "t_userRegisters t = regs" "t_space t = Some sp" "k_toBeDestroyed k \<noteq> Some a"
    "m_tID (k_machine k) = tid" "m_vmFile (k_machine k) = as_vmFile sp"
    using assms(3,4) by (auto simp: resumable_def parked_def context_of_def)
  obtain f k0 where p: "pop k = Inr (f, k0)" "exec_frame (kernel_devices W) c k0 f = Inr k'" using step_frame [OF assms(1,2)] by blast
  have k0: "f = after_SWITCH" "k0 = k\<lparr>k_threads := (k_threads k)(a \<mapsto> t\<lparr>t_frames := fs\<rparr>)\<rparr>"
    using p(1) t assms(4) by (auto elim!: pop_frame)
  then obtain k1 where k1: "CheckToBeDestroyed k0 = Inr k1"
    "rbind (get_thread k1 (k_current k1)) (\<lambda>t. case t_space t of None \<Rightarrow> Inr k1 | Some sp \<Rightarrow> rbind (RestoreUserState k1 (k_current k1)) (\<lambda>k.
       Inr (k\<lparr>k_machine := as_RestoreState c (k_machine k) sp\<rparr>))) = Inr k'"
    using p(2) by (auto simp: exec_frame_def exec_after_SWITCH_def nachos_res)
  have "k_threads k1 a = Some (t\<lparr>t_frames := fs\<rparr>)" "k_machine k1 = k_machine k" "k_current k1 = a"
    using k1(1) k0(2) t(5) assms(4) by (auto simp: CheckToBeDestroyed_def Thread_delete_def removeAThread_def nachos_res split: option.splits)
  then show thesis
    using k1(2) t by (intro that [of "t\<lparr>t_frames := fs\<rparr>"])
      (auto simp: get_thread_Inr nachos_res RestoreUserState_def as_RestoreState_def Let_def split: if_splits)
qed

text \<open>
  C6: a context switch is invisible to a user program. A thread with an address space that gives up the processor in one step and, after any
  number of steps of other threads and interrupt handlers, is chosen to run again, finds after its next step all its registers as they were, the
  page table and its size (when each address space has its own table), the open file and header of its program and its backing file; the machine
  works for this thread, and the thread continues with the calls that it had left.
\<close>

theorem context_switch_transparent:
  assumes "kernel_step (kernel_devices W) c k0 = Inr k1" "k_current k0 = a" "k_current k1 \<noteq> a" "k_toBeDestroyed k1 \<noteq> Some a"
    "k_threads k0 a = Some t" "t_status t \<noteq> JUST_CREATED" "t_space t = Some sp"
    "away (kernel_devices W) c a k1 k2" "k_current k2 = a" "\<not> k_halted k2" "kernel_step (kernel_devices W) c k2 = Inr k3"
  shows "take NumTotalRegs (registers (k_machine k3)) = take NumTotalRegs (registers (k_machine k0))
    \<and> (\<not> USE_RPT c \<longrightarrow> pt (k_machine k3) = pt (k_machine k0) \<and> pageTableSize (k_machine k3) = pageTableSize (k_machine k0))
    \<and> currentOpenedFile (k_machine k3) = currentOpenedFile (k_machine k0) \<and> currentNoffHeader (k_machine k3) = currentNoffHeader (k_machine k0)
    \<and> m_vmFile (k_machine k3) = m_vmFile (k_machine k0) \<and> m_tID (k_machine k3) = t_threadID t
    \<and> (\<exists>t1 t3. k_threads k1 a = Some t1 \<and> k_threads k3 a = Some t3 \<and> t_frames t1 = after_SWITCH # t_frames t3)"
proof -
  from assms(1-3,5-7) obtain t1 fs where t1: "k_threads k1 a = Some t1" "t_status t1 \<noteq> JUST_CREATED"
    "context_of t1 = (after_SWITCH # fs, take NumTotalRegs (registers (k_machine k0)), Some (saved_space c (k_machine k0) sp), t_threadID t)"
    by (rule leaves)
  then have "apart a (context_of t1) k1" using assms(3,4) by (simp add: apart_def parked_def)
  then have b: "resumable a (after_SWITCH # fs, take NumTotalRegs (registers (k_machine k0)), Some (saved_space c (k_machine k0) sp), t_threadID t) k2"
    using away_resumable [OF assms(8)] t1(3) by simp
  have s: "as_vmFile (saved_space c m sp) = m_vmFile m" "as_openedFile (saved_space c m sp) = currentOpenedFile m"
    "as_noffHeader (saved_space c m sp) = currentNoffHeader m" "\<not> USE_RPT c \<Longrightarrow> as_pt (saved_space c m sp) = pt m"
    "\<not> USE_RPT c \<Longrightarrow> as_numPages (saved_space c m sp) = pageTableSize m" for m
    by (simp_all add: saved_space_def as_SaveState_def Let_def)
  from t1(3) have "t_frames t1 = after_SWITCH # fs" by (simp add: context_of_def)
  with t1(1) comes_back [OF assms(11,10) b assms(9)] show ?thesis by (auto simp: s)
qed

text \<open>
  Two user threads take turns. The registers of the thread 2 hold 5, those of the thread 3 hold 7.
\<close>

definition user_space :: "byte list \<Rightarrow> addrspace" where
  "user_space f = \<lparr>as_pt = Some [], as_numPages = 0, as_vmFile = Some f, as_openedFile = Some f, as_noffHeader = zero_header\<rparr>"

definition user_thread :: "int \<Rightarrow> thread_status \<Rightarrow> u32 \<Rightarrow> frame list \<Rightarrow> thread" where
  "user_thread tid st r fs = \<lparr>t_threadID = tid, t_priority = 0, t_timeSliceRemain = 0, t_status = st, t_stack = None,
     t_userRegisters = replicate NumTotalRegs r, t_space = Some (user_space []), t_frames = fs, t_result = 0\<rparr>"

definition turns :: "nat \<Rightarrow> nat \<Rightarrow> u32 \<Rightarrow> frame list \<Rightarrow> frame list \<Rightarrow> int_status \<Rightarrow> kernel" where
  "turns cur other r fs2 fs3 lv = (demo_raw 0)\<lparr>k_threads := [2 \<mapsto> user_thread 0 (if cur = 2 then RUNNING else READY) 5 fs2,
       3 \<mapsto> user_thread 1 (if cur = 3 then RUNNING else READY) 7 fs3],
     k_current := cur, k_readyList := [other], k_level := lv, k_machine := (k_machine (demo_raw 0))\<lparr>registers := replicate NumTotalRegs r, pt := Some [],
       m_vmFile := Some [], m_tID := (if cur = 2 then 0 else 1), pageTableSize := 0, currentOpenedFile := Some [], currentNoffHeader := zero_header\<rparr>\<rparr>"

lemmas turn_defs = turns_def user_thread_def demo_raw_def demo_config_def exec_defs run_defs SaveUserState_def as_SaveState_def
  RestoreUserState_def as_RestoreState_def user_space_def

lemma turns_steps:
  "kernel_step (kernel_devices W) demo_config (turns 2 3 5 (Yield # fs2) fs3 lv) = Inr (turns 3 2 5 (after_SWITCH # SetLevel lv # fs2) fs3 IntOff)"
  "kernel_step (kernel_devices W) demo_config (turns 3 2 7 fs2 (Yield # fs3) lv) = Inr (turns 2 3 7 fs2 (after_SWITCH # SetLevel lv # fs3) IntOff)"
  "kernel_step (kernel_devices W) demo_config (turns 3 2 5 fs2 (after_SWITCH # fs3) IntOff) = Inr (turns 3 2 7 fs2 fs3 IntOff)"
  "kernel_step (kernel_devices W) demo_config (turns 2 3 7 (after_SWITCH # fs2) fs3 IntOff) = Inr (turns 2 3 5 fs2 fs3 IntOff)"
  by (simp_all add: turn_defs) (simp_all add: fun_upd_twist)

lemma turns_fields [simp]:
  "k_current (turns cur other r fs2 fs3 lv) = cur" "k_toBeDestroyed (turns cur other r fs2 fs3 lv) = None" "\<not> k_halted (turns cur other r fs2 fs3 lv)"
  "registers (k_machine (turns cur other r fs2 fs3 lv)) = replicate NumTotalRegs r"
  by (simp_all add: turns_def demo_raw_def)

theorem context_switch_transparent_witness:
  "\<exists>k1 k2 k3. kernel_step (kernel_devices Map.empty) demo_config (turns 2 3 5 [Yield] [after_SWITCH, Yield] IntOn) = Inr k1
     \<and> away (kernel_devices Map.empty) demo_config 2 k1 k2 \<and> kernel_step (kernel_devices Map.empty) demo_config k2 = Inr k3
     \<and> registers (k_machine k2) = replicate NumTotalRegs 7 \<and> take NumTotalRegs (registers (k_machine k3)) = replicate NumTotalRegs 5"
proof -
  let ?k = "\<lambda>cur other r. turns cur other r [after_SWITCH, SetLevel IntOn]" and ?D = "kernel_devices Map.empty"
  have "away ?D demo_config 2 (?k 3 2 5 [after_SWITCH, Yield] IntOff) (?k 3 2 7 [Yield] IntOff)"
    by (rule away.step [OF away.start]) (simp_all add: turns_steps, simp add: turn_defs)
  then have a: "away ?D demo_config 2 (?k 3 2 5 [after_SWITCH, Yield] IntOff) (?k 2 3 7 [after_SWITCH, SetLevel IntOff] IntOff)"
    by (rule away.step) (simp_all add: turns_steps, simp add: turn_defs)
  have "take NumTotalRegs (registers (k_machine (turns 2 3 5 [SetLevel IntOn] [after_SWITCH, SetLevel IntOff] IntOff)))
      = take NumTotalRegs (registers (k_machine (turns 2 3 5 [Yield] [after_SWITCH, Yield] IntOn)))"
    by (rule context_switch_transparent [where t = "user_thread 0 RUNNING 5 [Yield]" and sp = "user_space []", OF _ _ _ _ _ _ _ a, THEN conjunct1])
      (simp_all add: turns_steps, simp_all add: turns_def user_thread_def)
  then show ?thesis using a turns_steps by fastforce
qed

end
