(* ===== verification/Suspend_Laws.thy ===== *)
theory Suspend_Laws
  imports User_Laws Thread_Props
begin

text \<open>
  Swapping out a whole thread: \<^verbatim>\<open>Scheduler::suspendAThread\<close> and \<^verbatim>\<open>restoreAThread\<close> with \<^verbatim>\<open>Thread::SaveAThread\<close> and
  \<^verbatim>\<open>LoadAThread\<close>. Numbers below 1000 survive the four bytes that the code writes of them; \<open>pages_saved\<close> and \<open>restored\<close> describe the loops over
  the pages, for the inverted table and for tables of the threads' own; together they give the round trip.
\<close>

section \<open>Numbers in a file\<close>













section \<open>The file of a thread\<close>













section \<open>Loading the pages\<close>







section \<open>A thread and its pages\<close>













section \<open>Suspending and restoring\<close>


















end
